(* ===== verification/Prelude.thy ===== *)
theory Prelude
  imports Main "HOL-Library.Word" "HOL-Library.Multiset" "HOL-Library.Monad_Syntax"
begin

text \<open>
  What the component theories share: the collections of rewrite rules the proofs are
  organised by, small facts on lists and options the library lacks, and the names of the
  machine types of the sources (\<open>int32_t\<close>, \<open>uint32_t\<close>, pointers as addresses).
\<close>

section \<open>Collections\<close>

named_theorems err_simps \<open>the error paths of the operations\<close>
named_theorems mset_simps \<open>the multiset of elements an operation leaves\<close>
named_theorems inv_intros \<open>an operation keeps the invariant of its component\<close>
named_theorems step_simps \<open>what one handler computes\<close>

section \<open>Machine types\<close>

type_synonym uint8 = "8 word"
type_synonym uint32 = "32 word"
type_synonym addr = nat
type_synonym fd = int

text \<open>C strings are bounded by their first NUL; a buffer of \<open>n\<close> bytes is read up to it.\<close>

definition cstr :: "char list \<Rightarrow> string" where
  "cstr buf = takeWhile (\<lambda>c. c \<noteq> CHR 0x00) buf"

text \<open>Decimal numbers as \<open>printf\<close> writes them, and \<open>%u\<close> of an \<open>int\<close>.\<close>

fun dec_digits :: "nat \<Rightarrow> string" where
  "dec_digits n = (if n < 10 then [char_of (48 + n)] else dec_digits (n div 10) @ [char_of (48 + n mod 10)])"

definition show_unsigned :: "int \<Rightarrow> string" where
  "show_unsigned i = dec_digits (unat (word_of_int i :: uint32))"

lemma sint32_of_int: "- (2 ^ 31) \<le> i \<Longrightarrow> i < 2 ^ 31 \<Longrightarrow> sint (word_of_int i :: 32 word) = i"
  by (simp add: signed_of_int signed_take_bit_int_eq_self)

section \<open>Lists\<close>

lemma list_split_first:
  assumes "\<exists>x \<in> set xs. P x"
  obtains ys x zs where "xs = ys @ x # zs" "P x" "\<forall>y \<in> set ys. \<not> P y"
  using split_list_first_propE [OF assms] by metis

lemma mset_take_drop [simp]: "mset (take n xs) + mset (drop n xs) = mset xs"
  by (metis append_take_drop_id mset_append)

lemma distinct_submset:
  assumes "distinct ys" "mset xs \<subseteq># mset ys"
  shows "distinct xs"
proof -
  obtain zs where "mset ys = mset xs + mset zs" using assms(2) by (metis ex_mset subset_mset.add_diff_inverse)
  then have "mset ys = mset (xs @ zs)" by simp
  with assms(1) have "distinct (xs @ zs)" using mset_eq_imp_distinct_iff by blast
  then show ?thesis by simp
qed

end
