(* ===== verification/LocHeap.thy ===== *)
theory LocHeap
  imports Prelude
begin

text \<open>
  The rank-ordered tree of \<open>gps/utils/LocHeap.cpp\<close>: the nodes, \<open>push\<close>, \<open>pop\<close> and
  \<open>remove\<close> on nodes (class \<open>LocHeapNode\<close>), the self check \<open>checkNodes\<close>, and the container
  \<open>LocHeap\<close> around them. The virtual method \<open>ranks\<close> of \<open>LocRankable\<close> is the argument
  \<open>rk\<close> of every operation; what a client promises about it is the locale \<open>rankable\<close>.
  Elements are the addresses of the client's objects, so \<open>=\<close> is pointer equality.
\<close>

section \<open>The container\<close>

datatype 'a heap_node =
  Null | Node (mSize: int) (mLeft: "'a heap_node") (mData: 'a) (mRight: "'a heap_node")

definition outRanks :: "('a \<Rightarrow> 'a \<Rightarrow> int) \<Rightarrow> 'a \<Rightarrow> 'a \<Rightarrow> bool" where
  "outRanks rk a b \<longleftrightarrow> rk a b > 0"

definition new_node :: "'a \<Rightarrow> 'a heap_node" where
  "new_node x = Node 1 Null x Null"

text \<open>
  \<open>LocHeapNode::push\<close>. The two data pointers are swapped when the incoming one outranks the
  one in place; the lower one goes on to the smaller subtree. A method call on a NULL node
  does not occur in the code.
\<close>

fun node_push :: "('a \<Rightarrow> 'a \<Rightarrow> int) \<Rightarrow> 'a heap_node \<Rightarrow> 'a \<Rightarrow> 'a heap_node" where
  "node_push rk Null x = Null"
| "node_push rk (Node sz l d r) x =
     (let top = (if outRanks rk x d then x else d);
          low = (if outRanks rk x d then d else x)
      in if l = Null then Node (sz + 1) (new_node low) top r
         else if r = Null then Node (sz + 1) l top (new_node low)
         else if mSize l \<le> mSize r then Node (sz + 1) (node_push rk l low) top r
         else Node (sz + 1) l top (node_push rk r low))"

text \<open>The number of nodes that are really there, next to the \<open>mSize\<close> each node records.\<close>

fun count_nodes :: "'a heap_node \<Rightarrow> nat" where
  "count_nodes Null = 0"
| "count_nodes (Node sz l d r) = Suc (count_nodes l + count_nodes r)"

fun set_data :: "'a \<Rightarrow> 'a heap_node \<Rightarrow> 'a heap_node" where
  "set_data x Null = Null"
| "set_data x (Node sz l d r) = Node sz l x r"

lemma count_set_data [simp]: "count_nodes (set_data x t) = count_nodes t"
  by (cases t) auto

text \<open>
  \<open>LocHeapNode::pop\<close>: the data of the top is swapped down, each time with the child that
  ranks higher, until it sits in a leaf, and that leaf is cut off. The result is the data of
  the leaf and the tree that is left.
\<close>

function node_pop :: "('a \<Rightarrow> 'a \<Rightarrow> int) \<Rightarrow> 'a heap_node \<Rightarrow> 'a option \<times> 'a heap_node" where
  "node_pop rk Null = (None, Null)"
| "node_pop rk (Node sz l d r) =
     (if l \<noteq> Null \<or> r \<noteq> Null then
        (if l \<noteq> Null \<and> (r = Null \<or> outRanks rk (mData l) (mData r))
         then (let (x, l') = node_pop rk (set_data d l) in (x, Node (sz - 1) l' (mData l) r))
         else (let (x, r') = node_pop rk (set_data d r) in (x, Node (sz - 1) l (mData r) r')))
      else (Some d, Null))"
  by pat_completeness auto
termination
  by (relation "measure (\<lambda>(rk, t). count_nodes t)") auto

declare node_pop.simps [simp del]

text \<open>\<open>LocHeapNode::remove\<close>: \<open>None\<close> is the NULL it returns when the data was not found.\<close>

fun node_remove :: "('a \<Rightarrow> 'a \<Rightarrow> int) \<Rightarrow> 'a heap_node \<Rightarrow> 'a \<Rightarrow> ('a option \<times> 'a heap_node) option" where
  "node_remove rk Null x = None"
| "node_remove rk (Node sz l d r) x =
     (if x = d then Some (node_pop rk (Node sz l d r))
      else if \<not> outRanks rk x d then
        (case (if l \<noteq> Null then node_remove rk l x else None) of
           Some (y, l') \<Rightarrow> Some (y, Node (sz - 1) l' d r)
         | None \<Rightarrow>
             (case (if r \<noteq> Null then node_remove rk r x else None) of
                Some (y, r') \<Rightarrow> Some (y, Node (sz - 1) l d r')
              | None \<Rightarrow> None))
      else None)"

fun checkNodes :: "('a \<Rightarrow> 'a \<Rightarrow> int) \<Rightarrow> 'a heap_node \<Rightarrow> bool" where
  "checkNodes rk Null = True"
| "checkNodes rk (Node sz l d r) =
     ((l \<noteq> Null \<longrightarrow> \<not> outRanks rk (mData l) d \<and> checkNodes rk l) \<and>
      (r \<noteq> Null \<longrightarrow> \<not> outRanks rk (mData r) d \<and> checkNodes rk r) \<and>
      sz - (if l \<noteq> Null then mSize l else 0) - (if r \<noteq> Null then mSize r else 0) = 1)"

text \<open>The container: \<open>mTree\<close> is the root pointer.\<close>

definition heap_push :: "('a \<Rightarrow> 'a \<Rightarrow> int) \<Rightarrow> 'a heap_node \<Rightarrow> 'a \<Rightarrow> 'a heap_node" where
  "heap_push rk t x = (if t = Null then new_node x else node_push rk t x)"

definition heap_peek :: "'a heap_node \<Rightarrow> 'a option" where
  "heap_peek t = (case t of Null \<Rightarrow> None | Node sz l d r \<Rightarrow> Some d)"

definition heap_pop :: "('a \<Rightarrow> 'a \<Rightarrow> int) \<Rightarrow> 'a heap_node \<Rightarrow> 'a option \<times> 'a heap_node" where
  "heap_pop rk t = (if t = Null then (None, Null) else node_pop rk t)"

definition heap_remove :: "('a \<Rightarrow> 'a \<Rightarrow> int) \<Rightarrow> 'a heap_node \<Rightarrow> 'a \<Rightarrow> 'a option \<times> 'a heap_node" where
  "heap_remove rk t x =
     (if t = Null then (None, Null)
      else case node_remove rk t x of Some (y, t') \<Rightarrow> (y, t') | None \<Rightarrow> (None, t))"

definition checkTree :: "('a \<Rightarrow> 'a \<Rightarrow> int) \<Rightarrow> 'a heap_node \<Rightarrow> bool" where
  "checkTree rk t \<longleftrightarrow> t = Null \<or> checkNodes rk t"

definition getTreeSize :: "'a heap_node \<Rightarrow> int" where
  "getTreeSize t = (if t = Null then 0 else mSize t)"


section \<open>Elements and sizes\<close>

fun mset_heap :: "'a heap_node \<Rightarrow> 'a multiset" where
  "mset_heap Null = {#}"
| "mset_heap (Node sz l d r) = {#d#} + mset_heap l + mset_heap r"

lemma mset_heap_empty_iff [simp]: "mset_heap t = {#} \<longleftrightarrow> t = Null"
  by (cases t) auto

lemma set_data_Null [simp]: "set_data x t = Null \<longleftrightarrow> t = Null"
  by (cases t) auto

lemma mData_set_data [simp]: "t \<noteq> Null \<Longrightarrow> mData (set_data x t) = x"
  by (cases t) auto

lemma mset_set_data:
  "t \<noteq> Null \<Longrightarrow> add_mset (mData t) (mset_heap (set_data x t)) = add_mset x (mset_heap t)"
  by (cases t) auto

lemma mset_new_node [mset_simps]: "mset_heap (new_node x) = {#x#}"
  by (simp add: new_node_def)

lemma new_node_simps [simp]:
  "new_node x \<noteq> Null" "mData (new_node x) = x" "mSize (new_node x) = 1" "checkNodes rk (new_node x)"
  by (simp_all add: new_node_def)

lemma node_push_Null [simp]: "node_push rk t x = Null \<longleftrightarrow> t = Null"
  by (cases t) (auto simp: Let_def)

lemma mset_node_push [mset_simps]:
  "t \<noteq> Null \<Longrightarrow> mset_heap (node_push rk t x) = add_mset x (mset_heap t)"
  by (induction rk t x rule: node_push.induct) (auto simp: Let_def mset_simps)

lemma mSize_node_push [simp]: "t \<noteq> Null \<Longrightarrow> mSize (node_push rk t x) = mSize t + 1"
  by (cases t) (auto simp: Let_def)

lemma mData_node_push:
  "t \<noteq> Null \<Longrightarrow> mData (node_push rk t x) = (if outRanks rk x (mData t) then x else mData t)"
  by (cases t) (auto simp: Let_def)

lemma fst_node_pop: "t \<noteq> Null \<Longrightarrow> fst (node_pop rk t) = Some (mData t)"
  by (induction rk t rule: node_pop.induct) (auto simp: node_pop.simps split: prod.splits)

lemma mset_node_pop:
  "t \<noteq> Null \<Longrightarrow> mset_heap t = add_mset (mData t) (mset_heap (snd (node_pop rk t)))"
proof (induction rk t rule: node_pop.induct)
  case (2 rk sz l d r)
  show ?case
  proof (cases "l = Null \<and> r = Null")
    case True
    then show ?thesis by (simp add: node_pop.simps)
  next
    case False
    show ?thesis
    proof (cases "l \<noteq> Null \<and> (r = Null \<or> outRanks rk (mData l) (mData r))")
      case True
      then have "mset_heap (set_data d l) = add_mset d (mset_heap (snd (node_pop rk (set_data d l))))"
        using "2.IH"(1) by simp
      with True mset_set_data [of l d] show ?thesis
        by (auto simp: node_pop.simps(2) [of rk sz l d r] split: prod.splits)
    next
      case c: False
      with False have "r \<noteq> Null" by auto
      then have "mset_heap (set_data d r) = add_mset d (mset_heap (snd (node_pop rk (set_data d r))))"
        using "2.IH"(2) False c by simp
      with c False \<open>r \<noteq> Null\<close> mset_set_data [of r d] show ?thesis
        by (auto simp: node_pop.simps(2) [of rk sz l d r] split: prod.splits)
    qed
  qed
qed simp

lemma node_remove_Some:
  "node_remove rk t x = Some (y, t') \<Longrightarrow> y = Some x \<and> mset_heap t = add_mset x (mset_heap t')"
proof (induction rk t x arbitrary: y t' rule: node_remove.induct)
  case (2 rk sz l d r x)
  show ?case
  proof (cases "x = d")
    case True
    then show ?thesis
      using "2.prems" fst_node_pop [of "Node sz l d r" rk] mset_node_pop [of "Node sz l d r" rk]
      by simp
  next
    case False
    with "2.prems" have "\<not> outRanks rk x d" by (simp split: if_splits)
    then show ?thesis
      using False "2.prems" "2.IH" by (fastforce split: option.splits if_splits prod.splits)
  qed
qed simp

lemma checkNodes_size: "checkNodes rk t \<Longrightarrow> t \<noteq> Null \<Longrightarrow> mSize t = int (count_nodes t)"
  by (induction t) (auto split: if_splits)

lemma count_nodes_mset: "count_nodes t = size (mset_heap t)"
  by (induction t) auto


text \<open>The children of a node are checked and its size is right; nothing is asked of its own data.\<close>

fun below_ok :: "('a \<Rightarrow> 'a \<Rightarrow> int) \<Rightarrow> 'a heap_node \<Rightarrow> bool" where
  "below_ok rk Null = True"
| "below_ok rk (Node sz l d r) = (checkNodes rk l \<and> checkNodes rk r \<and>
     sz = 1 + (if l \<noteq> Null then mSize l else 0) + (if r \<noteq> Null then mSize r else 0))"

lemma below_ok_set_data [simp]: "below_ok rk (set_data x t) = below_ok rk t"
  by (cases t) auto

lemma checkNodes_below: "checkNodes rk t \<Longrightarrow> below_ok rk t"
  by (cases t) auto

text \<open>The data a popped tree can have at its top: that of a child.\<close>

fun child_data :: "'a heap_node \<Rightarrow> 'a set" where
  "child_data Null = {}"
| "child_data (Node sz l d r) = (if l = Null then {} else {mData l}) \<union> (if r = Null then {} else {mData r})"

lemma child_data_set_data [simp]: "child_data (set_data x t) = child_data t"
  by (cases t) auto

lemma mset_set_data_subset: "set_mset (mset_heap (set_data x t)) \<subseteq> insert x (set_mset (mset_heap t))"
  by (cases t) auto

lemma checkNodes_child: "checkNodes rk t \<Longrightarrow> c \<in> child_data t \<Longrightarrow> \<not> outRanks rk c (mData t)"
  by (cases t) (auto split: if_splits)

section \<open>The shape: pushes fill the smaller subtree\<close>

fun balanced :: "'a heap_node \<Rightarrow> bool" where
  "balanced Null = True"
| "balanced (Node sz l d r) = (balanced l \<and> balanced r \<and>
     (count_nodes l = count_nodes r \<or> count_nodes l = Suc (count_nodes r)))"

fun height :: "'a heap_node \<Rightarrow> nat" where
  "height Null = 0"
| "height (Node sz l d r) = Suc (max (height l) (height r))"

fun sizes_ok :: "'a heap_node \<Rightarrow> bool" where
  "sizes_ok Null = True"
| "sizes_ok (Node sz l d r) = (sizes_ok l \<and> sizes_ok r \<and> sz = int (Suc (count_nodes l + count_nodes r)))"

lemma sizes_ok_mSize: "sizes_ok t \<Longrightarrow> t \<noteq> Null \<Longrightarrow> mSize t = int (count_nodes t)"
  by (cases t) auto

lemma count_node_push: "t \<noteq> Null \<Longrightarrow> count_nodes (node_push rk t x) = Suc (count_nodes t)"
  by (simp add: count_nodes_mset mset_simps)

lemma count_nodes_0 [simp]: "count_nodes t = 0 \<longleftrightarrow> t = Null"
  by (cases t) auto

lemma sizes_ok_push: "sizes_ok t \<Longrightarrow> sizes_ok (node_push rk t x)"
  by (induction rk t x rule: node_push.induct)
    (auto simp: Let_def new_node_def count_node_push)

lemma balanced_push: "sizes_ok t \<Longrightarrow> balanced t \<Longrightarrow> balanced (node_push rk t x)"
proof (induction t arbitrary: x)
  case (Node sz l d r)
  then show ?case
    using sizes_ok_mSize [of l] sizes_ok_mSize [of r]
    by (auto simp: Let_def new_node_def count_node_push)
qed simp

lemma balanced_height: "balanced t \<Longrightarrow> t \<noteq> Null \<Longrightarrow> 2 ^ height t \<le> 2 * count_nodes t"
proof (induction t)
  case (Node sz l d r)
  have l: "2 ^ height l \<le> 2 * count_nodes l \<or> l = Null" using Node by auto
  have r: "2 ^ height r \<le> 2 * count_nodes r \<or> r = Null" using Node by auto
  show ?case
  proof (cases "height r \<le> height l")
    case True
    then show ?thesis using l Node.prems by (auto simp: max_def)
  next
    case False
    then have "r \<noteq> Null" by (cases r) auto
    then show ?thesis using False r Node.prems by (auto simp: max_def)
  qed
qed simp

section \<open>The contract of a priority queue\<close>

text \<open>Repeated \<open>pop\<close>, as the expiry loop of the timers does it.\<close>

fun pops :: "('h \<Rightarrow> 'a option \<times> 'h) \<Rightarrow> nat \<Rightarrow> 'h \<Rightarrow> 'a list" where
  "pops pop 0 h = []"
| "pops pop (Suc n) h = (case pop h of (None, h') \<Rightarrow> [] | (Some x, h') \<Rightarrow> x # pops pop n h')"

lemma pops_Some: "fst (pop h) = Some x \<Longrightarrow> pops pop (Suc n) h = x # pops pop n (snd (pop h))"
  by (cases "pop h") simp

lemma pops_None: "fst (pop h) = None \<Longrightarrow> pops pop (Suc n) h = []"
  by (cases "pop h") simp

locale prio_queue =
  fixes better :: "'a \<Rightarrow> 'a \<Rightarrow> bool" and push :: "'h \<Rightarrow> 'a \<Rightarrow> 'h" and pop :: "'h \<Rightarrow> 'a option \<times> 'h"
    and peek :: "'h \<Rightarrow> 'a option" and inv :: "'h \<Rightarrow> bool" and elems :: "'h \<Rightarrow> 'a multiset" and A :: "'a set"
  assumes inv_push: "inv h \<Longrightarrow> x \<in> A \<Longrightarrow> inv (push h x)"
    and elems_push: "inv h \<Longrightarrow> elems (push h x) = add_mset x (elems h)"
    and inv_pop: "inv h \<Longrightarrow> inv (snd (pop h))"
    and pop_None: "inv h \<Longrightarrow> fst (pop h) = None \<longleftrightarrow> elems h = {#}"
    and pop_elems: "inv h \<Longrightarrow> fst (pop h) = Some x \<Longrightarrow> elems h = add_mset x (elems (snd (pop h)))"
    and pop_best: "inv h \<Longrightarrow> fst (pop h) = Some x \<Longrightarrow> y \<in># elems h \<Longrightarrow> \<not> better y x"
    and peek_pop: "inv h \<Longrightarrow> peek h = fst (pop h)"
begin

lemma pops_subset: "inv h \<Longrightarrow> set (pops pop n h) \<subseteq> set_mset (elems h)"
proof (induction n arbitrary: h)
  case (Suc n)
  show ?case
  proof (cases "fst (pop h)")
    case (Some x)
    then show ?thesis
      using Suc.IH [OF inv_pop [OF Suc.prems]] pop_elems [OF Suc.prems Some] by (auto simp: pops_Some pops_None simp del: pops.simps(2))
  qed (auto simp: pops_Some pops_None simp del: pops.simps(2))
qed simp

lemma pops_sorted: "inv h \<Longrightarrow> sorted_wrt (\<lambda>x y. \<not> better y x) (pops pop n h)"
proof (induction n arbitrary: h)
  case (Suc n)
  show ?case
  proof (cases "fst (pop h)")
    case (Some x)
    have "\<forall>y \<in> set (pops pop n (snd (pop h))). \<not> better y x"
      using pops_subset [OF inv_pop [OF Suc.prems], of n] pop_best [OF Suc.prems Some]
        pop_elems [OF Suc.prems Some] by auto
    then show ?thesis using Some Suc.IH [OF inv_pop [OF Suc.prems]] by (auto simp: pops_Some pops_None simp del: pops.simps(2))
  qed (auto simp: pops_Some pops_None simp del: pops.simps(2))
qed simp

lemma pops_all: "inv h \<Longrightarrow> size (elems h) \<le> n \<Longrightarrow> mset (pops pop n h) = elems h"
proof (induction n arbitrary: h)
  case (Suc n)
  show ?case
  proof (cases "fst (pop h)")
    case None
    then show ?thesis using pop_None [OF Suc.prems(1)] by (auto simp: pops_Some pops_None simp del: pops.simps(2))
  next
    case (Some x)
    then show ?thesis
      using Suc.IH [OF inv_pop [OF Suc.prems(1)]] pop_elems [OF Suc.prems(1) Some] Suc.prems(2)
      by (auto simp: pops_Some pops_None simp del: pops.simps(2))
  qed
qed simp

end

section \<open>What a client promises: a strict weak order\<close>

text \<open>
  \<open>LocRankable::ranks\<close> is virtual; the heap only works for an order. The contract is stated
  for the objects of a set \<open>A\<close>, because an implementation that subtracts machine integers
  keeps it on a bounded range only.
\<close>

locale rankable =
  fixes rk :: "'a \<Rightarrow> 'a \<Rightarrow> int" and A :: "'a set"
  assumes asym: "a \<in> A \<Longrightarrow> b \<in> A \<Longrightarrow> outRanks rk a b \<Longrightarrow> \<not> outRanks rk b a"
    and neg_trans: "a \<in> A \<Longrightarrow> b \<in> A \<Longrightarrow> c \<in> A \<Longrightarrow>
      \<not> outRanks rk b a \<Longrightarrow> \<not> outRanks rk c b \<Longrightarrow> \<not> outRanks rk c a"
begin

lemma mData_in_mset: "t \<noteq> Null \<Longrightarrow> mData t \<in># mset_heap t"
  by (cases t) auto

lemma swap_order:
  assumes "d \<in> A" "x \<in> A" "y \<in> A" "\<not> outRanks rk y d"
  shows "\<not> outRanks rk (if outRanks rk x d then d else x) (if outRanks rk x d then x else d)"
    and "\<not> outRanks rk y (if outRanks rk x d then x else d)"
  using assms asym [of x d] neg_trans [of x d y] by auto

lemma checkNodes_push:
  "t \<noteq> Null \<Longrightarrow> checkNodes rk t \<Longrightarrow> x \<in> A \<Longrightarrow> set_mset (mset_heap t) \<subseteq> A \<Longrightarrow>
   checkNodes rk (node_push rk t x)"
proof (induction t arbitrary: x)
  case (Node sz l d r)
  define top where "top = (if outRanks rk x d then x else d)"
  define low where "low = (if outRanks rk x d then d else x)"
  from Node.prems have A: "d \<in> A" "x \<in> A" "low \<in> A" "set_mset (mset_heap l) \<subseteq> A"
      "set_mset (mset_heap r) \<subseteq> A"
    by (auto simp: low_def)
  have low: "\<not> outRanks rk low top"
    using swap_order(1) [of d x d] A asym [of d d] unfolding low_def top_def by blast
  have l: "l \<noteq> Null \<Longrightarrow> \<not> outRanks rk (mData l) top"
    using swap_order(2) [of d x "mData l"] A mData_in_mset [of l] Node.prems(2)
    unfolding top_def by auto
  have r: "r \<noteq> Null \<Longrightarrow> \<not> outRanks rk (mData r) top"
    using swap_order(2) [of d x "mData r"] A mData_in_mset [of r] Node.prems(2)
    unfolding top_def by auto
  have eq: "node_push rk (Node sz l d r) x =
     (if l = Null then Node (sz + 1) (new_node low) top r
         else if r = Null then Node (sz + 1) l top (new_node low)
         else if mSize l \<le> mSize r then Node (sz + 1) (node_push rk l low) top r
         else Node (sz + 1) l top (node_push rk r low))"
    by (simp add: Let_def top_def low_def)
  show ?case
    unfolding eq using Node.prems(2) Node.IH A low l r
    by (auto simp: mData_node_push split: if_splits)
qed simp

lemma node_pop_inv:
  "t \<noteq> Null \<Longrightarrow> below_ok rk t \<Longrightarrow> set_mset (mset_heap t) \<subseteq> A \<Longrightarrow>
   checkNodes rk (snd (node_pop rk t)) \<and>
   (snd (node_pop rk t) \<noteq> Null \<longrightarrow>
      mData (snd (node_pop rk t)) \<in> child_data t \<and> mSize (snd (node_pop rk t)) = mSize t - 1) \<and>
   (snd (node_pop rk t) = Null \<longleftrightarrow> child_data t = {})"
proof (induction t rule: measure_induct_rule [where f = count_nodes])
  case (less t)
  then obtain sz l d r where t: "t = Node sz l d r" by (cases t) auto
  have ok: "checkNodes rk l" "checkNodes rk r"
      "sz = 1 + (if l \<noteq> Null then mSize l else 0) + (if r \<noteq> Null then mSize r else 0)"
    and A: "d \<in> A" "set_mset (mset_heap l) \<subseteq> A" "set_mset (mset_heap r) \<subseteq> A"
    using less.prems t by auto
  have sub: "checkNodes rk (snd (node_pop rk (set_data d c))) \<and>
     (snd (node_pop rk (set_data d c)) \<noteq> Null \<longrightarrow>
        \<not> outRanks rk (mData (snd (node_pop rk (set_data d c)))) (mData c) \<and>
        mSize (snd (node_pop rk (set_data d c))) = mSize c - 1) \<and>
     (snd (node_pop rk (set_data d c)) = Null \<longrightarrow> mSize c = 1)"
    if c: "c \<noteq> Null" "checkNodes rk c" "set_mset (mset_heap c) \<subseteq> A" "count_nodes c < count_nodes t" for c
  proof -
    have "mSize (set_data d c) = mSize c" using c(1) by (cases c) auto
    moreover have "mSize c = 1" if "child_data c = {}"
      using that c(1,2) by (cases c) (auto split: if_splits)
    ultimately show ?thesis
      using less.IH [of "set_data d c"] c A(1) checkNodes_child [OF c(2)] checkNodes_below [OF c(2)]
        mset_set_data_subset [of d c] by auto
  qed
  show ?case
  proof (cases "l = Null \<and> r = Null")
    case True
    then show ?thesis by (simp add: t node_pop.simps)
  next
    case False
    show ?thesis
    proof (cases "l \<noteq> Null \<and> (r = Null \<or> outRanks rk (mData l) (mData r))")
      case True
      then have eq: "snd (node_pop rk t) = Node (sz - 1) (snd (node_pop rk (set_data d l))) (mData l) r"
        by (simp add: t node_pop.simps(2) [of rk sz l d r] split: prod.splits)
      have "r \<noteq> Null \<Longrightarrow> \<not> outRanks rk (mData r) (mData l)"
        using True asym [of "mData l" "mData r"] mData_in_mset [of l] mData_in_mset [of r] A by auto
      then show ?thesis
        unfolding eq unfolding t using sub [of l] True ok A(2) t by auto
    next
      case c: False
      with False have r: "r \<noteq> Null" by auto
      with c have eq: "snd (node_pop rk t) = Node (sz - 1) l (mData r) (snd (node_pop rk (set_data d r)))"
        by (auto simp add: t node_pop.simps(2) [of rk sz l d r] split: prod.splits)
      have "l \<noteq> Null \<Longrightarrow> \<not> outRanks rk (mData l) (mData r)"
        using c r by auto
      then show ?thesis
        unfolding eq unfolding t using sub [of r] r ok A(3) t by auto
    qed
  qed
qed

lemma checkNodes_top:
  "checkNodes rk t \<Longrightarrow> set_mset (mset_heap t) \<subseteq> A \<Longrightarrow> y \<in># mset_heap t \<Longrightarrow>
   \<not> outRanks rk y (mData t)"
proof (induction t)
  case (Node sz l d r)
  have sub: "\<not> outRanks rk y d"
    if "y \<in># mset_heap c" "c \<noteq> Null" "checkNodes rk c" "\<not> outRanks rk (mData c) d"
      "set_mset (mset_heap c) \<subseteq> A" "\<not> outRanks rk y (mData c)" for c
    using that neg_trans [of d "mData c" y] mData_in_mset [of c] Node.prems(2) by auto
  from Node.prems(3) consider "y = d" | "y \<in># mset_heap l" | "y \<in># mset_heap r" by auto
  then show ?case
  proof cases
    case 1
    then show ?thesis using asym [of d d] Node.prems(2) by auto
  next
    case 2
    then have "l \<noteq> Null" by auto
    then show ?thesis using sub [of l] 2 Node by auto
  next
    case 3
    then have "r \<noteq> Null" by auto
    then show ?thesis using sub [of r] 3 Node by auto
  qed
qed simp

lemma node_pop_check:
  assumes "t \<noteq> Null" "checkNodes rk t" "set_mset (mset_heap t) \<subseteq> A"
  defines "t' \<equiv> snd (node_pop rk t)"
  shows "checkNodes rk t' \<and> (t' \<noteq> Null \<longrightarrow> \<not> outRanks rk (mData t') (mData t) \<and> mSize t' = mSize t - 1)
    \<and> (t' = Null \<longrightarrow> mSize t = 1)"
  using node_pop_inv [OF assms(1) checkNodes_below [OF assms(2)] assms(3)] checkNodes_child [OF assms(2)]
    assms(1,2) unfolding t'_def by (cases t) (auto split: if_splits)

lemma node_remove_check:
  "node_remove rk t x = Some (y, t') \<Longrightarrow> checkNodes rk t \<Longrightarrow> set_mset (mset_heap t) \<subseteq> A \<Longrightarrow>
   checkNodes rk t' \<and> (t' \<noteq> Null \<longrightarrow> \<not> outRanks rk (mData t') (mData t) \<and> mSize t' = mSize t - 1)
   \<and> (t' = Null \<longrightarrow> mSize t = 1)"
proof (induction t arbitrary: t')
  case (Node sz l d r)
  show ?case
  proof (cases "x = d")
    case True
    then show ?thesis using Node.prems node_pop_check [of "Node sz l d r"] by auto
  next
    case x: False
    have irr: "\<not> outRanks rk d d" using asym [of d d] Node.prems(3) by auto
    have sub: "\<not> outRanks rk (mData c') d"
      if "node_remove rk c x = Some (y, c')" "c' \<noteq> Null" "c \<noteq> Null" "\<not> outRanks rk (mData c') (mData c)"
        "\<not> outRanks rk (mData c) d" "set_mset (mset_heap c) \<subseteq> A" for c c'
      using that neg_trans [of d "mData c" "mData c'"] mData_in_mset [of c] mData_in_mset [of c']
        node_remove_Some [of rk c x y c'] Node.prems(3) by auto
    show ?thesis
    proof (cases "if l \<noteq> Null then node_remove rk l x else None")
      case None
      with x Node.prems obtain r' where r': "node_remove rk r x = Some (y, r')" "r \<noteq> Null"
          "t' = Node (sz - 1) l d r'"
        by (auto split: if_splits option.splits)
      with Node.IH(2) [OF r'(1)] Node.prems sub [OF r'(1)] irr show ?thesis by (auto split: if_splits)
    next
      case (Some p)
      with x Node.prems obtain l' where l': "node_remove rk l x = Some (y, l')" "l \<noteq> Null"
          "t' = Node (sz - 1) l' d r"
        by (auto split: if_splits prod.splits)
      with Node.IH(1) [OF l'(1)] Node.prems sub [OF l'(1)] irr show ?thesis by (auto split: if_splits)
    qed
  qed
qed simp

lemma node_remove_found:
  "checkNodes rk t \<Longrightarrow> set_mset (mset_heap t) \<subseteq> A \<Longrightarrow> x \<in># mset_heap t \<Longrightarrow> node_remove rk t x \<noteq> None"
proof (induction t)
  case (Node sz l d r)
  have "\<not> outRanks rk x d" using checkNodes_top [OF Node.prems] by simp
  then show ?case using Node by (auto split: option.splits prod.splits)
qed simp

end

section \<open>The container keeps the contract\<close>

lemma mset_heap_push [mset_simps]: "mset_heap (heap_push rk t x) = add_mset x (mset_heap t)"
  by (simp add: heap_push_def mset_simps)

lemma fst_heap_pop: "fst (heap_pop rk t) = heap_peek t"
  by (cases t) (auto simp: heap_pop_def heap_peek_def fst_node_pop)

lemma mset_heap_pop:
  "fst (heap_pop rk t) = Some x \<Longrightarrow> mset_heap t = add_mset x (mset_heap (snd (heap_pop rk t)))"
  using mset_node_pop [of t rk] fst_node_pop [of t rk] by (auto simp: heap_pop_def split: if_splits)

lemma heap_peek_Null [simp]: "heap_peek Null = None"
  by (simp add: heap_peek_def)

lemma heap_peek_None [simp]: "heap_peek t = None \<longleftrightarrow> t = Null"
  by (cases t) (auto simp: heap_peek_def)

lemma heap_peek_mData: "heap_peek t = Some x \<longleftrightarrow> t \<noteq> Null \<and> mData t = x"
  by (cases t) (auto simp: heap_peek_def)

lemma mset_heap_remove:
  "heap_remove rk t x = (y, t') \<Longrightarrow>
   (y = Some x \<and> mset_heap t = add_mset x (mset_heap t')) \<or> (y = None \<and> t' = t)"
  using node_remove_Some [of rk t x] by (auto simp: heap_remove_def split: if_splits option.splits)

lemma balanced_heap_push:
  "sizes_ok t \<Longrightarrow> balanced t \<Longrightarrow> sizes_ok (heap_push rk t x) \<and> balanced (heap_push rk t x)"
  by (auto simp: heap_push_def sizes_ok_push balanced_push) (auto simp: new_node_def)

lemma foldl_push_shape:
  "sizes_ok t \<Longrightarrow> balanced t \<Longrightarrow>
   sizes_ok (foldl (heap_push rk) t xs) \<and> balanced (foldl (heap_push rk) t xs) \<and>
   count_nodes (foldl (heap_push rk) t xs) = count_nodes t + length xs"
proof (induction xs arbitrary: t)
  case (Cons x xs)
  then show ?case
    using balanced_heap_push [of t rk x] by (auto simp: count_nodes_mset mset_heap_push)
qed simp

context rankable begin

lemma checkTree_push:
  "checkTree rk t \<Longrightarrow> set_mset (mset_heap t) \<subseteq> A \<Longrightarrow> x \<in> A \<Longrightarrow> checkTree rk (heap_push rk t x)"
  by (auto simp: checkTree_def heap_push_def checkNodes_push)

lemma checkTree_pop:
  "checkTree rk t \<Longrightarrow> set_mset (mset_heap t) \<subseteq> A \<Longrightarrow> checkTree rk (snd (heap_pop rk t))"
  using node_pop_check [of t] by (auto simp: checkTree_def heap_pop_def)

lemma checkTree_remove:
  "checkTree rk t \<Longrightarrow> set_mset (mset_heap t) \<subseteq> A \<Longrightarrow> checkTree rk (snd (heap_remove rk t x))"
  using node_remove_check [of t x]
  by (auto simp: checkTree_def heap_remove_def split: option.splits)

lemma heap_remove_found:
  "checkTree rk t \<Longrightarrow> set_mset (mset_heap t) \<subseteq> A \<Longrightarrow>
   fst (heap_remove rk t x) = (if x \<in># mset_heap t then Some x else None)"
  using node_remove_found [of t x] node_remove_Some [of rk t x]
  by (auto simp: checkTree_def heap_remove_def split: option.splits)

lemma peek_best:
  "checkTree rk t \<Longrightarrow> set_mset (mset_heap t) \<subseteq> A \<Longrightarrow> heap_peek t = Some x \<Longrightarrow> y \<in># mset_heap t \<Longrightarrow>
   \<not> outRanks rk y x"
  using checkNodes_top [of t y] by (auto simp: checkTree_def heap_peek_mData)

end

sublocale rankable < heapq: prio_queue "outRanks rk" "heap_push rk" "heap_pop rk" heap_peek
  "\<lambda>t. checkTree rk t \<and> set_mset (mset_heap t) \<subseteq> A" mset_heap A
proof (unfold_locales, goal_cases)
  case (3 h)
  then show ?case
    using checkTree_pop [of h] mset_heap_pop [of rk h] mset_node_pop [of h rk]
    by (auto simp: heap_pop_def)
next
  case (5 h x)
  show ?case by (rule mset_heap_pop [OF 5(2)])
qed (auto simp: checkTree_push mset_heap_push fst_heap_pop peek_best)

section \<open>Properties\<close>

text \<open>Pushing alone keeps the tree balanced by size, so that its height stays logarithmic in
  the number of elements, for any ranking whatever.\<close>

theorem heap_push_height:
  "xs \<noteq> [] \<Longrightarrow> h = foldl (heap_push rk) Null xs \<Longrightarrow>
   count_nodes h = length xs \<and> getTreeSize h = int (length xs) \<and> 2 ^ height h \<le> 2 * length xs"
proof -
  assume a: "xs \<noteq> []" "h = foldl (heap_push rk) Null xs"
  have ok: "sizes_ok h" "balanced h" "count_nodes h = length xs"
    using foldl_push_shape [of Null rk xs] by (simp_all add: a(2))
  have ne: "h \<noteq> Null" using ok(3) a(1) by auto
  have "mSize h = int (count_nodes h)" using ok(1) ne by (rule sizes_ok_mSize)
  then show ?thesis using ok ne balanced_height [of h] by (simp add: getTreeSize_def)
qed

theorem heap_push_height_witness:
  "2 ^ height (foldl (heap_push (\<lambda>a b. b - a)) Null [5, 3, 8, 1 :: int]) \<le> 2 * length [5, 3, 8, 1 :: int]"
  using heap_push_height [OF _ refl, of "[5, 3, 8, 1]" "\<lambda>a b. b - a"] by simp

end
