(* ===== verification/LocTimer.thy ===== *)
theory LocTimer
  imports LocHeap
begin

text \<open>
  The timer service of \<open>gps/utils/LocTimer.cpp\<close>: clients (\<open>LocTimer\<close>) start and stop timers,
  each running timer is a \<open>LocTimerDelegate\<close> in the heap of one of two containers (alarms that
  wake the CPU, and plain timers), the containers are changed only by messages that the
  \<open>MsgTask\<close> thread handles in order, and one kernel timer per container is armed with the
  soonest deadline and polled by \<open>LocTimerPollTask\<close>.
  The clock (\<open>clock_gettime\<close>) and the kernel's decision to fire an armed timer are inputs.
  \<open>timerfd_create\<close> and \<open>epoll_create\<close> are taken to succeed, and a client's
  \<open>timeOutCallback\<close> is recorded in \<open>fired\<close>.
\<close>

section \<open>State\<close>

record timespec =
  tv_sec :: int
  tv_nsec :: int

type_synonym tid = addr
type_synonym cid = nat

record delegate =
  mClient :: "cid option"
  mFutureTime :: timespec
  mContainer :: "bool option"

record container =
  mTree :: "tid heap_node"
  armed :: "timespec option"
  polled :: bool

datatype timer_msg = MsgTimerPush bool tid | MsgTimerRemove bool tid | MsgTimerExpire bool

text \<open>
  \<open>objs\<close> is the memory of the delegates (addresses below \<open>next_tid\<close> have been allocated,
  those of \<open>dead\<close> have been deleted again), \<open>mTimer\<close> the pointer each client holds,
  \<open>conts\<close> the two containers by \<open>wakeOnExpire\<close>, \<open>tq\<close> the message queue.
\<close>

record timer_sys =
  objs :: "tid \<Rightarrow> delegate"
  next_tid :: tid
  dead :: "tid list"
  mTimer :: "cid \<Rightarrow> tid option"
  conts :: "bool \<Rightarrow> container"
  tq :: "timer_msg list"
  fired :: "cid list"

definition init_timers :: timer_sys where
  "init_timers = \<lparr>objs = (\<lambda>_. \<lparr>mClient = None, mFutureTime = \<lparr>tv_sec = 0, tv_nsec = 0\<rparr>, mContainer = None\<rparr>),
     next_tid = 0, dead = [], mTimer = (\<lambda>_. None),
     conts = (\<lambda>_. \<lparr>mTree = Null, armed = None, polled = False\<rparr>), tq = [], fired = []\<rparr>"

section \<open>Ranking and deadlines\<close>

text \<open>
  \<open>LocTimerDelegate::ranks\<close>: the difference of the seconds, returned as an \<open>int\<close>; a larger
  time ranks lower. The nanoseconds do not take part.
\<close>

definition ts_rank :: "timespec \<Rightarrow> timespec \<Rightarrow> int" where
  "ts_rank self other = sint (word_of_int (tv_sec other - tv_sec self) :: 32 word)"

definition timer_rank :: "(tid \<Rightarrow> delegate) \<Rightarrow> tid \<Rightarrow> tid \<Rightarrow> int" where
  "timer_rank m a b = ts_rank (mFutureTime (m a)) (mFutureTime (m b))"

text \<open>The deadline computed by \<open>LocTimer::start\<close>.\<close>

definition future_time :: "timespec \<Rightarrow> uint32 \<Rightarrow> timespec" where
  "future_time now ms =
     (let sec = tv_sec now + int (unat ms) div 1000;
          nsec = tv_nsec now + int (unat ms) mod 1000 * 1000000
      in if nsec \<ge> 1000000000
         then \<lparr>tv_sec = sec + nsec div 1000000000, tv_nsec = nsec mod 1000000000\<rparr>
         else \<lparr>tv_sec = sec, tv_nsec = nsec\<rparr>)"

text \<open>\<open>timerfd_settime\<close>: a zero \<open>it_value\<close> disarms the timer.\<close>

definition settime :: "timespec \<Rightarrow> timespec option" where
  "settime t = (if tv_sec t = 0 \<and> tv_nsec t = 0 then None else Some t)"

section \<open>The containers\<close>

definition upd_cont :: "bool \<Rightarrow> (container \<Rightarrow> container) \<Rightarrow> timer_sys \<Rightarrow> timer_sys" where
  "upd_cont b f s = s\<lparr>conts := (conts s)(b := f (conts s b))\<rparr>"

definition getSoonestTimer :: "timer_sys \<Rightarrow> bool \<Rightarrow> tid option" where
  "getSoonestTimer s b = heap_peek (mTree (conts s b))"

definition addPoll :: "container \<Rightarrow> container" where
  "addPoll c = c\<lparr>polled := True\<rparr>"

definition removePoll :: "container \<Rightarrow> container" where
  "removePoll c = c\<lparr>polled := False\<rparr>"

definition updateSoonestTime :: "timer_sys \<Rightarrow> bool \<Rightarrow> tid option \<Rightarrow> timer_sys" where
  "updateSoonestTime s b priorTop =
     (let curTop = getSoonestTimer s b in
      if curTop \<noteq> priorTop then
        (case curTop of
           None \<Rightarrow> upd_cont b (\<lambda>c. (removePoll c)\<lparr>armed := settime \<lparr>tv_sec = 0, tv_nsec = 0\<rparr>\<rparr>) s
         | Some t \<Rightarrow>
             (if (case priorTop of None \<Rightarrow> True | Some p \<Rightarrow> outRanks (timer_rank (objs s)) t p)
              then upd_cont b (\<lambda>c. (addPoll c)\<lparr>armed := settime (mFutureTime (objs s t))\<rparr>) s
              else s))
      else s)"

definition send :: "timer_msg \<Rightarrow> timer_sys \<Rightarrow> timer_sys" where
  "send m s = s\<lparr>tq := tq s @ [m]\<rparr>"

text \<open>\<open>LocTimerDelegate::destroyLocked\<close> with \<open>LocTimerContainer::remove\<close>.\<close>

definition destroyLocked :: "timer_sys \<Rightarrow> tid \<Rightarrow> timer_sys" where
  "destroyLocked s t =
     (let d = objs s t in
      case mContainer d of
        None \<Rightarrow> s\<lparr>objs := (objs s)(t := d\<lparr>mClient := None\<rparr>)\<rparr>
      | Some b \<Rightarrow> send (MsgTimerRemove b t)
          (s\<lparr>objs := (objs s)(t := d\<lparr>mClient := None, mContainer := None\<rparr>)\<rparr>))"

section \<open>The client: start and stop\<close>

definition timer_start :: "timer_sys \<Rightarrow> cid \<Rightarrow> uint32 \<Rightarrow> bool \<Rightarrow> timespec \<Rightarrow> bool \<times> timer_sys" where
  "timer_start s c ms wakeOnExpire now =
     (case mTimer s c of
        Some t \<Rightarrow> (False, s)
      | None \<Rightarrow>
          (let t = next_tid s;
               d = \<lparr>mClient = Some c, mFutureTime = future_time now ms, mContainer = Some wakeOnExpire\<rparr>
           in (True, send (MsgTimerPush wakeOnExpire t)
                 (s\<lparr>objs := (objs s)(t := d), next_tid := Suc t, mTimer := (mTimer s)(c := Some t)\<rparr>))))"

definition timer_stop :: "timer_sys \<Rightarrow> cid \<Rightarrow> bool \<times> timer_sys" where
  "timer_stop s c =
     (case mTimer s c of
        None \<Rightarrow> (False, s)
      | Some t \<Rightarrow> (True, destroyLocked (s\<lparr>mTimer := (mTimer s)(c := None)\<rparr>) t))"

definition delegate_expire :: "timer_sys \<Rightarrow> tid \<Rightarrow> timer_sys" where
  "delegate_expire s t =
     (case mClient (objs s t) of
        None \<Rightarrow> s
      | Some c \<Rightarrow> (case timer_stop s c of
                    (ok, s') \<Rightarrow> if ok then s'\<lparr>fired := fired s' @ [c]\<rparr> else s'))"

section \<open>The message handlers\<close>

definition container_pop :: "timer_sys \<Rightarrow> bool \<Rightarrow> tid option \<times> timer_sys" where
  "container_pop s b =
     (case heap_pop (timer_rank (objs s)) (mTree (conts s b)) of
        (t, tree) \<Rightarrow> (t, upd_cont b (\<lambda>c. c\<lparr>mTree := tree\<rparr>) s))"

definition popIfOutRanks :: "timer_sys \<Rightarrow> bool \<Rightarrow> timespec \<Rightarrow> tid option \<times> timer_sys" where
  "popIfOutRanks s b now =
     (case getSoonestTimer s b of
        None \<Rightarrow> (None, s)
      | Some t \<Rightarrow> if \<not> outRanks ts_rank now (mFutureTime (objs s t)) then container_pop s b else (None, s))"

lemma conts_delegate_expire [simp]: "conts (delegate_expire s t) = conts s"
  by (auto simp: delegate_expire_def timer_stop_def destroyLocked_def send_def Let_def split: option.splits)

lemma container_pop_Some_less:
  "container_pop s b = (Some t, s') \<Longrightarrow> count_nodes (mTree (conts s' b)) < count_nodes (mTree (conts s b))"
  using mset_heap_pop [of "timer_rank (objs s)" "mTree (conts s b)"]
  by (auto simp: container_pop_def upd_cont_def count_nodes_mset split: prod.splits)

lemma popIfOutRanks_Some_less:
  "popIfOutRanks s b now = (Some t, s') \<Longrightarrow> count_nodes (mTree (conts s' b)) < count_nodes (mTree (conts s b))"
  using container_pop_Some_less by (auto simp: popIfOutRanks_def split: option.splits if_splits)

function expire_loop :: "timer_sys \<Rightarrow> bool \<Rightarrow> timespec \<Rightarrow> tid option \<Rightarrow> timer_sys" where
  "expire_loop s b now None = s"
| "expire_loop s b now (Some t) =
     (case popIfOutRanks (delegate_expire s t) b now of (t', s') \<Rightarrow> expire_loop s' b now t')"
  by pat_completeness auto
termination
proof (relation "measure (\<lambda>(s, b, now, t). (if t = None then 0 else Suc (count_nodes (mTree (conts s b)))))",
    goal_cases)
  case (2 s b now t t' s')
  then show ?case using popIfOutRanks_Some_less [OF sym] by (cases t') fastforce+
qed simp

definition proc_push :: "timer_sys \<Rightarrow> bool \<Rightarrow> tid \<Rightarrow> timer_sys" where
  "proc_push s b t =
     (let priorTop = getSoonestTimer s b;
          s' = upd_cont b (\<lambda>c. c\<lparr>mTree := heap_push (timer_rank (objs s)) (mTree c) t\<rparr>) s
      in updateSoonestTime s' b priorTop)"

definition proc_remove :: "timer_sys \<Rightarrow> bool \<Rightarrow> tid \<Rightarrow> timer_sys" where
  "proc_remove s b t =
     (let priorTop = getSoonestTimer s b in
      case heap_remove (timer_rank (objs s)) (mTree (conts s b)) t of
        (removed, tree) \<Rightarrow>
          (let s1 = upd_cont b (\<lambda>c. c\<lparr>mTree := tree\<rparr>) s;
               s2 = (if priorTop = removed then updateSoonestTime s1 b None else s1)
           in s2\<lparr>dead := dead s2 @ [t]\<rparr>))"

definition proc_expire :: "timer_sys \<Rightarrow> bool \<Rightarrow> timespec \<Rightarrow> timer_sys" where
  "proc_expire s b now =
     (case container_pop s b of
        (t, s') \<Rightarrow> updateSoonestTime (expire_loop s' b now t) b None)"

fun proc_msg :: "timer_sys \<Rightarrow> timespec \<Rightarrow> timer_msg \<Rightarrow> timer_sys" where
  "proc_msg s now (MsgTimerPush b t) = proc_push s b t"
| "proc_msg s now (MsgTimerRemove b t) = proc_remove s b t"
| "proc_msg s now (MsgTimerExpire b) = proc_expire s b now"

text \<open>The \<open>MsgTask\<close> thread takes the oldest message.\<close>

definition deliver :: "timer_sys \<Rightarrow> timespec \<Rightarrow> timer_sys" where
  "deliver s now = (case tq s of [] \<Rightarrow> s | m # ms \<Rightarrow> proc_msg (s\<lparr>tq := ms\<rparr>) now m)"

text \<open>
  \<open>LocTimerContainer::expire\<close>, called by \<open>LocTimerPollTask::run\<close> for a container whose kernel
  timer fired.
\<close>

definition container_expire :: "timer_sys \<Rightarrow> bool \<Rightarrow> timer_sys" where
  "container_expire s b =
     send (MsgTimerExpire b)
       (upd_cont b (\<lambda>c. removePoll (c\<lparr>armed := settime \<lparr>tv_sec = 0, tv_nsec = 0\<rparr>\<rparr>)) s)"

section \<open>Steps\<close>

definition clock_ok :: "timespec \<Rightarrow> bool" where
  "clock_ok t \<longleftrightarrow> 0 \<le> tv_sec t \<and> tv_sec t < 2 ^ 31 \<and> 0 \<le> tv_nsec t \<and> tv_nsec t < 1000000000"

inductive timer_step :: "timer_sys \<Rightarrow> timer_sys \<Rightarrow> bool" where
  start: "clock_ok now \<Longrightarrow> clock_ok (future_time now ms) \<Longrightarrow> timer_start s c ms w now = (ok, s') \<Longrightarrow>
    timer_step s s'"
| stop: "timer_stop s c = (ok, s') \<Longrightarrow> timer_step s s'"
| fire: "polled (conts s b) \<Longrightarrow> armed (conts s b) \<noteq> None \<Longrightarrow> timer_step s (container_expire s b)"
| message: "tq s \<noteq> [] \<Longrightarrow> clock_ok now \<Longrightarrow> timer_step s (deliver s now)"

inductive timer_reachable :: "timer_sys \<Rightarrow> bool" where
  init: "timer_reachable init_timers"
| step: "timer_reachable s \<Longrightarrow> timer_step s t \<Longrightarrow> timer_reachable t"

inductive_cases timer_stepE: "timer_step s t"


section \<open>The ranking contract\<close>

lemma ts_rank_exact:
  "clock_ok x \<Longrightarrow> clock_ok y \<Longrightarrow> ts_rank x y = tv_sec y - tv_sec x"
  unfolding ts_rank_def clock_ok_def by (rule sint32_of_int) auto

lemma outRanks_ts_rank [simp]:
  "clock_ok x \<Longrightarrow> clock_ok y \<Longrightarrow> outRanks ts_rank x y \<longleftrightarrow> tv_sec x < tv_sec y"
  by (simp add: outRanks_def ts_rank_exact)

lemma outRanks_timer_rank [simp]:
  "clock_ok (mFutureTime (m a)) \<Longrightarrow> clock_ok (mFutureTime (m b)) \<Longrightarrow>
   outRanks (timer_rank m) a b \<longleftrightarrow> tv_sec (mFutureTime (m a)) < tv_sec (mFutureTime (m b))"
  by (simp add: outRanks_def timer_rank_def ts_rank_exact)

interpretation tr: rankable "timer_rank m" "{t. clock_ok (mFutureTime (m t))}" for m
  by unfold_locales auto

text \<open>The rank of two timers depends on their deadlines only.\<close>

lemma checkTree_cong:
  assumes "\<And>a. a \<in># mset_heap t \<Longrightarrow> mFutureTime (m a) = mFutureTime (m' a)"
  shows "checkTree (timer_rank m) t = checkTree (timer_rank m') t"
proof -
  have "checkNodes (timer_rank m) t = checkNodes (timer_rank m') t"
    using assms
  proof (induction t)
    case (Node sz l d r)
    have "l \<noteq> Null \<Longrightarrow> mData l \<in># mset_heap l" "r \<noteq> Null \<Longrightarrow> mData r \<in># mset_heap r"
      by (cases l; auto) (cases r; auto)
    with Node show ?case by (auto simp: outRanks_def timer_rank_def)
  qed simp
  then show ?thesis by (simp add: checkTree_def)
qed

section \<open>The life of a timer object\<close>

fun push_of :: "timer_msg \<Rightarrow> (bool \<times> tid) list" where
  "push_of (MsgTimerPush b t) = [(b, t)]"
| "push_of _ = []"

fun remove_of :: "timer_msg \<Rightarrow> (bool \<times> tid) list" where
  "remove_of (MsgTimerRemove b t) = [(b, t)]"
| "remove_of _ = []"

definition push_msgs :: "timer_msg list \<Rightarrow> (bool \<times> tid) list" where
  "push_msgs q = concat (map push_of q)"

definition remove_msgs :: "timer_msg list \<Rightarrow> (bool \<times> tid) list" where
  "remove_msgs q = concat (map remove_of q)"

lemma msgs_simps [simp]:
  "push_msgs [] = []" "push_msgs (m # q) = push_of m @ push_msgs q" "push_msgs (q @ q') = push_msgs q @ push_msgs q'"
  "remove_msgs [] = []" "remove_msgs (m # q) = remove_of m @ remove_msgs q"
  "remove_msgs (q @ q') = remove_msgs q @ remove_msgs q'"
  by (simp_all add: push_msgs_def remove_msgs_def)

abbreviation timers_of :: "timer_sys \<Rightarrow> bool \<Rightarrow> tid multiset" where
  "timers_of s b \<equiv> mset_heap (mTree (conts s b))"

definition alive :: "timer_sys \<Rightarrow> tid \<Rightarrow> bool" where
  "alive s t \<longleftrightarrow> t < next_tid s \<and> t \<notin> set (dead s)"

text \<open>Where a timer object is referred to: in a heap, or in a message that will put it there.\<close>

definition held :: "timer_sys \<Rightarrow> tid multiset" where
  "held s = timers_of s False + timers_of s True + mset (map snd (push_msgs (tq s)))"

definition at_home :: "timer_sys \<Rightarrow> bool \<Rightarrow> tid \<Rightarrow> bool" where
  "at_home s b t \<longleftrightarrow> mContainer (objs s t) = Some b \<or> (b, t) \<in> set (remove_msgs (tq s))"

definition ordered_msgs :: "timer_msg list \<Rightarrow> bool" where
  "ordered_msgs q = sorted_wrt (\<lambda>m n. set (map snd (remove_of m)) \<inter> set (map snd (push_of n)) = {}) q"

definition held_inv :: "timer_sys \<Rightarrow> bool" where
  "held_inv s \<longleftrightarrow> (\<forall>t. count (held s) t \<le> 1) \<and> (\<forall>t \<in># held s. alive s t)"

definition home_inv :: "timer_sys \<Rightarrow> bool" where
  "home_inv s \<longleftrightarrow> (\<forall>b t. t \<in># timers_of s b \<or> (b, t) \<in> set (push_msgs (tq s)) \<longrightarrow> at_home s b t)"

definition msg_inv :: "timer_sys \<Rightarrow> bool" where
  "msg_inv s \<longleftrightarrow> distinct (map snd (remove_msgs (tq s))) \<and> ordered_msgs (tq s) \<and>
     (\<forall>(b, t) \<in> set (remove_msgs (tq s)). alive s t \<and> mClient (objs s t) = None \<and> mContainer (objs s t) = None)"

definition client_inv :: "timer_sys \<Rightarrow> bool" where
  "client_inv s \<longleftrightarrow>
     (\<forall>c t. mTimer s c = Some t \<longrightarrow> alive s t \<and> mClient (objs s t) = Some c \<and> mContainer (objs s t) \<noteq> None) \<and>
     (\<forall>t c. alive s t \<longrightarrow> mClient (objs s t) = Some c \<longrightarrow> mTimer s c = Some t)"

definition mem_inv :: "timer_sys \<Rightarrow> bool" where
  "mem_inv s \<longleftrightarrow> distinct (dead s) \<and> (\<forall>t \<in> set (dead s). t < next_tid s) \<and>
     (\<forall>t < next_tid s. clock_ok (mFutureTime (objs s t)))"

definition tree_inv :: "timer_sys \<Rightarrow> bool" where
  "tree_inv s \<longleftrightarrow> (\<forall>b. checkTree (timer_rank (objs s)) (mTree (conts s b)))"

definition timer_inv :: "timer_sys \<Rightarrow> bool" where
  "timer_inv s \<longleftrightarrow> held_inv s \<and> home_inv s \<and> msg_inv s \<and> client_inv s \<and> mem_inv s \<and> tree_inv s"

lemmas timer_inv_defs = timer_inv_def held_inv_def home_inv_def msg_inv_def client_inv_def mem_inv_def tree_inv_def

lemma timer_inv_init: "timer_inv init_timers"
  by (simp add: timer_inv_defs init_timers_def held_def ordered_msgs_def alive_def checkTree_def)

lemma timer_inv_frame:
  "objs s' = objs s \<Longrightarrow> next_tid s' = next_tid s \<Longrightarrow> dead s' = dead s \<Longrightarrow> mTimer s' = mTimer s \<Longrightarrow>
   tq s' = tq s \<Longrightarrow> (\<And>b. mTree (conts s' b) = mTree (conts s b)) \<Longrightarrow> timer_inv s' = timer_inv s"
  by (simp add: timer_inv_defs held_def at_home_def alive_def)

lemma updateSoonestTime_frame [simp]:
  "objs (updateSoonestTime s b p) = objs s" "next_tid (updateSoonestTime s b p) = next_tid s"
  "dead (updateSoonestTime s b p) = dead s" "mTimer (updateSoonestTime s b p) = mTimer s"
  "tq (updateSoonestTime s b p) = tq s" "fired (updateSoonestTime s b p) = fired s"
  "mTree (conts (updateSoonestTime s b p) b') = mTree (conts s b')"
  by (auto simp: updateSoonestTime_def upd_cont_def addPoll_def removePoll_def Let_def split: option.splits)

lemma timer_inv_updateSoonestTime [simp]: "timer_inv (updateSoonestTime s b p) = timer_inv s"
  by (rule timer_inv_frame) simp_all

lemma upd_cont_simps [simp]:
  "objs (upd_cont b f s) = objs s" "next_tid (upd_cont b f s) = next_tid s" "dead (upd_cont b f s) = dead s"
  "mTimer (upd_cont b f s) = mTimer s" "tq (upd_cont b f s) = tq s" "fired (upd_cont b f s) = fired s"
  "conts (upd_cont b f s) b' = (if b' = b then f (conts s b) else conts s b')"
  by (auto simp: upd_cont_def)

lemma send_simps [simp]:
  "objs (send m s) = objs s" "next_tid (send m s) = next_tid s" "dead (send m s) = dead s"
  "mTimer (send m s) = mTimer s" "tq (send m s) = tq s @ [m]" "fired (send m s) = fired s"
  "conts (send m s) = conts s"
  by (simp_all add: send_def)

lemma held_alt: "held s = timers_of s b + timers_of s (\<not> b) + mset (map snd (push_msgs (tq s)))"
  by (cases b) (simp_all add: held_def)

lemma held_alive: "timer_inv s \<Longrightarrow> t \<in># held s \<Longrightarrow> alive s t"
  by (simp add: timer_inv_def held_inv_def)

lemma timers_of_held: "t \<in># timers_of s b \<Longrightarrow> t \<in># held s"
  by (simp add: held_alt [of s b])

lemma alive_clock: "timer_inv s \<Longrightarrow> alive s t \<Longrightarrow> clock_ok (mFutureTime (objs s t))"
  by (simp add: timer_inv_def mem_inv_def alive_def)

lemma timers_of_clock:
  "timer_inv s \<Longrightarrow> set_mset (timers_of s b) \<subseteq> {t. clock_ok (mFutureTime (objs s t))}"
  using timers_of_held held_alive alive_clock by blast

lemma tree_checked: "timer_inv s \<Longrightarrow> checkTree (timer_rank (objs s)) (mTree (conts s b))"
  by (simp add: timer_inv_def tree_inv_def)

lemma client_dest:
  "timer_inv s \<Longrightarrow> mTimer s c = Some t \<Longrightarrow>
   alive s t \<and> mClient (objs s t) = Some c \<and> mContainer (objs s t) \<noteq> None"
  unfolding timer_inv_def client_inv_def by blast

lemma client_invI:
  "(\<And>c t. mTimer s c = Some t \<Longrightarrow> alive s t \<and> mClient (objs s t) = Some c \<and> mContainer (objs s t) \<noteq> None) \<Longrightarrow>
   (\<And>t c. alive s t \<Longrightarrow> mClient (objs s t) = Some c \<Longrightarrow> mTimer s c = Some t) \<Longrightarrow> client_inv s"
  unfolding client_inv_def by blast

lemma client_inv_cong:
  "objs s' = objs s \<Longrightarrow> next_tid s' = next_tid s \<Longrightarrow> dead s' = dead s \<Longrightarrow> mTimer s' = mTimer s \<Longrightarrow>
   client_inv s' = client_inv s"
  by (simp add: client_inv_def alive_def)

lemma client_dest2: "timer_inv s \<Longrightarrow> alive s t \<Longrightarrow> mClient (objs s t) = Some c \<Longrightarrow> mTimer s c = Some t"
  unfolding timer_inv_def client_inv_def by blast

lemma remove_msg_dest:
  "timer_inv s \<Longrightarrow> (b, t) \<in> set (remove_msgs (tq s)) \<Longrightarrow>
   alive s t \<and> mClient (objs s t) = None \<and> mContainer (objs s t) = None"
  unfolding timer_inv_def msg_inv_def by blast

lemma home_dest:
  "timer_inv s \<Longrightarrow> t \<in># timers_of s b \<or> (b, t) \<in> set (push_msgs (tq s)) \<Longrightarrow> at_home s b t"
  unfolding timer_inv_def home_inv_def by blast

lemma inv_start:
  assumes inv: "timer_inv s" and now: "clock_ok (future_time now ms)"
  shows "timer_inv (snd (timer_start s c ms w now))"
proof (cases "mTimer s c")
  case (Some t)
  then show ?thesis using assms by (simp add: timer_start_def)
next
  case None
  define t where "t = next_tid s"
  define s' where "s' = snd (timer_start s c ms w now)"
  have s': "tq s' = tq s @ [MsgTimerPush w t]" "next_tid s' = Suc t" "dead s' = dead s" "conts s' = conts s"
     "mTimer s' = (mTimer s)(c := Some t)"
     "objs s' = (objs s)(t := \<lparr>mClient = Some c, mFutureTime = future_time now ms, mContainer = Some w\<rparr>)"
    using None by (simp_all add: s'_def timer_start_def Let_def t_def)
  have dead: "t \<notin> set (dead s)" and nalive: "\<not> alive s t"
    using inv by (auto simp: timer_inv_def mem_inv_def alive_def t_def)
  have al: "alive s' x \<longleftrightarrow> alive s x \<or> x = t" for x
    using dead by (auto simp: alive_def s' t_def)
  have nheld: "t \<notin># held s" using held_alive [OF inv] nalive by blast
  have held: "held s' = add_mset t (held s)" by (simp add: held_def s')
  have nrem: "(b, t) \<notin> set (remove_msgs (tq s))" for b
    using remove_msg_dest [OF inv] nalive by blast
  have ncl: "mTimer s c' \<noteq> Some t" for c'
    using client_dest [OF inv] nalive by blast
  have ntree: "t \<notin># timers_of s b" for b using nheld timers_of_held by blast
  have npush: "(b, t) \<notin> set (push_msgs (tq s))" for b using nheld by (force simp: held_def)
  have "held_inv s'"
    using inv nheld by (simp add: timer_inv_def held_inv_def held al not_in_iff)
  moreover have "home_inv s'"
    unfolding home_inv_def
  proof (intro allI impI)
    fix b x
    assume x: "x \<in># timers_of s' b \<or> (b, x) \<in> set (push_msgs (tq s'))"
    have "at_home s b x" if "x \<noteq> t"
      using home_dest [OF inv, of x b] x that by (simp add: s')
    then show "at_home s' b x"
      using x ntree npush by (cases "x = t") (auto simp: at_home_def s')
  qed
  moreover have "msg_inv s'"
  proof -
    have m: "msg_inv s" using inv by (simp add: timer_inv_def)
    have "ordered_msgs (tq s')"
      using m nrem by (force simp: msg_inv_def s' ordered_msgs_def sorted_wrt_append remove_msgs_def)
    moreover have "remove_msgs (tq s') = remove_msgs (tq s)" by (simp add: s')
    ultimately show ?thesis using m nrem unfolding msg_inv_def by (fastforce simp: al s'(6))
  qed
  moreover have "client_inv s'"
  proof -
    show ?thesis
    proof (rule client_invI)
      fix c' x
      assume "mTimer s' c' = Some x"
      then show "alive s' x \<and> mClient (objs s' x) = Some c' \<and> mContainer (objs s' x) \<noteq> None"
        using client_dest [OF inv, of c' x] ncl [of c'] unfolding al s' by (cases "c' = c") auto
    next
      fix x c'
      assume "alive s' x" "mClient (objs s' x) = Some c'"
      then show "mTimer s' c' = Some x"
        using client_dest2 [OF inv, of x c'] None unfolding al s' by (cases "x = t") auto
    qed
  qed
  moreover have "mem_inv s'"
    using inv dead now by (auto simp: timer_inv_def mem_inv_def s' t_def less_Suc_eq)
  moreover have "tree_inv s'"
    unfolding tree_inv_def s'
  proof
    fix b
    show "checkTree (timer_rank ((objs s)(t := \<lparr>mClient = Some c, mFutureTime = future_time now ms,
        mContainer = Some w\<rparr>))) (mTree (conts s b))"
      using tree_checked [OF inv, of b] ntree [of b] by (subst checkTree_cong [where m' = "objs s"]) auto
  qed
  ultimately show ?thesis by (simp add: timer_inv_def s'_def)
qed

lemma inv_stop: "timer_inv s \<Longrightarrow> timer_inv (snd (timer_stop s c))"
proof (cases "mTimer s c")
  case None
  then show "timer_inv s \<Longrightarrow> ?thesis" by (simp add: timer_stop_def)
next
  case (Some t)
  assume inv: "timer_inv s"
  define s' where "s' = snd (timer_stop s c)"
  obtain b where t: "alive s t" "mClient (objs s t) = Some c" "mContainer (objs s t) = Some b"
    using client_dest [OF inv Some] by auto
  have s': "tq s' = tq s @ [MsgTimerRemove b t]" "next_tid s' = next_tid s" "dead s' = dead s" "conts s' = conts s"
     "mTimer s' = (mTimer s)(c := None)"
     "objs s' = (objs s)(t := (objs s t)\<lparr>mClient := None, mContainer := None\<rparr>)"
    using Some t by (simp_all add: s'_def timer_stop_def destroyLocked_def Let_def)
  have al: "alive s' x \<longleftrightarrow> alive s x" for x by (simp add: alive_def s')
  have nrem: "(b', t) \<notin> set (remove_msgs (tq s))" for b' using remove_msg_dest [OF inv, of b' t] t by auto
  have "held_inv s'"
    using inv by (simp add: timer_inv_def held_inv_def held_def al s')
  moreover have "home_inv s'"
    unfolding home_inv_def
  proof (intro allI impI)
    fix b' x
    assume x: "x \<in># timers_of s' b' \<or> (b', x) \<in> set (push_msgs (tq s'))"
    then have "at_home s b' x" using home_dest [OF inv, of x b'] by (simp add: s')
    then show "at_home s' b' x"
      using t nrem by (cases "x = t") (auto simp: at_home_def s')
  qed
  moreover have "msg_inv s'"
  proof -
    have m: "msg_inv s" using inv by (simp add: timer_inv_def)
    have "ordered_msgs (tq s')"
      using m by (simp add: msg_inv_def s' ordered_msgs_def sorted_wrt_append)
    moreover have "distinct (map snd (remove_msgs (tq s')))"
      using m nrem by (force simp: msg_inv_def s')
    ultimately show ?thesis
      using remove_msg_dest [OF inv] t nrem unfolding msg_inv_def al by (auto simp: s')
  qed
  moreover have "client_inv s'"
  proof (rule client_invI)
    fix c' x
    assume "mTimer s' c' = Some x"
    then show "alive s' x \<and> mClient (objs s' x) = Some c' \<and> mContainer (objs s' x) \<noteq> None"
      using client_dest [OF inv, of c' x] t unfolding al s' by (cases "c' = c") auto
  next
    fix x c'
    assume "alive s' x" "mClient (objs s' x) = Some c'"
    then show "mTimer s' c' = Some x"
      using client_dest2 [OF inv, of x c'] Some unfolding al s' by (cases "x = t") auto
  qed
  moreover have "mem_inv s'"
    using inv by (simp add: timer_inv_def mem_inv_def s')
  moreover have "tree_inv s'"
    unfolding tree_inv_def s'
    using tree_checked [OF inv] by (subst checkTree_cong [where m' = "objs s"]) auto
  ultimately show ?thesis by (simp add: timer_inv_def s'_def)
qed

lemma inv_delegate_expire: "timer_inv s \<Longrightarrow> timer_inv (delegate_expire s t)"
  using inv_stop [of s]
  by (auto simp: delegate_expire_def timer_inv_frame [where s' = "_\<lparr>fired := _\<rparr>"] split: option.splits prod.splits)
    (metis snd_conv)+

text \<open>Taking timers out of a heap and messages out of the queue keeps most of the invariant.\<close>

lemma inv_shrink:
  assumes inv: "timer_inv s"
    and eq: "objs s' = objs s" "next_tid s' = next_tid s" "dead s' = dead s" "mTimer s' = mTimer s" "tq s' = tq s"
    and sub: "\<And>b. timers_of s' b \<subseteq># timers_of s b"
    and tree: "tree_inv s'"
  shows "timer_inv s'"
proof -
  have al: "alive s' = alive s" by (auto simp: alive_def eq)
  have "held s' \<subseteq># held s"
    using sub by (simp add: held_def eq subset_mset.add_mono)
  then have "\<forall>t. count (held s') t \<le> count (held s) t" "set_mset (held s') \<subseteq> set_mset (held s)"
    by (simp_all add: mset_subset_eq_count set_mset_mono)
  then have "held_inv s'"
    using inv unfolding timer_inv_def held_inv_def al by (meson le_trans subsetD)
  moreover have "home_inv s'"
    unfolding home_inv_def
  proof (intro allI impI)
    fix b x
    assume "x \<in># timers_of s' b \<or> (b, x) \<in> set (push_msgs (tq s'))"
    then have "x \<in># timers_of s b \<or> (b, x) \<in> set (push_msgs (tq s))"
      using sub [of b] by (auto simp: eq dest: mset_subset_eqD)
    from home_dest [OF inv this] show "at_home s' b x" by (simp add: at_home_def eq)
  qed
  ultimately show ?thesis
    using inv tree client_inv_cong [of s' s] by (simp add: timer_inv_def msg_inv_def mem_inv_def al eq)
qed

lemma inv_container_pop: "timer_inv s \<Longrightarrow> timer_inv (snd (container_pop s b))"
proof -
  assume inv: "timer_inv s"
  have m: "mset_heap (snd (heap_pop rk t)) \<subseteq># mset_heap t" for rk :: "tid \<Rightarrow> tid \<Rightarrow> int" and t
    using mset_heap_pop [of rk t "the (heap_peek t)"] fst_heap_pop [of rk t]
    by (cases "t = Null") (auto simp: heap_pop_def)
  have *: "snd (container_pop s b) =
      upd_cont b (\<lambda>c. c\<lparr>mTree := snd (heap_pop (timer_rank (objs s)) (mTree (conts s b)))\<rparr>) s"
    by (simp add: container_pop_def split: prod.splits)
  show ?thesis
    unfolding *
  proof (rule inv_shrink [OF inv])
    show "tree_inv (upd_cont b (\<lambda>c. c\<lparr>mTree := snd (heap_pop (timer_rank (objs s)) (mTree (conts s b)))\<rparr>) s)"
      using tree_checked [OF inv] tr.checkTree_pop [OF tree_checked [OF inv] timers_of_clock [OF inv]]
      by (simp add: tree_inv_def)
  qed (simp_all add: m)
qed

lemma inv_popIfOutRanks: "timer_inv s \<Longrightarrow> timer_inv (snd (popIfOutRanks s b now))"
  by (auto simp: popIfOutRanks_def inv_container_pop split: option.splits)

lemma inv_expire_loop: "timer_inv s \<Longrightarrow> timer_inv (expire_loop s b now t)"
proof (induction s b now t rule: expire_loop.induct)
  case (2 s b now t)
  then show ?case
    using inv_popIfOutRanks [OF inv_delegate_expire [OF 2(2)], of t b now] by (auto split: prod.splits)
qed simp

lemma inv_proc_expire: "timer_inv s \<Longrightarrow> timer_inv (proc_expire s b now)"
  using inv_container_pop [of s b] by (auto simp: proc_expire_def inv_expire_loop split: prod.splits)

text \<open>An expire message holds no timer.\<close>

lemma inv_same_msgs:
  assumes "timer_inv s" "objs s' = objs s" "next_tid s' = next_tid s" "dead s' = dead s" "mTimer s' = mTimer s"
    "\<And>b. mTree (conts s' b) = mTree (conts s b)"
    "push_msgs (tq s') = push_msgs (tq s)" "remove_msgs (tq s') = remove_msgs (tq s)"
    "ordered_msgs (tq s) \<longrightarrow> ordered_msgs (tq s')"
  shows "timer_inv s'"
proof -
  have "alive s' = alive s" by (auto simp: alive_def assms)
  then show ?thesis
    using assms client_inv_cong [of s' s]
    by (simp add: timer_inv_def held_inv_def home_inv_def msg_inv_def mem_inv_def tree_inv_def held_def at_home_def)
qed

lemma inv_dequeue_expire: "timer_inv s \<Longrightarrow> tq s = MsgTimerExpire b # ms \<Longrightarrow> timer_inv (s\<lparr>tq := ms\<rparr>)"
  by (rule inv_same_msgs [where s = s]) (simp_all add: ordered_msgs_def)

lemma inv_container_expire: "timer_inv s \<Longrightarrow> timer_inv (container_expire s b)"
  by (rule inv_same_msgs [where s = s])
    (auto simp: container_expire_def removePoll_def ordered_msgs_def sorted_wrt_append)

lemma inv_push:
  assumes inv: "timer_inv s" and q: "tq s = MsgTimerPush b t # ms"
  shows "timer_inv (proc_push (s\<lparr>tq := ms\<rparr>) b t)"
proof -
  define s' where "s' = upd_cont b (\<lambda>c. c\<lparr>mTree := heap_push (timer_rank (objs s)) (mTree c) t\<rparr>) (s\<lparr>tq := ms\<rparr>)"
  have al: "alive s' x \<longleftrightarrow> alive s x" for x by (simp add: alive_def s'_def)
  have tm: "timers_of s' b' = (if b' = b then add_mset t (timers_of s b) else timers_of s b')" for b'
    by (simp add: s'_def mset_simps)
  have held: "held s' = held s"
    by (simp add: held_alt [of _ b] tm) (simp add: s'_def q)
  have fr: "objs s' = objs s" "next_tid s' = next_tid s" "dead s' = dead s" "mTimer s' = mTimer s" "tq s' = ms"
    by (simp_all add: s'_def)
  have "t \<in># held s" by (simp add: held_def q)
  then have ck: "clock_ok (mFutureTime (objs s t))" using alive_clock held_alive inv by blast
  have "held_inv s'" using inv by (simp add: timer_inv_def held_inv_def held al)
  moreover have "home_inv s'"
    unfolding home_inv_def
  proof (intro allI impI)
    fix b' x
    assume "x \<in># timers_of s' b' \<or> (b', x) \<in> set (push_msgs (tq s'))"
    then have "x \<in># timers_of s b' \<or> (b', x) \<in> set (push_msgs (tq s))"
      by (auto simp: tm fr q split: if_splits)
    from home_dest [OF inv this] show "at_home s' b' x" by (simp add: at_home_def fr q)
  qed
  moreover have "msg_inv s'"
  proof -
    have "ordered_msgs ms" using inv by (simp add: timer_inv_def msg_inv_def q ordered_msgs_def)
    then show ?thesis using inv by (simp add: timer_inv_def msg_inv_def fr q al)
  qed
  moreover have "client_inv s'" using inv client_inv_cong [of s' s] fr by (simp add: timer_inv_def)
  moreover have "mem_inv s'" using inv by (simp add: timer_inv_def mem_inv_def fr)
  moreover have "tree_inv s'"
    using tree_checked [OF inv] tr.checkTree_push [OF tree_checked [OF inv, of b] timers_of_clock [OF inv, of b], of t] ck
    by (simp add: tree_inv_def s'_def)
  ultimately have "timer_inv s'" by (simp add: timer_inv_def)
  then show ?thesis by (simp add: proc_push_def Let_def s'_def)
qed

lemma inv_remove:
  assumes inv: "timer_inv s" and q: "tq s = MsgTimerRemove b t # ms"
  shows "timer_inv (proc_remove (s\<lparr>tq := ms\<rparr>) b t)"
proof -
  define tree where "tree = snd (heap_remove (timer_rank (objs s)) (mTree (conts s b)) t)"
  define s' where "s' = (upd_cont b (\<lambda>c. c\<lparr>mTree := tree\<rparr>) s)\<lparr>tq := ms, dead := dead s @ [t]\<rparr>"
  have fr: "objs s' = objs s" "next_tid s' = next_tid s" "dead s' = dead s @ [t]" "mTimer s' = mTimer s" "tq s' = ms"
    by (simp_all add: s'_def)
  have t: "alive s t" "mClient (objs s t) = None" "mContainer (objs s t) = None"
    using remove_msg_dest [OF inv, of b t] by (simp_all add: q)
  have al: "alive s' x \<longleftrightarrow> alive s x \<and> x \<noteq> t" for x by (auto simp: alive_def fr)
  have msg: "msg_inv s" using inv by (simp add: timer_inv_def)
  have nrem: "(b', t) \<notin> set (remove_msgs ms)" for b'
    using msg by (force simp: msg_inv_def q)
  have npush: "(b', t) \<notin> set (push_msgs ms)" for b'
    using msg by (force simp: msg_inv_def q ordered_msgs_def push_msgs_def)
  have other: "t \<notin># timers_of s (\<not> b)"
    using home_dest [OF inv, of t "\<not> b"] t nrem by (auto simp: at_home_def q)
  have "mset_heap tree = timers_of s b - {#t#}"
    using tr.heap_remove_found [OF tree_checked [OF inv, of b] timers_of_clock [OF inv, of b], of t]
      mset_heap_remove [of "timer_rank (objs s)" "mTree (conts s b)" t]
    by (cases "heap_remove (timer_rank (objs s)) (mTree (conts s b)) t") (auto simp: tree_def split: if_splits)
  then have tm: "timers_of s' b' = timers_of s b' - {#t#}" for b'
    using other by (cases "b' = b") (auto simp: s'_def)
  have hc2: "count (held s) x \<le> 1" for x using inv by (simp add: timer_inv_def held_inv_def)
  have hc: "count (timers_of s b) t \<le> 1" using hc2 [of t] by (simp add: held_alt [of s b])
  have tn: "t \<notin># timers_of s' b'" for b'
    using hc other by (cases "b' = b") (auto simp: tm not_in_iff)
  have pm: "push_msgs (tq s) = push_msgs ms" by (simp add: q)
  have nheld: "t \<notin># held s'" using tn npush by (auto simp: held_def fr)
  have hsub: "held s' \<subseteq># held s"
    by (simp add: held_def tm fr pm subset_mset.add_mono)
  have "held_inv s'"
  proof -
    have "\<forall>x. count (held s') x \<le> 1" using mset_subset_eq_count [OF hsub] hc2 le_trans by blast
    moreover have "\<forall>x \<in># held s'. alive s' x"
      using mset_subset_eqD [OF hsub] held_alive [OF inv] nheld by (auto simp: al)
    ultimately show ?thesis by (simp add: held_inv_def)
  qed
  moreover have "home_inv s'"
    unfolding home_inv_def
  proof (intro allI impI)
    fix b' x
    assume x: "x \<in># timers_of s' b' \<or> (b', x) \<in> set (push_msgs (tq s'))"
    then have "x \<in># timers_of s b' \<or> (b', x) \<in> set (push_msgs (tq s))"
      by (auto simp: tm fr pm dest: in_diffD)
    moreover have "x \<noteq> t" using x tn npush by (auto simp: fr)
    ultimately show "at_home s' b' x" using home_dest [OF inv, of x b'] by (auto simp: at_home_def fr q)
  qed
  moreover have "msg_inv s'"
  proof -
    have "ordered_msgs ms" "distinct (map snd (remove_msgs ms))"
      using msg by (simp_all add: msg_inv_def q ordered_msgs_def)
    moreover have "alive s x \<and> x \<noteq> t \<and> mClient (objs s x) = None \<and> mContainer (objs s x) = None"
      if "(b', x) \<in> set (remove_msgs ms)" for b' x
      using remove_msg_dest [OF inv, of b' x] that nrem by (auto simp: q)
    ultimately show ?thesis by (auto simp: msg_inv_def fr al)
  qed
  moreover have "client_inv s'"
  proof (rule client_invI)
    fix c x
    assume "mTimer s' c = Some x"
    then show "alive s' x \<and> mClient (objs s' x) = Some c \<and> mContainer (objs s' x) \<noteq> None"
      using client_dest [OF inv, of c x] t by (auto simp: al fr)
  next
    fix x c
    assume "alive s' x" "mClient (objs s' x) = Some c"
    then show "mTimer s' c = Some x" using client_dest2 [OF inv, of x c] by (simp add: al fr)
  qed
  moreover have "mem_inv s'"
    using inv t(1) by (auto simp: timer_inv_def mem_inv_def fr alive_def)
  moreover have "tree_inv s'"
    using tree_checked [OF inv] tr.checkTree_remove [OF tree_checked [OF inv, of b] timers_of_clock [OF inv, of b], of t]
    by (simp add: tree_inv_def s'_def tree_def)
  ultimately have "timer_inv s'" by (simp add: timer_inv_def)
  then show ?thesis
    by (rule timer_inv_frame [THEN iffD1, rotated -1])
      (auto simp: proc_remove_def Let_def s'_def tree_def split: prod.splits)
qed

lemma inv_deliver: "timer_inv s \<Longrightarrow> timer_inv (deliver s now)"
proof (cases "tq s")
  case (Cons m ms)
  then show "timer_inv s \<Longrightarrow> ?thesis"
    by (cases m) (auto simp: deliver_def inv_push inv_remove intro: inv_proc_expire inv_dequeue_expire)
qed (simp add: deliver_def)

lemma timer_reachable_inv: "timer_reachable s \<Longrightarrow> timer_inv s"
proof (induction rule: timer_reachable.induct)
  case (step s t)
  from step.hyps(2) show ?case
    using step.IH inv_start [of s] inv_stop [of s]
    by (cases rule: timer_step.cases) (auto simp: inv_container_expire inv_deliver, metis snd_conv, metis snd_conv)
qed (rule timer_inv_init)

section \<open>Expiry\<close>

lemma mFutureTime_delegate_expire [simp]: "mFutureTime (objs (delegate_expire s t) x) = mFutureTime (objs s x)"
  by (auto simp: delegate_expire_def timer_stop_def destroyLocked_def Let_def split: option.splits)

lemma next_tid_delegate_expire [simp]:
  "next_tid (delegate_expire s t) = next_tid s" "dead (delegate_expire s t) = dead s"
  by (auto simp: delegate_expire_def timer_stop_def destroyLocked_def Let_def split: option.splits)

lemma delegate_expire_None: "mClient (objs s t) = None \<Longrightarrow> delegate_expire s t = s"
  by (simp add: delegate_expire_def)

lemma delegate_expire_Some:
  assumes "timer_inv s" "alive s t" "mClient (objs s t) = Some c"
  shows "mTimer s c = Some t" "mTimer (delegate_expire s t) = (mTimer s)(c := None)"
    "fired (delegate_expire s t) = fired s @ [c]"
  using client_dest2 [OF assms] assms(3)
  by (auto simp: delegate_expire_def timer_stop_def destroyLocked_def Let_def split: option.splits)

lemma delegate_expire_gone:
  "timer_inv s \<Longrightarrow> alive s t \<Longrightarrow> mTimer (delegate_expire s t) c \<noteq> Some t"
  using client_dest [of s c t] delegate_expire_Some [of s t] by (cases "mClient (objs s t)") (auto simp: delegate_expire_None)

lemma container_pop_frame:
  "container_pop s b = (t, s') \<Longrightarrow>
   objs s' = objs s \<and> next_tid s' = next_tid s \<and> dead s' = dead s \<and> mTimer s' = mTimer s \<and> tq s' = tq s \<and>
   fired s' = fired s \<and> conts s' (\<not> b) = conts s (\<not> b) \<and>
   timers_of s b = (case t of None \<Rightarrow> {#} | Some x \<Rightarrow> {#x#}) + timers_of s' b \<and>
   t = getSoonestTimer s b"
  using mset_heap_pop [of "timer_rank (objs s)" "mTree (conts s b)"] fst_heap_pop [of "timer_rank (objs s)" "mTree (conts s b)"]
  by (cases "mTree (conts s b) = Null")
    (auto simp: container_pop_def getSoonestTimer_def heap_pop_def split: prod.splits option.splits)

lemma popIfOutRanks_None:
  assumes "timer_inv s" "clock_ok now" "popIfOutRanks s b now = (None, s')"
  shows "s' = s" "x \<in># timers_of s b \<Longrightarrow> tv_sec now < tv_sec (mFutureTime (objs s x))"
proof -
  have *: "s' = s \<and> (\<forall>t. getSoonestTimer s b = Some t \<longrightarrow> outRanks ts_rank now (mFutureTime (objs s t)))"
    using assms(3) container_pop_frame [of s b None s']
    by (auto simp: popIfOutRanks_def split: option.splits if_splits)
  then show "s' = s" by simp
  assume x: "x \<in># timers_of s b"
  then obtain t where t: "getSoonestTimer s b = Some t"
    by (cases "mTree (conts s b)") (auto simp: getSoonestTimer_def heap_peek_def)
  then have tt: "t \<in># timers_of s b"
    by (cases "mTree (conts s b)") (auto simp: getSoonestTimer_def heap_peek_def)
  have ck: "clock_ok (mFutureTime (objs s y))" if "y \<in># timers_of s b" for y
    using timers_of_clock [OF assms(1), of b] that by auto
  have "\<not> outRanks (timer_rank (objs s)) x t"
    using tr.peek_best [OF tree_checked [OF assms(1), of b] timers_of_clock [OF assms(1), of b]] t x
    by (simp add: getSoonestTimer_def)
  with * t ck [OF x] ck [OF tt] assms(2) show "tv_sec now < tv_sec (mFutureTime (objs s x))" by auto
qed

lemma popIfOutRanks_Some:
  "popIfOutRanks s b now = (Some t, s') \<Longrightarrow> container_pop s b = (Some t, s')"
  by (auto simp: popIfOutRanks_def split: option.splits if_splits)

lemma popped_alive: "timer_inv s \<Longrightarrow> container_pop s b = (Some t, s') \<Longrightarrow> alive s' t"
  using container_pop_frame [of s b "Some t" s'] held_alive [of s t] timers_of_held [of t s b]
  by (auto simp: alive_def)

text \<open>
  From one state to a later one some clients have been called back: each had a timer running,
  is called once, and has no timer afterwards; nobody else's timer has changed.
\<close>

definition called_back :: "timer_sys \<Rightarrow> timer_sys \<Rightarrow> bool" where
  "called_back s s' \<longleftrightarrow> (\<exists>cs. fired s' = fired s @ cs \<and> distinct cs \<and> (\<forall>c \<in> set cs. mTimer s c \<noteq> None) \<and>
      mTimer s' = (\<lambda>c. if c \<in> set cs then None else mTimer s c))"

lemma called_back_refl: "fired s' = fired s \<Longrightarrow> mTimer s' = mTimer s \<Longrightarrow> called_back s s'"
  unfolding called_back_def by (intro exI [of _ "[]"]) simp

lemma called_back_frame: "fired s1 = fired s2 \<Longrightarrow> mTimer s1 = mTimer s2 \<Longrightarrow> called_back s1 = called_back s2"
  by (auto simp: called_back_def fun_eq_iff)

lemma called_back_trans: "called_back s1 s2 \<Longrightarrow> called_back s2 s3 \<Longrightarrow> called_back s1 s3"
  unfolding called_back_def
proof (elim exE conjE)
  fix cs ds
  assume "fired s2 = fired s1 @ cs" "distinct cs" "\<forall>c \<in> set cs. mTimer s1 c \<noteq> None"
    "mTimer s2 = (\<lambda>c. if c \<in> set cs then None else mTimer s1 c)"
    "fired s3 = fired s2 @ ds" "distinct ds" "\<forall>c \<in> set ds. mTimer s2 c \<noteq> None"
    "mTimer s3 = (\<lambda>c. if c \<in> set ds then None else mTimer s2 c)"
  then show "\<exists>cs. fired s3 = fired s1 @ cs \<and> distinct cs \<and> (\<forall>c \<in> set cs. mTimer s1 c \<noteq> None) \<and>
      mTimer s3 = (\<lambda>c. if c \<in> set cs then None else mTimer s1 c)"
    by (intro exI [of _ "cs @ ds"]) (auto split: if_splits)
qed

lemma called_back_delegate_expire:
  assumes "timer_inv s" "alive s t"
  shows "called_back s (delegate_expire s t)"
proof (cases "mClient (objs s t)")
  case None
  then show ?thesis by (simp add: delegate_expire_None called_back_refl)
next
  case (Some c)
  then show ?thesis
    using delegate_expire_Some [OF assms Some] unfolding called_back_def
    by (intro exI [of _ "[c]"]) (auto simp: fun_upd_def)
qed

text \<open>What one expiry does, by induction along the loop.\<close>

declare expire_loop.simps(2) [simp del]

definition expire_post :: "timer_sys \<Rightarrow> bool \<Rightarrow> timespec \<Rightarrow> tid option \<Rightarrow> timer_sys \<Rightarrow> bool" where
  "expire_post s b now t s' \<longleftrightarrow> called_back s s' \<and>
     (\<forall>c x. mTimer s' c = Some x \<longrightarrow> x \<in># timers_of s b \<or> t = Some x \<longrightarrow> x \<in># timers_of s' b) \<and>
     (t \<noteq> None \<longrightarrow> (\<forall>x \<in># timers_of s' b. tv_sec now < tv_sec (mFutureTime (objs s' x)))) \<and>
     conts s' (\<not> b) = conts s (\<not> b)"

lemma called_back_running: "called_back s s' \<Longrightarrow> mTimer s' c = Some x \<Longrightarrow> mTimer s c = Some x"
  by (auto simp: called_back_def split: if_splits)

lemma expire_post_keeps:
  "expire_post s b now t s' \<Longrightarrow> mTimer s' c = Some x \<Longrightarrow> x \<in># timers_of s b \<or> t = Some x \<Longrightarrow>
   x \<in># timers_of s' b"
  unfolding expire_post_def by blast

lemma expire_loop_post:
  "timer_inv s \<Longrightarrow> clock_ok now \<Longrightarrow> (\<forall>x. t = Some x \<longrightarrow> alive s x) \<Longrightarrow>
   expire_post s b now t (expire_loop s b now t)"
proof (induction s b now t rule: expire_loop.induct)
  case (2 s b now t)
  define s1 where "s1 = delegate_expire s t"
  have inv1: "timer_inv s1" unfolding s1_def by (rule inv_delegate_expire [OF 2(2)])
  have al: "alive s t" using 2(4) by simp
  obtain t' s' where p: "popIfOutRanks s1 b now = (t', s')" by force
  have gone: "mTimer s1 c \<noteq> Some t" for c unfolding s1_def by (rule delegate_expire_gone [OF 2(2) al])
  have c1: "conts s1 = conts s" by (simp add: s1_def)
  have fire: "called_back s s1" unfolding s1_def by (rule called_back_delegate_expire [OF 2(2) al])
  show ?case
  proof (cases t')
    case None
    with p have p': "popIfOutRanks s1 b now = (None, s')" by simp
    have "expire_loop s b now (Some t) = s1"
      using p' popIfOutRanks_None(1) [OF inv1 2(3) p'] by (simp add: s1_def expire_loop.simps(2))
    then show ?thesis
      using fire gone popIfOutRanks_None(2) [OF inv1 2(3) p'] by (auto simp: c1 expire_post_def)
  next
    case (Some x)
    with p have cp: "container_pop s1 b = (Some x, s')" by (simp add: popIfOutRanks_Some)
    have inv': "timer_inv s'" using inv_container_pop [OF inv1, of b] cp by simp
    have e: "expire_loop s b now (Some t) = expire_loop s' b now t'" using p by (simp add: s1_def expire_loop.simps(2))
    note fr = container_pop_frame [OF cp]
    have IH: "expire_post s' b now t' (expire_loop s' b now t')"
      using 2(1) [OF p [symmetric, unfolded s1_def] inv' 2(3)] popped_alive [OF inv1 cp] Some by simp
    then have cb: "called_back s1 (expire_loop s' b now t')"
      using called_back_frame [of s' s1] fr by (simp add: expire_post_def)
    have "y \<in># timers_of (expire_loop s' b now t') b"
      if y: "mTimer (expire_loop s' b now t') c = Some y" "y \<in># timers_of s b \<or> Some t = Some y" for c y
    proof -
      from gone called_back_running [OF cb y(1)] have "y \<noteq> t" by auto
      with y(2) fr Some c1 have "y \<in># timers_of s' b \<or> t' = Some y" by auto
      with expire_post_keeps [OF IH y(1)] show ?thesis .
    qed
    moreover have "\<forall>x \<in># timers_of (expire_loop s' b now t') b.
        tv_sec now < tv_sec (mFutureTime (objs (expire_loop s' b now t') x))"
      using IH Some unfolding expire_post_def by blast
    moreover have "conts (expire_loop s' b now t') (\<not> b) = conts s (\<not> b)"
      using IH fr c1 unfolding expire_post_def by presburger
    ultimately show ?thesis
      unfolding e using called_back_trans [OF fire cb] unfolding expire_post_def by blast
  qed
qed (simp add: expire_post_def called_back_refl)

lemma proc_expire_post:
  assumes inv: "timer_inv s" and now: "clock_ok now"
  shows "called_back s (proc_expire s b now)"
    and "mTimer (proc_expire s b now) c = Some x \<Longrightarrow> x \<in># timers_of s b \<Longrightarrow> x \<in># timers_of (proc_expire s b now) b"
    and "x \<in># timers_of (proc_expire s b now) b \<Longrightarrow>
      tv_sec now < tv_sec (mFutureTime (objs (proc_expire s b now) x))"
proof -
  obtain t s' where p: "container_pop s b = (t, s')" by force
  have inv': "timer_inv s'" using inv_container_pop [OF inv, of b] p by simp
  note fr = container_pop_frame [OF p]
  have "\<forall>x. t = Some x \<longrightarrow> alive s' x" using popped_alive [OF inv] p by blast
  from expire_loop_post [OF inv' now this, of b]
  have post: "expire_post s' b now t (expire_loop s' b now t)" .
  have none: "t = None \<Longrightarrow> timers_of s' b = {#} \<and> timers_of s b = {#}"
    using fr by (auto simp: getSoonestTimer_def)
  have eq: "proc_expire s b now = updateSoonestTime (expire_loop s' b now t) b None"
    using p by (simp add: proc_expire_def)
  have "called_back s (expire_loop s' b now t)"
    using post called_back_frame [of s' s] fr by (simp add: expire_post_def)
  then show "called_back s (proc_expire s b now)" by (simp add: eq called_back_def)
  show "mTimer (proc_expire s b now) c = Some x \<Longrightarrow> x \<in># timers_of s b \<Longrightarrow> x \<in># timers_of (proc_expire s b now) b"
  proof -
    assume x: "mTimer (proc_expire s b now) c = Some x" "x \<in># timers_of s b"
    have "x \<in># timers_of s' b \<or> t = Some x" using fr x(2) by (cases t) auto
    with expire_post_keeps [OF post, of c x] x(1) show ?thesis by (simp add: eq)
  qed
  show "x \<in># timers_of (proc_expire s b now) b \<Longrightarrow>
      tv_sec now < tv_sec (mFutureTime (objs (proc_expire s b now) x))"
    using post none unfolding eq by (cases t) (auto simp: expire_post_def)
qed

section \<open>The kernel timer is armed for the soonest deadline\<close>

definition armed_ok :: "timer_sys \<Rightarrow> bool \<Rightarrow> bool" where
  "armed_ok s b \<longleftrightarrow> (\<forall>t. getSoonestTimer s b = Some t \<longrightarrow>
     polled (conts s b) \<and> armed (conts s b) = settime (mFutureTime (objs s t)))"

lemma soonest_frame: "conts s' b = conts s b \<Longrightarrow> getSoonestTimer s' b = getSoonestTimer s b"
  by (simp add: getSoonestTimer_def)

lemma soonest_alive: "timer_inv s \<Longrightarrow> getSoonestTimer s b = Some t \<Longrightarrow> alive s t"
  by (rule held_alive, assumption, rule timers_of_held [of t s b])
    (auto simp: getSoonestTimer_def heap_peek_def split: heap_node.splits)

lemma armed_ok_frame:
  assumes "conts s' b = conts s b"
    and "\<And>t. getSoonestTimer s b = Some t \<Longrightarrow> mFutureTime (objs s' t) = mFutureTime (objs s t)"
  shows "armed_ok s' b = armed_ok s b"
  using assms by (auto simp: armed_ok_def getSoonestTimer_def)

lemma armed_updateSoonestTime_None: "armed_ok (updateSoonestTime s b None) b"
  by (auto simp: armed_ok_def getSoonestTimer_def updateSoonestTime_def addPoll_def removePoll_def Let_def split: option.splits)

lemma armed_updateSoonestTime:
  assumes "p \<noteq> None \<Longrightarrow> getSoonestTimer s b = p \<Longrightarrow> armed_ok s b"
    and "\<And>x y. p = Some x \<Longrightarrow> getSoonestTimer s b = Some y \<Longrightarrow> y \<noteq> x \<Longrightarrow> outRanks (timer_rank (objs s)) y x"
  shows "armed_ok (updateSoonestTime s b p) b"
proof (cases p)
  case None
  then show ?thesis using armed_updateSoonestTime_None by simp
next
  case (Some x)
  then show ?thesis
    using assms
    by (cases "getSoonestTimer s b = p")
      (auto simp: armed_ok_def getSoonestTimer_def updateSoonestTime_def addPoll_def removePoll_def Let_def split: option.splits)
qed

lemma peek_push:
  "heap_peek (heap_push rk t x) =
     Some (case heap_peek t of None \<Rightarrow> x | Some d \<Rightarrow> if outRanks rk x d then x else d)"
  by (cases t) (auto simp: heap_push_def heap_peek_def new_node_def Let_def)

lemma peek_remove:
  "heap_remove rk t x = (r, t') \<Longrightarrow> heap_peek t \<noteq> r \<Longrightarrow> heap_peek t' = heap_peek t"
  using fst_node_pop [of t rk]
  by (cases t) (auto simp: heap_remove_def heap_peek_def split: option.splits if_splits prod.splits)

lemma armed_proc_push:
  assumes "armed_ok s b"
  shows "armed_ok (proc_push s b t) b"
  unfolding proc_push_def Let_def
proof (rule armed_updateSoonestTime, goal_cases)
  case 1
  then show ?case using assms by (auto simp: armed_ok_def getSoonestTimer_def)
next
  case (2 x y)
  then show ?case by (auto simp: getSoonestTimer_def peek_push split: if_splits)
qed

lemma armed_proc_remove:
  assumes "armed_ok s b"
  shows "armed_ok (proc_remove s b t) b"
proof -
  obtain r tree where r: "heap_remove (timer_rank (objs s)) (mTree (conts s b)) t = (r, tree)" by force
  define s1 where "s1 = upd_cont b (\<lambda>c. c\<lparr>mTree := tree\<rparr>) s"
  have eq: "proc_remove s b t =
      (if getSoonestTimer s b = r then updateSoonestTime s1 b None else s1)
        \<lparr>dead := dead (if getSoonestTimer s b = r then updateSoonestTime s1 b None else s1) @ [t]\<rparr>"
    by (simp add: proc_remove_def r s1_def Let_def)
  have "armed_ok (if getSoonestTimer s b = r then updateSoonestTime s1 b None else s1) b"
    using assms peek_remove [OF r] armed_updateSoonestTime_None
    by (auto simp: armed_ok_def s1_def getSoonestTimer_def)
  then show ?thesis
    unfolding eq by (subst armed_ok_frame) auto
qed

lemma proc_frame:
  "b' \<noteq> b \<Longrightarrow> conts (proc_push s b t) b' = conts s b'"
  "b' \<noteq> b \<Longrightarrow> conts (proc_remove s b t) b' = conts s b'"
  "objs (proc_push s b t) = objs s" "objs (proc_remove s b t) = objs s"
  "tq (proc_push s b t) = tq s" "tq (proc_remove s b t) = tq s"
  by (auto simp: proc_push_def proc_remove_def updateSoonestTime_def Let_def split: option.splits prod.splits)

lemma container_pop_conts:
  "container_pop s b = (t, s') \<Longrightarrow> objs s' = objs s \<and> (b' \<noteq> b \<longrightarrow> conts s' b' = conts s b')"
  by (auto simp: container_pop_def split: prod.splits)

lemma expire_loop_frame:
  "mFutureTime (objs (expire_loop s b now t) x) = mFutureTime (objs s x) \<and>
   (b' \<noteq> b \<longrightarrow> conts (expire_loop s b now t) b' = conts s b')"
proof (induction s b now t rule: expire_loop.induct)
  case (2 s b now t)
  obtain t' s' where p: "popIfOutRanks (delegate_expire s t) b now = (t', s')" by force
  then have "objs s' = objs (delegate_expire s t) \<and> (b' \<noteq> b \<longrightarrow> conts s' b' = conts s b')"
    using container_pop_conts [of "delegate_expire s t" b t' s' b']
    by (auto simp: popIfOutRanks_def split: option.splits if_splits)
  with 2 [OF p [symmetric]] p show ?case by (simp add: expire_loop.simps(2))
qed simp

lemma proc_expire_frame:
  "mFutureTime (objs (proc_expire s b now) x) = mFutureTime (objs s x)"
  "b' \<noteq> b \<Longrightarrow> conts (proc_expire s b now) b' = conts s b'"
  using expire_loop_frame [of "snd (container_pop s b)" b now "fst (container_pop s b)" x b']
    container_pop_conts [of s b "fst (container_pop s b)" "snd (container_pop s b)" b']
  by (auto simp: proc_expire_def updateSoonestTime_def Let_def split: option.splits prod.splits)

lemma timer_stop_frame:
  "conts (snd (timer_stop s c)) = conts s" "mFutureTime (objs (snd (timer_stop s c)) x) = mFutureTime (objs s x)"
  "set (tq s) \<subseteq> set (tq (snd (timer_stop s c)))"
  by (auto simp: timer_stop_def destroyLocked_def Let_def split: option.splits)

lemma delegate_expire_tq: "set (tq s) \<subseteq> set (tq (delegate_expire s t))"
  by (auto simp: delegate_expire_def timer_stop_def destroyLocked_def Let_def split: option.splits)

lemma expire_loop_tq: "set (tq s) \<subseteq> set (tq (expire_loop s b now t))"
proof (induction s b now t rule: expire_loop.induct)
  case (2 s b now t)
  obtain t' s' where p: "popIfOutRanks (delegate_expire s t) b now = (t', s')" by force
  have "tq s' = tq (delegate_expire s t)"
    using p container_pop_frame [of "delegate_expire s t" b t' s']
    by (auto simp: popIfOutRanks_def split: option.splits if_splits)
  then show ?case
    using 2 [OF p [symmetric]] delegate_expire_tq [of s t] p by (auto simp: expire_loop.simps(2))
qed simp

lemma proc_expire_tq: "set (tq s) \<subseteq> set (tq (proc_expire s b now))"
  using expire_loop_tq [of "snd (container_pop s b)" b now "fst (container_pop s b)"]
    container_pop_frame [of s b "fst (container_pop s b)" "snd (container_pop s b)"]
  by (auto simp: proc_expire_def split: prod.splits)

lemma armed_deliver:
  assumes ok: "\<And>b. MsgTimerExpire b \<notin> set (tq s) \<Longrightarrow> armed_ok s b" and q: "tq s = m # ms"
    and n: "MsgTimerExpire b \<notin> set (tq (deliver s now))"
  shows "armed_ok (deliver s now) b"
proof -
  let ?s = "s\<lparr>tq := ms\<rparr>"
  have ok': "MsgTimerExpire b \<notin> set (m # ms) \<Longrightarrow> armed_ok ?s b"
    using ok [of b] armed_ok_frame [of ?s b s] by (simp add: q)
  have d: "deliver s now = proc_msg ?s now m" by (simp add: deliver_def q)
  show ?thesis
  proof (cases m)
    case (MsgTimerPush b' t)
    then have "armed_ok ?s b" using ok' n by (simp add: d proc_frame)
    then show ?thesis
      using armed_proc_push [of ?s b t] armed_ok_frame [of "proc_push ?s b' t" b ?s]
      by (cases "b' = b") (simp_all add: d MsgTimerPush proc_frame)
  next
    case (MsgTimerRemove b' t)
    then have "armed_ok ?s b" using ok' n by (simp add: d proc_frame)
    then show ?thesis
      using armed_proc_remove [of ?s b t] armed_ok_frame [of "proc_remove ?s b' t" b ?s]
      by (cases "b' = b") (simp_all add: d MsgTimerRemove proc_frame)
  next
    case (MsgTimerExpire b')
    show ?thesis
    proof (cases "b' = b")
      case True
      then show ?thesis
        by (auto simp: d MsgTimerExpire proc_expire_def armed_updateSoonestTime_None split: prod.splits)
    next
      case False
      have "MsgTimerExpire b \<notin> set ms"
        using n proc_expire_tq [of ?s b' now] by (auto simp: d MsgTimerExpire)
      then have "armed_ok ?s b" using ok' False MsgTimerExpire by simp
      then show ?thesis
        unfolding d MsgTimerExpire using False by (subst armed_ok_frame) (simp_all add: proc_expire_frame)
    qed
  qed
qed

lemma armed_reachable: "timer_reachable s \<Longrightarrow> MsgTimerExpire b \<notin> set (tq s) \<Longrightarrow> armed_ok s b"
proof (induction arbitrary: b rule: timer_reachable.induct)
  case init
  then show ?case by (simp add: armed_ok_def getSoonestTimer_def init_timers_def)
next
  case (step s t)
  note inv = timer_reachable_inv [OF step.hyps(1)]
  from step.hyps(2) show ?case
  proof (cases rule: timer_step.cases)
    case (start now ms c w ok)
    then have "conts t = conts s" "set (tq s) \<subseteq> set (tq t)"
      "\<And>x. x \<noteq> next_tid s \<Longrightarrow> mFutureTime (objs t x) = mFutureTime (objs s x)"
      by (auto simp: timer_start_def Let_def split: option.splits)
    then show ?thesis
      using step.IH [of b] step.prems soonest_alive [OF inv, of b]
      by (subst armed_ok_frame [of t b s]) (auto simp: alive_def)
  next
    case (stop c ok)
    then show ?thesis
      using step.IH [of b] step.prems timer_stop_frame [of s c] by (subst armed_ok_frame [of t b s]) auto
  next
    case (fire b')
    then show ?thesis
      using step.IH [of b] step.prems by (subst armed_ok_frame [of t b s]) (auto simp: container_expire_def)
  next
    case (message now)
    then show ?thesis using armed_deliver [OF step.IH] step.prems by (cases "tq s") auto
  qed
qed

section \<open>Properties\<close>

definition t_at :: "int \<Rightarrow> timespec" where
  "t_at sec = \<lparr>tv_sec = sec, tv_nsec = 0\<rparr>"

text \<open>
  A run for the examples: client 0 asks for one second, client 1 for a hundred, both alarms;
  the two push messages are handled.
\<close>

definition two_timers :: timer_sys where
  "two_timers =
     \<lparr>objs = (\<lambda>_. \<lparr>mClient = None, mFutureTime = \<lparr>tv_sec = 0, tv_nsec = 0\<rparr>, mContainer = None\<rparr>)
        (0 := \<lparr>mClient = Some 0, mFutureTime = t_at 11, mContainer = Some True\<rparr>,
         1 := \<lparr>mClient = Some 1, mFutureTime = t_at 110, mContainer = Some True\<rparr>),
      next_tid = 2, dead = [], mTimer = (\<lambda>_. None)(0 := Some 0, 1 := Some 1),
      conts = (\<lambda>_. \<lparr>mTree = Null, armed = None, polled = False\<rparr>)
        (True := \<lparr>mTree = Node 2 (Node 1 Null 1 Null) 0 Null, armed = Some (t_at 11), polled = True\<rparr>),
      tq = [], fired = []\<rparr>"

lemmas run_simps = init_timers_def timer_start_def timer_stop_def destroyLocked_def delegate_expire_def
  deliver_def container_expire_def proc_push_def proc_remove_def proc_expire_def expire_loop.simps
  container_pop_def popIfOutRanks_def updateSoonestTime_def getSoonestTimer_def addPoll_def removePoll_def
  settime_def future_time_def upd_cont_def send_def heap_push_def heap_pop_def heap_remove_def heap_peek_def
  node_pop.simps new_node_def outRanks_def timer_rank_def ts_rank_def t_at_def Let_def

lemma two_timers_run:
  "two_timers = deliver (deliver (snd (timer_start (snd (timer_start init_timers 0 1000 True (t_at 10)))
      1 100000 True (t_at 10))) (t_at 10)) (t_at 10)"
  by (simp add: run_simps two_timers_def)

lemma clock_ok_t_at [simp]: "0 \<le> n \<Longrightarrow> n < 2 ^ 31 \<Longrightarrow> clock_ok (t_at n)"
  by (simp add: clock_ok_def t_at_def)

lemma reach_start:
  "timer_reachable s \<Longrightarrow> clock_ok now \<Longrightarrow> clock_ok (future_time now ms) \<Longrightarrow>
   timer_reachable (snd (timer_start s c ms w now))"
  by (rule timer_reachable.step, assumption, rule timer_step.start [where ok = "fst (timer_start s c ms w now)"]) auto

lemma reach_stop: "timer_reachable s \<Longrightarrow> timer_reachable (snd (timer_stop s c))"
  by (rule timer_reachable.step, assumption, rule timer_step.stop [where ok = "fst (timer_stop s c)"]) auto

lemma reach_deliver: "timer_reachable s \<Longrightarrow> clock_ok now \<Longrightarrow> timer_reachable (deliver s now)"
proof (cases "tq s")
  case Nil
  then show "timer_reachable s \<Longrightarrow> ?thesis" by (simp add: deliver_def)
next
  case (Cons m ms)
  then show "timer_reachable s \<Longrightarrow> clock_ok now \<Longrightarrow> ?thesis"
    by (intro timer_reachable.step [OF _ timer_step.message]) auto
qed

lemma reach_fire:
  "timer_reachable s \<Longrightarrow> polled (conts s b) \<Longrightarrow> armed (conts s b) \<noteq> None \<Longrightarrow> timer_reachable (container_expire s b)"
  by (auto intro: timer_reachable.step timer_step.fire)

lemma two_timers_reachable: "timer_reachable two_timers"
  unfolding two_timers_run
  by (intro reach_deliver reach_start timer_reachable.init) (simp_all add: future_time_def clock_ok_def t_at_def)

text \<open>A heap of timers that is emptied by \<open>pop\<close> gives back exactly its elements, in the order
  of their deadlines, whatever sequence of operations has built it.\<close>

theorem heap_pops_by_deadline:
  "checkTree (timer_rank m) h \<Longrightarrow> \<forall>t \<in># mset_heap h. clock_ok (mFutureTime (m t)) \<Longrightarrow>
   mset (pops (heap_pop (timer_rank m)) (count_nodes h) h) = mset_heap h \<and>
   sorted (map (\<lambda>t. tv_sec (mFutureTime (m t))) (pops (heap_pop (timer_rank m)) (count_nodes h) h))"
proof -
  assume a: "checkTree (timer_rank m) h" "\<forall>t \<in># mset_heap h. clock_ok (mFutureTime (m t))"
  then have inv: "checkTree (timer_rank m) h \<and> set_mset (mset_heap h) \<subseteq> {t. clock_ok (mFutureTime (m t))}" by auto
  let ?ps = "pops (heap_pop (timer_rank m)) (count_nodes h) h"
  have all: "mset ?ps = mset_heap h"
    using tr.heapq.pops_all [OF inv] by (simp add: count_nodes_mset)
  have ck: "t \<in> set ?ps \<Longrightarrow> clock_ok (mFutureTime (m t))" for t using a(2) all by (metis set_mset_mset)
  have sorted: "sorted_wrt (\<lambda>x y. \<not> outRanks (timer_rank m) y x) ?ps" by (rule tr.heapq.pops_sorted [OF inv])
  have "sorted_wrt (\<lambda>x y. tv_sec (mFutureTime (m x)) \<le> tv_sec (mFutureTime (m y))) ?ps"
  proof (rule sorted_wrt_mono_rel [OF _ sorted])
    fix x y
    assume "x \<in> set ?ps" "y \<in> set ?ps" and r: "\<not> outRanks (timer_rank m) y x"
    then show "tv_sec (mFutureTime (m x)) \<le> tv_sec (mFutureTime (m y))"
      using outRanks_timer_rank [of m y x] ck [of x] ck [of y] by linarith
  qed
  then show ?thesis using all by (simp add: sorted_wrt_map)
qed

theorem heap_pops_by_deadline_witness:
  "(let m = objs two_timers; h = Node 2 (Node 1 Null 1 Null) 0 Null in
    mset (pops (heap_pop (timer_rank m)) 2 h) = {#0, 1#} \<and>
    sorted (map (\<lambda>t. tv_sec (mFutureTime (m t))) (pops (heap_pop (timer_rank m)) 2 h)))"
proof -
  have a: "checkTree (timer_rank (objs two_timers)) (Node 2 (Node 1 Null 1 Null) 0 Null)"
    "\<forall>t \<in># mset_heap (Node 2 (Node 1 Null 1 Null) 0 Null). clock_ok (mFutureTime (objs two_timers t))"
    by (simp_all add: two_timers_def checkTree_def t_at_def clock_ok_def)
  from heap_pops_by_deadline [OF a] show ?thesis by (simp add: Let_def numeral_2_eq_2 add_mset_commute)
qed

text \<open>Removing a timer from a heap finds it exactly when it is there, takes out that one only,
  and keeps the order and the recorded sizes.\<close>

theorem heap_remove_exact:
  "checkTree (timer_rank m) h \<Longrightarrow> \<forall>t \<in># mset_heap h. clock_ok (mFutureTime (m t)) \<Longrightarrow>
   heap_remove (timer_rank m) h x = (r, h') \<Longrightarrow>
   r = (if x \<in># mset_heap h then Some x else None) \<and> mset_heap h' = mset_heap h - {#x#} \<and>
   checkTree (timer_rank m) h' \<and> getTreeSize h' = int (size (mset_heap h'))"
proof -
  assume a: "checkTree (timer_rank m) h" "\<forall>t \<in># mset_heap h. clock_ok (mFutureTime (m t))"
    "heap_remove (timer_rank m) h x = (r, h')"
  then have A: "set_mset (mset_heap h) \<subseteq> {t. clock_ok (mFutureTime (m t))}" by auto
  have r: "r = (if x \<in># mset_heap h then Some x else None)" using tr.heap_remove_found [OF a(1) A, of x] a(3) by simp
  have ck: "checkTree (timer_rank m) h'" using tr.checkTree_remove [OF a(1) A, of x] a(3) by simp
  then have "getTreeSize h' = int (size (mset_heap h'))"
    using checkNodes_size [of "timer_rank m" h'] by (auto simp: getTreeSize_def checkTree_def count_nodes_mset)
  then show ?thesis using r ck mset_heap_remove [OF a(3)] by (auto split: if_splits)
qed

theorem heap_remove_exact_witness:
  "(let m = objs two_timers; h = Node 2 (Node 1 Null 1 Null) 0 Null in
    fst (heap_remove (timer_rank m) h 1) = Some 1 \<and> mset_heap (snd (heap_remove (timer_rank m) h 1)) = {#0#})"
proof -
  have a: "checkTree (timer_rank (objs two_timers)) (Node 2 (Node 1 Null 1 Null) 0 Null)"
    "\<forall>t \<in># mset_heap (Node 2 (Node 1 Null 1 Null) 0 Null). clock_ok (mFutureTime (objs two_timers t))"
    by (simp_all add: two_timers_def checkTree_def t_at_def clock_ok_def)
  obtain r h' where "heap_remove (timer_rank (objs two_timers)) (Node 2 (Node 1 Null 1 Null) 0 Null) 1 = (r, h')" by force
  with heap_remove_exact [OF a this] show ?thesis by (simp add: Let_def)
qed

text \<open>\<open>LocTimer::start\<close> computes the deadline without loss: the future time is the current
  time plus the requested milliseconds, as a number of nanoseconds, and is normalised.\<close>

theorem future_time_exact:
  "clock_ok now \<Longrightarrow>
   tv_sec (future_time now ms) * 1000000000 + tv_nsec (future_time now ms) =
     tv_sec now * 1000000000 + tv_nsec now + int (unat ms) * 1000000 \<and>
   0 \<le> tv_nsec (future_time now ms) \<and> tv_nsec (future_time now ms) < 1000000000"
proof -
  assume "clock_ok now"
  then have n: "0 \<le> tv_nsec now" "tv_nsec now < 1000000000" by (auto simp: clock_ok_def)
  have m: "int (unat ms) = int (unat ms) div 1000 * 1000 + int (unat ms) mod 1000"
    "0 \<le> int (unat ms) mod 1000" "int (unat ms) mod 1000 < 1000" by simp_all
  define q where "q = int (unat ms) div 1000"
  define r where "r = int (unat ms) mod 1000"
  have e: "int (unat ms) = q * 1000 + r" "0 \<le> r" "r < 1000" using m by (simp_all add: q_def r_def)
  define N where "N = tv_nsec now + r * 1000000"
  have N: "N = N div 1000000000 * 1000000000 + N mod 1000000000" "0 \<le> N mod 1000000000"
    "N mod 1000000000 < 1000000000" by simp_all
  show ?thesis
    unfolding future_time_def Let_def q_def [symmetric] r_def [symmetric] N_def [symmetric]
    using N e n by (auto simp: N_def)
qed

theorem future_time_exact_witness:
  "clock_ok \<lparr>tv_sec = 5, tv_nsec = 999000000\<rparr> \<and>
   tv_nsec (future_time \<lparr>tv_sec = 5, tv_nsec = 999000000\<rparr> 1001) = 0"
  using future_time_exact [of "\<lparr>tv_sec = 5, tv_nsec = 999000000\<rparr>" 1001]
  by (simp add: clock_ok_def future_time_def)

text \<open>C1: No timer object is used after it was deleted, and none is deleted twice: a deleted
  object is in no heap, in no message that is still queued, and no client points to it.\<close>

theorem timer_no_dangling:
  "timer_reachable s \<Longrightarrow>
   distinct (dead s) \<and>
   (\<forall>t \<in> set (dead s). (\<forall>b. t \<notin># mset_heap (mTree (conts s b)) \<and>
      MsgTimerPush b t \<notin> set (tq s) \<and> MsgTimerRemove b t \<notin> set (tq s)) \<and> (\<forall>c. mTimer s c \<noteq> Some t))"
proof -
  assume "timer_reachable s"
  then have inv: "timer_inv s" by (rule timer_reachable_inv)
  have "distinct (dead s)" using inv by (simp add: timer_inv_def mem_inv_def)
  moreover have "t \<notin># timers_of s b" "mTimer s c \<noteq> Some t" if "t \<in> set (dead s)" for t b c
    using that held_alive [OF inv timers_of_held [of t s b]] client_dest [OF inv, of c t] by (auto simp: alive_def)
  moreover have "MsgTimerPush b t \<notin> set (tq s)" "MsgTimerRemove b t \<notin> set (tq s)" if "t \<in> set (dead s)" for t b
    using that held_alive [OF inv, of t] remove_msg_dest [OF inv, of b t]
    by (force simp: alive_def held_def push_msgs_def remove_msgs_def)+
  ultimately show ?thesis by blast
qed

theorem timer_no_dangling_witness:
  "(let s = deliver (snd (timer_stop two_timers 0)) (t_at 10) in
    timer_reachable s \<and> dead s = [0] \<and> 0 \<notin># mset_heap (mTree (conts s True)))"
proof -
  have r: "timer_reachable (deliver (snd (timer_stop two_timers 0)) (t_at 10))"
    by (intro reach_deliver reach_stop two_timers_reachable) simp
  have d: "dead (deliver (snd (timer_stop two_timers 0)) (t_at 10)) = [0]" by (simp add: run_simps two_timers_def)
  show ?thesis using timer_no_dangling [OF r] r d by (simp add: Let_def)
qed

text \<open>C2: As long as the seconds of the clock fit 31 bits, handling an expiry calls back each client at most once, only clients whose timer is
  running, and leaves them without a timer; every running timer of the container that was due
  is served, and what stays in the container is due in a later second.\<close>

theorem timer_expiry_serves_due:
  "timer_reachable s \<Longrightarrow> clock_ok now \<Longrightarrow> tq s = MsgTimerExpire b # ms \<Longrightarrow> s' = deliver s now \<Longrightarrow>
   called_back s s' \<and>
   (\<forall>c t. mTimer s c = Some t \<longrightarrow> t \<in># mset_heap (mTree (conts s b)) \<longrightarrow>
      tv_sec (mFutureTime (objs s t)) \<le> tv_sec now \<longrightarrow> mTimer s' c = None) \<and>
   (\<forall>t \<in># mset_heap (mTree (conts s' b)). tv_sec now < tv_sec (mFutureTime (objs s' t)))"
proof -
  assume a: "timer_reachable s" "clock_ok now" "tq s = MsgTimerExpire b # ms" "s' = deliver s now"
  let ?s = "s\<lparr>tq := ms\<rparr>"
  have inv: "timer_inv ?s" by (rule inv_dequeue_expire [OF timer_reachable_inv [OF a(1)] a(3)])
  have s': "s' = proc_expire ?s b now" by (simp add: a deliver_def)
  note post = proc_expire_post [OF inv a(2), where b = b]
  have cb: "called_back s s'" using post(1) called_back_frame [of ?s s] by (simp add: s')
  have "mTimer s' c = None"
    if t: "mTimer s c = Some t" "t \<in># timers_of s b" "tv_sec (mFutureTime (objs s t)) \<le> tv_sec now" for c t
  proof (rule ccontr)
    assume "mTimer s' c \<noteq> None"
    then have m: "mTimer s' c = Some t" using called_back_running [OF cb, of c] t(1) by auto
    then have "t \<in># timers_of s' b" using post(2) [of c t] t(2) by (simp add: s')
    then show False using post(3) [of t] t(3) proc_expire_frame(1) [of ?s b now t] by (simp add: s')
  qed
  then show ?thesis using cb post(3) by (auto simp: s')
qed

theorem timer_expiry_serves_due_witness:
  "(let s = container_expire two_timers True; s' = deliver s (t_at 11) in
    fired s' = [0] \<and> mTimer s' 0 = None \<and> mTimer s' 1 = Some 1)"
proof -
  have r: "timer_reachable (container_expire two_timers True)"
    by (rule reach_fire [OF two_timers_reachable]) (simp_all add: two_timers_def)
  have q: "tq (container_expire two_timers True) = MsgTimerExpire True # []" by (simp add: run_simps two_timers_def)
  have m: "mTimer (container_expire two_timers True) 0 = Some 0"
    "0 \<in># mset_heap (mTree (conts (container_expire two_timers True) True))"
    "tv_sec (mFutureTime (objs (container_expire two_timers True) 0)) \<le> tv_sec (t_at 11)"
    by (simp_all add: container_expire_def removePoll_def two_timers_def t_at_def)
  have e: "fired (deliver (container_expire two_timers True) (t_at 11)) = [0]"
    "mTimer (deliver (container_expire two_timers True) (t_at 11)) 1 = Some 1" by (simp_all add: run_simps two_timers_def)
  show ?thesis
    using timer_expiry_serves_due [OF r _ q refl, of "t_at 11"] m e by (simp add: Let_def)
qed

text \<open>C37: Whenever no expiry is waiting to be handled, the kernel timer of a container that
  holds timers is polled and armed with the deadline of its soonest timer (to the second).\<close>

theorem timer_armed_soonest:
  "timer_reachable s \<Longrightarrow> MsgTimerExpire b \<notin> set (tq s) \<Longrightarrow> t \<in># mset_heap (mTree (conts s b)) \<Longrightarrow>
   (\<exists>top. getSoonestTimer s b = Some top \<and> polled (conts s b) \<and>
      armed (conts s b) = settime (mFutureTime (objs s top)) \<and>
      tv_sec (mFutureTime (objs s top)) \<le> tv_sec (mFutureTime (objs s t)))"
proof -
  assume a: "timer_reachable s" "MsgTimerExpire b \<notin> set (tq s)" "t \<in># timers_of s b"
  note inv = timer_reachable_inv [OF a(1)]
  from a(3) obtain top where top: "getSoonestTimer s b = Some top" "top \<in># timers_of s b"
    by (cases "mTree (conts s b)") (auto simp: getSoonestTimer_def heap_peek_def)
  have "\<not> outRanks (timer_rank (objs s)) t top"
    using tr.peek_best [OF tree_checked [OF inv, of b] timers_of_clock [OF inv, of b]] top a(3)
    by (simp add: getSoonestTimer_def)
  moreover have "clock_ok (mFutureTime (objs s top))" "clock_ok (mFutureTime (objs s t))"
    using timers_of_clock [OF inv, of b] top a(3) by auto
  ultimately have "tv_sec (mFutureTime (objs s top)) \<le> tv_sec (mFutureTime (objs s t))" by simp
  then show ?thesis using armed_reachable [OF a(1,2)] top by (simp add: armed_ok_def)
qed

theorem timer_armed_soonest_witness:
  "1 \<in># mset_heap (mTree (conts two_timers True)) \<and> armed (conts two_timers True) = Some (t_at 11) \<and>
   (\<exists>top. getSoonestTimer two_timers True = Some top \<and>
      tv_sec (mFutureTime (objs two_timers top)) \<le> tv_sec (mFutureTime (objs two_timers 1)))"
proof -
  have q: "MsgTimerExpire True \<notin> set (tq two_timers)" and m: "1 \<in># mset_heap (mTree (conts two_timers True))"
    and a: "armed (conts two_timers True) = Some (t_at 11)"
    by (simp_all add: two_timers_def)
  from timer_armed_soonest [OF two_timers_reachable q m] show ?thesis using m a by blast
qed

text \<open>An expiry message pops the first timer whatever its deadline. Client 0's alarm is
  stopped while the kernel fires for it; the removal is handled first, and the expiry then
  calls client 1 back at second 11 although its deadline is second 110.\<close>

theorem timer_premature_expiry:
  "(let s = container_expire (snd (timer_stop two_timers 0)) True;
        s' = deliver (deliver s (t_at 11)) (t_at 11)
    in tv_sec (mFutureTime (objs s 1)) = 110 \<and> mTimer s 1 = Some 1 \<and> fired s = [] \<and> fired s' = [1])"
  by (simp add: run_simps two_timers_def)

text \<open>Removing the last timer of a container leaves its kernel timer armed and polled:
  with \<open>NULL\<close> as the prior top, \<open>updateSoonestTime\<close> sees no change and its branch for an
  empty tree is not taken.\<close>

theorem timer_remove_last_stays_armed:
  "timer_inv s \<Longrightarrow> mset_heap (mTree (conts s b)) = {#t#} \<Longrightarrow>
   conts (proc_remove s b t) b = (conts s b)\<lparr>mTree := Null\<rparr>"
proof -
  assume a: "timer_inv s" "timers_of s b = {#t#}"
  have peek: "getSoonestTimer s b = Some t"
    using a(2) by (cases "mTree (conts s b)") (auto simp: getSoonestTimer_def heap_peek_def)
  obtain r tree where r: "heap_remove (timer_rank (objs s)) (mTree (conts s b)) t = (r, tree)" by force
  have "r = Some t"
    using tr.heap_remove_found [OF tree_checked [OF a(1), of b] timers_of_clock [OF a(1), of b], of t] a(2) r by simp
  with mset_heap_remove [OF r] a(2) have "tree = Null" by simp
  then show ?thesis
    by (simp add: proc_remove_def r peek \<open>r = Some t\<close> Let_def updateSoonestTime_def getSoonestTimer_def)
qed

theorem timer_remove_last_stays_armed_witness:
  "(let s = deliver (snd (timer_stop two_timers 0)) (t_at 10) in
    conts (proc_remove s True 1) True = (conts s True)\<lparr>mTree := Null\<rparr> \<and> armed (conts s True) = Some (t_at 110))"
proof -
  have r: "timer_inv (deliver (snd (timer_stop two_timers 0)) (t_at 10))"
    by (intro timer_reachable_inv reach_deliver reach_stop two_timers_reachable) simp
  have "mset_heap (mTree (conts (deliver (snd (timer_stop two_timers 0)) (t_at 10)) True)) = {#1#}"
    "armed (conts (deliver (snd (timer_stop two_timers 0)) (t_at 10)) True) = Some (t_at 110)"
    by (simp_all add: run_simps two_timers_def)
  then show ?thesis using timer_remove_last_stays_armed [OF r, of True 1] by (simp add: Let_def)
qed

end
