(* ===== verification/LinkedList.thy ===== *)
theory LinkedList
  imports Prelude
begin

text \<open>
  The doubly linked list of \<open>gps/utils/linked_list.c\<close> at the level of its pointers: the
  elements live in a memory (a map from addresses), every field access goes through it, and an
  access to an address that is not allocated, or through NULL, has no result (the outer
  \<open>None\<close> of each operation). The result of \<open>malloc\<close> is an argument. \<open>dealloc_func\<close> is whether a
  function was given; the calls to it are recorded in \<open>deallocs\<close>. The lemmas show that every
  operation is defined, keeps the links consistent, leaks no element, and does on the
  sequence of its entries what its name says.
\<close>

section \<open>Memory\<close>

datatype linked_list_err_type =
  eLINKED_LIST_SUCCESS | eLINKED_LIST_FAILURE_GENERAL | eLINKED_LIST_INVALID_PARAMETER
| eLINKED_LIST_INVALID_HANDLE | eLINKED_LIST_UNAVAILABLE_RESOURCE | eLINKED_LIST_INSUFFICIENT_BUFFER

record 'd list_element =
  el_next :: "addr option"
  el_prev :: "addr option"
  data_ptr :: 'd
  dealloc_func :: bool

record 'd list_state =
  cells :: "addr \<Rightarrow> 'd list_element option"
  p_head :: "addr option"
  p_tail :: "addr option"
  deallocs :: "'d list"

text \<open>A pointer of type \<open>void* list_data\<close>: NULL, or the list it stands for.\<close>

type_synonym 'd list_ptr = "'d list_state option"

definition load :: "'d list_state \<Rightarrow> addr option \<Rightarrow> 'd list_element option" where
  "load l p = (case p of None \<Rightarrow> None | Some a \<Rightarrow> cells l a)"

definition store :: "'d list_state \<Rightarrow> addr option \<Rightarrow> ('d list_element \<Rightarrow> 'd list_element) \<Rightarrow> 'd list_state option" where
  "store l p f = (case p of
       None \<Rightarrow> None
     | Some a \<Rightarrow> (case cells l a of None \<Rightarrow> None | Some e \<Rightarrow> Some (l\<lparr>cells := (cells l)(a := Some (f e))\<rparr>)))"

text \<open>\<open>free(p)\<close>; freeing memory that is not allocated has no result.\<close>

definition free_cell :: "'d list_state \<Rightarrow> addr option \<Rightarrow> 'd list_state option" where
  "free_cell l p = (case p of
       None \<Rightarrow> Some l
     | Some a \<Rightarrow> (if cells l a = None then None else Some (l\<lparr>cells := (cells l)(a := None)\<rparr>)))"

definition dealloc :: "'d list_element \<Rightarrow> 'd list_state \<Rightarrow> 'd list_state" where
  "dealloc e l = (if dealloc_func e then l\<lparr>deallocs := deallocs l @ [data_ptr e]\<rparr> else l)"

section \<open>Operations\<close>

definition linked_list_init :: "bool \<Rightarrow> 'd list_ptr option \<Rightarrow> linked_list_err_type \<times> 'd list_ptr option" where
  "linked_list_init calloc_ok list_data =
     (case list_data of
        None \<Rightarrow> (eLINKED_LIST_INVALID_PARAMETER, None)
      | Some old \<Rightarrow>
          (if \<not> calloc_ok then (eLINKED_LIST_FAILURE_GENERAL, Some old)
           else (eLINKED_LIST_SUCCESS,
                 Some (Some \<lparr>cells = (\<lambda>_. None), p_head = None, p_tail = None, deallocs = []\<rparr>))))"

definition linked_list_add ::
    "addr option \<Rightarrow> 'd list_ptr \<Rightarrow> 'd option \<Rightarrow> bool \<Rightarrow> (linked_list_err_type \<times> 'd list_ptr) option" where
  "linked_list_add mallocd list_data data_obj df =
     (case list_data of
        None \<Rightarrow> Some (eLINKED_LIST_INVALID_HANDLE, None)
      | Some l \<Rightarrow>
     (case data_obj of
        None \<Rightarrow> Some (eLINKED_LIST_INVALID_PARAMETER, Some l)
      | Some d \<Rightarrow>
     (case mallocd of
        None \<Rightarrow> Some (eLINKED_LIST_FAILURE_GENERAL, Some l)
      | Some a \<Rightarrow>
          (let l1 = l\<lparr>cells := (cells l)(a := Some \<lparr>el_next = None, el_prev = None, data_ptr = d, dealloc_func = df\<rparr>)\<rparr>;
               tmp = p_head l1;
               l2 = l1\<lparr>p_head := Some a\<rparr>
           in do {
             l3 \<leftarrow> store l2 (p_head l2) (\<lambda>e. e\<lparr>el_next := tmp\<rparr>);
             l4 \<leftarrow> (if tmp \<noteq> None then store l3 tmp (\<lambda>e. e\<lparr>el_prev := p_head l3\<rparr>)
                    else Some (l3\<lparr>p_tail := p_head l3\<rparr>));
             Some (eLINKED_LIST_SUCCESS, Some l4)
           }))))"

text \<open>
  \<open>out\<close> is the variable an output parameter points to (\<open>None\<close>: the parameter is NULL).
\<close>

definition linked_list_remove ::
    "'d list_ptr \<Rightarrow> 'd option option \<Rightarrow> (linked_list_err_type \<times> 'd option option \<times> 'd list_ptr) option" where
  "linked_list_remove list_data out =
     (case list_data of
        None \<Rightarrow> Some (eLINKED_LIST_INVALID_HANDLE, out, None)
      | Some l \<Rightarrow>
          (if out = None then Some (eLINKED_LIST_INVALID_PARAMETER, out, Some l)
           else if p_tail l = None then Some (eLINKED_LIST_UNAVAILABLE_RESOURCE, out, Some l)
           else do {
             let tmp = p_tail l;
             e \<leftarrow> load l tmp;
             let l1 = l\<lparr>p_tail := el_prev e\<rparr>;
             l2 \<leftarrow> (if p_tail l1 \<noteq> None then store l1 (p_tail l1) (\<lambda>e. e\<lparr>el_next := None\<rparr>)
                    else Some (l1\<lparr>p_head := p_tail l1\<rparr>));
             e' \<leftarrow> load l2 tmp;
             l3 \<leftarrow> free_cell l2 tmp;
             Some (eLINKED_LIST_SUCCESS, Some (Some (data_ptr e')), Some l3)
           }))"

definition linked_list_empty :: "'d list_ptr \<Rightarrow> int" where
  "linked_list_empty list_data =
     (case list_data of None \<Rightarrow> - 3 | Some l \<Rightarrow> if p_head l = None then 1 else 0)"

text \<open>The \<open>while\<close> loop of \<open>linked_list_flush\<close>; it may not end, so it is a partial function.\<close>

partial_function (option) flush_loop :: "'d list_state \<Rightarrow> 'd list_state option" where
  "flush_loop l =
     (if p_head l = None then Some l
      else do {
        e \<leftarrow> load l (p_head l);
        let tmp = el_next e;
        let l1 = dealloc e l;
        l2 \<leftarrow> free_cell l1 (p_head l1);
        flush_loop (l2\<lparr>p_head := tmp\<rparr>)
      })"

definition linked_list_flush :: "'d list_ptr \<Rightarrow> (linked_list_err_type \<times> 'd list_ptr) option" where
  "linked_list_flush list_data =
     (case list_data of
        None \<Rightarrow> Some (eLINKED_LIST_INVALID_HANDLE, None)
      | Some l \<Rightarrow> do {
          l1 \<leftarrow> flush_loop l;
          Some (eLINKED_LIST_SUCCESS, Some (l1\<lparr>p_tail := None\<rparr>))
        })"

text \<open>The result of \<open>destroy\<close> also has the data that was deallocated, as the list itself is gone.\<close>

definition linked_list_destroy ::
    "'d list_ptr option \<Rightarrow> (linked_list_err_type \<times> 'd list_ptr option \<times> 'd list) option" where
  "linked_list_destroy list_data =
     (case list_data of
        None \<Rightarrow> Some (eLINKED_LIST_INVALID_HANDLE, None, [])
      | Some p_list \<Rightarrow> do {
          r \<leftarrow> linked_list_flush p_list;
          Some (eLINKED_LIST_SUCCESS, Some None, (case snd r of None \<Rightarrow> [] | Some l \<Rightarrow> deallocs l))
        })"

text \<open>
  \<open>linked_list_search\<close>: the function \<open>equal\<close> of the caller is called with its own
  data, which it may change (state \<open>'s\<close>). Unlinking the found element is \<open>unlink\<close>.
\<close>

definition unlink :: "'d list_state \<Rightarrow> addr \<Rightarrow> 'd list_element \<Rightarrow> 'd list_state option" where
  "unlink l a e = do {
     l1 \<leftarrow> (if el_prev e = None then Some (l\<lparr>p_head := el_next e\<rparr>)
            else store l (el_prev e) (\<lambda>p. p\<lparr>el_next := el_next e\<rparr>));
     e1 \<leftarrow> load l1 (Some a);
     l2 \<leftarrow> (if el_next e1 = None then Some (l1\<lparr>p_tail := el_prev e1\<rparr>)
            else store l1 (el_next e1) (\<lambda>n. n\<lparr>el_prev := el_prev e1\<rparr>));
     store l2 (Some a) (\<lambda>x. x\<lparr>el_prev := None, el_next := None\<rparr>)
   }"

partial_function (option) search_loop ::
    "('d \<Rightarrow> 's \<Rightarrow> bool \<times> 's) \<Rightarrow> bool \<Rightarrow> addr option \<Rightarrow> 's \<Rightarrow> 'd option option \<Rightarrow> 'd list_state \<Rightarrow>
     ('s \<times> 'd option option \<times> 'd list_state) option" where
  "search_loop equal rm_if_found tmp s data_p l =
     (case tmp of
        None \<Rightarrow> Some (s, data_p, l)
      | Some a \<Rightarrow> do {
          e \<leftarrow> load l (Some a);
          let r = equal (data_ptr e) s;
          if fst r then do {
            let data_p' = (if data_p \<noteq> None then Some (Some (data_ptr e)) else data_p);
            if rm_if_found then do {
              l1 \<leftarrow> unlink l a e;
              e1 \<leftarrow> load l1 (Some a);
              let l2 = (if data_p = None then dealloc e1 l1 else l1);
              l3 \<leftarrow> free_cell l2 (Some a);
              Some (snd r, data_p', l3)
            } else Some (snd r, data_p', l)
          } else search_loop equal rm_if_found (el_next e) (snd r) data_p l
        })"

definition linked_list_search ::
    "'d list_ptr \<Rightarrow> 'd option option \<Rightarrow> ('d \<Rightarrow> 's \<Rightarrow> bool \<times> 's) option \<Rightarrow> 's \<Rightarrow> bool \<Rightarrow>
     (linked_list_err_type \<times> 's \<times> 'd option option \<times> 'd list_ptr) option" where
  "linked_list_search list_data data_p equal s rm_if_found =
     (case (list_data, equal) of
        (Some l, Some eq) \<Rightarrow>
          (if p_tail l = None then Some (eLINKED_LIST_UNAVAILABLE_RESOURCE, s, data_p, Some l)
           else do {
             r \<leftarrow> search_loop eq rm_if_found (p_head l) s (if data_p \<noteq> None then Some None else data_p) l;
             Some (eLINKED_LIST_SUCCESS, fst r, fst (snd r), Some (snd (snd r)))
           })
      | _ \<Rightarrow> Some (eLINKED_LIST_INVALID_HANDLE, s, data_p, list_data))"

section \<open>Linked segments\<close>

text \<open>
  The elements at the addresses \<open>as\<close> are linked in this order, the first has \<open>p\<close> as its
  predecessor and the last \<open>n\<close> as its successor.
\<close>

definition first :: "addr list \<Rightarrow> addr option \<Rightarrow> addr option" where
  "first as n = (case as of [] \<Rightarrow> n | a # _ \<Rightarrow> Some a)"

definition final :: "addr option \<Rightarrow> addr list \<Rightarrow> addr option" where
  "final p as = (if as = [] then p else Some (last as))"

fun lseg :: "(addr \<Rightarrow> 'd list_element option) \<Rightarrow> addr option \<Rightarrow> addr list \<Rightarrow> addr option \<Rightarrow> bool" where
  "lseg m p [] n = True"
| "lseg m p (a # as) n = (case m a of
      None \<Rightarrow> False
    | Some e \<Rightarrow> el_prev e = p \<and> el_next e = first as n \<and> lseg m (Some a) as n)"

definition list_rep :: "'d list_state \<Rightarrow> addr list \<Rightarrow> bool" where
  "list_rep l as \<longleftrightarrow> distinct as \<and> dom (cells l) = set as \<and> lseg (cells l) None as None \<and>
     p_head l = first as None \<and> p_tail l = final None as"

definition entry :: "'d list_state \<Rightarrow> addr \<Rightarrow> 'd \<times> bool" where
  "entry l a = (case cells l a of Some e \<Rightarrow> (data_ptr e, dealloc_func e) | None \<Rightarrow> undefined)"

text \<open>The abstraction: the entries from head to tail.\<close>

definition list_abs :: "'d list_state \<Rightarrow> ('d \<times> bool) list \<Rightarrow> bool" where
  "list_abs l xs \<longleftrightarrow> (\<exists>as. list_rep l as \<and> map (entry l) as = xs)"

lemma first_simps [simp]:
  "first [] n = n" "first (a # as) n = Some a" "first (as @ bs) n = first as (first bs n)"
  by (auto simp: first_def split: list.splits)

lemma final_simps [simp]:
  "final p [] = p" "final p (as @ [a]) = Some a" "final p (a # as) = final (Some a) as"
  "final p (as @ bs) = final (final p as) bs"
  by (auto simp: final_def)

lemma first_None [simp]: "first as None = None \<longleftrightarrow> as = []" "None = first as None \<longleftrightarrow> as = []"
  by (cases as; simp)+

lemma final_None [simp]: "final None as = None \<longleftrightarrow> as = []" "None = final None as \<longleftrightarrow> as = []"
  by (auto simp: final_def)

lemma lseg_append: "lseg m p (as @ bs) n \<longleftrightarrow> lseg m p as (first bs n) \<and> lseg m (final p as) bs n"
  by (induction as arbitrary: p) (auto split: option.splits)

lemma lseg_cong: "(\<And>a. a \<in> set as \<Longrightarrow> m a = m' a) \<Longrightarrow> lseg m p as n = lseg m' p as n"
  by (induction as arbitrary: p) (auto split: option.splits)

lemma lseg_upd [simp]: "a \<notin> set as \<Longrightarrow> lseg (m(a := v)) p as n = lseg m p as n"
  by (rule lseg_cong) auto

section \<open>Each operation on a well-linked list\<close>

lemma store_Some: "cells l a = Some e \<Longrightarrow> store l (Some a) f = Some (l\<lparr>cells := (cells l)(a := Some (f e))\<rparr>)"
  by (simp add: store_def)

lemma load_Some [simp]: "load l (Some a) = cells l a"
  by (simp add: load_def)

lemma list_rep_cell: "list_rep l as \<Longrightarrow> a \<in> set as \<Longrightarrow> \<exists>e. cells l a = Some e"
  by (auto simp: list_rep_def)

lemma list_rep_fresh: "list_rep l as \<Longrightarrow> cells l a = None \<longleftrightarrow> a \<notin> set as"
  by (auto simp: list_rep_def)

lemma list_rep_Nil [simp]: "list_rep l [] \<longleftrightarrow> cells l = (\<lambda>_. None) \<and> p_head l = None \<and> p_tail l = None"
  by (auto simp: list_rep_def)

lemma add_rep:
  assumes rep: "list_rep l as" and a: "cells l a = None"
  shows "\<exists>l'. linked_list_add (Some a) (Some l) (Some d) df = Some (eLINKED_LIST_SUCCESS, Some l') \<and>
    list_rep l' (a # as) \<and> map (entry l') (a # as) = (d, df) # map (entry l) as \<and> deallocs l' = deallocs l"
proof (cases as)
  case Nil
  then show ?thesis
    using rep a by (auto simp: linked_list_add_def Let_def store_Some list_rep_def entry_def)
next
  case (Cons b bs)
  obtain e where e: "cells l b = Some e" using list_rep_cell [OF rep] Cons by auto
  have na: "a \<notin> set as" using rep a by (simp add: list_rep_fresh [OF rep, symmetric])
  define l' where "l' = l\<lparr>cells := (cells l)
      (a := Some \<lparr>el_next = Some b, el_prev = None, data_ptr = d, dealloc_func = df\<rparr>,
       b := Some (e\<lparr>el_prev := Some a\<rparr>)), p_head := Some a\<rparr>"
  have "linked_list_add (Some a) (Some l) (Some d) df = Some (eLINKED_LIST_SUCCESS, Some l')"
    using rep Cons na e
    by (auto simp: linked_list_add_def Let_def store_Some list_rep_def l'_def fun_upd_twist)
  moreover have "list_rep l' (a # as)"
    using rep Cons na e by (auto simp: list_rep_def l'_def)
  moreover have "map (entry l') (a # as) = (d, df) # map (entry l) as"
    using na Cons e by (auto simp: entry_def l'_def)
  ultimately show ?thesis by (auto simp: l'_def)
qed

lemma remove_rep:
  assumes rep: "list_rep l (as @ [a])"
  shows "\<exists>l'. linked_list_remove (Some l) (Some out) =
      Some (eLINKED_LIST_SUCCESS, Some (Some (fst (entry l a))), Some l') \<and>
    list_rep l' as \<and> map (entry l') as = map (entry l) as \<and> deallocs l' = deallocs l"
proof -
  obtain e where e: "cells l a = Some e" using list_rep_cell [OF rep] by auto
  show ?thesis
  proof (cases as rule: rev_exhaust)
    case Nil
    then show ?thesis
      using rep e by (auto simp: linked_list_remove_def free_cell_def list_rep_def entry_def fun_eq_iff dom_def)
  next
    case (snoc bs b)
    obtain f where f: "cells l b = Some f" using list_rep_cell [OF rep] snoc by auto
    define l' where "l' = l\<lparr>p_tail := Some b, cells := (cells l)(b := Some (f\<lparr>el_next := None\<rparr>), a := None)\<rparr>"
    have "linked_list_remove (Some l) (Some out) =
        Some (eLINKED_LIST_SUCCESS, Some (Some (fst (entry l a))), Some l')"
      using rep snoc e f
      by (auto simp: linked_list_remove_def free_cell_def list_rep_def entry_def l'_def store_Some lseg_append)
    moreover have "list_rep l' as"
      using rep snoc e f by (auto simp: list_rep_def l'_def lseg_append)
    moreover have "map (entry l') as = map (entry l) as"
      using rep snoc f by (auto simp: entry_def l'_def list_rep_def)
    ultimately show ?thesis by (auto simp: l'_def)
  qed
qed

lemma flush_loop_rep:
  "distinct as \<Longrightarrow> dom (cells l) = set as \<Longrightarrow> lseg (cells l) p as None \<Longrightarrow> p_head l = first as None \<Longrightarrow>
   \<exists>l'. flush_loop l = Some l' \<and> cells l' = (\<lambda>_. None) \<and> p_head l' = None \<and>
     deallocs l' = deallocs l @ map fst (filter snd (map (entry l) as))"
proof (induction as arbitrary: l p)
  case Nil
  then show ?case by (subst flush_loop.simps) auto
next
  case (Cons a as)
  then obtain e where e: "cells l a = Some e" "el_next e = first as None" "lseg (cells l) (Some a) as None"
    by (auto split: option.splits)
  define l1 where "l1 = (dealloc e l)\<lparr>cells := (cells l)(a := None), p_head := el_next e\<rparr>"
  have step: "flush_loop l = flush_loop l1"
    using Cons.prems(4) e
    by (subst flush_loop.simps) (auto simp: free_cell_def dealloc_def l1_def)
  have ent: "map (entry l1) as = map (entry l) as"
    using Cons.prems(1) by (auto simp: entry_def l1_def)
  have c1: "cells l1 = (cells l)(a := None)" "p_head l1 = first as None" by (simp_all add: l1_def e)
  have "dom (cells l1) = set as" unfolding c1 using Cons.prems(1,2) by auto
  moreover have "lseg (cells l1) (Some a) as None" unfolding c1 using Cons.prems(1) e(3) by simp
  ultimately have "\<exists>l'. flush_loop l1 = Some l' \<and> cells l' = (\<lambda>_. None) \<and> p_head l' = None \<and>
     deallocs l' = deallocs l1 @ map fst (filter snd (map (entry l1) as))"
    using Cons.IH Cons.prems(1) c1 by simp
  moreover have "entry l a = (data_ptr e, dealloc_func e)" by (simp add: entry_def e)
  ultimately show ?case
    unfolding step ent by (auto simp: l1_def dealloc_def)
qed

lemma flush_rep:
  assumes "list_rep l as"
  shows "\<exists>l'. linked_list_flush (Some l) = Some (eLINKED_LIST_SUCCESS, Some l') \<and> list_rep l' [] \<and>
     deallocs l' = deallocs l @ map fst (filter snd (map (entry l) as))"
  using flush_loop_rep [of as l None] assms by (auto simp: linked_list_flush_def list_rep_def)

lemma unlink_rep:
  assumes rep: "list_rep l (as @ a # bs)" and e: "cells l a = Some e"
  shows "\<exists>l'. unlink l a e = Some (l'\<lparr>cells := (cells l')(a := Some (e\<lparr>el_prev := None, el_next := None\<rparr>))\<rparr>) \<and>
    list_rep l' (as @ bs) \<and> map (entry l') (as @ bs) = map (entry l) (as @ bs) \<and> deallocs l' = deallocs l"
proof -
  have pn: "el_prev e = final None as" "el_next e = first bs None" using rep e by (auto simp: list_rep_def lseg_append)
  have d: "a \<notin> set as" "a \<notin> set bs" "distinct as" "distinct bs" "set as \<inter> set bs = {}"
    "dom (cells l) = insert a (set as \<union> set bs)"
    using rep by (auto simp: list_rep_def)
  have hd: "p_head l = first as (Some a)" "p_tail l = final (Some a) bs" using rep by (auto simp: list_rep_def)
  have sg: "lseg (cells l) None as (Some a)" "lseg (cells l) (Some a) bs None"
    using rep e by (auto simp: list_rep_def lseg_append)
  show ?thesis
  proof (cases as rule: rev_exhaust)
    case as: Nil
    show ?thesis
    proof (cases bs)
      case Nil
      then show ?thesis
        using as pn d hd e
        by (intro exI [of _ "l\<lparr>p_head := None, p_tail := None, cells := (cells l)(a := None)\<rparr>"])
          (auto simp: unlink_def store_Some fun_eq_iff dom_def)
    next
      case (Cons b cs)
      obtain f where f: "cells l b = Some f" using list_rep_cell [OF rep] Cons by auto
      show ?thesis
        using as pn d hd e f sg Cons
        by (intro exI [of _ "l\<lparr>p_head := Some b, cells := (cells l)(b := Some (f\<lparr>el_prev := None\<rparr>), a := None)\<rparr>"])
          (auto simp: unlink_def store_Some list_rep_def entry_def)
    qed
  next
    case as: (snoc cs c)
    obtain g where g: "cells l c = Some g" using list_rep_cell [OF rep] as by auto
    show ?thesis
    proof (cases bs)
      case Nil
      then show ?thesis
        using as pn d hd e g sg
        by (intro exI [of _ "l\<lparr>p_tail := Some c, cells := (cells l)(c := Some (g\<lparr>el_next := None\<rparr>), a := None)\<rparr>"])
          (auto simp: unlink_def store_Some list_rep_def entry_def lseg_append)
    next
      case (Cons b ds)
      obtain f where f: "cells l b = Some f" using list_rep_cell [OF rep] Cons by auto
      show ?thesis
        using as pn d hd e f g sg Cons
        by (intro exI [of _ "l\<lparr>cells := (cells l)(c := Some (g\<lparr>el_next := Some b\<rparr>),
              b := Some (f\<lparr>el_prev := Some c\<rparr>), a := None)\<rparr>"])
          (auto simp: unlink_def store_Some list_rep_def entry_def lseg_append fun_upd_twist)
    qed
  qed
qed

text \<open>The search as a function of the entries: what is before the match, the match, what is after.\<close>

fun search_list :: "('d \<Rightarrow> 's \<Rightarrow> bool \<times> 's) \<Rightarrow> 's \<Rightarrow> ('d \<times> bool) list \<Rightarrow>
    's \<times> (('d \<times> bool) list \<times> ('d \<times> bool) \<times> ('d \<times> bool) list) option" where
  "search_list eq s [] = (s, None)"
| "search_list eq s (x # xs) =
     (if fst (eq (fst x) s) then (snd (eq (fst x) s), Some ([], x, xs))
      else case search_list eq (snd (eq (fst x) s)) xs of
             (s', None) \<Rightarrow> (s', None)
           | (s', Some (ys, y, zs)) \<Rightarrow> (s', Some (x # ys, y, zs)))"

lemma fst_search_list_Cons:
  "fst (search_list eq s (x # xs)) =
     (if fst (eq (fst x) s) then snd (eq (fst x) s) else fst (search_list eq (snd (eq (fst x) s)) xs))"
  by (auto split: prod.splits option.splits)

lemma search_list_preserves:
  assumes "\<And>a s. P s \<Longrightarrow> P (snd (eq a s))"
  shows "P s \<Longrightarrow> P (fst (search_list eq s xs))"
  by (induction xs arbitrary: s) (simp_all add: fst_search_list_Cons assms del: search_list.simps(2))

lemma search_list_split: "search_list eq s xs = (s', Some (ys, y, zs)) \<Longrightarrow> xs = ys @ y # zs"
  by (induction eq s xs arbitrary: ys rule: search_list.induct) (auto split: if_splits option.splits prod.splits)

text \<open>What the loop leaves, from the result of the search.\<close>

definition search_result ::
    "'d list_state \<Rightarrow> ('d \<times> bool) list \<Rightarrow> (('d \<times> bool) list \<times> ('d \<times> bool) \<times> ('d \<times> bool) list) option \<Rightarrow>
     'd option option \<Rightarrow> bool \<Rightarrow> 'd option option \<Rightarrow> 'd list_state \<Rightarrow> bool" where
  "search_result l xs found data_p rm data_p' l' =
     (case found of
        None \<Rightarrow> data_p' = data_p \<and> l' = l
      | Some (ys, y, zs) \<Rightarrow>
          data_p' = (if data_p = None then None else Some (Some (fst y))) \<and>
          (if rm then list_abs l' (xs @ ys @ zs) \<and>
             deallocs l' = deallocs l @ (if data_p = None \<and> snd y then [fst y] else [])
           else l' = l))"

lemma search_loop_rep:
  "list_rep l (as @ bs) \<Longrightarrow>
   \<exists>l' data_p'. search_loop eq rm (first bs None) s data_p l =
       Some (fst (search_list eq s (map (entry l) bs)), data_p', l') \<and>
     search_result l (map (entry l) as) (snd (search_list eq s (map (entry l) bs))) data_p rm data_p' l'"
proof (induction bs arbitrary: as s)
  case Nil
  then show ?case by (subst search_loop.simps) (simp add: search_result_def)
next
  case (Cons b bs)
  obtain e where e: "cells l b = Some e" using list_rep_cell [OF Cons.prems] by auto
  have ent: "entry l b = (data_ptr e, dealloc_func e)" by (simp add: entry_def e)
  have next_e: "el_next e = first bs None" using Cons.prems e by (auto simp: list_rep_def lseg_append)
  show ?case
  proof (cases "fst (eq (data_ptr e) s)")
    case False
    obtain s1 r where sl: "search_list eq (snd (eq (data_ptr e) s)) (map (entry l) bs) = (s1, r)" by force
    have "\<exists>l' data_p'. search_loop eq rm (first bs None) (snd (eq (data_ptr e) s)) data_p l =
       Some (fst (search_list eq (snd (eq (data_ptr e) s)) (map (entry l) bs)), data_p', l') \<and>
      search_result l (map (entry l) (as @ [b]))
        (snd (search_list eq (snd (eq (data_ptr e) s)) (map (entry l) bs))) data_p rm data_p' l'"
      using Cons.prems by (intro Cons.IH) simp
    then obtain l' data_p' where l': "search_loop eq rm (first bs None) (snd (eq (data_ptr e) s)) data_p l = Some (s1, data_p', l')"
        "search_result l (map (entry l) as @ [entry l b]) r data_p rm data_p' l'"
      by (auto simp: sl)
    have "search_loop eq rm (first (b # bs) None) s data_p l = Some (s1, data_p', l')"
      using False next_e l'(1) by (subst search_loop.simps) (simp add: e)
    moreover have "search_result l (map (entry l) as)
        (snd (search_list eq s (map (entry l) (b # bs)))) data_p rm data_p' l'"
      using False l'(2) by (cases r) (auto simp: sl ent search_result_def)
    ultimately show ?thesis using False sl by (cases r) (auto simp: ent)
  next
    case True
    show ?thesis
    proof (cases rm)
      case False
      then show ?thesis
        using True ent by (subst search_loop.simps) (auto simp: e Let_def search_result_def)
    next
      case rm: True
      obtain l1 where u: "unlink l b e = Some (l1\<lparr>cells := (cells l1)(b := Some (e\<lparr>el_prev := None, el_next := None\<rparr>))\<rparr>)"
        and l1: "list_rep l1 (as @ bs)" "map (entry l1) (as @ bs) = map (entry l) (as @ bs)" "deallocs l1 = deallocs l"
        using unlink_rep [OF Cons.prems e] by auto
      have nb: "b \<notin> set (as @ bs)" using Cons.prems by (auto simp: list_rep_def)
      then have "(cells l1)(b := None) = cells l1" using list_rep_fresh [OF l1(1), of b] by auto
      then have abs: "list_abs (l1\<lparr>deallocs := d, cells := (cells l1)(b := None)\<rparr>) (map (entry l) (as @ bs))"
          "list_abs (l1\<lparr>cells := (cells l1)(b := None)\<rparr>) (map (entry l) (as @ bs))" for d
        using l1 unfolding list_abs_def
        by (auto intro!: exI [of _ "as @ bs"] simp: list_rep_def entry_def)
      then show ?thesis
        using True rm ent l1
        by (subst search_loop.simps)
          (auto simp: e u Let_def search_result_def free_cell_def dealloc_def)
    qed
  qed
qed

section \<open>The operations on the sequence of entries\<close>

lemma add_abs:
  assumes "list_abs l xs" "cells l a = None"
  shows "\<exists>l'. linked_list_add (Some a) (Some l) (Some d) df = Some (eLINKED_LIST_SUCCESS, Some l') \<and>
    list_abs l' ((d, df) # xs) \<and> deallocs l' = deallocs l"
proof -
  from assms(1) obtain as where as: "list_rep l as" "map (entry l) as = xs" by (auto simp: list_abs_def)
  from add_rep [OF as(1) assms(2), of d df] obtain l' where
    l': "linked_list_add (Some a) (Some l) (Some d) df = Some (eLINKED_LIST_SUCCESS, Some l')"
      "list_rep l' (a # as)" "map (entry l') (a # as) = (d, df) # xs" "deallocs l' = deallocs l"
    unfolding as(2) by (elim exE conjE)
  from l'(2,3) have "list_abs l' ((d, df) # xs)" unfolding list_abs_def by (intro exI conjI)
  with l' show ?thesis by simp
qed

lemma remove_abs:
  assumes "list_abs l (xs @ [x])"
  shows "\<exists>l'. linked_list_remove (Some l) (Some out) = Some (eLINKED_LIST_SUCCESS, Some (Some (fst x)), Some l') \<and>
    list_abs l' xs \<and> deallocs l' = deallocs l"
proof -
  from assms obtain bs where bs: "list_rep l bs" "map (entry l) bs = xs @ [x]" unfolding list_abs_def by blast
  then obtain as a where "bs = as @ [a]" by (cases bs rule: rev_exhaust) auto
  with bs have as: "list_rep l (as @ [a])" "map (entry l) as = xs" "entry l a = x" by simp_all
  show ?thesis using remove_rep [OF as(1), of out] unfolding list_abs_def as(2,3) by blast
qed

lemma list_abs_Nil: "list_abs l [] \<longleftrightarrow> cells l = (\<lambda>_. None) \<and> p_head l = None \<and> p_tail l = None"
  by (auto simp: list_abs_def)

lemma list_abs_head: "list_abs l xs \<Longrightarrow> p_head l = None \<longleftrightarrow> xs = []"
  by (auto simp: list_abs_def list_rep_def)

lemma list_abs_tail: "list_abs l xs \<Longrightarrow> p_tail l = None \<longleftrightarrow> xs = []"
  by (auto simp: list_abs_def list_rep_def)

lemma remove_empty_abs:
  "list_abs l [] \<Longrightarrow> linked_list_remove (Some l) (Some out) = Some (eLINKED_LIST_UNAVAILABLE_RESOURCE, Some out, Some l)"
  by (simp add: linked_list_remove_def list_abs_tail)

lemma empty_abs: "list_abs l xs \<Longrightarrow> linked_list_empty (Some l) = (if xs = [] then 1 else 0)"
  by (simp add: linked_list_empty_def list_abs_head)

lemma flush_abs:
  assumes "list_abs l xs"
  shows "\<exists>l'. linked_list_flush (Some l) = Some (eLINKED_LIST_SUCCESS, Some l') \<and> list_abs l' [] \<and>
     deallocs l' = deallocs l @ map fst (filter snd xs)"
proof -
  from assms obtain as where as: "list_rep l as" "map (entry l) as = xs" by (auto simp: list_abs_def)
  from flush_rep [OF as(1)] as(2) show ?thesis unfolding list_abs_def by auto
qed

lemma search_abs:
  assumes abs: "list_abs l xs" and sl: "search_list eq s xs = (s', r)" and ne: "xs \<noteq> []"
  shows "\<exists>l' data_p'. linked_list_search (Some l) data_p (Some eq) s rm =
      Some (eLINKED_LIST_SUCCESS, s', data_p', Some l') \<and>
    search_result l [] r (if data_p \<noteq> None then Some None else data_p) rm data_p' l'"
proof -
  from abs obtain as where as: "list_rep l as" "map (entry l) as = xs" by (auto simp: list_abs_def)
  then have h: "p_head l = first as None" "p_tail l \<noteq> None" using ne by (auto simp: list_rep_def)
  from search_loop_rep [of l "[]" as eq rm s "if data_p \<noteq> None then Some None else data_p"] as sl h
  show ?thesis by (auto simp: linked_list_search_def)
qed

lemma lseg_unique:
  "lseg m p as None \<Longrightarrow> lseg m p' bs None \<Longrightarrow> first as None = first bs None \<Longrightarrow> as = bs"
proof (induction as arbitrary: p p' bs)
  case (Cons a as)
  then obtain cs where bs: "bs = a # cs" by (cases bs) auto
  from Cons.prems bs have "lseg m (Some a) as None" "lseg m (Some a) cs None" "first as None = first cs None"
    by (auto split: option.splits)
  from Cons.IH [OF this] bs show ?case by simp
qed simp

lemma list_abs_unique: "list_abs l xs \<Longrightarrow> list_abs l ys \<Longrightarrow> xs = ys"
  unfolding list_abs_def list_rep_def using lseg_unique [of "cells l" None _ None] by metis

section \<open>First in, first out\<close>

text \<open>A list that is filled at one end and emptied at the other, and runs of operations on it.\<close>

datatype ('a, 'x) fifo_op = Put 'a 'x | Get

fun run_fifo :: "('a \<Rightarrow> 'x \<Rightarrow> 'l \<Rightarrow> 'l option) \<Rightarrow> ('l \<Rightarrow> ('y \<times> 'l) option) \<Rightarrow> ('a, 'x) fifo_op list \<Rightarrow> 'l \<Rightarrow>
    ('y list \<times> 'l) option" where
  "run_fifo put get [] l = Some ([], l)"
| "run_fifo put get (Put a x # ops) l = (case put a x l of None \<Rightarrow> None | Some l' \<Rightarrow> run_fifo put get ops l')"
| "run_fifo put get (Get # ops) l = (case get l of
      None \<Rightarrow> None
    | Some (y, l') \<Rightarrow> (case run_fifo put get ops l' of None \<Rightarrow> None | Some (ys, l'') \<Rightarrow> Some (y # ys, l'')))"

fun puts :: "('a, 'x) fifo_op list \<Rightarrow> 'x list" where
  "puts [] = []"
| "puts (Put a x # ops) = x # puts ops"
| "puts (Get # ops) = puts ops"

locale fifo =
  fixes abs :: "'l \<Rightarrow> 'x list \<Rightarrow> bool" and put :: "'a \<Rightarrow> 'x \<Rightarrow> 'l \<Rightarrow> 'l option"
    and get :: "'l \<Rightarrow> ('y \<times> 'l) option" and val :: "'x \<Rightarrow> 'y"
  assumes put_abs: "abs l xs \<Longrightarrow> put a x l = Some l' \<Longrightarrow> abs l' (x # xs)"
    and get_abs: "abs l (xs @ [x]) \<Longrightarrow> \<exists>l'. get l = Some (val x, l') \<and> abs l' xs"
    and get_empty: "abs l [] \<Longrightarrow> get l = None"
begin

lemma get_Some:
  assumes "abs l xs" "get l = Some (y, l')"
  obtains ys x where "xs = ys @ [x]" "y = val x" "abs l' ys"
  using assms get_empty [of l] get_abs [of l] by (cases xs rule: rev_exhaust) auto

lemma fifo_order:
  "abs l xs \<Longrightarrow> run_fifo put get ops l = Some (ys, l') \<Longrightarrow>
   \<exists>xs'. abs l' xs' \<and> ys @ map val (rev xs') = map val (rev xs) @ map val (puts ops)"
proof (induction ops arbitrary: l xs ys)
  case (Cons op ops)
  show ?case
  proof (cases op)
    case (Put a x)
    with Cons.prems(2) obtain l1 where l1: "put a x l = Some l1" "run_fifo put get ops l1 = Some (ys, l')"
      by (auto split: option.splits)
    from Cons.IH [OF put_abs [OF Cons.prems(1) l1(1)] l1(2)] Put show ?thesis by simp
  next
    case Get
    with Cons.prems(2) obtain y l1 zs where l1: "get l = Some (y, l1)" "run_fifo put get ops l1 = Some (zs, l')"
        "ys = y # zs"
      by (auto split: option.splits)
    from get_Some [OF Cons.prems(1) l1(1)] obtain us x where x: "xs = us @ [x]" "y = val x" "abs l1 us" .
    from Cons.IH [OF x(3) l1(2)] Get show ?thesis by (simp add: l1 x)
  qed
qed auto

end

definition ll_put :: "addr \<Rightarrow> 'd \<times> bool \<Rightarrow> 'd list_state \<Rightarrow> 'd list_state option" where
  "ll_put a x l = (if cells l a \<noteq> None then None
     else case linked_list_add (Some a) (Some l) (Some (fst x)) (snd x) of
            Some (eLINKED_LIST_SUCCESS, Some l') \<Rightarrow> Some l'
          | _ \<Rightarrow> None)"

definition ll_get :: "'d list_state \<Rightarrow> ('d \<times> 'd list_state) option" where
  "ll_get l = (case linked_list_remove (Some l) (Some None) of
       Some (eLINKED_LIST_SUCCESS, Some (Some d), Some l') \<Rightarrow> Some (d, l')
     | _ \<Rightarrow> None)"

interpretation llq: fifo list_abs ll_put ll_get fst
proof (unfold_locales, goal_cases)
  case (1 l xs a x l')
  then show ?case using add_abs [of l xs a "fst x" "snd x"] by (auto simp: ll_put_def split: if_splits)
next
  case (2 l xs x)
  then show ?case using remove_abs [of l xs x None] by (auto simp: ll_get_def)
next
  case (3 l)
  then show ?case using remove_empty_abs [of l None] by (simp add: ll_get_def)
qed

section \<open>Properties\<close>

definition new_list :: "'d list_state" where
  "new_list = \<lparr>cells = (\<lambda>_. None), p_head = None, p_tail = None, deallocs = []\<rparr>"

lemma new_list_abs [simp]: "list_abs new_list []"
  by (simp add: list_abs_Nil new_list_def)

text \<open>C28: Starting from a list that holds \<open>xs\<close>, every run of additions (with fresh memory) and
  successful removals takes the data out in the order it went in: what came out, followed by
  what is left, is what was there followed by what was added.\<close>

theorem linked_list_fifo:
  "list_abs l xs \<Longrightarrow> run_fifo ll_put ll_get ops l = Some (out, l') \<Longrightarrow>
   \<exists>xs'. list_abs l' xs' \<and> out @ map fst (rev xs') = map fst (rev xs) @ map fst (puts ops)"
  by (rule llq.fifo_order)

theorem linked_list_fifo_witness:
  "\<exists>l'. run_fifo ll_put ll_get [Put 7 (''a'', True), Put 3 (''b'', False), Get] new_list = Some ([''a''], l') \<and>
     (\<exists>xs'. list_abs l' xs' \<and> map fst (rev xs') = [''b''])"
proof -
  let ?ops = "[Put 7 (''a'', True), Put 3 (''b'', False), Get]"
  have run: "\<exists>l'. run_fifo ll_put ll_get ?ops new_list = Some ([''a''], l')"
    by (simp add: ll_put_def ll_get_def new_list_def linked_list_add_def linked_list_remove_def store_def
      free_cell_def Let_def)
  then obtain l' where l': "run_fifo ll_put ll_get ?ops new_list = Some ([''a''], l')" by blast
  from linked_list_fifo [OF new_list_abs l'] l' show ?thesis by auto
qed

text \<open>Flushing ends, frees every element and calls the deallocation function of the caller
  exactly for the data that was added with one, each once, from head to tail.\<close>

theorem linked_list_flush_frees:
  "list_abs l xs \<Longrightarrow>
   \<exists>l'. linked_list_flush (Some l) = Some (eLINKED_LIST_SUCCESS, Some l') \<and> cells l' = (\<lambda>_. None) \<and>
     p_head l' = None \<and> p_tail l' = None \<and> deallocs l' = deallocs l @ map fst (filter snd xs)"
  using flush_abs [of l xs] by (auto simp: list_abs_Nil)

theorem linked_list_flush_frees_witness:
  "\<exists>l l'. ll_put 7 (''a'', True) new_list = Some l \<and> linked_list_flush (Some l) = Some (eLINKED_LIST_SUCCESS, Some l') \<and>
     deallocs l' = [''a'']"
proof -
  obtain l where l: "ll_put 7 (''a'', True) new_list = Some l" "deallocs l = []"
    by (simp add: ll_put_def new_list_def linked_list_add_def store_def Let_def)
  from linked_list_flush_frees [OF llq.put_abs [OF new_list_abs l(1)]] l show ?thesis by auto
qed

text \<open>Searching a non-empty list ends; the predicate of the caller is called on the entries
  from head to tail up to the first match, with its own state passed along. The match is
  copied out, and removed when asked: the other entries keep their order, and the data is
  deallocated exactly when it is not copied out and was added with a function.\<close>

theorem linked_list_search_first:
  "list_abs l xs \<Longrightarrow> xs \<noteq> [] \<Longrightarrow> search_list equal s xs = (s', Some (ys, y, zs)) \<Longrightarrow>
   xs = ys @ y # zs \<and>
   (\<exists>l' data_p'. linked_list_search (Some l) data_p (Some equal) s rm =
       Some (eLINKED_LIST_SUCCESS, s', data_p', Some l') \<and>
     data_p' = (if data_p = None then None else Some (Some (fst y))) \<and>
     (rm \<longrightarrow> list_abs l' (ys @ zs) \<and>
        deallocs l' = deallocs l @ (if data_p = None \<and> snd y then [fst y] else [])) \<and>
     (\<not> rm \<longrightarrow> l' = l))"
  using search_abs [of l xs equal s s' "Some (ys, y, zs)" data_p rm] search_list_split [of equal s xs s' ys y zs]
  by (auto simp: search_result_def split: if_splits)

theorem linked_list_search_first_witness:
  "\<exists>l l'. ll_put 7 (5 :: nat, True) new_list = Some l \<and>
     linked_list_search (Some l) None (Some (\<lambda>d n. (d = 5, Suc n))) 0 True =
       Some (eLINKED_LIST_SUCCESS, 1 :: nat, None, Some l') \<and> list_abs l' [] \<and> deallocs l' = [5]"
proof -
  obtain l where l: "ll_put 7 (5 :: nat, True) new_list = Some l" "deallocs l = []"
    by (simp add: ll_put_def new_list_def linked_list_add_def store_def Let_def)
  have abs: "list_abs l [(5 :: nat, True)]" by (rule llq.put_abs [OF new_list_abs l(1)])
  have s: "search_list (\<lambda>d n. (d = 5, Suc n)) 0 [(5 :: nat, True)] = (1, Some ([], (5, True), []))" by simp
  from linked_list_search_first [OF abs _ s, of None True] l show ?thesis by auto
qed

end
