(* ===== verification/MsgQ.thy ===== *)
theory MsgQ
  imports LinkedList "HOL-Library.Sublist"
begin

text \<open>
  The blocking message queue of \<open>gps/utils/msg_q.c\<close> on top of the linked list. Each
  function runs under the queue's mutex, so it is one atomic step; \<open>pthread_cond_wait\<close> gives the
  mutex up, so \<open>msg_q_rcv\<close> is a first step up to the wait and one step per wake-up. The condition
  variable is the set of the threads that wait on it and the set of those that have been woken
  and do not hold the mutex yet; which waiter a signal wakes is not determined, and a waiter may
  be woken without a signal.
\<close>

section \<open>The queue\<close>

datatype msq_q_err_type =
  eMSG_Q_SUCCESS | eMSG_Q_FAILURE_GENERAL | eMSG_Q_INVALID_PARAMETER | eMSG_Q_INVALID_HANDLE
| eMSG_Q_UNAVAILABLE_RESOURCE | eMSG_Q_INSUFFICIENT_BUFFER

type_synonym thread = nat

record 'd msg_q =
  msg_list :: "'d list_ptr"
  unblocked :: bool
  waiting :: "thread set"
  woken :: "thread set"

type_synonym 'd msg_q_ptr = "'d msg_q option"

fun convert_linked_list_err_type :: "linked_list_err_type \<Rightarrow> msq_q_err_type" where
  "convert_linked_list_err_type eLINKED_LIST_SUCCESS = eMSG_Q_SUCCESS"
| "convert_linked_list_err_type eLINKED_LIST_INVALID_PARAMETER = eMSG_Q_INVALID_PARAMETER"
| "convert_linked_list_err_type eLINKED_LIST_INVALID_HANDLE = eMSG_Q_INVALID_HANDLE"
| "convert_linked_list_err_type eLINKED_LIST_UNAVAILABLE_RESOURCE = eMSG_Q_UNAVAILABLE_RESOURCE"
| "convert_linked_list_err_type eLINKED_LIST_INSUFFICIENT_BUFFER = eMSG_Q_INSUFFICIENT_BUFFER"
| "convert_linked_list_err_type eLINKED_LIST_FAILURE_GENERAL = eMSG_Q_FAILURE_GENERAL"

text \<open>
  \<open>msg_q_init\<close>: whether each allocation and initialisation succeeds is given; the result has
  the resources that are still held afterwards.
\<close>

datatype q_resource = QueueMem | ListMem | Mutex | CondVar

definition msg_q_init ::
    "bool \<Rightarrow> bool \<Rightarrow> bool \<Rightarrow> bool \<Rightarrow> 'd msg_q_ptr option \<Rightarrow>
     msq_q_err_type \<times> 'd msg_q_ptr option \<times> q_resource list" where
  "msg_q_init calloc_ok list_ok mutex_ok cond_ok msg_q_data =
     (if msg_q_data = None then (eMSG_Q_INVALID_PARAMETER, msg_q_data, [])
      else if \<not> calloc_ok then (eMSG_Q_FAILURE_GENERAL, msg_q_data, [])
      else case linked_list_init list_ok (Some None) of
        (err, lp) \<Rightarrow>
          if err \<noteq> eLINKED_LIST_SUCCESS
          then (eMSG_Q_FAILURE_GENERAL, msg_q_data, remove1 QueueMem [QueueMem])
          else if \<not> mutex_ok
          then (eMSG_Q_FAILURE_GENERAL, msg_q_data, remove1 QueueMem (remove1 ListMem [QueueMem, ListMem]))
          else if \<not> cond_ok
          then (eMSG_Q_FAILURE_GENERAL, msg_q_data,
                remove1 QueueMem (remove1 Mutex (remove1 ListMem [QueueMem, ListMem, Mutex])))
          else (eMSG_Q_SUCCESS,
                Some (Some \<lparr>msg_list = (case lp of Some l \<Rightarrow> l | None \<Rightarrow> None), unblocked = False,
                            waiting = {}, woken = {}\<rparr>),
                [QueueMem, ListMem, Mutex, CondVar]))"

text \<open>\<open>msg_q_init2\<close> returns the queue, or NULL.\<close>

definition msg_q_init2 :: "bool \<Rightarrow> bool \<Rightarrow> bool \<Rightarrow> bool \<Rightarrow> 'd msg_q_ptr" where
  "msg_q_init2 calloc_ok list_ok mutex_ok cond_ok =
     (case msg_q_init calloc_ok list_ok mutex_ok cond_ok (Some None) of
        (err, q, _) \<Rightarrow> if err \<noteq> eMSG_Q_SUCCESS then None else (case q of Some p \<Rightarrow> p | None \<Rightarrow> None))"

text \<open>\<open>msg_q_destroy\<close>: the result also has the data deallocated. A NULL queue is dereferenced.\<close>

definition msg_q_destroy ::
    "'d msg_q_ptr option \<Rightarrow> (msq_q_err_type \<times> 'd msg_q_ptr option \<times> 'd list) option" where
  "msg_q_destroy msg_q_data =
     (case msg_q_data of
        None \<Rightarrow> Some (eMSG_Q_INVALID_HANDLE, None, [])
      | Some None \<Rightarrow> None
      | Some (Some q) \<Rightarrow> do {
          r \<leftarrow> linked_list_destroy (Some (msg_list q));
          Some (eMSG_Q_SUCCESS, Some None, snd (snd r))
        })"

definition cond_signal :: "thread option \<Rightarrow> 'd msg_q \<Rightarrow> 'd msg_q" where
  "cond_signal who q = (case who of
       None \<Rightarrow> q
     | Some t \<Rightarrow> if t \<in> waiting q then q\<lparr>waiting := waiting q - {t}, woken := insert t (woken q)\<rparr> else q)"

definition cond_broadcast :: "'d msg_q \<Rightarrow> 'd msg_q" where
  "cond_broadcast q = q\<lparr>waiting := {}, woken := woken q \<union> waiting q\<rparr>"

definition msg_q_snd ::
    "addr option \<Rightarrow> thread option \<Rightarrow> 'd msg_q_ptr \<Rightarrow> 'd option \<Rightarrow> bool \<Rightarrow> (msq_q_err_type \<times> 'd msg_q_ptr) option" where
  "msg_q_snd mallocd who msg_q_data msg_obj df =
     (case msg_q_data of
        None \<Rightarrow> Some (eMSG_Q_INVALID_HANDLE, None)
      | Some q \<Rightarrow>
          if msg_obj = None then Some (eMSG_Q_INVALID_PARAMETER, Some q)
          else if unblocked q then Some (eMSG_Q_UNAVAILABLE_RESOURCE, Some q)
          else do {
            r \<leftarrow> linked_list_add mallocd (msg_list q) msg_obj df;
            Some (convert_linked_list_err_type (fst r), Some (cond_signal who (q\<lparr>msg_list := snd r\<rparr>)))
          })"

text \<open>What a receiver comes to: it waits, or it returns with an error code and its output variable.\<close>

datatype 'd rcv_outcome = Waits | Returns msq_q_err_type "'d option option"

text \<open>One round of the \<open>while\<close> loop of \<open>msg_q_rcv\<close> and what follows it.\<close>

definition rcv_round ::
    "thread \<Rightarrow> 'd msg_q \<Rightarrow> 'd option option \<Rightarrow> ('d rcv_outcome \<times> 'd msg_q) option" where
  "rcv_round t q msg_obj =
     (if linked_list_empty (msg_list q) \<noteq> 0 \<and> \<not> unblocked q
      then Some (Waits, q\<lparr>waiting := insert t (waiting q)\<rparr>)
      else do {
        r \<leftarrow> linked_list_remove (msg_list q) msg_obj;
        Some (Returns (convert_linked_list_err_type (fst r)) (fst (snd r)), q\<lparr>msg_list := snd (snd r)\<rparr>)
      })"

definition msg_q_rcv ::
    "thread \<Rightarrow> 'd msg_q_ptr \<Rightarrow> 'd option option \<Rightarrow> ('d rcv_outcome \<times> 'd msg_q_ptr) option" where
  "msg_q_rcv t msg_q_data msg_obj =
     (case msg_q_data of
        None \<Rightarrow> Some (Returns eMSG_Q_INVALID_HANDLE msg_obj, None)
      | Some q \<Rightarrow>
          if msg_obj = None then Some (Returns eMSG_Q_INVALID_PARAMETER msg_obj, Some q)
          else if unblocked q then Some (Returns eMSG_Q_UNAVAILABLE_RESOURCE msg_obj, Some q)
          else do {
            r \<leftarrow> rcv_round t q msg_obj;
            Some (fst r, Some (snd r))
          })"

text \<open>A woken thread has the mutex again and goes on inside \<open>msg_q_rcv\<close>.\<close>

definition msg_q_rcv_wake ::
    "thread \<Rightarrow> 'd msg_q \<Rightarrow> 'd option option \<Rightarrow> ('d rcv_outcome \<times> 'd msg_q) option" where
  "msg_q_rcv_wake t q msg_obj = rcv_round t (q\<lparr>woken := woken q - {t}\<rparr>) msg_obj"

definition msg_q_flush :: "'d msg_q_ptr \<Rightarrow> (msq_q_err_type \<times> 'd msg_q_ptr) option" where
  "msg_q_flush msg_q_data =
     (case msg_q_data of
        None \<Rightarrow> Some (eMSG_Q_INVALID_HANDLE, None)
      | Some q \<Rightarrow> do {
          r \<leftarrow> linked_list_flush (msg_list q);
          Some (convert_linked_list_err_type (fst r), Some (q\<lparr>msg_list := snd r\<rparr>))
        })"

definition msg_q_unblock :: "'d msg_q_ptr \<Rightarrow> msq_q_err_type \<times> 'd msg_q_ptr" where
  "msg_q_unblock msg_q_data =
     (case msg_q_data of
        None \<Rightarrow> (eMSG_Q_INVALID_HANDLE, None)
      | Some q \<Rightarrow>
          if unblocked q then (eMSG_Q_UNAVAILABLE_RESOURCE, Some q)
          else (eMSG_Q_SUCCESS, Some (cond_broadcast (q\<lparr>unblocked := True\<rparr>))))"

section \<open>Threads at a queue\<close>

text \<open>
  A queue in use, with what the threads did with it: \<open>accepted\<close> are the messages whose sending
  succeeded, \<open>gone\<close> those that left the queue, to a receiver (\<open>True\<close>) or to a flush (\<open>False\<close>).
  \<open>outcomes\<close> is what the calls of \<open>msg_q_rcv\<close> returned.
\<close>

record 'd q_sys =
  queue :: "'d msg_q"
  accepted :: "'d list"
  gone :: "('d \<times> bool) list"
  outcomes :: "(thread \<times> msq_q_err_type \<times> 'd option option) list"

definition after_rcv :: "thread \<Rightarrow> 'd rcv_outcome \<Rightarrow> 'd msg_q \<Rightarrow> 'd q_sys \<Rightarrow> 'd q_sys" where
  "after_rcv t r q s =
     (case r of
        Waits \<Rightarrow> s\<lparr>queue := q\<rparr>
      | Returns err out \<Rightarrow>
          s\<lparr>queue := q, outcomes := outcomes s @ [(t, err, out)],
            gone := gone s @ (case (err, out) of (eMSG_Q_SUCCESS, Some (Some d)) \<Rightarrow> [(d, True)] | _ \<Rightarrow> [])\<rparr>)"

definition queued :: "'d list_ptr \<Rightarrow> ('d \<times> bool) list \<Rightarrow> bool" where
  "queued p xs = (case p of None \<Rightarrow> False | Some l \<Rightarrow> list_abs l xs)"

definition fresh_in :: "'d list_ptr \<Rightarrow> addr \<Rightarrow> bool" where
  "fresh_in p a = (case p of None \<Rightarrow> False | Some l \<Rightarrow> cells l a = None)"

inductive q_step :: "'d q_sys \<Rightarrow> 'd q_sys \<Rightarrow> bool" where
  snd: "(case m of None \<Rightarrow> True | Some a \<Rightarrow> fresh_in (msg_list (queue s)) a) \<Longrightarrow>
    (waiting (queue s) \<noteq> {} \<Longrightarrow> \<exists>t \<in> waiting (queue s). who = Some t) \<Longrightarrow>
    msg_q_snd m who (Some (queue s)) (Some d) df = Some (err, Some q) \<Longrightarrow>
    q_step s (s\<lparr>queue := q, accepted := accepted s @ (if err = eMSG_Q_SUCCESS then [d] else [])\<rparr>)"
| rcv: "t \<notin> waiting (queue s) \<Longrightarrow> t \<notin> woken (queue s) \<Longrightarrow>
    msg_q_rcv t (Some (queue s)) (Some out) = Some (r, Some q) \<Longrightarrow>
    q_step s (after_rcv t r q s)"
| wake: "t \<in> woken (queue s) \<Longrightarrow>
    msg_q_rcv_wake t (queue s) (Some out) = Some (r, q) \<Longrightarrow>
    q_step s (after_rcv t r q s)"
| spurious: "t \<in> waiting (queue s) \<Longrightarrow>
    q_step s (s\<lparr>queue := cond_signal (Some t) (queue s)\<rparr>)"
| flush: "queued (msg_list (queue s)) xs \<Longrightarrow>
    msg_q_flush (Some (queue s)) = Some (err, Some q) \<Longrightarrow>
    q_step s (s\<lparr>queue := q, gone := gone s @ map (\<lambda>x. (fst x, False)) (rev xs)\<rparr>)"
| unblock: "msg_q_unblock (Some (queue s)) = (err, Some q) \<Longrightarrow> q_step s (s\<lparr>queue := q\<rparr>)"

definition init_q :: "'d q_sys" where
  "init_q = \<lparr>queue = \<lparr>msg_list = Some new_list, unblocked = False, waiting = {}, woken = {}\<rparr>,
     accepted = [], gone = [], outcomes = []\<rparr>"

inductive q_reachable :: "'d q_sys \<Rightarrow> bool" where
  init: "q_reachable init_q"
| step: "q_reachable s \<Longrightarrow> q_step s t \<Longrightarrow> q_reachable t"

section \<open>What each operation does\<close>

lemma queuedE: "queued p xs \<Longrightarrow> (\<And>l. p = Some l \<Longrightarrow> list_abs l xs \<Longrightarrow> P) \<Longrightarrow> P"
  by (cases p) (auto simp: queued_def)

lemma queued_empty: "queued p xs \<Longrightarrow> linked_list_empty p \<noteq> 0 \<longleftrightarrow> xs = []"
  by (erule queuedE) (simp add: empty_abs)

lemma rcv_round_wait:
  "queued (msg_list q) [] \<Longrightarrow> \<not> unblocked q \<Longrightarrow> rcv_round t q out = Some (Waits, q\<lparr>waiting := insert t (waiting q)\<rparr>)"
  by (simp add: rcv_round_def queued_empty)

lemma rcv_round_unblocked:
  "queued (msg_list q) [] \<Longrightarrow> unblocked q \<Longrightarrow>
   rcv_round t q (Some out) = Some (Returns eMSG_Q_UNAVAILABLE_RESOURCE (Some out), q)"
  by (erule queuedE) (simp add: rcv_round_def remove_empty_abs)

lemma rcv_round_message:
  assumes "queued (msg_list q) (ys @ [y])"
  shows "\<exists>lp. rcv_round t q (Some out) = Some (Returns eMSG_Q_SUCCESS (Some (Some (fst y))), q\<lparr>msg_list := lp\<rparr>) \<and>
    queued lp ys"
  using assms
proof (rule queuedE)
  fix l
  assume l: "msg_list q = Some l" "list_abs l (ys @ [y])"
  from remove_abs [OF l(2), of out] show ?thesis
    by (auto simp: rcv_round_def l empty_abs [OF l(2)] queued_def)
qed

lemma snd_cases:
  assumes q: "queued (msg_list q) xs" and fresh: "case m of None \<Rightarrow> True | Some a \<Rightarrow> fresh_in (msg_list q) a"
    and snd: "msg_q_snd m who (Some q) (Some d) df = Some (err, Some q')"
  obtains (refused) "unblocked q" "err = eMSG_Q_UNAVAILABLE_RESOURCE" "q' = q"
    | (failed) "\<not> unblocked q" "err \<noteq> eMSG_Q_SUCCESS" "q' = cond_signal who q"
    | (sent) lp where "\<not> unblocked q" "err = eMSG_Q_SUCCESS" "q' = cond_signal who (q\<lparr>msg_list := lp\<rparr>)"
        "queued lp ((d, df) # xs)"
proof (cases "unblocked q")
  case True
  then show ?thesis using snd by (intro refused) (auto simp: msg_q_snd_def)
next
  case False
  from q show ?thesis
  proof (rule queuedE)
    fix l
    assume l: "msg_list q = Some l" "list_abs l xs"
    show ?thesis
    proof (cases m)
      case None
      have "q\<lparr>msg_list := Some l\<rparr> = q" using l(1) by (cases q) simp
      then show ?thesis
        using None False snd l(1)
        by (intro failed) (auto simp: msg_q_snd_def linked_list_add_def \<open>q\<lparr>msg_list := Some l\<rparr> = q\<close>)
    next
      case (Some a)
      then have "cells l a = None" using fresh l by (simp add: fresh_in_def)
      from add_abs [OF l(2) this, of d df] show ?thesis
        using Some False snd l(1)
        by (auto simp: msg_q_snd_def queued_def intro: sent)
    qed
  qed
qed

section \<open>The invariant of a queue in use\<close>

definition q_inv :: "'d q_sys \<Rightarrow> ('d \<times> bool) list \<Rightarrow> bool" where
  "q_inv s xs \<longleftrightarrow> queued (msg_list (queue s)) xs \<and>
     accepted s = map fst (gone s) @ map fst (rev xs) \<and>
     finite (waiting (queue s)) \<and> finite (woken (queue s)) \<and> waiting (queue s) \<inter> woken (queue s) = {} \<and>
     (waiting (queue s) \<noteq> {} \<longrightarrow> length xs \<le> card (woken (queue s))) \<and>
     (unblocked (queue s) \<longrightarrow> waiting (queue s) = {})"

lemma q_invI [intro?]:
  "queued (msg_list (queue s)) xs \<Longrightarrow> accepted s = map fst (gone s) @ map fst (rev xs) \<Longrightarrow>
   finite (waiting (queue s)) \<Longrightarrow> finite (woken (queue s)) \<Longrightarrow> waiting (queue s) \<inter> woken (queue s) = {} \<Longrightarrow>
   (waiting (queue s) \<noteq> {} \<Longrightarrow> length xs \<le> card (woken (queue s))) \<Longrightarrow>
   (unblocked (queue s) \<Longrightarrow> waiting (queue s) = {}) \<Longrightarrow> q_inv s xs"
  by (simp add: q_inv_def)

lemma cond_signal_simps [simp]:
  "msg_list (cond_signal who q) = msg_list q" "unblocked (cond_signal who q) = unblocked q"
  by (auto simp: cond_signal_def split: option.splits)

lemma cond_signal_sets:
  "waiting (cond_signal who q) = waiting q - (case who of None \<Rightarrow> {} | Some t \<Rightarrow> {t})"
  "woken (cond_signal who q) = woken q \<union> (case who of None \<Rightarrow> {} | Some t \<Rightarrow> {t} \<inter> waiting q)"
  by (auto simp: cond_signal_def split: option.splits)

lemma q_inv_signal:
  assumes inv: "q_inv s xs" and who: "waiting (queue s) \<noteq> {} \<Longrightarrow> \<exists>t \<in> waiting (queue s). who = Some t"
    and q': "msg_list q' = lp" "queued lp ys" "unblocked q' = unblocked (queue s)"
      "waiting q' = waiting (queue s)" "woken q' = woken (queue s)"
    and len: "length ys \<le> Suc (length xs)"
    and acc: "acc = map fst (gone s) @ map fst (rev ys)"
  shows "q_inv (s\<lparr>queue := cond_signal who q', accepted := acc\<rparr>) ys"
proof
  let ?q = "cond_signal who q'"
  note i = inv [unfolded q_inv_def]
  show "queued (msg_list (queue (s\<lparr>queue := ?q, accepted := acc\<rparr>))) ys" using q' by simp
  show "length ys \<le> card (woken (queue (s\<lparr>queue := ?q, accepted := acc\<rparr>)))"
    if "waiting (queue (s\<lparr>queue := ?q, accepted := acc\<rparr>)) \<noteq> {}"
  proof -
    have w: "waiting (queue s) \<noteq> {}" using that q' by (auto simp: cond_signal_sets)
    with who obtain t where t: "t \<in> waiting (queue s)" "who = Some t" by blast
    then have "woken ?q = insert t (woken (queue s))" "t \<notin> woken (queue s)"
      using i q' by (auto simp: cond_signal_sets)
    then show ?thesis using i w len by simp
  qed
qed (use inv q' acc in \<open>auto simp: q_inv_def cond_signal_sets split: option.splits\<close>)

lemma q_inv_after_rcv:
  assumes inv: "q_inv s xs" and q: "waiting q = waiting (queue s)" "t \<notin> waiting q" "t \<notin> woken q"
      "msg_list q = msg_list (queue s)" "unblocked q = unblocked (queue s)"
      "woken q = woken (queue s) - {t}"
    and r: "rcv_round t q (Some out) = Some (r, q')"
  shows "\<exists>ys. q_inv (after_rcv t r q' s) ys"
proof -
  note i = inv [unfolded q_inv_def]
  have card: "card (woken (queue s)) \<le> Suc (card (woken q))"
  proof -
    have "card (woken (queue s)) \<le> card (insert t (woken q))" using i q(6) by (intro card_mono) auto
    also have "\<dots> \<le> Suc (card (woken q))" using i q(6) by (simp add: card_insert_if) arith
    finally show ?thesis .
  qed
  show ?thesis
  proof (cases xs rule: rev_exhaust)
    case Nil
    show ?thesis
    proof (cases "unblocked q")
      case True
      then have "r = Returns eMSG_Q_UNAVAILABLE_RESOURCE (Some out)" "q' = q"
        using r Nil i q(4) rcv_round_unblocked [of q t out] by auto
      then show ?thesis
        using i Nil q True
        by (intro exI [of _ "[]"]) (auto simp: q_inv_def after_rcv_def)
    next
      case False
      then have "r = Waits" "q' = q\<lparr>waiting := insert t (waiting q)\<rparr>"
        using r Nil i q(4) rcv_round_wait [of q t "Some out"] by auto
      then show ?thesis
        using i Nil q False
        by (intro exI [of _ "[]"]) (auto simp: q_inv_def after_rcv_def)
    qed
  next
    case (snoc ys y)
    then obtain lp where "r = Returns eMSG_Q_SUCCESS (Some (Some (fst y)))" "q' = q\<lparr>msg_list := lp\<rparr>" "queued lp ys"
      using r i q(4) rcv_round_message [of q ys y t out] by auto
    then show ?thesis
      using i snoc q card
      by (intro exI [of _ ys]) (auto simp: q_inv_def after_rcv_def)
  qed
qed

lemma q_step_inv: "q_step s t \<Longrightarrow> q_inv s xs \<Longrightarrow> \<exists>ys. q_inv t ys"
proof (induction rule: q_step.induct)
  case (snd m s who d df err q)
  note i = snd.prems [unfolded q_inv_def]
  from i have qd: "queued (msg_list (queue s)) xs" by simp
  show ?case
    using qd snd.hyps(1,3)
  proof (cases rule: snd_cases)
    case refused
    then show ?thesis using snd.prems by (intro exI [of _ xs]) (simp add: q_inv_def)
  next
    case failed
    have "q_inv (s\<lparr>queue := cond_signal who (queue s), accepted := accepted s\<rparr>) xs"
      by (rule q_inv_signal [OF snd.prems snd.hyps(2)]) (use i qd in auto)
    then show ?thesis using failed by auto
  next
    case (sent lp)
    have "q_inv (s\<lparr>queue := cond_signal who (queue s\<lparr>msg_list := lp\<rparr>), accepted := accepted s @ [d]\<rparr>) ((d, df) # xs)"
      by (rule q_inv_signal [OF snd.prems snd.hyps(2), where lp = lp]) (use i sent in auto)
    then show ?thesis using sent by auto
  qed
next
  case (rcv t s out r q)
  note i = rcv.prems [unfolded q_inv_def]
  show ?case
  proof (cases "unblocked (queue s)")
    case True
    with rcv.hyps(3) have "r = Returns eMSG_Q_UNAVAILABLE_RESOURCE (Some out)" "q = queue s"
      by (auto simp: msg_q_rcv_def)
    then show ?thesis using i by (intro exI [of _ xs]) (auto simp: q_inv_def after_rcv_def)
  next
    case False
    with rcv.hyps(3) have "rcv_round t (queue s) (Some out) = Some (r, q)"
      by (auto simp: msg_q_rcv_def split: Option.bind_splits)
    from q_inv_after_rcv [OF rcv.prems refl _ _ refl refl _ this] show ?thesis using rcv.hyps by auto
  qed
next
  case (wake t s out r q)
  note i = wake.prems [unfolded q_inv_def]
  from wake.hyps(2) have "rcv_round t (queue s\<lparr>woken := woken (queue s) - {t}\<rparr>) (Some out) = Some (r, q)"
    by (simp add: msg_q_rcv_wake_def)
  from q_inv_after_rcv [OF wake.prems _ _ _ _ _ _ this] show ?case using wake.hyps i by auto
next
  case (spurious t s)
  then show ?case
    by (intro exI [of _ xs]) (auto simp: q_inv_def cond_signal_sets card_insert_if)
next
  case (flush s ys err q)
  note i = flush.prems [unfolded q_inv_def]
  from flush.hyps(1) obtain l where l: "msg_list (queue s) = Some l" "list_abs l ys" by (rule queuedE)
  have "ys = xs" using i l by (auto simp: queued_def intro: list_abs_unique)
  from flush_abs [OF l(2)] flush.hyps(2) show ?case
    using i by (intro exI [of _ "[]"])
      (auto simp: q_inv_def msg_q_flush_def l queued_def \<open>ys = xs\<close> disjoint_iff rev_map comp_def)
next
  case (unblock s err q)
  then show ?case
    by (intro exI [of _ xs]) (auto simp: q_inv_def msg_q_unblock_def cond_broadcast_def split: if_splits)
qed

lemma q_reachable_inv: "q_reachable s \<Longrightarrow> \<exists>xs. q_inv s xs"
proof (induction rule: q_reachable.induct)
  case init
  show ?case by (intro exI [of _ "[]"]) (simp add: q_inv_def init_q_def queued_def)
next
  case (step s t)
  then show ?case using q_step_inv by blast
qed

text \<open>The messages that calls of \<open>msg_q_rcv\<close> have returned.\<close>

definition received :: "'d q_sys \<Rightarrow> 'd list" where
  "received s = concat (map (\<lambda>(t, err, out). case (err, out) of (eMSG_Q_SUCCESS, Some (Some d)) \<Rightarrow> [d] | _ \<Rightarrow> [])
     (outcomes s))"

lemma received_after_rcv:
  "received s = map fst (filter snd (gone s)) \<Longrightarrow>
   received (after_rcv t r q s) = map fst (filter snd (gone (after_rcv t r q s)))"
  by (auto simp: after_rcv_def received_def split: rcv_outcome.splits msq_q_err_type.splits option.splits)

lemma q_received: "q_reachable s \<Longrightarrow> received s = map fst (filter snd (gone s))"
proof (induction rule: q_reachable.induct)
  case init
  show ?case by (simp add: received_def init_q_def)
next
  case (step s t)
  from step.hyps(2) show ?case
    by (cases rule: q_step.cases)
      (use step.IH in \<open>simp_all add: received_after_rcv, simp_all add: received_def filter_map comp_def\<close>)
qed

lemma subseq_filter_append: "subseq (map fst (filter P gs)) (map fst gs @ ys)"
  by (rule subseq_order.trans [of _ "map fst gs"]) (auto intro: subseq_map)

section \<open>Properties\<close>

text \<open>A run for the examples: thread 1 waits, thread 0 sends 5, which wakes it.\<close>

definition one_woken :: "nat q_sys" where
  "one_woken = \<lparr>queue = \<lparr>msg_list = Some \<lparr>cells = (\<lambda>_. None)(7 := Some
       \<lparr>el_next = None, el_prev = None, data_ptr = 5, dealloc_func = False\<rparr>),
       p_head = Some 7, p_tail = Some 7, deallocs = []\<rparr>, unblocked = False, waiting = {}, woken = {1}\<rparr>,
     accepted = [5], gone = [], outcomes = []\<rparr>"

lemmas q_run_simps = msg_q_snd_def msg_q_rcv_def msg_q_rcv_wake_def rcv_round_def linked_list_empty_def
  linked_list_add_def linked_list_remove_def store_def free_cell_def cond_signal_def after_rcv_def
  new_list_def init_q_def one_woken_def Let_def

lemma one_woken_reachable: "q_reachable one_woken"
proof -
  define s1 where "s1 = (init_q :: nat q_sys)\<lparr>queue := queue init_q\<lparr>waiting := {1}\<rparr>\<rparr>"
  have "q_step init_q (after_rcv 1 Waits (queue s1) init_q)"
    by (rule q_step.rcv [where out = None]) (simp_all add: q_run_simps s1_def)
  moreover have "after_rcv 1 Waits (queue s1) init_q = s1" by (simp add: after_rcv_def s1_def)
  ultimately have 1: "q_reachable s1" by (metis q_reachable.intros)
  have "q_step s1 (s1\<lparr>queue := queue one_woken, accepted := accepted s1 @ (if eMSG_Q_SUCCESS = eMSG_Q_SUCCESS then [5] else [])\<rparr>)"
    by (rule q_step.snd [where m = "Some 7" and who = "Some 1" and df = False and d = 5])
      (simp_all add: q_run_simps s1_def fresh_in_def)
  moreover have "s1\<lparr>queue := queue one_woken, accepted := accepted s1 @ (if eMSG_Q_SUCCESS = eMSG_Q_SUCCESS then [5] else [])\<rparr> = one_woken"
    by (simp add: s1_def init_q_def one_woken_def)
  ultimately show ?thesis using 1 q_reachable.step by metis
qed

text \<open>C26: However senders, receivers, flushes and unblocking interleave, no message is lost,
  duplicated or reordered: the messages accepted are those that have left the queue, in that
  order, followed by those in it; and the receivers have got a subsequence of them, in order.\<close>

theorem msg_q_order:
  "q_reachable s \<Longrightarrow>
   (\<exists>xs. queued (msg_list (queue s)) xs \<and> accepted s = map fst (gone s) @ map fst (rev xs)) \<and>
   received s = map fst (filter snd (gone s)) \<and> subseq (received s) (accepted s)"
  using q_reachable_inv [of s] q_received [of s] by (auto simp: q_inv_def subseq_filter_append)

theorem msg_q_order_witness:
  "q_reachable one_woken \<and> accepted one_woken = [5] \<and> received one_woken = [] \<and>
   (\<exists>xs. queued (msg_list (queue one_woken)) xs \<and> map fst (rev xs) = [5])"
  using msg_q_order [OF one_woken_reachable] one_woken_reachable by (auto simp: one_woken_def received_def)

text \<open>C40: No wake-up is lost: while a receiver sleeps on the condition variable, at least as many
  woken receivers are on their way as there are messages in the queue.\<close>

theorem msg_q_no_lost_wakeup:
  "q_reachable s \<Longrightarrow> queued (msg_list (queue s)) xs \<Longrightarrow> waiting (queue s) \<noteq> {} \<Longrightarrow>
   length xs \<le> card (woken (queue s))"
proof -
  assume a: "q_reachable s" "queued (msg_list (queue s)) xs" "waiting (queue s) \<noteq> {}"
  from q_reachable_inv [OF a(1)] obtain ys where ys: "q_inv s ys" by blast
  then have "xs = ys" using a(2) by (auto simp: q_inv_def queued_def intro: list_abs_unique split: option.splits)
  then show ?thesis using ys a(3) by (simp add: q_inv_def)
qed

theorem msg_q_no_lost_wakeup_witness:
  "\<exists>s :: nat q_sys. q_reachable s \<and> waiting (queue s) \<noteq> {} \<and> queued (msg_list (queue s)) [] \<and>
     length ([] :: (nat \<times> bool) list) \<le> card (woken (queue s))"
proof -
  define s :: "nat q_sys" where "s = after_rcv 1 Waits (queue init_q\<lparr>waiting := {1}\<rparr>) init_q"
  have "q_step init_q s"
    unfolding s_def by (rule q_step.rcv [where out = None]) (simp_all add: q_run_simps)
  then have 1: "q_reachable s" using q_reachable.intros by blast
  have 2: "waiting (queue s) \<noteq> {}" "queued (msg_list (queue s)) []"
    by (simp_all add: s_def after_rcv_def init_q_def queued_def)
  show ?thesis using msg_q_no_lost_wakeup [OF 1 2(2,1)] 1 2 by blast
qed

text \<open>Once the queue is unblocked it stays so: nobody waits on it any more, nothing more is
  accepted, and every further call to receive returns, be it new or just woken.\<close>

theorem msg_q_unblock_final:
  "q_reachable s \<Longrightarrow> unblocked (queue s) \<Longrightarrow> q_step s s' \<Longrightarrow>
   unblocked (queue s') \<and> waiting (queue s') = {} \<and> accepted s' = accepted s \<and>
   msg_q_rcv t (Some (queue s)) (Some out) =
     Some (Returns eMSG_Q_UNAVAILABLE_RESOURCE (Some out), Some (queue s)) \<and>
   (\<exists>err out' q. msg_q_rcv_wake t (queue s) (Some out) = Some (Returns err out', q))"
proof -
  assume a: "q_reachable s" "unblocked (queue s)" "q_step s s'"
  from q_reachable_inv [OF a(1)] obtain xs where xs: "q_inv s xs" by blast
  from q_reachable_inv [OF q_reachable.step [OF a(1,3)]] obtain ys where ys: "q_inv s' ys" by blast
  have u: "unblocked (queue s') \<and> accepted s' = accepted s"
    using a(3,2)
  proof (cases rule: q_step.cases)
    case (snd m who d df err q)
    with xs a(2) show ?thesis by (auto simp: msg_q_snd_def)
  next
    case (rcv t out r q)
    with a(2) show ?thesis by (auto simp: msg_q_rcv_def after_rcv_def)
  next
    case (wake t out r q)
    with a(2) show ?thesis
      by (auto simp: msg_q_rcv_wake_def rcv_round_def after_rcv_def split: Option.bind_splits)
  next
    case (flush xs err q)
    with a(2) show ?thesis by (auto simp: msg_q_flush_def split: Option.bind_splits)
  qed (auto simp: msg_q_unblock_def)
  have q: "queued (msg_list (queue s\<lparr>woken := woken (queue s) - {t}\<rparr>)) xs" using xs by (simp add: q_inv_def)
  have "\<exists>err out' q. msg_q_rcv_wake t (queue s) (Some out) = Some (Returns err out', q)"
  proof (cases xs rule: rev_exhaust)
    case Nil
    with q a(2) show ?thesis by (simp add: msg_q_rcv_wake_def rcv_round_unblocked)
  next
    case (snoc zs z)
    with q have "queued (msg_list (queue s\<lparr>woken := woken (queue s) - {t}\<rparr>)) (zs @ [z])" by simp
    from rcv_round_message [OF this, of t out] show ?thesis by (auto simp: msg_q_rcv_wake_def)
  qed
  with u ys a(2) show ?thesis by (simp add: q_inv_def msg_q_rcv_def)
qed

theorem msg_q_unblock_final_witness:
  "(let s = (init_q :: nat q_sys)\<lparr>queue := queue init_q\<lparr>unblocked := True\<rparr>\<rparr> in
    q_reachable s \<and> q_step s s \<and> waiting (queue s) = {} \<and>
    msg_q_rcv 3 (Some (queue s)) (Some None) = Some (Returns eMSG_Q_UNAVAILABLE_RESOURCE (Some None), Some (queue s)))"
proof -
  define s :: "nat q_sys" where "s = init_q\<lparr>queue := queue init_q\<lparr>unblocked := True\<rparr>\<rparr>"
  have "q_step init_q s"
    unfolding s_def
    by (rule q_step.unblock [where err = eMSG_Q_SUCCESS]) (simp add: msg_q_unblock_def cond_broadcast_def init_q_def)
  then have r: "q_reachable s" using q_reachable.intros by blast
  have "q_step s (s\<lparr>queue := queue s\<rparr>)"
    by (rule q_step.unblock [where err = eMSG_Q_UNAVAILABLE_RESOURCE]) (simp add: msg_q_unblock_def s_def)
  then have st: "q_step s s" by simp
  have u: "unblocked (queue s)" by (simp add: s_def)
  from msg_q_unblock_final [OF r u st, of 3 None] r st show ?thesis by (simp add: Let_def s_def)
qed

text \<open>Creating a queue either succeeds with an empty, blocked-mode queue and all its resources,
  or fails, leaves the caller's pointer alone and holds on to nothing.\<close>

theorem msg_q_init_all_or_nothing:
  "msg_q_init calloc_ok list_ok mutex_ok cond_ok (Some p) =
     (if calloc_ok \<and> list_ok \<and> mutex_ok \<and> cond_ok
      then (eMSG_Q_SUCCESS, Some (Some (queue init_q)), [QueueMem, ListMem, Mutex, CondVar])
      else (eMSG_Q_FAILURE_GENERAL, Some p, []))"
  by (auto simp: msg_q_init_def linked_list_init_def init_q_def new_list_def)

end
