(* ===== verification/Agps.thy ===== *)
theory Agps
  imports LinkedList
begin

text \<open>
  The assisted-GPS resource manager of \<open>gps/loc_api/libloc_api_50001/loc_eng_agps.cpp\<close>: clients
  (class \<open>Subscriber\<close> and its four subclasses) subscribe to a network interface, a state
  machine (\<open>AgpsStateMachine\<close>, and \<open>DSStateMachine\<close> for emergency calls) asks the framework
  for it and passes its answers on to the subscribers. The subscriber list is the linked
  list of \<open>linked_list.c\<close>; its search is \<open>search_list\<close>, which theory \<open>LinkedList\<close> shows it to
  compute. Subscriber objects have addresses, so that a notification that points to a deleted
  one can be told: what the code then reads is arbitrary (\<open>stale\<close>), and \<open>uaf\<close> records it.
\<close>

section \<open>Data\<close>

datatype AgpsRsrcStatus =
  RSRC_SUBSCRIBE | RSRC_UNSUBSCRIBE | RSRC_GRANTED | RSRC_RELEASED | RSRC_DENIED | RSRC_STATUS_MAX

datatype servicerType = servicerTypeNoCbParam | servicerTypeAgps | servicerTypeExt

datatype AGpsStatusValue = GPS_REQUEST_AGPS_DATA_CONN | GPS_RELEASE_AGPS_DATA_CONN

datatype AGpsExtType = AGPS_TYPE_INVALID | AGPS_TYPE_ANY | AGPS_TYPE_SUPL | AGPS_TYPE_C2K
  | AGPS_TYPE_WWAN_ANY | AGPS_TYPE_WIFI | AGPS_TYPE_SUPL_ES

datatype AGpsBearerType = AGPS_APN_BEARER_INVALID | AGPS_APN_BEARER_IPV4 | AGPS_APN_BEARER_IPV6
  | AGPS_APN_BEARER_IPV4V6

datatype sender_id = SENDER_ID_QUIPC | SENDER_ID_MSAPM | SENDER_ID_MSAPU | SENDER_ID_GPSONE_DAEMON
  | SENDER_ID_MODEM | SENDER_ID_UNKNOWN

datatype conn_status = GPSONE_LOC_API_IF_REQUEST_SUCCESS | GPSONE_LOC_API_IF_RELEASE_SUCCESS
  | GPSONE_LOC_API_IF_FAILURE

text \<open>The subclasses of \<open>Subscriber\<close>, with their fields.\<close>

datatype sub_class =
    BITSubscriber (mIPv6Addr: "uint8 list")
  | ATLSubscriber (mBackwardCompatibleMode: bool)
  | WIFISubscriber (mSSID: "string option") (mPassword: "string option") (senderId: sender_id) (mWifiInactive: bool)
  | DSSubscriber (mDsInactive: bool)

record subscriber =
  ID :: uint32
  cls :: sub_class

definition INADDR_NONE :: uint32 where
  "INADDR_NONE = 0xFFFFFFFF"

definition SSID_BUF_SIZE :: nat where
  "SSID_BUF_SIZE = 33"

definition strlcpy :: "nat \<Rightarrow> string \<Rightarrow> string" where
  "strlcpy n s = take (n - 1) (cstr s)"

definition newWIFISubscriber :: "string option \<Rightarrow> string option \<Rightarrow> sender_id \<Rightarrow> uint32 \<Rightarrow> subscriber" where
  "newWIFISubscriber ssid password sid sid_num =
     \<lparr>ID = sid_num, cls = WIFISubscriber (map_option (strlcpy SSID_BUF_SIZE) ssid)
        (map_option (strlcpy SSID_BUF_SIZE) password) sid False\<rparr>"

definition newBITSubscriber :: "uint32 \<Rightarrow> uint8 list option \<Rightarrow> subscriber" where
  "newBITSubscriber ipv4 ipv6 =
     \<lparr>ID = ipv4, cls = BITSubscriber (case ipv6 of None \<Rightarrow> 0 # replicate 15 0 | Some a \<Rightarrow> take 16 a)\<rparr>"

text \<open>\<open>clone\<close>: the copies of the closable classes start active.\<close>

definition clone :: "subscriber \<Rightarrow> subscriber" where
  "clone s = (case cls s of
       WIFISubscriber ssid pw sid _ \<Rightarrow>
         s\<lparr>cls := WIFISubscriber (map_option (strlcpy SSID_BUF_SIZE) ssid) (map_option (strlcpy SSID_BUF_SIZE) pw) sid False\<rparr>
     | DSSubscriber _ \<Rightarrow> s\<lparr>cls := DSSubscriber False\<rparr>
     | _ \<Rightarrow> s)"

definition isInactive :: "subscriber \<Rightarrow> bool" where
  "isInactive s = (case cls s of WIFISubscriber _ _ _ i \<Rightarrow> i | DSSubscriber i \<Rightarrow> i | _ \<Rightarrow> False)"

definition waitForCloseComplete :: "subscriber \<Rightarrow> bool" where
  "waitForCloseComplete s = (case cls s of WIFISubscriber _ _ _ _ \<Rightarrow> True | DSSubscriber _ \<Rightarrow> True | _ \<Rightarrow> False)"

definition set_inactive :: "subscriber \<Rightarrow> subscriber" where
  "set_inactive s = (case cls s of
       WIFISubscriber a b c _ \<Rightarrow> s\<lparr>cls := WIFISubscriber a b c True\<rparr>
     | DSSubscriber _ \<Rightarrow> s\<lparr>cls := DSSubscriber True\<rparr>
     | _ \<Rightarrow> s)"

text \<open>\<open>setWifiInfo\<close>: the network name and password put into a request.\<close>

definition wifi_info :: "subscriber \<Rightarrow> string \<times> string" where
  "wifi_info s = (case cls s of
       WIFISubscriber ssid pw _ _ \<Rightarrow>
         ((case ssid of None \<Rightarrow> [] | Some n \<Rightarrow> strlcpy SSID_BUF_SIZE n),
          (case pw of None \<Rightarrow> [] | Some n \<Rightarrow> strlcpy SSID_BUF_SIZE n))
     | _ \<Rightarrow> ([], []))"

text \<open>What the code does to the outside, in order.\<close>

datatype action =
    ServerDataConn sender_id conn_status
  | AtlOpenStatus uint32 int "string option" AGpsBearerType AGpsExtType
  | AtlCloseStatus uint32 int
  | NifRequest AGpsExtType AGpsStatusValue "uint32 option" "string \<times> string"
  | PlainRequest
  | ExtRequest AGpsStatusValue
  | RequestATL uint32 AGpsExtType
  | RequestSuplES uint32
  | CloseDataCall
  | TimerStart nat

datatype agps_state = Released | Pending | Acquired | Releasing

text \<open>
  A state machine. \<open>mSubscribers\<close> holds the addresses of the subscriber objects from head to
  tail; \<open>mem\<close> is their memory, \<open>freed\<close> what has been deleted. \<open>isDS\<close> says that the object is a
  \<open>DSStateMachine\<close>, whose retry counter is \<open>mRetries\<close>.
\<close>

record agps_sm =
  mSubscribers :: "addr list"
  mem :: "addr \<Rightarrow> subscriber"
  freed :: "addr list"
  next_obj :: addr
  mState :: agps_state
  mServicer :: servicerType
  mType :: AGpsExtType
  mAPN :: "string option"
  mAPNLen :: nat
  mBearer :: AGpsBearerType
  mEnforceSingleSubscriber :: bool
  isDS :: bool
  mRetries :: uint8
  actions :: "action list"
  uaf :: bool

text \<open>
  What the code cannot know: the bytes found where a deleted subscriber was, the bytes at the
  place of \<open>mIPv6Addr\<close> in an object of another class, the result of the client's callback that
  opens or closes a data call, and whether a delay timer could be started.
\<close>

record agps_env =
  stale :: "addr \<Rightarrow> subscriber"
  overlay :: "subscriber \<Rightarrow> uint8 list"
  callbackExt :: "AGpsStatusValue \<Rightarrow> int"
  timer_handle :: bool

definition new_sm :: "servicerType \<Rightarrow> AGpsExtType \<Rightarrow> bool \<Rightarrow> agps_sm" where
  "new_sm servType type enforceSingleSubscriber =
     \<lparr>mSubscribers = [], mem = (\<lambda>_. \<lparr>ID = 0, cls = ATLSubscriber False\<rparr>), freed = [], next_obj = 0,
      mState = Released, mServicer = servType, mType = type, mAPN = None, mAPNLen = 0,
      mBearer = AGPS_APN_BEARER_INVALID, mEnforceSingleSubscriber = enforceSingleSubscriber,
      isDS = False, mRetries = 0, actions = [], uaf = False\<rparr>"

definition new_ds_sm :: "servicerType \<Rightarrow> agps_sm" where
  "new_ds_sm type = (new_sm type AGPS_TYPE_INVALID False)\<lparr>isDS := True, mRetries := 0\<rparr>"

section \<open>Notifications\<close>

text \<open>The receiver of a notification: an object on the caller's stack, or one of the list.\<close>

datatype rcver_ref = Stack subscriber | Obj addr

record notification =
  rcver :: "rcver_ref option"
  groupID :: int
  rsrcStatus :: AgpsRsrcStatus
  postNotifyDelete :: bool

definition BROADCAST_ALL :: int where "BROADCAST_ALL = - 2147483648"
definition BROADCAST_ACTIVE :: int where "BROADCAST_ACTIVE = - 2147483647"
definition BROADCAST_INACTIVE :: int where "BROADCAST_INACTIVE = - 2147483646"

definition broadcast :: "int \<Rightarrow> AgpsRsrcStatus \<Rightarrow> bool \<Rightarrow> notification" where
  "broadcast grp st del = \<lparr>rcver = None, groupID = grp, rsrcStatus = st, postNotifyDelete = del\<rparr>"

definition notify_to :: "rcver_ref \<Rightarrow> AgpsRsrcStatus \<Rightarrow> bool \<Rightarrow> notification" where
  "notify_to r st del = \<lparr>rcver = Some r, groupID = - 1, rsrcStatus = st, postNotifyDelete = del\<rparr>"

text \<open>\<open>strncmp\<close> on two IPv6 buffers: they are compared up to the first zero byte.\<close>

definition ipv6_equal :: "uint8 list \<Rightarrow> uint8 list \<Rightarrow> bool" where
  "ipv6_equal a b \<longleftrightarrow> takeWhile (\<lambda>x. x \<noteq> 0) (take 16 a) = takeWhile (\<lambda>x. x \<noteq> 0) (take 16 b)"

text \<open>\<open>BITSubscriber::equals\<close> casts the other object to its own class.\<close>

definition ipv6_bytes :: "agps_env \<Rightarrow> subscriber \<Rightarrow> uint8 list" where
  "ipv6_bytes env s = (case cls s of BITSubscriber a \<Rightarrow> a | _ \<Rightarrow> overlay env s)"

definition sub_equals :: "agps_env \<Rightarrow> subscriber \<Rightarrow> subscriber \<Rightarrow> bool" where
  "sub_equals env self s = (case cls self of
       BITSubscriber a \<Rightarrow> ID self = ID s \<and> (INADDR_NONE \<noteq> ID self \<or> ipv6_equal a (ipv6_bytes env s))
     | _ \<Rightarrow> ID self = ID s)"

definition read_sub :: "agps_env \<Rightarrow> agps_sm \<Rightarrow> rcver_ref \<Rightarrow> subscriber" where
  "read_sub env m r = (case r of
       Stack s \<Rightarrow> s
     | Obj a \<Rightarrow> if a \<in> set (freed m) then stale env a else mem m a)"

definition touch :: "rcver_ref \<Rightarrow> agps_sm \<Rightarrow> agps_sm" where
  "touch r m = (case r of Stack s \<Rightarrow> m | Obj a \<Rightarrow> if a \<in> set (freed m) then m\<lparr>uaf := True\<rparr> else m)"

definition forMe :: "agps_env \<Rightarrow> notification \<Rightarrow> subscriber \<Rightarrow> agps_sm \<Rightarrow> bool \<times> agps_sm" where
  "forMe env n self m = (case rcver n of
       Some r \<Rightarrow> (sub_equals env self (read_sub env m r), touch r m)
     | None \<Rightarrow> (BROADCAST_ALL = groupID n \<or>
                (BROADCAST_ACTIVE = groupID n \<and> \<not> isInactive self) \<or>
                (BROADCAST_INACTIVE = groupID n \<and> isInactive self), m))"

definition act :: "action \<Rightarrow> agps_sm \<Rightarrow> agps_sm" where
  "act a m = m\<lparr>actions := actions m @ [a]\<rparr>"

fun informStatus :: "AgpsRsrcStatus \<Rightarrow> uint32 \<Rightarrow> agps_sm \<Rightarrow> agps_sm" where
  "informStatus RSRC_UNSUBSCRIBE i m = act (AtlCloseStatus i 1) m"
| "informStatus RSRC_RELEASED i m = act CloseDataCall m"
| "informStatus RSRC_DENIED i m = act (RequestATL i AGPS_TYPE_SUPL) (m\<lparr>mRetries := 0\<rparr>)"
| "informStatus RSRC_GRANTED i m = act (AtlOpenStatus i 1 None AGPS_APN_BEARER_INVALID AGPS_TYPE_INVALID) m"
| "informStatus _ i m = m"

definition atl_type :: "bool \<Rightarrow> agps_sm \<Rightarrow> AGpsExtType" where
  "atl_type bcm m = (if bcm then AGPS_TYPE_INVALID else mType m)"

text \<open>\<open>notifyRsrcStatus\<close> of the four classes.\<close>

definition bit_notify :: "AgpsRsrcStatus \<Rightarrow> agps_sm \<Rightarrow> bool \<times> agps_sm" where
  "bit_notify st m = (case st of
       RSRC_UNSUBSCRIBE \<Rightarrow> (True, act (ServerDataConn SENDER_ID_GPSONE_DAEMON GPSONE_LOC_API_IF_RELEASE_SUCCESS) m)
     | RSRC_RELEASED \<Rightarrow> (True, act (ServerDataConn SENDER_ID_GPSONE_DAEMON GPSONE_LOC_API_IF_RELEASE_SUCCESS) m)
     | RSRC_DENIED \<Rightarrow> (True, act (ServerDataConn SENDER_ID_GPSONE_DAEMON GPSONE_LOC_API_IF_FAILURE) m)
     | RSRC_GRANTED \<Rightarrow> (True, act (ServerDataConn SENDER_ID_GPSONE_DAEMON GPSONE_LOC_API_IF_REQUEST_SUCCESS) m)
     | _ \<Rightarrow> (False, m))"

definition atl_notify :: "uint32 \<Rightarrow> bool \<Rightarrow> AgpsRsrcStatus \<Rightarrow> agps_sm \<Rightarrow> bool \<times> agps_sm" where
  "atl_notify i bcm st m = (case st of
       RSRC_UNSUBSCRIBE \<Rightarrow> (True, act (AtlCloseStatus i 1) m)
     | RSRC_RELEASED \<Rightarrow> (True, act (AtlCloseStatus i 1) m)
     | RSRC_DENIED \<Rightarrow> (True, act (AtlOpenStatus i 0 (mAPN m) (mBearer m) (atl_type bcm m)) m)
     | RSRC_GRANTED \<Rightarrow> (True, act (AtlOpenStatus i 1 (mAPN m) (mBearer m) (atl_type bcm m)) m)
     | _ \<Rightarrow> (False, m))"

definition wifi_notify :: "sender_id \<Rightarrow> AgpsRsrcStatus \<Rightarrow> agps_sm \<Rightarrow> bool \<times> agps_sm" where
  "wifi_notify sid st m = (case st of
       RSRC_UNSUBSCRIBE \<Rightarrow> (True, m)
     | RSRC_RELEASED \<Rightarrow> (True, act (ServerDataConn sid GPSONE_LOC_API_IF_RELEASE_SUCCESS) m)
     | RSRC_DENIED \<Rightarrow> (True, act (ServerDataConn sid GPSONE_LOC_API_IF_FAILURE) m)
     | RSRC_GRANTED \<Rightarrow> (True, act (ServerDataConn sid GPSONE_LOC_API_IF_REQUEST_SUCCESS) m)
     | _ \<Rightarrow> (False, m))"

definition ds_notify :: "uint32 \<Rightarrow> AgpsRsrcStatus \<Rightarrow> agps_sm \<Rightarrow> bool \<times> agps_sm" where
  "ds_notify i st m =
     (if st \<in> {RSRC_UNSUBSCRIBE, RSRC_RELEASED, RSRC_DENIED, RSRC_GRANTED} then (True, informStatus st i m)
      else (False, m))"

definition deliver_status :: "subscriber \<Rightarrow> AgpsRsrcStatus \<Rightarrow> agps_sm \<Rightarrow> bool \<times> agps_sm" where
  "deliver_status self st m = (case cls self of
       BITSubscriber _ \<Rightarrow> bit_notify st m
     | ATLSubscriber bcm \<Rightarrow> atl_notify (ID self) bcm st m
     | WIFISubscriber _ _ sid _ \<Rightarrow> wifi_notify sid st m
     | DSSubscriber _ \<Rightarrow> ds_notify (ID self) st m)"

definition notifyRsrcStatus :: "agps_env \<Rightarrow> notification \<Rightarrow> subscriber \<Rightarrow> agps_sm \<Rightarrow> bool \<times> agps_sm" where
  "notifyRsrcStatus env n self m =
     (case forMe env n self m of
        (notify, m1) \<Rightarrow> if notify then deliver_status self (rsrcStatus n) m1 else (False, m1))"

section \<open>The subscriber list\<close>

text \<open>The comparison functions given to \<open>linked_list_search\<close>; the list holds addresses.\<close>

definition hasSubscriber :: "agps_env \<Rightarrow> notification \<Rightarrow> addr \<Rightarrow> agps_sm \<Rightarrow> bool \<times> agps_sm" where
  "hasSubscriber env n a m = forMe env n (mem m a) m"

definition notifySubscriber :: "agps_env \<Rightarrow> notification \<Rightarrow> addr \<Rightarrow> agps_sm \<Rightarrow> bool \<times> agps_sm" where
  "notifySubscriber env n a m =
     (case notifyRsrcStatus env n (mem m a) m of (r, m1) \<Rightarrow> (r \<and> postNotifyDelete n, m1))"

text \<open>
  \<open>linked_list_search\<close> on the subscriber list: every element was added with \<open>deleteObj\<close>. The
  result is the address that was copied out, if any.
\<close>

definition sub_search :: "(addr \<Rightarrow> agps_sm \<Rightarrow> bool \<times> agps_sm) \<Rightarrow> bool \<Rightarrow> agps_sm \<Rightarrow> addr option \<times> agps_sm" where
  "sub_search eq rm_if_found m =
     (case search_list eq m (map (\<lambda>a. (a, True)) (mSubscribers m)) of
        (m', None) \<Rightarrow> (None, m')
      | (m', Some (ys, y, zs)) \<Rightarrow>
          (Some (fst y), if rm_if_found then m'\<lparr>mSubscribers := map fst ys @ map fst zs\<rparr> else m'))"

definition delete_sub :: "addr \<Rightarrow> agps_sm \<Rightarrow> agps_sm" where
  "delete_sub a m = m\<lparr>freed := freed m @ [a]\<rparr>"

text \<open>The parts of a state machine that notifications never change.\<close>

definition same_shape :: "agps_sm \<Rightarrow> agps_sm \<Rightarrow> bool" where
  "same_shape m m' \<longleftrightarrow> mSubscribers m' = mSubscribers m \<and> mem m' = mem m \<and> freed m' = freed m \<and>
     next_obj m' = next_obj m \<and> mState m' = mState m \<and> mServicer m' = mServicer m \<and> mType m' = mType m \<and>
     mAPN m' = mAPN m \<and> mBearer m' = mBearer m \<and> mEnforceSingleSubscriber m' = mEnforceSingleSubscriber m \<and>
     isDS m' = isDS m"

lemma same_shape_refl [simp]: "same_shape m m"
  by (simp add: same_shape_def)

lemma same_shape_trans: "same_shape a b \<Longrightarrow> same_shape b c \<Longrightarrow> same_shape a c"
  by (simp add: same_shape_def)

lemma shape_act [simp]: "same_shape m (act x m)"
  by (simp add: same_shape_def act_def)

lemma shape_touch [simp]: "same_shape m (touch r m)"
  by (simp add: same_shape_def touch_def split: rcver_ref.splits)

lemma shape_informStatus [simp]: "same_shape m (informStatus st i m)"
  by (cases st) (simp_all add: same_shape_def act_def)

lemma shape_forMe [simp]: "same_shape m (snd (forMe env n s m))"
  by (simp add: forMe_def split: option.splits)

lemma shape_deliver [simp]: "same_shape m (snd (deliver_status s st m))"
  by (cases "cls s"; cases st)
    (simp_all add: deliver_status_def bit_notify_def atl_notify_def wifi_notify_def ds_notify_def same_shape_def act_def)

lemma shape_notify [simp]: "same_shape m (snd (notifyRsrcStatus env n s m))"
proof -
  obtain b m1 where f: "forMe env n s m = (b, m1)" by force
  then have "same_shape m m1" using shape_forMe [of m env n s] by simp
  then show ?thesis using f same_shape_trans shape_deliver by (auto simp: notifyRsrcStatus_def)
qed

lemma shape_callbacks [simp]:
  "same_shape m (snd (notifySubscriber env n a m))" "same_shape m (snd (hasSubscriber env n a m))"
  by (simp_all add: notifySubscriber_def hasSubscriber_def case_prod_beta)

lemma shape_search_list:
  assumes "\<And>a m. same_shape m (snd (eq a m))"
  shows "same_shape m (fst (search_list eq m xs))"
proof (induction xs arbitrary: m)
  case (Cons x xs)
  have "same_shape m (fst (search_list eq (snd (eq (fst x) m)) xs))"
    by (rule same_shape_trans [OF assms Cons.IH])
  then show ?case using assms by (auto split: prod.splits option.splits)
qed simp

lemma sub_search_shape:
  assumes "\<And>a m. same_shape m (snd (eq a m))"
  shows "sub_search eq rm m = (None, m') \<Longrightarrow> same_shape m m'"
    and "sub_search eq False m = (r, m') \<Longrightarrow> same_shape m m'"
    and "sub_search eq True m = (Some a, m') \<Longrightarrow>
      \<exists>ys zs. mSubscribers m = ys @ a # zs \<and> same_shape m (m'\<lparr>mSubscribers := mSubscribers m\<rparr>) \<and> mSubscribers m' = ys @ zs"
proof -
  obtain m1 r where sl: "search_list eq m (map (\<lambda>a. (a, True)) (mSubscribers m)) = (m1, r)" by force
  have sh: "same_shape m m1" using shape_search_list [where eq = eq, OF assms, where m = m and xs = "map (\<lambda>a. (a, True)) (mSubscribers m)"] sl by simp
  show "sub_search eq rm m = (None, m') \<Longrightarrow> same_shape m m'"
    "sub_search eq False m = (r', m') \<Longrightarrow> same_shape m m'" for r'
    using sl sh by (auto simp: sub_search_def split: option.splits)
  assume s: "sub_search eq True m = (Some a, m')"
  then obtain ys y zs where r: "r = Some (ys, y, zs)" "a = fst y" "m' = m1\<lparr>mSubscribers := map fst ys @ map fst zs\<rparr>"
    using sl by (auto simp: sub_search_def split: option.splits)
  from search_list_split [OF sl [unfolded r(1)]] have "map fst (map (\<lambda>a. (a, True)) (mSubscribers m)) = map fst ys @ a # map fst zs"
    by (simp add: r)
  then have "mSubscribers m = map fst ys @ a # map fst zs" by (simp add: comp_def)
  then show "\<exists>ys zs. mSubscribers m = ys @ a # zs \<and> same_shape m (m'\<lparr>mSubscribers := mSubscribers m\<rparr>) \<and> mSubscribers m' = ys @ zs"
    using sh r by (intro exI [of _ "map fst ys"] exI [of _ "map fst zs"]) (simp add: same_shape_def)
qed

text \<open>The loop of \<open>notifySubscribers\<close> that deletes: one search for each subscriber removed.\<close>

function notify_and_delete :: "agps_env \<Rightarrow> notification \<Rightarrow> agps_sm \<Rightarrow> agps_sm" where
  "notify_and_delete env n m =
     (case sub_search (notifySubscriber env n) True m of
        (None, m') \<Rightarrow> m'
      | (Some a, m') \<Rightarrow> notify_and_delete env n (delete_sub a m'))"
  by pat_completeness auto
termination
proof (relation "measure (\<lambda>(env, n, m). length (mSubscribers m))", goal_cases)
  case (2 env n m r m' a)
  from sub_search_shape(3) [OF shape_callbacks(1), OF 2(1) [symmetric, unfolded 2(2)]] show ?case
    by (auto simp: delete_sub_def)
qed simp

declare notify_and_delete.simps [simp del]

definition notifySubscribers :: "agps_env \<Rightarrow> notification \<Rightarrow> agps_sm \<Rightarrow> agps_sm" where
  "notifySubscribers env n m =
     (if postNotifyDelete n then notify_and_delete env n m
      else snd (sub_search (notifySubscriber env n) False m))"

definition addSubscriber :: "agps_env \<Rightarrow> rcver_ref \<Rightarrow> agps_sm \<Rightarrow> agps_sm" where
  "addSubscriber env r m =
     (case sub_search (hasSubscriber env (notify_to r RSRC_STATUS_MAX False)) False m of
        (Some _, m1) \<Rightarrow> m1
      | (None, m1) \<Rightarrow>
          m1\<lparr>mem := (mem m1)(next_obj m1 := clone (read_sub env m1 r)), mSubscribers := next_obj m1 # mSubscribers m1,
             next_obj := Suc (next_obj m1)\<rparr>)"

definition hasSubscribers :: "agps_sm \<Rightarrow> bool" where
  "hasSubscribers m \<longleftrightarrow> mSubscribers m \<noteq> []"

definition first_active :: "agps_env \<Rightarrow> agps_sm \<Rightarrow> addr option" where
  "first_active env m = fst (sub_search (hasSubscriber env (broadcast BROADCAST_ACTIVE RSRC_STATUS_MAX False)) False m)"

definition hasActiveSubscribers :: "agps_env \<Rightarrow> agps_sm \<Rightarrow> bool" where
  "hasActiveSubscribers env m \<longleftrightarrow> first_active env m \<noteq> None"

definition dropAllSubscribers :: "agps_sm \<Rightarrow> agps_sm" where
  "dropAllSubscribers m = m\<lparr>mSubscribers := [], freed := freed m @ mSubscribers m\<rparr>"

section \<open>Requests to the framework\<close>

text \<open>\<open>Servicer::requestRsrc\<close> of the three servicers.\<close>

definition requestRsrc :: "agps_env \<Rightarrow> action \<Rightarrow> AGpsStatusValue \<Rightarrow> agps_sm \<Rightarrow> int \<times> agps_sm" where
  "requestRsrc env req status m = (case mServicer m of
       servicerTypeNoCbParam \<Rightarrow> (0, act PlainRequest m)
     | servicerTypeAgps \<Rightarrow> (0, act req m)
     | servicerTypeExt \<Rightarrow> (callbackExt env status, act (ExtRequest status) m))"

text \<open>
  \<open>AgpsStateMachine::sendRsrcRequest\<close>. In a request for a subscriber \<open>ipv4_addr\<close> is not set
  (\<open>None\<close>): \<open>nifRequest\<close> is an uninitialised local variable.
\<close>

definition sm_sendRsrcRequest :: "agps_env \<Rightarrow> AGpsStatusValue \<Rightarrow> agps_sm \<Rightarrow> int \<times> agps_sm" where
  "sm_sendRsrcRequest env status m =
     (let s = first_active env m in
      if (s = None) = (status = GPS_RELEASE_AGPS_DATA_CONN) then
        (let req = (case s of
                None \<Rightarrow> NifRequest (mType m) status (Some INADDR_NONE) ([], [])
              | Some a \<Rightarrow> NifRequest (mType m) status None (wifi_info (mem m a)))
         in (0, snd (requestRsrc env req status m)))
      else (0, m))"

definition MAX_START_DATA_CALL_RETRIES :: uint8 where
  "MAX_START_DATA_CALL_RETRIES = 4"

definition DATA_CALL_RETRY_DELAY_MSEC :: nat where
  "DATA_CALL_RETRY_DELAY_MSEC = 500"

definition ERR_SUCCESS :: int where "ERR_SUCCESS = 0"
definition ERR_UNSUPPORTED :: int where "ERR_UNSUPPORTED = 2"
definition ERR_ENGINE_BUSY :: int where "ERR_ENGINE_BUSY = 6"

text \<open>\<open>DSStateMachine::sendRsrcRequest\<close>; \<open>connHandle\<close> is \<open>-1\<close> without an active subscriber.\<close>

definition ds_sendRsrcRequest :: "agps_env \<Rightarrow> AGpsStatusValue \<Rightarrow> agps_sm \<Rightarrow> int \<times> agps_sm" where
  "ds_sendRsrcRequest env status m =
     (let connHandle = (case first_active env m of None \<Rightarrow> - 1 | Some a \<Rightarrow> ID (mem m a));
          (ret, m1) = requestRsrc env (ExtRequest status) status m
      in if ret = ERR_ENGINE_BUSY then
           (let m2 = m1\<lparr>mRetries := mRetries m1 + 1\<rparr>
            in if mRetries m2 > MAX_START_DATA_CALL_RETRIES then (ret, informStatus RSRC_DENIED connHandle m2)
               else (let m3 = act (TimerStart DATA_CALL_RETRY_DELAY_MSEC) m2
                     in if timer_handle env then (- 1, m3) else (ret, m3)))
         else if ret = ERR_UNSUPPORTED then (ret, informStatus RSRC_DENIED connHandle m1)
         else if ret = ERR_SUCCESS then (ret, m1)
         else if ret = - 1 then (ret, informStatus RSRC_DENIED connHandle m1)
         else (ret, m1))"

definition sendRsrcRequest :: "agps_env \<Rightarrow> AGpsStatusValue \<Rightarrow> agps_sm \<Rightarrow> int \<times> agps_sm" where
  "sendRsrcRequest env status m =
     (if isDS m then ds_sendRsrcRequest env status m else sm_sendRsrcRequest env status m)"

section \<open>The four states\<close>

text \<open>\<open>setInactive\<close> on an object of the list.\<close>

definition setInactive :: "addr \<Rightarrow> agps_sm \<Rightarrow> agps_sm" where
  "setInactive a m =
     (let s = mem m a; m1 = m\<lparr>mem := (mem m)(a := set_inactive s)\<rparr>
      in case cls s of DSSubscriber _ \<Rightarrow> informStatus RSRC_UNSUBSCRIBE (ID s) m1 | _ \<Rightarrow> m1)"

text \<open>
  Each \<open>onRsrcEvent\<close> gives the next state and the machine. \<open>data\<close> is the subscriber of a
  subscription (on the caller's stack) or of an unsubscription (in the list).
\<close>

definition ref_setInactive :: "rcver_ref \<Rightarrow> agps_sm \<Rightarrow> agps_sm" where
  "ref_setInactive r m = (case r of Obj a \<Rightarrow> setInactive a m | Stack s \<Rightarrow> m)"

definition released_onRsrcEvent :: "agps_env \<Rightarrow> AgpsRsrcStatus \<Rightarrow> rcver_ref option \<Rightarrow> agps_sm \<Rightarrow> agps_state \<times> agps_sm" where
  "released_onRsrcEvent env event data m =
     (case (event, data) of
        (RSRC_SUBSCRIBE, Some r) \<Rightarrow>
          (case sendRsrcRequest env GPS_REQUEST_AGPS_DATA_CONN (addSubscriber env r m) of
             (ret, m1) \<Rightarrow> (if ret = 0 then Pending else Released, m1))
      | (RSRC_UNSUBSCRIBE, Some r) \<Rightarrow>
          (Released, snd (notifyRsrcStatus env (notify_to r event False) (read_sub env m r) m))
      | _ \<Rightarrow> (Released, m))"

text \<open>What pending, acquired and releasing do first when a subscriber leaves.\<close>

definition leave :: "agps_env \<Rightarrow> rcver_ref \<Rightarrow> agps_sm \<Rightarrow> agps_sm" where
  "leave env r m =
     (if waitForCloseComplete (read_sub env m r) then ref_setInactive r m
      else notifySubscribers env (notify_to r RSRC_UNSUBSCRIBE True) m)"

definition pending_onRsrcEvent :: "agps_env \<Rightarrow> AgpsRsrcStatus \<Rightarrow> rcver_ref option \<Rightarrow> agps_sm \<Rightarrow> agps_state \<times> agps_sm" where
  "pending_onRsrcEvent env event data m =
     (case (event, data) of
        (RSRC_SUBSCRIBE, Some r) \<Rightarrow> (Pending, addSubscriber env r m)
      | (RSRC_UNSUBSCRIBE, Some r) \<Rightarrow>
          (let m1 = leave env r m
           in if \<not> hasSubscribers m1 then (Released, snd (sendRsrcRequest env GPS_RELEASE_AGPS_DATA_CONN m1))
              else if \<not> hasActiveSubscribers env m1
              then (Releasing, snd (sendRsrcRequest env GPS_RELEASE_AGPS_DATA_CONN m1))
              else (Pending, m1))
      | (RSRC_GRANTED, _) \<Rightarrow> (Acquired, notifySubscribers env (broadcast BROADCAST_ACTIVE event False) m)
      | (RSRC_DENIED, _) \<Rightarrow> (Released, notifySubscribers env (broadcast BROADCAST_ALL event True) m)
      | _ \<Rightarrow> (Pending, m))"

definition acquired_onRsrcEvent :: "agps_env \<Rightarrow> AgpsRsrcStatus \<Rightarrow> rcver_ref option \<Rightarrow> agps_sm \<Rightarrow> agps_state \<times> agps_sm" where
  "acquired_onRsrcEvent env event data m =
     (case (event, data) of
        (RSRC_SUBSCRIBE, Some r) \<Rightarrow>
          (Acquired, addSubscriber env r
             (snd (notifyRsrcStatus env (notify_to r RSRC_GRANTED False) (read_sub env m r) m)))
      | (RSRC_UNSUBSCRIBE, Some r) \<Rightarrow>
          (let m1 = leave env r m
           in if \<not> hasSubscribers m1 then (Released, snd (sendRsrcRequest env GPS_RELEASE_AGPS_DATA_CONN m1))
              else if \<not> hasActiveSubscribers env m1
              then (Releasing, snd (sendRsrcRequest env GPS_RELEASE_AGPS_DATA_CONN m1))
              else (Acquired, m1))
      | (RSRC_RELEASED, _) \<Rightarrow> (Released, notifySubscribers env (broadcast BROADCAST_ALL event True) m)
      | _ \<Rightarrow> (Acquired, m))"

definition releasing_onRsrcEvent :: "agps_env \<Rightarrow> AgpsRsrcStatus \<Rightarrow> rcver_ref option \<Rightarrow> agps_sm \<Rightarrow> agps_state \<times> agps_sm" where
  "releasing_onRsrcEvent env event data m =
     (case (event, data) of
        (RSRC_SUBSCRIBE, Some r) \<Rightarrow> (Releasing, addSubscriber env r m)
      | (RSRC_UNSUBSCRIBE, Some r) \<Rightarrow>
          (let m1 = leave env r m
           in if \<not> hasSubscribers m1 then (Released, m1) else (Releasing, m1))
      | _ \<Rightarrow>
        (if event = RSRC_DENIED \<or> event = RSRC_RELEASED then
           (let m1 = notifySubscribers env (broadcast BROADCAST_INACTIVE event True) m
            in if hasActiveSubscribers env m1
               then (Pending, snd (sendRsrcRequest env GPS_REQUEST_AGPS_DATA_CONN m1))
               else (Released, m1))
         else (Releasing, m)))"

definition state_onRsrcEvent :: "agps_env \<Rightarrow> AgpsRsrcStatus \<Rightarrow> rcver_ref option \<Rightarrow> agps_sm \<Rightarrow> agps_sm" where
  "state_onRsrcEvent env event data m =
     (case (case mState m of
          Released \<Rightarrow> released_onRsrcEvent env event data m
        | Pending \<Rightarrow> pending_onRsrcEvent env event data m
        | Acquired \<Rightarrow> acquired_onRsrcEvent env event data m
        | Releasing \<Rightarrow> releasing_onRsrcEvent env event data m)
      of (st, m') \<Rightarrow> m'\<lparr>mState := st\<rparr>)"

section \<open>The state machine\<close>

definition setAPN :: "string option \<Rightarrow> nat \<Rightarrow> agps_sm \<Rightarrow> agps_sm" where
  "setAPN apn len m = (case apn of
       None \<Rightarrow> m\<lparr>mAPN := None, mAPNLen := 0\<rparr>
     | Some s \<Rightarrow> m\<lparr>mAPN := Some (take len s), mAPNLen := len\<rparr>)"

definition setBearer :: "AGpsBearerType \<Rightarrow> agps_sm \<Rightarrow> agps_sm" where
  "setBearer b m = m\<lparr>mBearer := b\<rparr>"

definition sm_onRsrcEvent :: "agps_env \<Rightarrow> AgpsRsrcStatus \<Rightarrow> agps_sm \<Rightarrow> agps_sm" where
  "sm_onRsrcEvent env event m =
     (if event \<in> {RSRC_GRANTED, RSRC_RELEASED, RSRC_DENIED} then state_onRsrcEvent env event None m else m)"

definition ds_onRsrcEvent :: "agps_env \<Rightarrow> AgpsRsrcStatus \<Rightarrow> agps_sm \<Rightarrow> agps_sm" where
  "ds_onRsrcEvent env event m =
     (case event of
        RSRC_GRANTED \<Rightarrow> state_onRsrcEvent env event None m
      | RSRC_RELEASED \<Rightarrow>
          (let m1 = state_onRsrcEvent env event None m
           in if mState m1 \<noteq> mState m then m1 else state_onRsrcEvent env RSRC_DENIED None m1)
      | RSRC_DENIED \<Rightarrow> state_onRsrcEvent env event None m
      | _ \<Rightarrow> m)"

definition onRsrcEvent :: "agps_env \<Rightarrow> AgpsRsrcStatus \<Rightarrow> agps_sm \<Rightarrow> agps_sm" where
  "onRsrcEvent env event m = (if isDS m then ds_onRsrcEvent env event m else sm_onRsrcEvent env event m)"

definition subscribeRsrc :: "agps_env \<Rightarrow> subscriber \<Rightarrow> agps_sm \<Rightarrow> agps_sm" where
  "subscribeRsrc env s m =
     (if mEnforceSingleSubscriber m \<and> hasSubscribers m
      then snd (notifyRsrcStatus env (broadcast BROADCAST_ALL RSRC_DENIED True) s m)
      else state_onRsrcEvent env RSRC_SUBSCRIBE (Some (Stack s)) m)"

definition unsubscribeRsrc :: "agps_env \<Rightarrow> subscriber \<Rightarrow> agps_sm \<Rightarrow> bool \<times> agps_sm" where
  "unsubscribeRsrc env s m =
     (case sub_search (hasSubscriber env (notify_to (Stack s) RSRC_STATUS_MAX False)) False m of
        (Some a, m1) \<Rightarrow> (True, state_onRsrcEvent env RSRC_UNSUBSCRIBE (Some (Obj a)) m1)
      | (None, m1) \<Rightarrow> (False, m1))"

text \<open>\<open>delay_callback\<close> calls \<open>retryCallback\<close> when the delay is over.\<close>

definition retryCallback :: "agps_env \<Rightarrow> agps_sm \<Rightarrow> agps_sm" where
  "retryCallback env m = (case first_active env m of
       Some a \<Rightarrow> act (RequestSuplES (ID (mem m a))) m
     | None \<Rightarrow> m)"

section \<open>Searching and broadcasting\<close>

text \<open>A search whose comparison changes nothing finds the first element.\<close>

lemma search_list_pure:
  assumes "\<And>a. a \<in> fst ` set xs \<Longrightarrow> eq a m = (P a, m)"
  shows "fst (search_list eq m xs) = m \<and>
    map_option (\<lambda>(ys, y, zs). fst y) (snd (search_list eq m xs)) = find P (map fst xs)"
  using assms by (induction xs) (auto split: prod.splits option.splits)

lemma sub_search_pure:
  assumes "\<And>a. eq a m = (P a, m)"
  shows "sub_search eq False m = (find P (mSubscribers m), m)"
  using search_list_pure [of "map (\<lambda>a. (a, True)) (mSubscribers m)" eq m P] assms
  by (auto simp: sub_search_def comp_def split: prod.splits option.splits)

definition for_group :: "int \<Rightarrow> subscriber \<Rightarrow> bool" where
  "for_group g s \<longleftrightarrow> BROADCAST_ALL = g \<or> (BROADCAST_ACTIVE = g \<and> \<not> isInactive s) \<or>
     (BROADCAST_INACTIVE = g \<and> isInactive s)"

lemma for_group_simps [simp]:
  "for_group BROADCAST_ALL s" "for_group BROADCAST_ACTIVE s \<longleftrightarrow> \<not> isInactive s"
  "for_group BROADCAST_INACTIVE s \<longleftrightarrow> isInactive s"
  by (simp_all add: for_group_def BROADCAST_ALL_def BROADCAST_ACTIVE_def BROADCAST_INACTIVE_def)

lemma broadcast_simps [simp]:
  "rcver (broadcast g st d) = None" "groupID (broadcast g st d) = g" "rsrcStatus (broadcast g st d) = st"
  "postNotifyDelete (broadcast g st d) = d"
  "rcver (notify_to r st d) = Some r" "rsrcStatus (notify_to r st d) = st" "postNotifyDelete (notify_to r st d) = d"
  by (simp_all add: broadcast_def notify_to_def)

lemma forMe_broadcast [simp]: "forMe env (broadcast g st d) s m = (for_group g s, m)"
  by (simp add: forMe_def for_group_def)

lemma first_active_find: "first_active env m = find (\<lambda>a. \<not> isInactive (mem m a)) (mSubscribers m)"
  unfolding first_active_def by (subst sub_search_pure) (auto simp: hasSubscriber_def)

lemma hasActive_iff: "hasActiveSubscribers env m \<longleftrightarrow> (\<exists>a \<in> set (mSubscribers m). \<not> isInactive (mem m a))"
  by (auto simp: hasActiveSubscribers_def first_active_find find_None_iff)

text \<open>What one subscriber is told, and the statuses every class understands.\<close>

definition real_status :: "AgpsRsrcStatus \<Rightarrow> bool" where
  "real_status st \<longleftrightarrow> st \<in> {RSRC_UNSUBSCRIBE, RSRC_GRANTED, RSRC_RELEASED, RSRC_DENIED}"

definition told :: "agps_sm \<Rightarrow> AgpsRsrcStatus \<Rightarrow> subscriber \<Rightarrow> action list" where
  "told m st s = (case cls s of
       BITSubscriber _ \<Rightarrow> [ServerDataConn SENDER_ID_GPSONE_DAEMON
          (if st = RSRC_GRANTED then GPSONE_LOC_API_IF_REQUEST_SUCCESS
           else if st = RSRC_DENIED then GPSONE_LOC_API_IF_FAILURE else GPSONE_LOC_API_IF_RELEASE_SUCCESS)]
     | ATLSubscriber bcm \<Rightarrow>
         (if st = RSRC_GRANTED then [AtlOpenStatus (ID s) 1 (mAPN m) (mBearer m) (atl_type bcm m)]
          else if st = RSRC_DENIED then [AtlOpenStatus (ID s) 0 (mAPN m) (mBearer m) (atl_type bcm m)]
          else [AtlCloseStatus (ID s) 1])
     | WIFISubscriber _ _ sid _ \<Rightarrow>
         (if st = RSRC_UNSUBSCRIBE then []
          else [ServerDataConn sid (if st = RSRC_GRANTED then GPSONE_LOC_API_IF_REQUEST_SUCCESS
           else if st = RSRC_DENIED then GPSONE_LOC_API_IF_FAILURE else GPSONE_LOC_API_IF_RELEASE_SUCCESS)])
     | DSSubscriber _ \<Rightarrow>
         (if st = RSRC_GRANTED then [AtlOpenStatus (ID s) 1 None AGPS_APN_BEARER_INVALID AGPS_TYPE_INVALID]
          else if st = RSRC_DENIED then [RequestATL (ID s) AGPS_TYPE_SUPL]
          else if st = RSRC_RELEASED then [CloseDataCall] else [AtlCloseStatus (ID s) 1]))"

definition is_ds_sub :: "subscriber \<Rightarrow> bool" where
  "is_ds_sub s \<longleftrightarrow> (case cls s of DSSubscriber _ \<Rightarrow> True | _ \<Rightarrow> False)"

lemma deliver_status_told:
  "real_status st \<Longrightarrow> deliver_status s st m =
     (True, m\<lparr>mRetries := (if is_ds_sub s \<and> st = RSRC_DENIED then 0 else mRetries m),
        actions := actions m @ told m st s\<rparr>)"
  by (cases "cls s"; cases st)
    (simp_all add: real_status_def deliver_status_def bit_notify_def atl_notify_def wifi_notify_def ds_notify_def
      told_def act_def is_ds_sub_def)

text \<open>The state after the subscribers \<open>ss\<close> have been told \<open>st\<close>, in this order.\<close>

definition tell_all :: "AgpsRsrcStatus \<Rightarrow> subscriber list \<Rightarrow> agps_sm \<Rightarrow> agps_sm" where
  "tell_all st ss m =
     m\<lparr>mRetries := (if st = RSRC_DENIED \<and> list_ex is_ds_sub ss then 0 else mRetries m),
       actions := actions m @ concat (map (told m st) ss)\<rparr>"

lemma told_cong: "same_shape m m' \<Longrightarrow> told m' st s = told m st s"
  by (simp add: told_def atl_type_def same_shape_def split: sub_class.splits)

lemma tell_all_Nil [simp]: "tell_all st [] m = m"
  by (simp add: tell_all_def)

lemma told_upd [simp]:
  "told (m\<lparr>mRetries := r\<rparr>) = told m" "told (m\<lparr>actions := x\<rparr>) = told m" "told (m\<lparr>mSubscribers := l\<rparr>) = told m"
  "told (m\<lparr>freed := f\<rparr>) = told m" "told (m\<lparr>uaf := u\<rparr>) = told m" "told (m\<lparr>mState := v\<rparr>) = told m"
  by (simp_all add: told_def atl_type_def fun_eq_iff split: sub_class.splits)

lemma tell_all_Cons:
  "tell_all st (s # ss) m = tell_all st ss (m\<lparr>mRetries := (if is_ds_sub s \<and> st = RSRC_DENIED then 0 else mRetries m),
        actions := actions m @ told m st s\<rparr>)"
  by (auto simp add: tell_all_def)

lemma notifySubscriber_broadcast:
  "real_status st \<Longrightarrow> notifySubscriber env (broadcast g st d) a m =
     (if for_group g (mem m a) then (d, tell_all st [mem m a] m) else (False, m))"
  by (simp add: notifySubscriber_def notifyRsrcStatus_def deliver_status_told tell_all_def)

lemma search_list_tell:
  "real_status st \<Longrightarrow>
   search_list (notifySubscriber env (broadcast g st False)) m (map (\<lambda>a. (a, True)) as) =
     (tell_all st (filter (for_group g) (map (mem m) as)) m, None)"
proof (induction as arbitrary: m)
  case (Cons a as)
  then show ?case
    by (simp add: notifySubscriber_broadcast tell_all_Cons)
qed simp

text \<open>A notification of a group that deletes nobody.\<close>

lemma notify_group:
  "real_status st \<Longrightarrow> notifySubscribers env (broadcast g st False) m =
     tell_all st (filter (for_group g) (map (mem m) (mSubscribers m))) m"
  by (simp add: notifySubscribers_def sub_search_def search_list_tell)

lemma search_list_first:
  "real_status st \<Longrightarrow> \<forall>b \<in> set as. \<not> for_group g (mem m b) \<Longrightarrow> for_group g (mem m a) \<Longrightarrow>
   search_list (notifySubscriber env (broadcast g st True)) m (map (\<lambda>a. (a, True)) (as @ a # bs)) =
     (tell_all st [mem m a] m, Some (map (\<lambda>a. (a, True)) as, (a, True), map (\<lambda>a. (a, True)) bs))"
  by (induction as) (simp_all add: notifySubscriber_broadcast)

lemma search_list_none:
  "real_status st \<Longrightarrow> \<forall>b \<in> set as. \<not> for_group g (mem m b) \<Longrightarrow>
   search_list (notifySubscriber env (broadcast g st True)) m (map (\<lambda>a. (a, True)) as) = (m, None)"
  by (induction as) (simp_all add: notifySubscriber_broadcast)

text \<open>A notification of a group that deletes its members.\<close>

lemma notify_group_delete:
  "real_status st \<Longrightarrow> notifySubscribers env (broadcast g st True) m =
     tell_all st (filter (for_group g) (map (mem m) (mSubscribers m)))
       (m\<lparr>mSubscribers := filter (\<lambda>a. \<not> for_group g (mem m a)) (mSubscribers m),
          freed := freed m @ filter (\<lambda>a. for_group g (mem m a)) (mSubscribers m)\<rparr>)"
proof (induction "length (mSubscribers m)" arbitrary: m rule: less_induct)
  case less
  show ?case
  proof (cases "\<exists>a \<in> set (mSubscribers m). for_group g (mem m a)")
    case False
    then have "sub_search (notifySubscriber env (broadcast g st True)) True m = (None, m)"
      using search_list_none [OF less.prems] by (simp add: sub_search_def)
    moreover have "filter (\<lambda>a. \<not> for_group g (mem m a)) (mSubscribers m) = mSubscribers m"
      "filter (\<lambda>a. for_group g (mem m a)) (mSubscribers m) = []"
      using False by (auto simp: filter_empty_conv)
    ultimately show ?thesis
      by (simp add: notifySubscribers_def notify_and_delete.simps filter_map comp_def)
  next
    case True
    then obtain as a bs where as: "mSubscribers m = as @ a # bs" "for_group g (mem m a)"
        "\<forall>b \<in> set as. \<not> for_group g (mem m b)"
      by (rule list_split_first) blast
    define m1 where "m1 = delete_sub a ((tell_all st [mem m a] m)\<lparr>mSubscribers := as @ bs\<rparr>)"
    have m1: "mSubscribers m1 = as @ bs" "mem m1 = mem m" "freed m1 = freed m @ [a]"
      by (simp_all add: m1_def delete_sub_def tell_all_def)
    have none: "filter (\<lambda>a. for_group g (mem m a)) as = []" "filter (\<lambda>a. \<not> for_group g (mem m a)) as = as"
      using as(3) by (auto simp: filter_empty_conv)
    have "notifySubscribers env (broadcast g st True) m = notifySubscribers env (broadcast g st True) m1"
      using search_list_first [OF less.prems as(3,2)] as(1)
      by (simp add: notifySubscribers_def notify_and_delete.simps [of _ _ m] sub_search_def m1_def comp_def)
    also have "\<dots> = tell_all st (filter (for_group g) (map (mem m1) (mSubscribers m1)))
       (m1\<lparr>mSubscribers := filter (\<lambda>a. \<not> for_group g (mem m1 a)) (mSubscribers m1),
          freed := freed m1 @ filter (\<lambda>a. for_group g (mem m1 a)) (mSubscribers m1)\<rparr>)"
      by (rule less.hyps [OF _ less.prems]) (simp add: m1 as(1))
    finally show ?thesis
      using as(2) none
      by (simp add: m1 as(1) filter_map comp_def)
        (auto simp add: m1_def delete_sub_def tell_all_def)
  qed
qed

section \<open>Memory and states\<close>

text \<open>
  What any notification can do to the list: some subscribers are taken out and deleted, the
  rest stays as it is.
\<close>

definition only_deletes :: "agps_sm \<Rightarrow> agps_sm \<Rightarrow> bool" where
  "only_deletes m m' \<longleftrightarrow> same_shape (m\<lparr>mSubscribers := [], freed := []\<rparr>) (m'\<lparr>mSubscribers := [], freed := []\<rparr>) \<and>
     (\<exists>gone. freed m' = freed m @ gone \<and> mset (mSubscribers m) = mset gone + mset (mSubscribers m'))"

lemma only_deletes_same: "same_shape m m' \<Longrightarrow> only_deletes m m'"
  by (simp add: only_deletes_def same_shape_def)

lemma only_deletes_trans: "only_deletes a b \<Longrightarrow> only_deletes b c \<Longrightarrow> only_deletes a c"
  unfolding only_deletes_def
  by (elim conjE exE) (auto simp: same_shape_def)

lemmas search_notify = sub_search_shape [where eq = "notifySubscriber env n", OF shape_callbacks(1)] for env n

lemma only_deletes_notify: "only_deletes m (notifySubscribers env n m)"
proof -
  have "only_deletes m (notify_and_delete env n m)" for m
  proof (induction "length (mSubscribers m)" arbitrary: m rule: less_induct)
    case less
    obtain r m' where s: "sub_search (notifySubscriber env n) True m = (r, m')" by force
    show ?case
    proof (cases r)
      case None
      then have "same_shape m m'" using search_notify(1) s by blast
      then show ?thesis using None s by (simp add: notify_and_delete.simps [of _ _ m] only_deletes_same)
    next
      case (Some a)
      then obtain ys zs where ys: "mSubscribers m = ys @ a # zs" "mSubscribers m' = ys @ zs"
          "same_shape m (m'\<lparr>mSubscribers := mSubscribers m\<rparr>)"
        using search_notify(3) s by blast
      have "only_deletes m (delete_sub a m')"
        using ys by (auto simp: only_deletes_def delete_sub_def same_shape_def intro!: exI [of _ "[a]"])
      moreover have "only_deletes (delete_sub a m') (notify_and_delete env n (delete_sub a m'))"
        by (rule less) (simp add: ys delete_sub_def)
      ultimately show ?thesis
        using Some s only_deletes_trans by (simp add: notify_and_delete.simps [of _ _ m])
    qed
  qed
  moreover have "only_deletes m (snd (sub_search (notifySubscriber env n) False m))"
    by (rule only_deletes_same) (metis search_notify(2) prod.collapse)
  ultimately show ?thesis by (simp add: notifySubscribers_def)
qed

lemma shape_requestRsrc [simp]: "same_shape m (snd (requestRsrc env req st m))"
  by (simp add: requestRsrc_def split: servicerType.splits)

lemma shape_retries [simp]: "same_shape m (m'\<lparr>mRetries := r\<rparr>) \<longleftrightarrow> same_shape m m'"
  by (simp add: same_shape_def)

lemma shape_ds_send: "same_shape m (snd (ds_sendRsrcRequest env st m))"
proof -
  obtain ret m1 where r: "requestRsrc env (ExtRequest st) st m = (ret, m1)" by force
  then have m1: "same_shape m m1" using shape_requestRsrc [of m env "ExtRequest st" st] by simp
  then have "same_shape m (informStatus x i m1)" "same_shape m (informStatus x i (m1\<lparr>mRetries := k\<rparr>))"
    "same_shape m (act y (m1\<lparr>mRetries := k\<rparr>))" for x i k y
    using same_shape_trans shape_informStatus shape_act shape_retries by blast+
  then show ?thesis using m1 by (simp add: ds_sendRsrcRequest_def r Let_def)
qed

lemma shape_send [simp]: "same_shape m (snd (sendRsrcRequest env st m))"
  by (simp add: sendRsrcRequest_def shape_ds_send) (simp add: sm_sendRsrcRequest_def Let_def)

text \<open>The list and the memory are in order, and the list fits the state.\<close>

definition mem_ok :: "agps_sm \<Rightarrow> bool" where
  "mem_ok m \<longleftrightarrow> distinct (mSubscribers m @ freed m) \<and> (\<forall>a \<in> set (mSubscribers m @ freed m). a < next_obj m)"

definition has_active :: "agps_sm \<Rightarrow> bool" where
  "has_active m \<longleftrightarrow> (\<exists>a \<in> set (mSubscribers m). \<not> isInactive (mem m a))"

definition no_inactive :: "agps_sm \<Rightarrow> bool" where
  "no_inactive m \<longleftrightarrow> (\<forall>a \<in> set (mSubscribers m). \<not> isInactive (mem m a))"

text \<open>\<open>dropped\<close> tells whether all subscribers were dropped at some time, which leaves the state. A
  machine for emergency calls stays released when the data call cannot be started.\<close>

definition state_ok :: "bool \<Rightarrow> agps_sm \<Rightarrow> bool" where
  "state_ok dropped m \<longleftrightarrow> (case mState m of
       Released \<Rightarrow> mSubscribers m = [] \<or> isDS m \<and> no_inactive m
     | Releasing \<Rightarrow> mSubscribers m \<noteq> [] \<or> dropped
     | _ \<Rightarrow> has_active m \<or> dropped \<and> mSubscribers m = [])"

lemma mem_ok_shape: "same_shape m m' \<Longrightarrow> mem_ok m \<Longrightarrow> mem_ok m'"
  by (simp add: mem_ok_def same_shape_def)

lemma mem_ok_deletes:
  assumes "only_deletes m m'" "mem_ok m"
  shows "mem_ok m'"
proof -
  obtain gone where g: "freed m' = freed m @ gone" "mset (mSubscribers m) = mset gone + mset (mSubscribers m')"
    "next_obj m' = next_obj m"
    using assms(1) by (auto simp: only_deletes_def same_shape_def)
  have eq: "mset (mSubscribers m' @ freed m') = mset (mSubscribers m @ freed m)" using g by simp
  then have "distinct (mSubscribers m' @ freed m') = distinct (mSubscribers m @ freed m)"
    "set (mSubscribers m' @ freed m') = set (mSubscribers m @ freed m)"
    using mset_eq_imp_distinct_iff mset_eq_setD by blast+
  then show ?thesis using assms(2) g(3) unfolding mem_ok_def by presburger
qed

lemma deletes_subset:
  assumes "only_deletes m m'"
  shows "set (mSubscribers m') \<subseteq> set (mSubscribers m)" "mem m' = mem m" "isDS m' = isDS m" "mState m' = mState m"
proof -
  obtain gone where "mset (mSubscribers m) = mset gone + mset (mSubscribers m')"
    using assms by (auto simp: only_deletes_def)
  then show "set (mSubscribers m') \<subseteq> set (mSubscribers m)" by (metis set_mset_mset set_mset_union Un_upper2)
  show "mem m' = mem m" "isDS m' = isDS m" "mState m' = mState m"
    using assms by (auto simp: only_deletes_def same_shape_def)
qed

lemma clone_active [simp]: "\<not> isInactive (clone s)"
  by (simp add: isInactive_def clone_def split: sub_class.splits)

text \<open>Subscriptions come with a subscriber on the stack of the caller, so nothing deleted is read.\<close>

lemma forMe_stack [simp]: "forMe env (notify_to (Stack s) st d) self m = (sub_equals env self s, m)"
  by (simp add: forMe_def read_sub_def touch_def)

lemma search_stack:
  "sub_search (hasSubscriber env (notify_to (Stack s) st d)) False m =
     (find (\<lambda>a. sub_equals env (mem m a) s) (mSubscribers m), m)"
  by (subst sub_search_pure) (auto simp: hasSubscriber_def sub_search_def)

definition add_new :: "subscriber \<Rightarrow> agps_sm \<Rightarrow> agps_sm" where
  "add_new s m = m\<lparr>mem := (mem m)(next_obj m := clone s), mSubscribers := next_obj m # mSubscribers m,
     next_obj := Suc (next_obj m)\<rparr>"

lemma addSubscriber_stack:
  "addSubscriber env (Stack s) m =
     (if \<exists>a \<in> set (mSubscribers m). sub_equals env (mem m a) s then m else add_new s m)"
  by (auto simp: addSubscriber_def search_stack add_new_def read_sub_def find_None_iff find_Some_iff split: option.splits)

lemma mem_ok_add_new: "mem_ok m \<Longrightarrow> mem_ok (add_new s m)"
  unfolding mem_ok_def add_new_def by (force intro: less_SucI)

lemma has_active_add_new: "mem_ok m \<Longrightarrow> has_active (add_new s m)"
  by (simp add: has_active_def add_new_def)

lemma has_active_add: "mem_ok m \<Longrightarrow> has_active m \<Longrightarrow> has_active (addSubscriber env (Stack s) m)"
  by (simp add: addSubscriber_stack has_active_add_new)

lemma mem_ok_add: "mem_ok m \<Longrightarrow> mem_ok (addSubscriber env (Stack s) m)"
  by (simp add: addSubscriber_stack mem_ok_add_new)

lemma subs_add: "mSubscribers m \<noteq> [] \<Longrightarrow> mSubscribers (addSubscriber env (Stack s) m) \<noteq> []"
  by (simp add: addSubscriber_stack add_new_def)

lemma isDS_add [simp]: "isDS (addSubscriber env (Stack s) m) = isDS m"
  by (simp add: addSubscriber_stack add_new_def)

lemma shape_mem_ok: "same_shape m m' \<Longrightarrow> mem_ok m' = mem_ok m"
  by (simp add: mem_ok_def same_shape_def)

lemma shape_has_active: "same_shape m m' \<Longrightarrow> has_active m' = has_active m"
  by (simp add: has_active_def same_shape_def)

lemma shape_subs: "same_shape m m' \<Longrightarrow> mSubscribers m' = mSubscribers m \<and> isDS m' = isDS m"
  by (simp add: same_shape_def)

lemma hasActive_has_active: "hasActiveSubscribers env m = has_active m"
  by (simp add: hasActive_iff has_active_def)

text \<open>Leaving: the subscriber becomes inactive, or objects are deleted.\<close>

lemma mem_ok_leave: "mem_ok m \<Longrightarrow> mem_ok (leave env r m)"
proof -
  assume ok: "mem_ok m"
  have "mem_ok (setInactive a m)" for a
  proof -
    have "mem_ok (m\<lparr>mem := (mem m)(a := set_inactive (mem m a))\<rparr>)" using ok by (simp add: mem_ok_def)
    then show ?thesis
      by (simp add: setInactive_def Let_def mem_ok_def act_def split: sub_class.splits)
  qed
  then show ?thesis
    using ok mem_ok_deletes [OF only_deletes_notify ok] by (simp add: leave_def ref_setInactive_def split: rcver_ref.splits)
qed

lemma isDS_leave [simp]: "isDS (leave env r m) = isDS m"
  using deletes_subset(3) [OF only_deletes_notify]
  by (auto simp: leave_def ref_setInactive_def setInactive_def Let_def act_def split: rcver_ref.splits sub_class.splits)

section \<open>The invariant of a machine\<close>

text \<open>
  Whatever comes from the clients and the framework, in any order, and whatever is found in
  freed memory; and the restart of the modem, which drops all subscribers.
\<close>

inductive agps_step :: "agps_sm \<Rightarrow> agps_sm \<Rightarrow> bool" where
  subscribe: "agps_step m (subscribeRsrc env s m)"
| unsubscribe: "agps_step m (snd (unsubscribeRsrc env s m))"
| event: "agps_step m (onRsrcEvent env ev m)"
| retry: "agps_step m (retryCallback env m)"
| apn: "agps_step m (setAPN apn len m)"
| bearer: "agps_step m (setBearer b m)"

text \<open>Machines of both classes; the argument tells whether a restart was among the steps.\<close>

inductive machine_reachable :: "bool \<Rightarrow> agps_sm \<Rightarrow> bool" where
  ordinary: "machine_reachable False (new_sm servType type single)"
| emergency: "machine_reachable False (new_ds_sm servType)"
| step: "machine_reachable dropped m \<Longrightarrow> agps_step m m' \<Longrightarrow> machine_reachable dropped m'"
| restart: "machine_reachable dropped m \<Longrightarrow> machine_reachable True (dropAllSubscribers m)"

text \<open>The machines of the ordinary interfaces between restarts.\<close>

definition agps_reachable :: "agps_sm \<Rightarrow> bool" where
  "agps_reachable m \<longleftrightarrow> machine_reachable False m \<and> \<not> isDS m"

definition agps_inv :: "bool \<Rightarrow> agps_sm \<Rightarrow> bool" where
  "agps_inv dropped m \<longleftrightarrow> mem_ok m \<and> state_ok dropped m"

lemma agps_inv_cong:
  "mSubscribers m' = mSubscribers m \<Longrightarrow> mem m' = mem m \<Longrightarrow> freed m' = freed m \<Longrightarrow> next_obj m' = next_obj m \<Longrightarrow>
   mState m' = mState m \<Longrightarrow> isDS m' = isDS m \<Longrightarrow> agps_inv d m' = agps_inv d m"
  by (cases "mState m") (simp_all add: agps_inv_def mem_ok_def state_ok_def has_active_def no_inactive_def)

lemma agps_inv_shape: "same_shape m m' \<Longrightarrow> agps_inv d m' = agps_inv d m"
  by (rule agps_inv_cong) (simp_all add: same_shape_def)

lemma state_ok_upd:
  "state_ok d (m\<lparr>mState := Released\<rparr>) \<longleftrightarrow> mSubscribers m = [] \<or> isDS m \<and> no_inactive m"
  "state_ok d (m\<lparr>mState := Pending\<rparr>) \<longleftrightarrow> has_active m \<or> d \<and> mSubscribers m = []"
  "state_ok d (m\<lparr>mState := Acquired\<rparr>) \<longleftrightarrow> has_active m \<or> d \<and> mSubscribers m = []"
  "state_ok d (m\<lparr>mState := Releasing\<rparr>) \<longleftrightarrow> mSubscribers m \<noteq> [] \<or> d"
  by (simp_all add: state_ok_def has_active_def no_inactive_def)

lemma mem_ok_state [simp]: "mem_ok (m\<lparr>mState := st\<rparr>) = mem_ok m"
  by (simp add: mem_ok_def)

lemma no_inactive_add: "mem_ok m \<Longrightarrow> no_inactive m \<Longrightarrow> no_inactive (addSubscriber env (Stack s) m)"
  by (auto simp: addSubscriber_stack add_new_def no_inactive_def mem_ok_def)

lemma add_not_empty: "mSubscribers (addSubscriber env (Stack s) m) \<noteq> []"
  by (auto simp: addSubscriber_stack add_new_def)

lemma no_inactive_active: "no_inactive m \<Longrightarrow> mSubscribers m \<noteq> [] \<Longrightarrow> has_active m"
  by (cases "mSubscribers m") (auto simp: no_inactive_def has_active_def)

lemma active_or_empty_add:
  "mem_ok m \<Longrightarrow> has_active m \<or> d \<and> mSubscribers m = [] \<Longrightarrow> has_active (addSubscriber env (Stack s) m)"
  using has_active_add has_active_add_new by (auto simp: addSubscriber_stack)

lemma no_inactive_shape: "same_shape m m' \<Longrightarrow> no_inactive m' = no_inactive m"
  by (simp add: no_inactive_def same_shape_def)

lemma send_facts [simp]:
  "mSubscribers (snd (sendRsrcRequest env st m)) = mSubscribers m" "isDS (snd (sendRsrcRequest env st m)) = isDS m"
  "mem_ok (snd (sendRsrcRequest env st m)) = mem_ok m" "has_active (snd (sendRsrcRequest env st m)) = has_active m"
  "no_inactive (snd (sendRsrcRequest env st m)) = no_inactive m"
  using shape_send [of m env st] shape_subs shape_mem_ok shape_has_active no_inactive_shape by blast+

lemma fst_send [simp]: "\<not> isDS m \<Longrightarrow> fst (sendRsrcRequest env st m) = 0"
  by (simp add: sendRsrcRequest_def sm_sendRsrcRequest_def Let_def)

lemma notify_facts:
  "mem_ok m \<Longrightarrow> mem_ok (notifySubscribers env n m)" "isDS (notifySubscribers env n m) = isDS m"
  using mem_ok_deletes [OF only_deletes_notify] deletes_subset(3) [OF only_deletes_notify] by blast+

lemma tell_all_facts [simp]:
  "mSubscribers (tell_all st ss m) = mSubscribers m" "mem (tell_all st ss m) = mem m" "isDS (tell_all st ss m) = isDS m"
  "freed (tell_all st ss m) = freed m" "mState (tell_all st ss m) = mState m" "uaf (tell_all st ss m) = uaf m"
  "next_obj (tell_all st ss m) = next_obj m"
  "actions (tell_all st ss m) = actions m @ concat (map (told m st) ss)"
  by (simp_all add: tell_all_def)

lemma real_statuses [simp]:
  "real_status RSRC_GRANTED" "real_status RSRC_RELEASED" "real_status RSRC_DENIED" "real_status RSRC_UNSUBSCRIBE"
  by (simp_all add: real_status_def)

lemma state_event_inv:
  assumes inv: "agps_inv d m" and ev: "ev \<in> {RSRC_GRANTED, RSRC_RELEASED, RSRC_DENIED}"
  shows "agps_inv d (state_onRsrcEvent env ev None m)"
proof -
  have m: "mem_ok m" "state_ok d m" using inv by (simp_all add: agps_inv_def)
  show ?thesis
  proof (cases "mState m")
    case Released
    with m ev show ?thesis
      by (auto simp: state_onRsrcEvent_def released_onRsrcEvent_def agps_inv_def state_ok_def no_inactive_def)
  next
    case Pending
    with m ev show ?thesis
      by (auto simp: state_onRsrcEvent_def pending_onRsrcEvent_def agps_inv_def state_ok_upd notify_facts
        notify_group notify_group_delete) (auto simp: state_ok_def has_active_def mem_ok_def)
  next
    case Acquired
    with m ev show ?thesis
      by (auto simp: state_onRsrcEvent_def acquired_onRsrcEvent_def agps_inv_def state_ok_upd notify_facts
        notify_group_delete) (auto simp: state_ok_def mem_ok_def)
  next
    case Releasing
    have "notifySubscribers env (broadcast BROADCAST_INACTIVE ev True) m =
        tell_all ev (filter (for_group BROADCAST_INACTIVE) (map (mem m) (mSubscribers m)))
       (m\<lparr>mSubscribers := filter (\<lambda>a. \<not> for_group BROADCAST_INACTIVE (mem m a)) (mSubscribers m),
          freed := freed m @ filter (\<lambda>a. for_group BROADCAST_INACTIVE (mem m a)) (mSubscribers m)\<rparr>)"
      using ev by (intro notify_group_delete) auto
    then have "\<not> has_active (notifySubscribers env (broadcast BROADCAST_INACTIVE ev True) m) \<Longrightarrow>
        mSubscribers (notifySubscribers env (broadcast BROADCAST_INACTIVE ev True) m) = []"
      by (auto simp: has_active_def filter_empty_conv)
    with Releasing m ev show ?thesis
      by (auto simp: state_onRsrcEvent_def releasing_onRsrcEvent_def agps_inv_def state_ok_upd notify_facts
        hasActive_has_active Let_def)
        (auto simp: state_ok_def)
  qed
qed

lemma subscribe_event_inv:
  assumes inv: "agps_inv d m"
  shows "agps_inv d (state_onRsrcEvent env RSRC_SUBSCRIBE (Some (Stack s)) m)"
proof -
  have m: "mem_ok m" "state_ok d m" using inv by (simp_all add: agps_inv_def)
  note add = mem_ok_add [OF m(1), of env s] active_or_empty_add [OF m(1), of d env s]
  show ?thesis
  proof (cases "mState m")
    case Released
    have n: "no_inactive (addSubscriber env (Stack s) m)"
      using m Released by (intro no_inactive_add) (auto simp: state_ok_def no_inactive_def)
    moreover have "mSubscribers (addSubscriber env (Stack s) m) \<noteq> []" by (rule add_not_empty)
    ultimately have "has_active (addSubscriber env (Stack s) m)" by (rule no_inactive_active)
    with n Released m add(1) show ?thesis
      by (auto simp: state_onRsrcEvent_def released_onRsrcEvent_def agps_inv_def state_ok_upd case_prod_beta)
  next
    case Pending
    with m add show ?thesis
      by (simp add: state_onRsrcEvent_def pending_onRsrcEvent_def agps_inv_def state_ok_upd) (simp add: state_ok_def)
  next
    case Acquired
    let ?m = "snd (notifyRsrcStatus env (notify_to (Stack s) RSRC_GRANTED False) (read_sub env m (Stack s)) m)"
    have sh: "same_shape m ?m" by simp
    have "mem_ok ?m" "has_active ?m \<or> d \<and> mSubscribers ?m = []"
      using m Acquired shape_mem_ok [OF sh] shape_has_active [OF sh] shape_subs [OF sh] by (auto simp: state_ok_def)
    then show ?thesis
      using Acquired active_or_empty_add [of ?m d env s]
      by (simp add: state_onRsrcEvent_def acquired_onRsrcEvent_def agps_inv_def state_ok_upd mem_ok_add)
  next
    case Releasing
    with m add(1) add_not_empty show ?thesis
      by (simp add: state_onRsrcEvent_def releasing_onRsrcEvent_def agps_inv_def state_ok_upd)
  qed
qed

lemma subscribe_inv: "agps_inv d m \<Longrightarrow> agps_inv d (subscribeRsrc env s m)"
  using subscribe_event_inv [of d m env s] agps_inv_shape [OF shape_notify, where d = d and m = m]
  by (simp add: subscribeRsrc_def)

lemma unsubscribe_inv:
  assumes inv: "agps_inv d m"
  shows "agps_inv d (snd (unsubscribeRsrc env s m))"
proof (cases "find (\<lambda>a. sub_equals env (mem m a) s) (mSubscribers m)")
  case None
  then show ?thesis using inv by (simp add: unsubscribeRsrc_def search_stack)
next
  case (Some a)
  have m: "mem_ok m" "state_ok d m" using inv by (simp_all add: agps_inv_def)
  have l: "mem_ok (leave env (Obj a) m)" using m mem_ok_leave by auto
  have "agps_inv d (state_onRsrcEvent env RSRC_UNSUBSCRIBE (Some (Obj a)) m)"
  proof (cases "mState m")
    case Released
    then have "state_onRsrcEvent env RSRC_UNSUBSCRIBE (Some (Obj a)) m =
        (snd (notifyRsrcStatus env (notify_to (Obj a) RSRC_UNSUBSCRIBE False) (read_sub env m (Obj a)) m))\<lparr>mState := Released\<rparr>"
      by (simp add: state_onRsrcEvent_def released_onRsrcEvent_def)
    moreover have "same_shape m \<dots>" using Released shape_notify by (simp add: same_shape_def)
    ultimately show ?thesis using inv agps_inv_shape by metis
  qed (use l in \<open>auto simp: state_onRsrcEvent_def pending_onRsrcEvent_def acquired_onRsrcEvent_def
      releasing_onRsrcEvent_def agps_inv_def Let_def hasSubscribers_def hasActive_has_active state_ok_upd\<close>)
  then show ?thesis using Some by (simp add: unsubscribeRsrc_def search_stack)
qed

lemma event_inv: "agps_inv d m \<Longrightarrow> agps_inv d (onRsrcEvent env ev m)"
  using state_event_inv [where env = env]
  by (cases ev) (simp_all add: onRsrcEvent_def sm_onRsrcEvent_def ds_onRsrcEvent_def Let_def)

lemma step_inv: "agps_step m m' \<Longrightarrow> agps_inv d m \<Longrightarrow> agps_inv d m'"
proof (induction rule: agps_step.induct)
  case (retry m env)
  have "same_shape m (retryCallback env m)" by (simp add: retryCallback_def split: option.split)
  with retry show ?case using agps_inv_shape by blast
next
  case (apn m x len)
  have "agps_inv d (setAPN x len m) = agps_inv d m"
    by (rule agps_inv_cong) (simp_all add: setAPN_def split: option.splits)
  with apn show ?case by simp
next
  case (bearer m b)
  have "agps_inv d (setBearer b m) = agps_inv d m" by (rule agps_inv_cong) (simp_all add: setBearer_def)
  with bearer show ?case by simp
qed (simp_all add: subscribe_inv unsubscribe_inv event_inv)

lemma drop_inv: "agps_inv d m \<Longrightarrow> agps_inv True (dropAllSubscribers m)"
  by (auto simp: agps_inv_def dropAllSubscribers_def mem_ok_def state_ok_def split: agps_state.split)

lemma machine_reachable_inv: "machine_reachable d m \<Longrightarrow> agps_inv d m"
proof (induction rule: machine_reachable.induct)
  case (step d m m')
  then show ?case using step_inv by blast
next
  case (restart d m)
  then show ?case using drop_inv by blast
qed (simp_all add: agps_inv_def new_ds_sm_def new_sm_def mem_ok_def state_ok_def)

text \<open>The class of a machine does not change.\<close>

lemma isDS_add_any [simp]: "isDS (addSubscriber env r m) = isDS m"
proof -
  obtain x m1 where s: "sub_search (hasSubscriber env (notify_to r RSRC_STATUS_MAX False)) False m = (x, m1)" by force
  then have "isDS m1 = isDS m" using sub_search_shape(2) [OF shape_callbacks(2) s] by (simp add: same_shape_def)
  then show ?thesis using s by (simp add: addSubscriber_def split: option.split)
qed

lemma isDS_notify [simp]: "isDS (snd (notifyRsrcStatus env n s m)) = isDS m"
  using shape_notify [of m env n s] by (simp add: same_shape_def)

lemma isDS_event [simp]: "isDS (state_onRsrcEvent env ev data m) = isDS m"
  by (cases "mState m"; cases ev; cases data)
    (simp_all add: state_onRsrcEvent_def released_onRsrcEvent_def pending_onRsrcEvent_def acquired_onRsrcEvent_def
      releasing_onRsrcEvent_def Let_def case_prod_beta notify_facts)

lemma isDS_step: "agps_step m m' \<Longrightarrow> isDS m' = isDS m"
proof (induction rule: agps_step.induct)
  case (unsubscribe m env s)
  show ?case by (simp add: unsubscribeRsrc_def search_stack split: option.split)
next
  case (event m env ev)
  show ?case by (simp add: onRsrcEvent_def sm_onRsrcEvent_def ds_onRsrcEvent_def Let_def split: AgpsRsrcStatus.split)
next
  case (retry m env)
  show ?case by (simp add: retryCallback_def act_def split: option.split)
qed (simp_all add: subscribeRsrc_def setAPN_def setBearer_def split: option.split)

lemma agps_reachable_init: "agps_reachable (new_sm servType type single)"
  by (simp add: agps_reachable_def machine_reachable.ordinary) (simp add: new_sm_def)

lemma agps_reachable_step: "agps_reachable m \<Longrightarrow> agps_step m m' \<Longrightarrow> agps_reachable m'"
  using machine_reachable.step isDS_step by (auto simp: agps_reachable_def)

lemma agps_reachable_inv: "agps_reachable m \<Longrightarrow> \<not> isDS m \<and> agps_inv False m"
  using machine_reachable_inv by (auto simp: agps_reachable_def)

section \<open>Unsubscribing\<close>

lemma sub_equals_refl [simp]: "sub_equals env s s"
  by (simp add: sub_equals_def ipv6_equal_def ipv6_bytes_def split: sub_class.splits)

text \<open>The search for a notification to the list's own object, before it is deleted.\<close>

lemma notifySubscriber_obj:
  "a \<notin> set (freed m) \<Longrightarrow>
   notifySubscriber env (notify_to (Obj a) RSRC_UNSUBSCRIBE True) b m =
     (if sub_equals env (mem m b) (mem m a) then (True, tell_all RSRC_UNSUBSCRIBE [mem m b] m) else (False, m))"
  by (simp add: notifySubscriber_def notifyRsrcStatus_def forMe_def read_sub_def touch_def deliver_status_told tell_all_def)

text \<open>The next round of the loop: the receiver is gone, and every element that is left is compared with it.\<close>

lemma notifySubscriber_gone:
  "a \<in> set (freed m) \<Longrightarrow>
   notifySubscriber env (notify_to (Obj a) RSRC_UNSUBSCRIBE True) b m =
     (if sub_equals env (mem m b) (stale env a) then (True, tell_all RSRC_UNSUBSCRIBE [mem m b] (m\<lparr>uaf := True\<rparr>))
      else (False, m\<lparr>uaf := True\<rparr>))"
  by (simp add: notifySubscriber_def notifyRsrcStatus_def forMe_def read_sub_def touch_def deliver_status_told tell_all_def)

lemma search_obj_first:
  "a \<notin> set (freed m) \<Longrightarrow> \<forall>b \<in> set as. \<not> sub_equals env (mem m b) (mem m a) \<Longrightarrow>
   search_list (notifySubscriber env (notify_to (Obj a) RSRC_UNSUBSCRIBE True)) m (map (\<lambda>a. (a, True)) (as @ a # bs)) =
     (tell_all RSRC_UNSUBSCRIBE [mem m a] m, Some (map (\<lambda>a. (a, True)) as, (a, True), map (\<lambda>a. (a, True)) bs))"
  by (induction as) (simp_all add: notifySubscriber_obj)

lemma search_gone_none:
  "a \<in> set (freed m) \<Longrightarrow> \<forall>b \<in> set as. \<not> sub_equals env (mem m b) (stale env a) \<Longrightarrow>
   search_list (notifySubscriber env (notify_to (Obj a) RSRC_UNSUBSCRIBE True)) m (map (\<lambda>a. (a, True)) as) =
     (m\<lparr>uaf := uaf m \<or> as \<noteq> []\<rparr>, None)"
proof (induction as arbitrary: m)
  case (Cons b as)
  from Cons.IH [of "m\<lparr>uaf := True\<rparr>"] Cons.prems show ?case by (simp add: notifySubscriber_gone)
qed simp

text \<open>
  A subscriber that does not wait for the close leaves a list in which no other equals it,
  when the freed memory happens to equal none of the others either.
\<close>

lemma leave_alone:
  assumes a: "mSubscribers m = as @ a # bs" "a \<notin> set (freed m)" "\<not> waitForCloseComplete (mem m a)"
    and ne: "\<forall>b \<in> set (as @ bs). \<not> sub_equals env (mem m b) (mem m a) \<and> \<not> sub_equals env (mem m b) (stale env a)"
  shows "leave env (Obj a) m = (tell_all RSRC_UNSUBSCRIBE [mem m a] m)
    \<lparr>mSubscribers := as @ bs, freed := freed m @ [a], uaf := uaf m \<or> as @ bs \<noteq> []\<rparr>"
proof -
  let ?n = "notify_to (Obj a) RSRC_UNSUBSCRIBE True"
  define m1 where "m1 = delete_sub a ((tell_all RSRC_UNSUBSCRIBE [mem m a] m)\<lparr>mSubscribers := as @ bs\<rparr>)"
  have m1: "mSubscribers m1 = as @ bs" "mem m1 = mem m" "freed m1 = freed m @ [a]" "uaf m1 = uaf m"
    by (simp_all add: m1_def delete_sub_def)
  have 1: "sub_search (notifySubscriber env ?n) True m =
      (Some a, (tell_all RSRC_UNSUBSCRIBE [mem m a] m)\<lparr>mSubscribers := as @ bs\<rparr>)"
    using search_obj_first [of a m as env bs] a ne by (simp add: sub_search_def comp_def)
  have 2: "sub_search (notifySubscriber env ?n) True m1 = (None, m1\<lparr>uaf := uaf m1 \<or> as @ bs \<noteq> []\<rparr>)"
    using search_gone_none [of a m1 "as @ bs" env] ne unfolding sub_search_def m1(1) by (simp add: m1)
  have "leave env (Obj a) m = notify_and_delete env ?n m"
    using a by (simp add: leave_def read_sub_def notifySubscribers_def)
  also have "\<dots> = notify_and_delete env ?n m1" using 1 by (simp add: notify_and_delete.simps [of _ _ m] m1_def)
  also have "\<dots> = m1\<lparr>uaf := uaf m1 \<or> as @ bs \<noteq> []\<rparr>" using 2 by (simp add: notify_and_delete.simps [of _ _ m1])
  finally show ?thesis by (simp add: m1_def delete_sub_def tell_all_def)
qed

text \<open>What the callbacks and the deletions keep, a notification keeps.\<close>

lemma notify_preserves:
  assumes cb: "\<And>a m. P m \<Longrightarrow> P (snd (notifySubscriber env n a m))"
    and upd: "\<And>m l. P m \<Longrightarrow> P (m\<lparr>mSubscribers := l\<rparr>)" and del: "\<And>m f. P m \<Longrightarrow> P (m\<lparr>freed := f\<rparr>)"
  shows "P m \<Longrightarrow> P (notifySubscribers env n m)"
proof -
  have ss: "P m \<Longrightarrow> sub_search (notifySubscriber env n) rm m = (r, m') \<Longrightarrow> P m'" for m rm r m'
    using search_list_preserves [where P = P and eq = "notifySubscriber env n", OF cb,
      where s = m and xs = "map (\<lambda>a. (a, True)) (mSubscribers m)"] upd
    by (auto simp: sub_search_def split: prod.splits option.splits if_splits)
  have "P m \<Longrightarrow> P (notify_and_delete env n m)" for m
  proof (induction "length (mSubscribers m)" arbitrary: m rule: less_induct)
    case less
    obtain r m' where s: "sub_search (notifySubscriber env n) True m = (r, m')" by force
    show ?case
    proof (cases r)
      case None
      then show ?thesis using s ss [OF less.prems s] by (simp add: notify_and_delete.simps [of _ _ m])
    next
      case (Some a)
      then obtain ys zs where "mSubscribers m = ys @ a # zs" "mSubscribers m' = ys @ zs"
        using search_notify(3) s by blast
      then have "P (notify_and_delete env n (delete_sub a m'))"
        using ss [OF less.prems s] del by (intro less.hyps) (simp_all add: delete_sub_def)
      then show ?thesis using Some s by (simp add: notify_and_delete.simps [of _ _ m])
    qed
  qed
  then show "P m \<Longrightarrow> P (notifySubscribers env n m)"
    using ss [of m False] by (auto simp: notifySubscribers_def) (metis prod.collapse)
qed

lemma uaf_keep: "uaf m \<Longrightarrow> uaf (snd (notifySubscriber env n a m))"
  by (auto simp: notifySubscriber_def notifyRsrcStatus_def forMe_def touch_def case_prod_beta deliver_status_def
    bit_notify_def atl_notify_def wifi_notify_def ds_notify_def act_def
    split: option.splits rcver_ref.splits sub_class.splits AgpsRsrcStatus.splits)

lemma uaf_notify: "uaf m \<Longrightarrow> uaf (notifySubscribers env n m)"
  by (rule notify_preserves [where P = uaf]) (simp_all add: uaf_keep)

lemma search_gone_touches:
  "a \<in> set (freed m) \<Longrightarrow>
   uaf (fst (search_list (notifySubscriber env (notify_to (Obj a) RSRC_UNSUBSCRIBE True)) m
     (map (\<lambda>a. (a, True)) (b # bs))))"
  using search_list_preserves [where P = uaf and eq = "notifySubscriber env (notify_to (Obj a) RSRC_UNSUBSCRIBE True)",
    OF uaf_keep, where s = "m\<lparr>uaf := True\<rparr>"]
  by (simp add: fst_search_list_Cons notifySubscriber_gone del: search_list.simps(2))

text \<open>
  After the receiver has been deleted the loop goes on, and with anybody left in the list it
  compares them with what is in the freed memory.
\<close>

lemma leave_uses_freed:
  assumes a: "mSubscribers m = as @ a # bs" "a \<notin> set (freed m)" "\<not> waitForCloseComplete (mem m a)"
    and ne: "\<forall>b \<in> set as. \<not> sub_equals env (mem m b) (mem m a)" and left: "as @ bs \<noteq> []"
  shows "uaf (leave env (Obj a) m)"
proof -
  let ?n = "notify_to (Obj a) RSRC_UNSUBSCRIBE True"
  define m1 where "m1 = delete_sub a ((tell_all RSRC_UNSUBSCRIBE [mem m a] m)\<lparr>mSubscribers := as @ bs\<rparr>)"
  have m1: "mSubscribers m1 = as @ bs" "a \<in> set (freed m1)" by (simp_all add: m1_def delete_sub_def)
  obtain c cs where c: "as @ bs = c # cs" using left by (cases "as @ bs") auto
  have 1: "sub_search (notifySubscriber env ?n) True m =
      (Some a, (tell_all RSRC_UNSUBSCRIBE [mem m a] m)\<lparr>mSubscribers := as @ bs\<rparr>)"
    using search_obj_first [of a m as env bs] a ne by (simp add: sub_search_def comp_def)
  obtain r m2 where 2: "sub_search (notifySubscriber env ?n) True m1 = (r, m2)" by force
  have u2: "uaf m2"
    using search_gone_touches [OF m1(2), of env c cs] 2 m1(1) c
    by (auto simp: sub_search_def split: prod.splits option.splits)
  have "uaf (notify_and_delete env ?n m1)"
  proof (cases r)
    case None
    then show ?thesis using 2 u2 by (simp add: notify_and_delete.simps [of _ _ m1])
  next
    case (Some x)
    then show ?thesis
      using 2 u2 uaf_notify [of "delete_sub x m2" env ?n]
      by (simp add: notify_and_delete.simps [of _ _ m1] notifySubscribers_def delete_sub_def)
  qed
  moreover have "leave env (Obj a) m = notify_and_delete env ?n m1"
    using a 1 by (simp add: leave_def read_sub_def notifySubscribers_def notify_and_delete.simps [of _ _ m] m1_def)
  ultimately show ?thesis by simp
qed

section \<open>Properties\<close>

definition plain_env :: agps_env where
  "plain_env = \<lparr>stale = (\<lambda>_. \<lparr>ID = 0, cls = ATLSubscriber False\<rparr>), overlay = (\<lambda>_. []),
     callbackExt = (\<lambda>_. 0), timer_handle = True\<rparr>"

definition atl :: "uint32 \<Rightarrow> subscriber" where
  "atl i = \<lparr>ID = i, cls = ATLSubscriber False\<rparr>"

definition wifi :: "sender_id \<Rightarrow> uint32 \<Rightarrow> subscriber" where
  "wifi sid i = newWIFISubscriber None None sid i"

lemma reach_sub: "agps_reachable m \<Longrightarrow> agps_reachable (subscribeRsrc env s m)"
  using agps_reachable_step agps_step.subscribe by blast

lemma reach_unsub: "agps_reachable m \<Longrightarrow> agps_reachable (snd (unsubscribeRsrc env s m))"
  using agps_reachable_step agps_step.unsubscribe by blast

lemma reach_event: "agps_reachable m \<Longrightarrow> agps_reachable (onRsrcEvent env ev m)"
  using agps_reachable_step agps_step.event by blast

text \<open>A run for the examples: two modem clients have subscribed and the interface was granted.\<close>

definition two_atl :: agps_sm where
  "two_atl = (new_sm servicerTypeAgps AGPS_TYPE_SUPL False)
     \<lparr>mSubscribers := [1, 0], mem := (mem (new_sm servicerTypeAgps AGPS_TYPE_SUPL False))(0 := atl 7, 1 := atl 9),
      next_obj := 2, mState := Acquired,
      actions := [NifRequest AGPS_TYPE_SUPL GPS_REQUEST_AGPS_DATA_CONN None ([], []),
        AtlOpenStatus 9 1 None AGPS_APN_BEARER_INVALID AGPS_TYPE_SUPL,
        AtlOpenStatus 7 1 None AGPS_APN_BEARER_INVALID AGPS_TYPE_SUPL]\<rparr>"

lemmas agps_run_simps = subscribeRsrc_def unsubscribeRsrc_def onRsrcEvent_def sm_onRsrcEvent_def state_onRsrcEvent_def
  released_onRsrcEvent_def pending_onRsrcEvent_def acquired_onRsrcEvent_def releasing_onRsrcEvent_def
  addSubscriber_stack add_new_def search_stack sendRsrcRequest_def sm_sendRsrcRequest_def first_active_find
  requestRsrc_def act_def hasSubscribers_def hasActive_iff notify_group notify_group_delete tell_all_def told_def
  wifi_info_def isInactive_def waitForCloseComplete_def clone_def sub_equals_def new_sm_def atl_def wifi_def
  newWIFISubscriber_def atl_type_def is_ds_sub_def Let_def read_sub_def

lemma two_atl_run:
  "two_atl = onRsrcEvent plain_env RSRC_GRANTED
     (subscribeRsrc plain_env (atl 9) (subscribeRsrc plain_env (atl 7) (new_sm servicerTypeAgps AGPS_TYPE_SUPL False)))"
  by (simp add: agps_run_simps two_atl_def)

lemma two_atl_reachable: "agps_reachable two_atl"
  unfolding two_atl_run by (intro reach_event reach_sub agps_reachable_init)

text \<open>C3: Whatever clients, framework and retry timer do to a machine of either class, restarts of the
  modem included: no subscriber object is in the list twice, or in it and deleted, or deleted twice;
  a pending or acquired machine serves an active subscriber, or its list is empty, and the latter only
  after a restart has dropped the list; only a machine for emergency calls can be released with
  subscribers in its list, which are active then. So a machine of the ordinary interfaces that has
  not been through a restart has an empty list exactly when the interface is released.\<close>

theorem agps_list_fits_state:
  assumes "machine_reachable restarted m"
  shows "distinct (mSubscribers m @ freed m) \<and>
    (mState m = Pending \<or> mState m = Acquired \<longrightarrow>
      (\<exists>a \<in> set (mSubscribers m). \<not> isInactive (mem m a)) \<or> restarted \<and> mSubscribers m = []) \<and>
    (mState m = Released \<longrightarrow> mSubscribers m = [] \<or> isDS m \<and> (\<forall>a \<in> set (mSubscribers m). \<not> isInactive (mem m a))) \<and>
    (\<not> restarted \<and> mSubscribers m = [] \<longrightarrow> mState m = Released)"
  using machine_reachable_inv [OF assms]
  by (cases "mState m") (auto simp: agps_inv_def state_ok_def has_active_def no_inactive_def mem_ok_def)

theorem agps_list_fits_state_witness:
  "mState two_atl = Acquired \<and> mSubscribers two_atl = [1, 0] \<and>
   (\<exists>a \<in> set (mSubscribers two_atl). \<not> isInactive (mem two_atl a))"
proof -
  have "mState two_atl = Acquired" "mSubscribers two_atl = [1, 0]" by (simp_all add: two_atl_def)
  moreover have "machine_reachable False two_atl" using two_atl_reachable by (simp add: agps_reachable_def)
  ultimately show ?thesis using agps_list_fits_state [of False two_atl] by auto
qed

text \<open>When the interface is granted, exactly the active subscribers are told, each once, in
  the order of the list, and the list is kept; when it is denied, or taken away, all of them
  are told, once each, and all are deleted.\<close>

theorem agps_broadcasts:
  "(mState m = Pending \<longrightarrow>
      onRsrcEvent env RSRC_GRANTED m =
        (tell_all RSRC_GRANTED (filter (\<lambda>s. \<not> isInactive s) (map (mem m) (mSubscribers m))) m)\<lparr>mState := Acquired\<rparr>) \<and>
   (mState m = Pending \<and> ev = RSRC_DENIED \<or> mState m = Acquired \<and> ev = RSRC_RELEASED \<longrightarrow>
      onRsrcEvent env ev m =
        (tell_all ev (map (mem m) (mSubscribers m)) m)
          \<lparr>mSubscribers := [], freed := freed m @ mSubscribers m, mState := Released\<rparr>)"
proof -
  have "filter (for_group BROADCAST_ACTIVE) = filter (\<lambda>s. \<not> isInactive s)"
    by (intro ext filter_cong) simp_all
  then show ?thesis
    by (auto simp: onRsrcEvent_def sm_onRsrcEvent_def ds_onRsrcEvent_def state_onRsrcEvent_def Let_def
      pending_onRsrcEvent_def acquired_onRsrcEvent_def notify_group notify_group_delete tell_all_def)
qed

theorem agps_broadcasts_witness:
  "mSubscribers (onRsrcEvent plain_env RSRC_RELEASED two_atl) = [] \<and>
   drop 3 (actions (onRsrcEvent plain_env RSRC_RELEASED two_atl)) = [AtlCloseStatus 9 1, AtlCloseStatus 7 1]"
proof -
  have "mState two_atl = Acquired" by (simp add: two_atl_def)
  with agps_broadcasts [of two_atl plain_env RSRC_RELEASED] show ?thesis
    by (simp add: two_atl_def tell_all_def told_def atl_def)
qed

definition is_release :: "action \<Rightarrow> bool" where
  "is_release a \<longleftrightarrow> (case a of NifRequest _ st _ _ \<Rightarrow> st = GPS_RELEASE_AGPS_DATA_CONN | _ \<Rightarrow> False)"

lemma told_no_release [simp]: "filter is_release (told m st s) = []"
  by (simp add: told_def is_release_def split: sub_class.splits)

lemma informStatus_no_release: "filter is_release (actions (informStatus st i m)) = filter is_release (actions m)"
  by (cases st) (simp_all add: act_def is_release_def)

lemma deliver_no_release: "filter is_release (actions (snd (deliver_status s st m))) = filter is_release (actions m)"
  by (cases "cls s"; cases st)
    (simp_all add: deliver_status_def bit_notify_def atl_notify_def wifi_notify_def ds_notify_def act_def is_release_def)

lemma actions_forMe [simp]: "actions (snd (forMe env n s m)) = actions m"
  by (simp add: forMe_def touch_def split: option.splits rcver_ref.splits)

lemma notify_no_release:
  "filter is_release (actions (notifySubscribers env n m)) = filter is_release (actions m)"
  by (rule notify_preserves [where P = "\<lambda>m'. filter is_release (actions m') = filter is_release (actions m)"])
    (simp_all add: notifySubscriber_def notifyRsrcStatus_def case_prod_beta deliver_no_release)

lemma leave_no_release: "filter is_release (actions (leave env r m)) = filter is_release (actions m)"
  by (auto simp: leave_def notify_no_release ref_setInactive_def setInactive_def Let_def act_def is_release_def
    split: rcver_ref.splits sub_class.splits)

lemma mServicer_leave [simp]: "mServicer (leave env r m) = mServicer m"
  using only_deletes_notify [of m env]
  by (auto simp: leave_def ref_setInactive_def setInactive_def Let_def act_def only_deletes_def same_shape_def
    split: rcver_ref.splits sub_class.splits)

lemma send_release:
  assumes "\<not> has_active m" "\<not> isDS m" "mServicer m = servicerTypeAgps"
  shows "filter is_release (actions (snd (sendRsrcRequest env GPS_RELEASE_AGPS_DATA_CONN m))) =
    filter is_release (actions m) @ [NifRequest (mType m) GPS_RELEASE_AGPS_DATA_CONN (Some INADDR_NONE) ([], [])]"
proof -
  have "first_active env m = None" using assms(1) by (auto simp: first_active_find has_active_def find_None_iff)
  then show ?thesis
    using assms by (simp add: sendRsrcRequest_def sm_sendRsrcRequest_def requestRsrc_def act_def is_release_def)
qed

text \<open>The framework is asked to release the interface exactly when the last active
  subscriber has left a pending or acquired machine: the guard of \<open>sendRsrcRequest\<close> never
  suppresses the request, and no other departure sends one.\<close>

theorem agps_release_requested:
  "agps_reachable m \<Longrightarrow> mServicer m = servicerTypeAgps \<Longrightarrow> m' = snd (unsubscribeRsrc env s m) \<Longrightarrow>
   length (filter is_release (actions m')) = length (filter is_release (actions m)) +
     (if (mState m = Pending \<or> mState m = Acquired) \<and> (mState m' = Released \<or> mState m' = Releasing) then 1 else 0)"
proof -
  assume a: "agps_reachable m" "mServicer m = servicerTypeAgps" "m' = snd (unsubscribeRsrc env s m)"
  have inv: "\<not> isDS m" "mem_ok m" "state_ok False m" using agps_reachable_inv [OF a(1)] by (simp_all add: agps_inv_def)
  show ?thesis
  proof (cases "find (\<lambda>a. sub_equals env (mem m a) s) (mSubscribers m)")
    case None
    then show ?thesis using a(3) by (auto simp: unsubscribeRsrc_def search_stack)
  next
    case (Some x)
    define m1 where "m1 = leave env (Obj x) m"
    have m1: "\<not> isDS m1" "mServicer m1 = servicerTypeAgps" "filter is_release (actions m1) = filter is_release (actions m)"
      using inv a(2) by (simp_all add: m1_def leave_no_release)
    have emp: "mSubscribers m1 = [] \<Longrightarrow> \<not> has_active m1" by (simp add: has_active_def)
    have ne: "mState m \<noteq> Released" using Some inv by (auto simp: state_ok_def)
    have m': "m' = state_onRsrcEvent env RSRC_UNSUBSCRIBE (Some (Obj x)) m"
      using a(3) Some by (simp add: unsubscribeRsrc_def search_stack)
    show ?thesis
      using ne send_release [of m1 env] m1 emp unfolding m'
      by (cases "mState m")
        (auto simp: state_onRsrcEvent_def pending_onRsrcEvent_def acquired_onRsrcEvent_def releasing_onRsrcEvent_def
          Let_def m1_def [symmetric] hasSubscribers_def hasActive_has_active)
  qed
qed

theorem agps_release_requested_witness:
  "(let m = subscribeRsrc plain_env (atl 7) (new_sm servicerTypeAgps AGPS_TYPE_SUPL False) in
    mState m = Pending \<and> length (filter is_release (actions (snd (unsubscribeRsrc plain_env (atl 7) m)))) = 1)"
proof -
  define m where "m = subscribeRsrc plain_env (atl 7) (new_sm servicerTypeAgps AGPS_TYPE_SUPL False)"
  have r: "agps_reachable m" unfolding m_def by (intro reach_sub agps_reachable_init)
  have m: "mState m = Pending" "mServicer m = servicerTypeAgps" "filter is_release (actions m) = []"
      "mSubscribers m = [] @ 0 # []" "mem m 0 = atl 7" "freed m = []"
    by (simp_all add: m_def agps_run_simps is_release_def)
  have "leave plain_env (Obj 0) m = (tell_all RSRC_UNSUBSCRIBE [mem m 0] m)
    \<lparr>mSubscribers := [], freed := [0], uaf := uaf m\<rparr>"
    using leave_alone [OF m(4), of plain_env] m by (simp add: atl_def waitForCloseComplete_def)
  then have "mState (snd (unsubscribeRsrc plain_env (atl 7) m)) = Released"
    using m by (simp add: unsubscribeRsrc_def search_stack state_onRsrcEvent_def pending_onRsrcEvent_def
      hasSubscribers_def Let_def)
  with agps_release_requested [OF r m(2) refl, of plain_env "atl 7"] m show ?thesis
    by (simp add: Let_def m_def)
qed

text \<open>A modem or daemon client that unsubscribes from a shared interface is told so, taken out
  of the list and deleted, and nobody else is affected, provided that what is read from its
  memory after the deletion equals none of the remaining clients.\<close>

theorem agps_unsubscribe_one:
  "agps_reachable m \<Longrightarrow> mState m = Acquired \<or> mState m = Pending \<Longrightarrow> mSubscribers m = as @ a # bs \<Longrightarrow>
   find (\<lambda>x. sub_equals env (mem m x) s) (mSubscribers m) = Some a \<Longrightarrow> \<not> waitForCloseComplete (mem m a) \<Longrightarrow>
   \<forall>b \<in> set (as @ bs). \<not> sub_equals env (mem m b) (mem m a) \<and> \<not> sub_equals env (mem m b) (stale env a) \<Longrightarrow>
   \<exists>b \<in> set (as @ bs). \<not> isInactive (mem m b) \<Longrightarrow>
   unsubscribeRsrc env s m = (True, (tell_all RSRC_UNSUBSCRIBE [mem m a] m)
     \<lparr>mSubscribers := as @ bs, freed := freed m @ [a], uaf := True\<rparr>)"
proof -
  assume a: "agps_reachable m" "mState m = Acquired \<or> mState m = Pending" "mSubscribers m = as @ a # bs"
    "find (\<lambda>x. sub_equals env (mem m x) s) (mSubscribers m) = Some a" "\<not> waitForCloseComplete (mem m a)"
    "\<forall>b \<in> set (as @ bs). \<not> sub_equals env (mem m b) (mem m a) \<and> \<not> sub_equals env (mem m b) (stale env a)"
    "\<exists>b \<in> set (as @ bs). \<not> isInactive (mem m b)"
  have "a \<notin> set (freed m)" using agps_reachable_inv [OF a(1)] a(3) by (auto simp: agps_inv_def mem_ok_def)
  moreover have "(uaf m \<or> as @ bs \<noteq> []) = True" using a(7) by auto
  ultimately have l: "leave env (Obj a) m =
      (tell_all RSRC_UNSUBSCRIBE [mem m a] m)\<lparr>mSubscribers := as @ bs, freed := freed m @ [a], uaf := True\<rparr>"
    using leave_alone [OF a(3) _ a(5,6)] by presburger
  have act: "hasActiveSubscribers env (leave env (Obj a) m)" "hasSubscribers (leave env (Obj a) m)"
    using a(7) unfolding l by (auto simp: hasActive_iff hasSubscribers_def)
  have st: "mState (leave env (Obj a) m) = mState m" by (simp add: l)
  have "state_onRsrcEvent env RSRC_UNSUBSCRIBE (Some (Obj a)) m = (leave env (Obj a) m)\<lparr>mState := mState m\<rparr>"
    using a(2) act
    by (auto simp: state_onRsrcEvent_def pending_onRsrcEvent_def acquired_onRsrcEvent_def Let_def)
  also have "\<dots> = leave env (Obj a) m" using st by simp
  finally show ?thesis using a(4) l by (simp add: unsubscribeRsrc_def search_stack)
qed

theorem agps_unsubscribe_one_witness:
  "fst (unsubscribeRsrc plain_env (atl 9) two_atl) \<and>
   mSubscribers (snd (unsubscribeRsrc plain_env (atl 9) two_atl)) = [0]"
proof -
  have m: "mState two_atl = Acquired \<or> mState two_atl = Pending" "mSubscribers two_atl = [] @ 1 # [0]"
    "find (\<lambda>x. sub_equals plain_env (mem two_atl x) (atl 9)) (mSubscribers two_atl) = Some 1"
    "\<not> waitForCloseComplete (mem two_atl 1)"
    "\<forall>b \<in> set ([] @ [0]). \<not> sub_equals plain_env (mem two_atl b) (mem two_atl 1) \<and>
       \<not> sub_equals plain_env (mem two_atl b) (stale plain_env 1)"
    "\<exists>b \<in> set ([] @ [0]). \<not> isInactive (mem two_atl b)"
    by (simp_all add: two_atl_def sub_equals_def atl_def waitForCloseComplete_def isInactive_def plain_env_def)
  from agps_unsubscribe_one [OF two_atl_reachable m] show ?thesis by simp
qed

text \<open>That proviso is not met by the code: whenever such a client leaves others behind, the
  notification that is passed on still points to the deleted client, and is read.\<close>

theorem agps_unsubscribe_reads_freed:
  "agps_reachable m \<Longrightarrow> mSubscribers m = as @ a # bs \<Longrightarrow> as @ bs \<noteq> [] \<Longrightarrow> \<not> waitForCloseComplete (mem m a) \<Longrightarrow>
   \<forall>b \<in> set as. \<not> sub_equals env (mem m b) (mem m a) \<Longrightarrow> uaf (leave env (Obj a) m)"
proof -
  assume a: "agps_reachable m" "mSubscribers m = as @ a # bs" "as @ bs \<noteq> []" "\<not> waitForCloseComplete (mem m a)"
   "\<forall>b \<in> set as. \<not> sub_equals env (mem m b) (mem m a)"
  have "a \<notin> set (freed m)" using agps_reachable_inv [OF a(1)] a(2) by (auto simp: agps_inv_def mem_ok_def)
  from leave_uses_freed [OF a(2) this a(4,5,3)] show ?thesis .
qed

theorem agps_unsubscribe_reads_freed_witness:
  "\<not> uaf two_atl \<and> uaf (leave plain_env (Obj 1) two_atl)"
proof -
  have m: "mSubscribers two_atl = [] @ 1 # [0]" "[] @ [0] \<noteq> ([] :: addr list)" "\<not> waitForCloseComplete (mem two_atl 1)"
    "\<forall>b \<in> set []. \<not> sub_equals plain_env (mem two_atl b) (mem two_atl 1)" "\<not> uaf two_atl"
    by (simp_all add: two_atl_def atl_def waitForCloseComplete_def new_sm_def)
  from agps_unsubscribe_reads_freed [OF two_atl_reachable m(1-4)] m(5) show ?thesis by blast
qed

text \<open>If the freed memory has come to hold the number of another client, that client loses
  the interface too: with clients 7 and 9 connected, 9 closes and both are closed.\<close>

theorem agps_stale_memory_drops_other:
  "(let env = plain_env\<lparr>stale := (\<lambda>_. atl 7)\<rparr>; m = snd (unsubscribeRsrc env (atl 9) two_atl)
    in mSubscribers m = [] \<and> mState m = Released \<and> drop 3 (actions m) =
      [AtlCloseStatus 9 1, AtlCloseStatus 7 1,
       NifRequest AGPS_TYPE_SUPL GPS_RELEASE_AGPS_DATA_CONN (Some INADDR_NONE) ([], [])])"
  by (simp add: agps_run_simps two_atl_def plain_env_def leave_def notifySubscribers_def notify_and_delete.simps
    sub_search_def hasSubscriber_def notifySubscriber_def notifyRsrcStatus_def forMe_def touch_def deliver_status_def atl_notify_def
    notify_to_def delete_sub_def)

text \<open>In a machine that is releasing, a client that has left but is still waiting for the
  close and subscribes again is ignored: it is found in the list, stays inactive there, is not
  told anything, and the release then deletes it without a new request being made for it.\<close>

theorem agps_resubscribe_ignored:
  "agps_reachable m \<Longrightarrow> mState m = Releasing \<Longrightarrow> \<not> mEnforceSingleSubscriber m \<Longrightarrow>
   \<forall>a \<in> set (mSubscribers m). isInactive (mem m a) \<Longrightarrow>
   \<exists>a \<in> set (mSubscribers m). sub_equals env (mem m a) s \<Longrightarrow>
   subscribeRsrc env s m = m \<and>
   onRsrcEvent env RSRC_RELEASED m = (tell_all RSRC_RELEASED (map (mem m) (mSubscribers m)) m)
     \<lparr>mSubscribers := [], freed := freed m @ mSubscribers m, mState := Released\<rparr>"
proof -
  assume a: "agps_reachable m" "mState m = Releasing" "\<not> mEnforceSingleSubscriber m"
    "\<forall>a \<in> set (mSubscribers m). isInactive (mem m a)" "\<exists>a \<in> set (mSubscribers m). sub_equals env (mem m a) s"
  have f: "filter (\<lambda>a. isInactive (mem m a)) (mSubscribers m) = mSubscribers m"
    "filter (\<lambda>a. \<not> isInactive (mem m a)) (mSubscribers m) = []"
    "filter (for_group BROADCAST_INACTIVE) (map (mem m) (mSubscribers m)) = map (mem m) (mSubscribers m)"
    using a(4) by (auto simp: filter_empty_conv filter_id_conv)
  have "subscribeRsrc env s m = m"
    using a by (simp add: subscribeRsrc_def state_onRsrcEvent_def releasing_onRsrcEvent_def addSubscriber_stack)
  moreover have "\<not> isDS m" using agps_reachable_inv [OF a(1)] by (simp add: agps_inv_def)
  ultimately show ?thesis
    using a(2) by (simp add: onRsrcEvent_def sm_onRsrcEvent_def state_onRsrcEvent_def releasing_onRsrcEvent_def
      notify_group_delete f hasActive_iff Let_def) (simp add: tell_all_def)
qed

theorem agps_resubscribe_ignored_witness:
  "(let m = snd (unsubscribeRsrc plain_env (wifi SENDER_ID_MSAPM 1)
              (subscribeRsrc plain_env (wifi SENDER_ID_MSAPM 1) (new_sm servicerTypeAgps AGPS_TYPE_WIFI False))) in
    mState m = Releasing \<and> subscribeRsrc plain_env (wifi SENDER_ID_MSAPM 1) m = m \<and>
    mSubscribers (onRsrcEvent plain_env RSRC_RELEASED m) = [])"
proof -
  define m where "m = snd (unsubscribeRsrc plain_env (wifi SENDER_ID_MSAPM 1)
              (subscribeRsrc plain_env (wifi SENDER_ID_MSAPM 1) (new_sm servicerTypeAgps AGPS_TYPE_WIFI False)))"
  have r: "agps_reachable m" unfolding m_def by (intro reach_unsub reach_sub agps_reachable_init)
  have m: "mState m = Releasing" "\<not> mEnforceSingleSubscriber m" "\<forall>a \<in> set (mSubscribers m). isInactive (mem m a)"
    "\<exists>a \<in> set (mSubscribers m). sub_equals plain_env (mem m a) (wifi SENDER_ID_MSAPM 1)"
    by (simp_all add: m_def agps_run_simps leave_def ref_setInactive_def setInactive_def set_inactive_def)
  from agps_resubscribe_ignored [OF r m] m(1) show ?thesis by (simp add: m_def [symmetric] Let_def)
qed

text \<open>Starting the emergency data call while the engine is busy: up to the fourth failure a
  retry is scheduled, although the timer handle is taken for an error, the machine stays
  released with the subscriber in its list, and the retry asks for that subscriber again;
  the fifth failure falls back to a normal connection and resets the count.\<close>

theorem agps_ds_retry:
  "isDS m \<Longrightarrow> mServicer m = servicerTypeExt \<Longrightarrow> mState m = Released \<Longrightarrow> mSubscribers m = [] \<Longrightarrow>
   callbackExt env GPS_REQUEST_AGPS_DATA_CONN = ERR_ENGINE_BUSY \<Longrightarrow> mRetries m \<le> 4 \<Longrightarrow>
   m' = subscribeRsrc env \<lparr>ID = i, cls = DSSubscriber False\<rparr> m \<Longrightarrow>
   mState m' = Released \<and> mSubscribers m' = [next_obj m] \<and>
   (if mRetries m < 4
    then mRetries m' = mRetries m + 1 \<and>
      actions m' = actions m @ [ExtRequest GPS_REQUEST_AGPS_DATA_CONN, TimerStart 500]
    else mRetries m' = 0 \<and>
      actions m' = actions m @ [ExtRequest GPS_REQUEST_AGPS_DATA_CONN, RequestATL i AGPS_TYPE_SUPL]) \<and>
   actions (retryCallback env m') = actions m' @ [RequestSuplES i]"
proof -
  assume a: "isDS m" "mServicer m = servicerTypeExt" "mState m = Released" "mSubscribers m = []"
    "callbackExt env GPS_REQUEST_AGPS_DATA_CONN = ERR_ENGINE_BUSY" "mRetries m \<le> 4"
    "m' = subscribeRsrc env \<lparr>ID = i, cls = DSSubscriber False\<rparr> m"
  let ?m = "add_new \<lparr>ID = i, cls = DSSubscriber False\<rparr> m"
  have r: "mRetries m + 1 > MAX_START_DATA_CALL_RETRIES \<longleftrightarrow> \<not> mRetries m < 4"
  proof -
    have n: "unat (mRetries m) \<le> 4" using a(6) by (simp add: word_le_nat_alt)
    have "unat (mRetries m + 1) = unat (mRetries m) + 1"
      using n by (simp add: unat_word_ariths(1))
    then show ?thesis
      using n by (simp add: MAX_START_DATA_CALL_RETRIES_def word_less_nat_alt) arith
  qed
  have s: "m' = (case ds_sendRsrcRequest env GPS_REQUEST_AGPS_DATA_CONN ?m of
      (ret, m1) \<Rightarrow> m1\<lparr>mState := if ret = 0 then Pending else Released\<rparr>)"
    using a(1-4) a(7)
    by (simp add: subscribeRsrc_def hasSubscribers_def state_onRsrcEvent_def released_onRsrcEvent_def
      addSubscriber_stack sendRsrcRequest_def case_prod_beta)
      (simp add: add_new_def)
  have f: "first_active env ?m = Some (next_obj m)" "mem ?m (next_obj m) = \<lparr>ID = i, cls = DSSubscriber False\<rparr>"
    by (simp_all add: first_active_find add_new_def clone_def isInactive_def)
  have e: "mServicer ?m = servicerTypeExt" "mRetries ?m = mRetries m" "actions ?m = actions m"
    "mSubscribers ?m = [next_obj m]"
    using a(2,4) by (simp_all add: add_new_def)
  show ?thesis
    unfolding s using a(5) r
    by (auto simp: ds_sendRsrcRequest_def requestRsrc_def f e act_def Let_def ERR_ENGINE_BUSY_def
      DATA_CALL_RETRY_DELAY_MSEC_def retryCallback_def first_active_find isInactive_def)
qed

theorem agps_ds_retry_witness:
  "(let m = new_ds_sm servicerTypeExt; env = plain_env\<lparr>callbackExt := (\<lambda>_. 6)\<rparr>;
        m' = subscribeRsrc env \<lparr>ID = 3, cls = DSSubscriber False\<rparr> m
    in mState m' = Released \<and> mRetries m' = 1 \<and>
       actions m' = [ExtRequest GPS_REQUEST_AGPS_DATA_CONN, TimerStart 500])"
  using agps_ds_retry [of "new_ds_sm servicerTypeExt" "plain_env\<lparr>callbackExt := (\<lambda>_. 6)\<rparr>" _ 3, OF _ _ _ _ _ _ refl]
  by (simp add: new_ds_sm_def new_sm_def ERR_ENGINE_BUSY_def Let_def)

text \<open>The searches of the subscriber list are those of the linked list: on a list of
  \<open>linked_list.c\<close> that holds the subscribers, \<open>linked_list_search\<close> with the callbacks of this
  file ends, finds and removes the same subscriber and leaves the same machine.\<close>

theorem agps_search_refines_linked_list:
  "list_abs l (map (\<lambda>a. (a, True)) (mSubscribers m)) \<Longrightarrow> mSubscribers m \<noteq> [] \<Longrightarrow>
   eq = notifySubscriber env n \<or> eq = hasSubscriber env n \<Longrightarrow>
   \<exists>m1 l'. linked_list_search (Some l) (Some None) (Some eq) m rm =
       Some (eLINKED_LIST_SUCCESS, m1, Some (fst (sub_search eq rm m)), Some l') \<and>
     list_abs l' (map (\<lambda>a. (a, True)) (mSubscribers (snd (sub_search eq rm m)))) \<and>
     snd (sub_search eq rm m) = m1\<lparr>mSubscribers := mSubscribers (snd (sub_search eq rm m))\<rparr>"
proof -
  assume a: "list_abs l (map (\<lambda>a. (a, True)) (mSubscribers m))" "mSubscribers m \<noteq> []"
    "eq = notifySubscriber env n \<or> eq = hasSubscriber env n"
  have cb: "same_shape m (snd (eq a m))" for a m using a(3) by auto
  obtain m1 r where sl: "search_list eq m (map (\<lambda>a. (a, True)) (mSubscribers m)) = (m1, r)" by force
  have m1: "mSubscribers m1 = mSubscribers m"
    using shape_search_list [where eq = eq, OF cb, where m = m and xs = "map (\<lambda>a. (a, True)) (mSubscribers m)"] sl
    by (simp add: same_shape_def)
  from search_abs [OF a(1) sl, of "Some None" rm] a(2) obtain l' out where
    l': "linked_list_search (Some l) (Some None) (Some eq) m rm = Some (eLINKED_LIST_SUCCESS, m1, out, Some l')"
      "search_result l [] r (Some None) rm out l'"
    by auto
  show ?thesis
  proof (cases r)
    case None
    then show ?thesis
      using l' sl a(1) m1 by (intro exI [of _ m1] exI [of _ l']) (simp add: sub_search_def search_result_def)
  next
    case (Some p)
    obtain ys y zs where p: "p = (ys, y, zs)" by (cases p)
    have sp: "map (\<lambda>a. (a, True)) (mSubscribers m) = ys @ y # zs"
      using search_list_split sl Some p by fastforce
    have "map (\<lambda>a. (a, True)) (map fst xs) = xs" if "set xs \<subseteq> set (ys @ y # zs)" for xs
      using that unfolding sp [symmetric] by (induction xs) auto
    then have id: "map (\<lambda>a. (a, True)) (map fst ys) = ys" "map (\<lambda>a. (a, True)) (map fst zs) = zs" by auto
    show ?thesis
      using l' sl a(1) m1 Some p id
      by (intro exI [of _ m1] exI [of _ l']) (auto simp: sub_search_def search_result_def)
  qed
qed

theorem agps_search_refines_linked_list_witness:
  "\<exists>l m1 l'. ll_put 5 (0, True) new_list = Some l \<and>
     linked_list_search (Some l) (Some None) (Some (hasSubscriber plain_env (broadcast BROADCAST_ACTIVE RSRC_STATUS_MAX False)))
       (two_atl\<lparr>mSubscribers := [0]\<rparr>) True = Some (eLINKED_LIST_SUCCESS, m1, Some (Some 0), Some l')"
proof -
  obtain l where l: "ll_put 5 (0 :: addr, True) new_list = Some l"
    by (simp add: ll_put_def new_list_def linked_list_add_def store_def Let_def)
  let ?m = "two_atl\<lparr>mSubscribers := [0]\<rparr>"
  have abs: "list_abs l (map (\<lambda>a. (a, True)) (mSubscribers ?m))"
    using llq.put_abs [OF new_list_abs l] by simp
  have f: "fst (sub_search (hasSubscriber plain_env (broadcast BROADCAST_ACTIVE RSRC_STATUS_MAX False)) True ?m) = Some 0"
    by (simp add: sub_search_def hasSubscriber_def isInactive_def two_atl_def atl_def)
  have ne: "mSubscribers ?m \<noteq> []" by simp
  from agps_search_refines_linked_list [OF abs ne disjI2 [OF refl],
      of plain_env "broadcast BROADCAST_ACTIVE RSRC_STATUS_MAX False" True] l
  show ?thesis unfolding f by blast
qed

end
