(* ===== verification/NiSession.thy ===== *)
theory NiSession
  imports Prelude
begin

text \<open>
  Network-initiated requests: \<open>gps/loc_api/libloc_api_50001/loc_eng_ni.cpp\<close>. The modem asks for
  the user's consent; the request is kept in one of two sessions (ordinary and emergency), the
  framework is notified, and a thread per request waits for the answer or a timeout and passes
  it on. The functions are atomic steps, except that the thread's work after it has given up
  the lock (\<open>thread_finish\<close>) is a step of its own; more than one thread can be alive for a
  session. Where an answer or a free goes is recorded for every payload (\<open>passThrough\<close>).
\<close>

section \<open>State\<close>

datatype ni_response = GPS_NI_RESPONSE_ACCEPT | GPS_NI_RESPONSE_DENY | GPS_NI_RESPONSE_NORESP | GPS_NI_RESPONSE_IGNORE

datatype ni_type = GPS_NI_TYPE_VOICE | GPS_NI_TYPE_UMTS_SUPL | GPS_NI_TYPE_UMTS_CTRL_PLANE | GPS_NI_TYPE_EMERGENCY_SUPL

datatype mute_state = LOC_MUTE_SESS_NONE | LOC_MUTE_SESS_WAIT | LOC_MUTE_SESS_IN_SESSION

type_synonym payload = addr

record ni_notification =
  notif_type :: ni_type
  privacy_override :: bool
  notif_timeout :: int

text \<open>A thread: waiting for the answer, or past the locked part, with the message it will send.\<close>

datatype ni_thread = Waiting | Finishing "(ni_response \<times> payload) option"

record ni_session =
  respTimeLeft :: int
  respRecvd :: bool
  rawRequest :: "payload option"
  reqID :: uint32
  resp :: ni_response
  threads :: "ni_thread list"

record ni_state =
  session :: ni_session
  sessionEs :: ni_session
  reqIDCounter :: uint32
  ni_notify_cb :: bool
  mute_session_state :: mute_state
  notified :: "(uint32 \<times> ni_type) list"
  informed :: "(ni_response \<times> payload) list"
  freed_payloads :: "payload list"
  leaked :: "payload list"
  given :: "payload list"

definition init_session :: ni_session where
  "init_session = \<lparr>respTimeLeft = 0, respRecvd = False, rawRequest = None, reqID = 0, resp = GPS_NI_RESPONSE_NORESP,
     threads = []\<rparr>"

definition ni_boot :: ni_state where
  "ni_boot = \<lparr>session = init_session, sessionEs = init_session, reqIDCounter = 0, ni_notify_cb = False,
     mute_session_state = LOC_MUTE_SESS_NONE, notified = [], informed = [], freed_payloads = [], leaked = [], given = []\<rparr>"

definition LOC_NI_NO_RESPONSE_TIME :: int where
  "LOC_NI_NO_RESPONSE_TIME = 20"

text \<open>The session of a kind: \<open>True\<close> is the emergency session.\<close>

definition get_session :: "bool \<Rightarrow> ni_state \<Rightarrow> ni_session" where
  "get_session es s = (if es then sessionEs s else session s)"

definition upd_session :: "bool \<Rightarrow> (ni_session \<Rightarrow> ni_session) \<Rightarrow> ni_state \<Rightarrow> ni_state" where
  "upd_session es f s = (if es then s\<lparr>sessionEs := f (sessionEs s)\<rparr> else s\<lparr>session := f (session s)\<rparr>)"

definition free_payload :: "payload option \<Rightarrow> ni_state \<Rightarrow> ni_state" where
  "free_payload p s = (case p of None \<Rightarrow> s | Some a \<Rightarrow> s\<lparr>freed_payloads := freed_payloads s @ [a]\<rparr>)"

section \<open>Operations\<close>

definition loc_eng_ni_init :: "bool \<Rightarrow> bool \<Rightarrow> ni_state \<Rightarrow> ni_state" where
  "loc_eng_ni_init callbacks notify_cb s =
     (if \<not> callbacks then s
      else if \<not> notify_cb then s
      else if ni_notify_cb s then s
      else s\<lparr>sessionEs := (sessionEs s)\<lparr>respTimeLeft := 0, respRecvd := False, rawRequest := None, reqID := 0\<rparr>,
             session := (session s)\<lparr>respTimeLeft := 0, respRecvd := False, rawRequest := None, reqID := 0\<rparr>,
             ni_notify_cb := True\<rparr>)"

definition loc_eng_mute_one_session :: "ni_state \<Rightarrow> ni_state" where
  "loc_eng_mute_one_session s = s\<lparr>mute_session_state := LOC_MUTE_SESS_WAIT\<rparr>"

text \<open>What the handler does with the session it has chosen; \<open>created\<close>: the thread was created.\<close>

definition open_session :: "bool \<Rightarrow> bool \<Rightarrow> ni_notification \<Rightarrow> payload option \<Rightarrow> ni_state \<Rightarrow> ni_state" where
  "open_session es created notif passThrough s =
     (let i = reqIDCounter s + 1;
          s1 = upd_session es (\<lambda>p. p\<lparr>rawRequest := passThrough, reqID := i\<rparr>) (s\<lparr>reqIDCounter := i\<rparr>);
          s2 = (if privacy_override notif then loc_eng_mute_one_session s1 else s1);
          s3 = upd_session es (\<lambda>p. p\<lparr>respTimeLeft := 5 + (if notif_timeout notif \<noteq> 0 then notif_timeout notif
                                       else LOC_NI_NO_RESPONSE_TIME),
                 threads := threads p @ (if created then [Waiting] else [])\<rparr>) s2
      in s3\<lparr>notified := notified s3 @ [(i, notif_type notif)]\<rparr>)"

definition ni_request :: "bool \<Rightarrow> ni_notification \<Rightarrow> payload option \<Rightarrow> ni_state \<Rightarrow> ni_state" where
  "ni_request created notif passThrough s =
     (if \<not> ni_notify_cb s then s\<lparr>leaked := leaked s @ (case passThrough of None \<Rightarrow> [] | Some p \<Rightarrow> [p])\<rparr>
      else if notif_type notif = GPS_NI_TYPE_EMERGENCY_SUPL then
        (if rawRequest (sessionEs s) \<noteq> None then free_payload passThrough s
         else open_session True created notif passThrough s)
      else
        (if rawRequest (session s) \<noteq> None \<or> rawRequest (sessionEs s) \<noteq> None then free_payload passThrough s
         else open_session False created notif passThrough s))"

text \<open>\<open>loc_eng_ni_request_handler\<close>, which becomes the owner of the payload.\<close>

definition loc_eng_ni_request_handler :: "bool \<Rightarrow> ni_notification \<Rightarrow> payload option \<Rightarrow> ni_state \<Rightarrow> ni_state" where
  "loc_eng_ni_request_handler created notif passThrough s =
     ni_request created notif passThrough
       (s\<lparr>given := given s @ (case passThrough of None \<Rightarrow> [] | Some p \<Rightarrow> [p])\<rparr>)"

definition set_response :: "ni_response \<Rightarrow> ni_session \<Rightarrow> ni_session" where
  "set_response r p = p\<lparr>resp := r, respRecvd := True\<rparr>"

definition loc_eng_ni_respond :: "uint32 \<Rightarrow> ni_response \<Rightarrow> ni_state \<Rightarrow> ni_state" where
  "loc_eng_ni_respond notif_id user_response s =
     (if \<not> ni_notify_cb s then s
      else if notif_id = reqID (sessionEs s) \<and> rawRequest (sessionEs s) \<noteq> None then
        (let s1 = (if user_response = GPS_NI_RESPONSE_ACCEPT \<and> rawRequest (session s) \<noteq> None
                   then upd_session False (set_response GPS_NI_RESPONSE_IGNORE) s else s)
         in upd_session True (set_response user_response) s1)
      else if notif_id = reqID (session s) \<and> rawRequest (session s) \<noteq> None then
        upd_session False (set_response user_response) s
      else s)"

text \<open>
  The locked part of \<open>ni_thread_proc\<close> from the wake-up on, by thread \<open>k\<close> of the session.
  \<open>timedout\<close>: the wait returned \<open>ETIMEDOUT\<close>.
\<close>

definition thread_locked :: "bool \<Rightarrow> nat \<Rightarrow> bool \<Rightarrow> ni_state \<Rightarrow> ni_state" where
  "thread_locked es k timedout s =
     (let p = get_session es s;
          r = (if timedout then GPS_NI_RESPONSE_NORESP else resp p);
          msg = (case rawRequest p of
                   None \<Rightarrow> None
                 | Some a \<Rightarrow> if r \<noteq> GPS_NI_RESPONSE_IGNORE then Some (r, a) else None);
          s1 = (if r = GPS_NI_RESPONSE_IGNORE then free_payload (rawRequest p) s else s)
      in upd_session es (\<lambda>p. p\<lparr>resp := r, respRecvd := False, rawRequest := None,
           threads := (threads p)[k := Finishing msg]\<rparr>) s1)"

text \<open>The rest of \<open>ni_thread_proc\<close>, without the lock.\<close>

definition thread_finish :: "bool \<Rightarrow> nat \<Rightarrow> ni_state \<Rightarrow> ni_state" where
  "thread_finish es k s =
     (let s1 = upd_session es (\<lambda>p. p\<lparr>respTimeLeft := 0, reqID := 0,
                 threads := take k (threads p) @ drop (Suc k) (threads p)\<rparr>) s
      in case threads (get_session es s) ! k of
           Finishing (Some m) \<Rightarrow> s1\<lparr>informed := informed s1 @ [m]\<rparr>
         | _ \<Rightarrow> s1)"

text \<open>\<open>loc_eng_ni_reset_on_engine_restart\<close>: for each session, free, clear, wake the thread.\<close>

definition reset_free :: "bool \<Rightarrow> ni_state \<Rightarrow> ni_state" where
  "reset_free es s = free_payload (rawRequest (get_session es s)) s"

definition reset_clear :: "bool \<Rightarrow> ni_state \<Rightarrow> ni_state" where
  "reset_clear es s = upd_session es (\<lambda>p. p\<lparr>rawRequest := None\<rparr>) s"

definition reset_wake :: "bool \<Rightarrow> ni_state \<Rightarrow> ni_state" where
  "reset_wake es s = upd_session es (\<lambda>p. p\<lparr>respRecvd := True\<rparr>) s"

definition reset_session :: "bool \<Rightarrow> ni_state \<Rightarrow> ni_state" where
  "reset_session es s =
     (if rawRequest (get_session es s) \<noteq> None then reset_wake es (reset_clear es (reset_free es s)) else s)"

definition loc_eng_ni_reset_on_engine_restart :: "ni_state \<Rightarrow> ni_state" where
  "loc_eng_ni_reset_on_engine_restart s =
     (if \<not> ni_notify_cb s then s else reset_session False (reset_session True s))"

section \<open>Steps\<close>

text \<open>
  \<open>ni_step True\<close> allows everything; \<open>ni_step False\<close> is a system whose engine does not restart,
  whose threads are always created and whose requests carry a payload.
\<close>

inductive ni_step :: "bool \<Rightarrow> ni_state \<Rightarrow> ni_state \<Rightarrow> bool" where
  init: "ni_step any s (loc_eng_ni_init cbs cb s)"
| request: "(any \<or> (created \<and> p \<noteq> None)) \<Longrightarrow> ni_step any s (loc_eng_ni_request_handler created notif p s)"
| respond: "ni_step any s (loc_eng_ni_respond i r s)"
| wake: "k < length (threads (get_session es s)) \<Longrightarrow> threads (get_session es s) ! k = Waiting \<Longrightarrow>
    to \<or> respRecvd (get_session es s) \<Longrightarrow> ni_step any s (thread_locked es k to s)"
| finish: "k < length (threads (get_session es s)) \<Longrightarrow> threads (get_session es s) ! k \<noteq> Waiting \<Longrightarrow>
    ni_step any s (thread_finish es k s)"
| reset: "any \<Longrightarrow> ni_step any s (loc_eng_ni_reset_on_engine_restart s)"

inductive ni_reachable :: "bool \<Rightarrow> ni_state \<Rightarrow> bool" for any where
  boot: "ni_reachable any ni_boot"
| step: "ni_reachable any s \<Longrightarrow> ni_step any s t \<Longrightarrow> ni_reachable any t"

section \<open>Where the payloads are\<close>

definition held_by :: "ni_session \<Rightarrow> payload multiset" where
  "held_by p = (case rawRequest p of None \<Rightarrow> {#} | Some a \<Rightarrow> {#a#})"

fun in_flight :: "ni_thread \<Rightarrow> payload multiset" where
  "in_flight (Finishing (Some (r, a))) = {#a#}"
| "in_flight _ = {#}"

definition session_payloads :: "ni_session \<Rightarrow> payload multiset" where
  "session_payloads p = held_by p + sum_list (map in_flight (threads p))"

definition payloads :: "ni_state \<Rightarrow> payload multiset" where
  "payloads s = session_payloads (session s) + session_payloads (sessionEs s) + mset (map snd (informed s)) +
     mset (freed_payloads s) + mset (leaked s)"

lemma session_simps [simp]:
  "get_session es (upd_session es f s) = f (get_session es s)"
  "es \<noteq> es' \<Longrightarrow> get_session es (upd_session es' f s) = get_session es s"
  "informed (upd_session es f s) = informed s" "freed_payloads (upd_session es f s) = freed_payloads s"
  "leaked (upd_session es f s) = leaked s" "given (upd_session es f s) = given s"
  "ni_notify_cb (upd_session es f s) = ni_notify_cb s" "reqIDCounter (upd_session es f s) = reqIDCounter s"
  by (auto simp: get_session_def upd_session_def)

lemma free_payload_simps [simp]:
  "session (free_payload p s) = session s" "sessionEs (free_payload p s) = sessionEs s"
  "get_session es (free_payload p s) = get_session es s"
  "informed (free_payload p s) = informed s" "leaked (free_payload p s) = leaked s" "given (free_payload p s) = given s"
  "ni_notify_cb (free_payload p s) = ni_notify_cb s"
  "mset (freed_payloads (free_payload p s)) = mset (freed_payloads s) + (case p of None \<Rightarrow> {#} | Some a \<Rightarrow> {#a#})"
  by (auto simp: free_payload_def get_session_def split: option.splits)

lemma payloads_alt:
  "payloads s = session_payloads (get_session es s) + session_payloads (get_session (\<not> es) s) +
     mset (map snd (informed s)) + mset (freed_payloads s) + mset (leaked s)"
  by (cases es) (simp_all add: payloads_def get_session_def)

lemma split_at: "k < length ts \<Longrightarrow> \<exists>us vs. ts = us @ ts ! k # vs \<and> length us = k"
  by (intro exI [of _ "take k ts"] exI [of _ "drop (Suc k) ts"]) (simp add: id_take_nth_drop)

lemma in_flight_update:
  assumes "k < length ts" "ts ! k = Waiting"
  shows "sum_list (map in_flight (ts[k := t])) = sum_list (map in_flight ts) + in_flight t"
proof -
  obtain us vs where "ts = us @ Waiting # vs" "length us = k" using split_at [OF assms(1)] assms(2) by metis
  then show ?thesis by (simp add: list_update_append)
qed

lemma in_flight_remove:
  assumes "k < length ts"
  shows "sum_list (map in_flight ts) = sum_list (map in_flight (take k ts @ drop (Suc k) ts)) + in_flight (ts ! k)"
proof -
  obtain us t vs where "ts = us @ t # vs" "length us = k" using split_at [OF assms] by metis
  then show ?thesis by (simp add: nth_append)
qed

text \<open>Each operation moves payloads, and only a request brings one in.\<close>

definition of_opt :: "'a option \<Rightarrow> 'a multiset" where
  "of_opt x = (case x of None \<Rightarrow> {#} | Some a \<Rightarrow> {#a#})"

lemma held_of_opt: "held_by p = of_opt (rawRequest p)"
  by (simp add: held_by_def of_opt_def)

lemma of_opt_simps [simp]: "of_opt None = {#}" "of_opt (Some a) = {#a#}"
  by (simp_all add: of_opt_def)

lemma payloads_free: "payloads (free_payload p s) = payloads s + of_opt p"
  by (simp add: payloads_def of_opt_def)

lemma payloads_upd:
  "session_payloads (f (get_session es s)) + d = session_payloads (get_session es s) + e \<Longrightarrow>
   payloads (upd_session es f s) + d = payloads s + e"
  by (simp add: payloads_alt [of _ es] ac_simps)

lemma payloads_cong:
  "session s' = session s \<Longrightarrow> sessionEs s' = sessionEs s \<Longrightarrow> informed s' = informed s \<Longrightarrow>
   freed_payloads s' = freed_payloads s \<Longrightarrow> leaked s' = leaked s \<Longrightarrow> payloads s' = payloads s"
  by (simp add: payloads_def)

lemma session_payloads_upd:
  "session_payloads (p\<lparr>respTimeLeft := x\<rparr>) = session_payloads p"
  "session_payloads (p\<lparr>respRecvd := b\<rparr>) = session_payloads p"
  "session_payloads (p\<lparr>reqID := i\<rparr>) = session_payloads p"
  "session_payloads (p\<lparr>resp := r\<rparr>) = session_payloads p"
  by (simp_all add: session_payloads_def held_of_opt)

lemma payloads_upd_same:
  "session_payloads (f (get_session es s)) = session_payloads (get_session es s) \<Longrightarrow>
   payloads (upd_session es f s) = payloads s"
  using payloads_upd [of f es s "{#}" "{#}"] by simp

lemma payloads_open:
  assumes "rawRequest (get_session es s) = None"
  shows "payloads (open_session es created notif p s) = payloads s + of_opt p"
proof -
  define i where "i = reqIDCounter s + 1"
  define s1 where "s1 = upd_session es (\<lambda>x. x\<lparr>rawRequest := p, reqID := i\<rparr>) (s\<lparr>reqIDCounter := i\<rparr>)"
  define s2 where "s2 = (if privacy_override notif then loc_eng_mute_one_session s1 else s1)"
  define s3 where "s3 = upd_session es (\<lambda>p. p\<lparr>respTimeLeft := 5 + (if notif_timeout notif \<noteq> 0 then notif_timeout notif
                                       else LOC_NI_NO_RESPONSE_TIME),
                 threads := threads p @ (if created then [Waiting] else [])\<rparr>) s2"
  have g: "get_session es (s\<lparr>reqIDCounter := i\<rparr>) = get_session es s" by (simp add: get_session_def)
  have 1: "payloads s1 = payloads s + of_opt p"
    using payloads_upd [of "\<lambda>x. x\<lparr>rawRequest := p, reqID := i\<rparr>" es "s\<lparr>reqIDCounter := i\<rparr>" "{#}" "of_opt p"] assms
      payloads_cong [of "s\<lparr>reqIDCounter := i\<rparr>" s]
    by (simp add: s1_def session_payloads_def held_of_opt g ac_simps)
  have 2: "payloads s2 = payloads s1" by (simp add: s2_def loc_eng_mute_one_session_def payloads_def)
  have 3: "payloads s3 = payloads s2"
    unfolding s3_def by (rule payloads_upd_same) (simp add: session_payloads_def held_of_opt)
  have "open_session es created notif p s = s3\<lparr>notified := notified s3 @ [(i, notif_type notif)]\<rparr>"
    by (simp add: open_session_def Let_def s3_def s2_def s1_def i_def)
  then show ?thesis using 1 2 3 by (simp add: payloads_def)
qed

lemma payloads_locked:
  assumes "k < length (threads (get_session es s))" "threads (get_session es s) ! k = Waiting"
  shows "payloads (thread_locked es k to s) = payloads s"
proof -
  let ?p = "get_session es s"
  define r where "r = (if to then GPS_NI_RESPONSE_NORESP else resp ?p)"
  define msg where "msg = (case rawRequest ?p of None \<Rightarrow> None
                 | Some a \<Rightarrow> if r \<noteq> GPS_NI_RESPONSE_IGNORE then Some (r, a) else None)"
  define s1 where "s1 = (if r = GPS_NI_RESPONSE_IGNORE then free_payload (rawRequest ?p) s else s)"
  define F where "F = (if r = GPS_NI_RESPONSE_IGNORE then of_opt (rawRequest ?p) else {#})"
  have g: "get_session es s1 = ?p" by (simp add: s1_def)
  have p1: "payloads s1 = payloads s + F" by (simp add: s1_def F_def payloads_free)
  have fl: "in_flight (Finishing msg) + F = of_opt (rawRequest ?p)"
    by (simp add: msg_def F_def split: option.splits)
  have "payloads (upd_session es (\<lambda>p. p\<lparr>resp := r, respRecvd := False, rawRequest := None,
           threads := (threads p)[k := Finishing msg]\<rparr>) s1) + F = payloads s1"
    using payloads_upd [of "\<lambda>p. p\<lparr>resp := r, respRecvd := False, rawRequest := None,
           threads := (threads p)[k := Finishing msg]\<rparr>" es s1 F "{#}"] fl in_flight_update [OF assms, of "Finishing msg"]
    by (simp add: session_payloads_def held_of_opt g ac_simps)
  moreover have "thread_locked es k to s = upd_session es (\<lambda>p. p\<lparr>resp := r, respRecvd := False, rawRequest := None,
           threads := (threads p)[k := Finishing msg]\<rparr>) s1"
    by (simp only: thread_locked_def Let_def r_def msg_def s1_def)
  ultimately show ?thesis using p1 by simp
qed

lemma payloads_finish:
  assumes "k < length (threads (get_session es s))"
  shows "payloads (thread_finish es k s) = payloads s"
proof -
  let ?ts = "threads (get_session es s)"
  define s1 where "s1 = upd_session es (\<lambda>p. p\<lparr>respTimeLeft := 0, reqID := 0,
                 threads := take k (threads p) @ drop (Suc k) (threads p)\<rparr>) s"
  have "payloads s1 + in_flight (?ts ! k) = payloads s"
    unfolding s1_def
    using payloads_upd [of "\<lambda>p. p\<lparr>respTimeLeft := 0, reqID := 0,
                 threads := take k (threads p) @ drop (Suc k) (threads p)\<rparr>" es s "in_flight (?ts ! k)" "{#}"]
      in_flight_remove [OF assms]
    by (simp add: session_payloads_def held_of_opt ac_simps)
  then show ?thesis
    by (auto simp: thread_finish_def s1_def [symmetric] Let_def payloads_def ac_simps
      split: ni_thread.splits option.splits)
qed

lemma payloads_reset: "payloads (reset_session es s) = payloads s"
proof (cases "rawRequest (get_session es s) = None")
  case False
  define s1 where "s1 = reset_free es s"
  have g: "get_session es s1 = get_session es s" by (simp add: s1_def reset_free_def)
  have 1: "payloads s1 = payloads s + of_opt (rawRequest (get_session es s))"
    by (simp add: s1_def reset_free_def payloads_free)
  have 2: "payloads (reset_clear es s1) + of_opt (rawRequest (get_session es s)) = payloads s1"
    unfolding reset_clear_def
    using payloads_upd [of "\<lambda>p. p\<lparr>rawRequest := None\<rparr>" es s1 "of_opt (rawRequest (get_session es s))" "{#}"]
    by (simp add: session_payloads_def held_of_opt g ac_simps)
  have 3: "payloads (reset_wake es (reset_clear es s1)) = payloads (reset_clear es s1)"
    unfolding reset_wake_def by (rule payloads_upd_same) (simp add: session_payloads_upd)
  show ?thesis using False 1 2 3 by (simp add: reset_session_def s1_def)
qed (simp add: reset_session_def)

definition pay_inv :: "ni_state \<Rightarrow> bool" where
  "pay_inv s \<longleftrightarrow> payloads s = mset (given s) \<and>
     (\<not> ni_notify_cb s \<longrightarrow> rawRequest (session s) = None \<and> rawRequest (sessionEs s) = None)"

lemma frame_simps [simp]:
  "given (open_session es c n p s) = given s" "ni_notify_cb (open_session es c n p s) = ni_notify_cb s"
  "given (thread_locked es k to s) = given s" "ni_notify_cb (thread_locked es k to s) = ni_notify_cb s"
  "given (thread_finish es k s) = given s" "ni_notify_cb (thread_finish es k s) = ni_notify_cb s"
  "given (reset_session es s) = given s" "ni_notify_cb (reset_session es s) = ni_notify_cb s"
  by (auto simp: open_session_def loc_eng_mute_one_session_def thread_locked_def thread_finish_def reset_session_def
    reset_free_def reset_clear_def reset_wake_def Let_def split: ni_thread.splits option.splits)

lemma raw_simps:
  "rawRequest (session (thread_locked es k to s)) = (if es then rawRequest (session s) else None)"
  "rawRequest (sessionEs (thread_locked es k to s)) = (if es then None else rawRequest (sessionEs s))"
  "rawRequest (session (thread_finish es k s)) = rawRequest (session s)"
  "rawRequest (sessionEs (thread_finish es k s)) = rawRequest (sessionEs s)"
  by (auto simp: thread_locked_def thread_finish_def upd_session_def free_payload_def Let_def
    split: ni_thread.splits option.splits)

lemma pay_inv_step: "ni_step any s t \<Longrightarrow> pay_inv s \<Longrightarrow> pay_inv t"
proof (induction rule: ni_step.induct)
  case (init any s cbs cb)
  then show ?case
    by (auto simp: loc_eng_ni_init_def pay_inv_def payloads_def session_payloads_def held_of_opt)
next
  case (request any created p s notif)
  let ?s = "s\<lparr>given := given s @ (case p of None \<Rightarrow> [] | Some a \<Rightarrow> [a])\<rparr>"
  have m: "mset (given ?s) = mset (given s) + of_opt p" by (simp add: of_opt_def split: option.splits)
  have c: "payloads ?s = payloads s" "get_session es ?s = get_session es s" for es
    by (simp_all add: payloads_def get_session_def)
  show ?case
  proof (cases "ni_notify_cb s")
    case False
    have "payloads (?s\<lparr>leaked := leaked s @ (case p of None \<Rightarrow> [] | Some a \<Rightarrow> [a])\<rparr>) = payloads s + of_opt p"
      by (simp add: payloads_def of_opt_def ac_simps split: option.splits)
    then show ?thesis
      using request.prems False m
      by (simp add: loc_eng_ni_request_handler_def ni_request_def pay_inv_def)
  next
    case True
    have "payloads (ni_request created notif p ?s) = payloads s + of_opt p"
      using True payloads_open [of True ?s created notif p] payloads_open [of False ?s created notif p] c
      by (auto simp: ni_request_def payloads_free get_session_def)
    moreover have "given (ni_request created notif p ?s) = given ?s" "ni_notify_cb (ni_request created notif p ?s)"
      using True by (auto simp: ni_request_def)
    ultimately show ?thesis
      using request.prems m by (simp add: loc_eng_ni_request_handler_def pay_inv_def)
  qed
next
  case (respond any s i r)
  have "payloads (upd_session es (set_response r) s) = payloads s" for es r s
    by (rule payloads_upd_same) (simp add: set_response_def session_payloads_upd)
  then show ?case
    using respond by (auto simp: loc_eng_ni_respond_def pay_inv_def Let_def)
next
  case (wake k es s to any)
  then show ?case by (auto simp: pay_inv_def payloads_locked raw_simps)
next
  case (finish k es s any)
  then show ?case by (auto simp: pay_inv_def payloads_finish raw_simps)
next
  case (reset any s)
  then show ?case by (auto simp: loc_eng_ni_reset_on_engine_restart_def pay_inv_def payloads_reset)
qed

lemma pay_reachable: "ni_reachable any s \<Longrightarrow> pay_inv s"
proof (induction rule: ni_reachable.induct)
  case boot
  show ?case by (simp add: pay_inv_def ni_boot_def payloads_def session_payloads_def init_session_def held_of_opt)
next
  case (step s t)
  then show ?case using pay_inv_step by blast
qed

section \<open>Runs without a restart of the engine\<close>

abbreviation waiting_count :: "ni_session \<Rightarrow> nat" where
  "waiting_count p \<equiv> length (filter (\<lambda>t. t = Waiting) (threads p))"

definition session_ok :: "ni_session \<Rightarrow> bool" where
  "session_ok p \<longleftrightarrow> (if rawRequest p = None then waiting_count p = 0 \<and> \<not> respRecvd p else waiting_count p = 1)"

definition ni_ok :: "ni_state \<Rightarrow> bool" where
  "ni_ok s \<longleftrightarrow> session_ok (session s) \<and> session_ok (sessionEs s)"

lemma ni_ok_get: "ni_ok s \<longleftrightarrow> session_ok (get_session es s) \<and> session_ok (get_session (\<not> es) s)"
  by (cases es) (auto simp: ni_ok_def get_session_def)

lemma waiting_update:
  assumes "k < length ts" "ts ! k = Waiting"
  shows "length (filter (\<lambda>t. t = Waiting) (ts[k := Finishing m])) = length (filter (\<lambda>t. t = Waiting) ts) - 1"
proof -
  obtain us vs where "ts = us @ Waiting # vs" "length us = k" using split_at [OF assms(1)] assms(2) by metis
  then show ?thesis by (simp add: list_update_append)
qed

lemma waiting_remove:
  assumes "k < length ts" "ts ! k \<noteq> Waiting"
  shows "length (filter (\<lambda>t. t = Waiting) (take k ts @ drop (Suc k) ts)) = length (filter (\<lambda>t. t = Waiting) ts)"
proof -
  obtain us t vs where "ts = us @ t # vs" "length us = k" "t \<noteq> Waiting" using split_at [OF assms(1)] assms(2) by metis
  then show ?thesis by simp
qed

lemma open_session_get:
  "get_session es (open_session es c n p s) = (get_session es s)\<lparr>rawRequest := p, reqID := reqIDCounter s + 1,
     respTimeLeft := 5 + (if notif_timeout n \<noteq> 0 then notif_timeout n else LOC_NI_NO_RESPONSE_TIME),
     threads := threads (get_session es s) @ (if c then [Waiting] else [])\<rparr>"
  "es \<noteq> es' \<Longrightarrow> get_session es' (open_session es c n p s) = get_session es' s"
  by (auto simp: open_session_def upd_session_def get_session_def loc_eng_mute_one_session_def Let_def)

lemma locked_get:
  "get_session es (thread_locked es k to s) = (let p = get_session es s; r = (if to then GPS_NI_RESPONSE_NORESP else resp p)
     in p\<lparr>resp := r, respRecvd := False, rawRequest := None, threads := (threads p)[k := Finishing
          (case rawRequest p of None \<Rightarrow> None
             | Some a \<Rightarrow> if r \<noteq> GPS_NI_RESPONSE_IGNORE then Some (r, a) else None)]\<rparr>)"
  "es \<noteq> es' \<Longrightarrow> get_session es' (thread_locked es k to s) = get_session es' s"
  by (auto simp: thread_locked_def Let_def)

lemma finish_get:
  "get_session es (thread_finish es k s) = (get_session es s)\<lparr>respTimeLeft := 0, reqID := 0,
     threads := take k (threads (get_session es s)) @ drop (Suc k) (threads (get_session es s))\<rparr>"
  "es \<noteq> es' \<Longrightarrow> get_session es' (thread_finish es k s) = get_session es' s"
  by (auto simp: thread_finish_def upd_session_def get_session_def Let_def split: ni_thread.splits option.splits)

lemma ok_open:
  assumes "ni_ok s" "rawRequest (get_session es s) = None" "p \<noteq> None"
  shows "ni_ok (open_session es True n p s)"
  using assms by (auto simp add: ni_ok_get [of _ es] open_session_get session_ok_def)

lemma ok_upd:
  "ni_ok s \<Longrightarrow> session_ok (f (get_session es s)) \<Longrightarrow> ni_ok (upd_session es f s)"
  by (simp add: ni_ok_get [of _ es])

lemma ok_respond: "rawRequest p \<noteq> None \<Longrightarrow> session_ok p \<Longrightarrow> session_ok (set_response r p)"
  by (simp add: session_ok_def set_response_def)

lemma ok_step: "ni_step any s t \<Longrightarrow> \<not> any \<Longrightarrow> pay_inv s \<Longrightarrow> ni_ok s \<Longrightarrow> ni_ok t"
proof (induction rule: ni_step.induct)
  case (init any s cbs cb)
  then show ?case by (auto simp: loc_eng_ni_init_def ni_ok_def session_ok_def pay_inv_def)
next
  case (request any created p s notif)
  let ?s = "s\<lparr>given := given s @ (case p of None \<Rightarrow> [] | Some a \<Rightarrow> [a])\<rparr>"
  have ok: "ni_ok ?s" using request.prems by (simp add: ni_ok_def)
  from request have c: "created" "p \<noteq> None" by auto
  show ?case
    using ok c ok_open [OF ok, of True] ok_open [OF ok, of False]
    by (auto simp: loc_eng_ni_request_handler_def ni_request_def get_session_def ni_ok_def)
next
  case (respond any s i r)
  have es: "sessionEs s = get_session True s" "session s = get_session False s" by (simp_all add: get_session_def)
  show ?case
    using respond.prems
    by (auto simp: loc_eng_ni_respond_def Let_def es intro!: ok_upd ok_respond) (auto simp: ni_ok_def get_session_def)
next
  case (wake k es s to any)
  have "session_ok (get_session es (thread_locked es k to s))"
    using wake by (cases "rawRequest (get_session es s)")
      (auto simp: locked_get Let_def session_ok_def waiting_update ni_ok_get [of s es])
  then show ?case using wake.prems by (simp add: ni_ok_get [of _ es] locked_get(2))
next
  case (finish k es s any)
  have "session_ok (get_session es (thread_finish es k s))"
    using finish by (auto simp: finish_get session_ok_def waiting_remove ni_ok_get [of s es] simp del: filter_append)
  then show ?case using finish.prems by (simp add: ni_ok_get [of _ es] finish_get(2))
qed simp

lemma ok_reachable: "ni_reachable False s \<Longrightarrow> ni_ok s"
proof (induction rule: ni_reachable.induct)
  case boot
  show ?case by (simp add: ni_ok_def ni_boot_def session_ok_def init_session_def)
next
  case (step s t)
  then show ?case using ok_step pay_reachable by blast
qed

section \<open>Properties\<close>

definition voip :: ni_notification where
  "voip = \<lparr>notif_type = GPS_NI_TYPE_UMTS_SUPL, privacy_override = False, notif_timeout = 0\<rparr>"

text \<open>A run for the examples: the interface is up and request 1, with payload 100, is open.\<close>

definition one_request :: ni_state where
  "one_request = loc_eng_ni_request_handler True voip (Some 100) (loc_eng_ni_init True True ni_boot)"

lemma one_request_reachable: "ni_reachable any one_request"
proof -
  have "ni_reachable any (loc_eng_ni_init True True ni_boot)"
    by (rule ni_reachable.step [OF ni_reachable.boot ni_step.init])
  then show ?thesis unfolding one_request_def by (rule ni_reachable.step [OF _ ni_step.request]) simp
qed

lemmas ni_run_simps = one_request_def loc_eng_ni_request_handler_def ni_request_def open_session_def loc_eng_ni_init_def
  ni_boot_def init_session_def voip_def get_session_def upd_session_def free_payload_def loc_eng_ni_respond_def
  set_response_def thread_locked_def thread_finish_def loc_eng_ni_reset_on_engine_restart_def reset_session_def
  reset_free_def reset_clear_def reset_wake_def LOC_NI_NO_RESPONSE_TIME_def loc_eng_mute_one_session_def Let_def

text \<open>C6: Every payload the modem hands over is in exactly one place: held by a session, in a
  message under way, passed on, freed, or leaked; so, whatever happens, restarts included, none
  is freed twice or used after it was freed, as long as each function runs undisturbed.\<close>

theorem ni_payloads_conserved:
  "ni_reachable any s \<Longrightarrow>
   mset (given s) = session_payloads (session s) + session_payloads (sessionEs s) + mset (map snd (informed s)) +
     mset (freed_payloads s) + mset (leaked s) \<and>
   (distinct (given s) \<longrightarrow> distinct (map snd (informed s) @ freed_payloads s @ leaked s))"
proof -
  assume r: "ni_reachable any s"
  have c: "mset (given s) = session_payloads (session s) + session_payloads (sessionEs s) + mset (map snd (informed s)) +
     mset (freed_payloads s) + mset (leaked s)"
    using pay_reachable [OF r] by (simp add: pay_inv_def payloads_def)
  have "distinct (map snd (informed s) @ freed_payloads s @ leaked s)" if "distinct (given s)"
  proof -
    have "mset (map snd (informed s) @ freed_payloads s @ leaked s) \<subseteq># mset (given s)"
      unfolding c by (simp add: ac_simps subset_mset.add_increasing)
    then show ?thesis by (rule distinct_submset [OF that])
  qed
  then show ?thesis using c by blast
qed

theorem ni_payloads_conserved_witness:
  "given one_request = [100] \<and> {#100#} = session_payloads (session one_request) + session_payloads (sessionEs one_request)"
  using ni_payloads_conserved [OF one_request_reachable [of True]] by (simp add: ni_run_simps)

text \<open>While the engine does not restart, an open request has exactly one thread waiting for its
  answer and no answer is left over for the next request. The user's answer (other than
  \<open>IGNORE\<close>) reaches the modem with this request's payload, and without one the timeout sends
  \<open>NORESP\<close>; either way the session is free again.\<close>

theorem ni_request_answered:
  "ni_reachable False s \<Longrightarrow> rawRequest (get_session es s) = Some a \<Longrightarrow> r \<noteq> GPS_NI_RESPONSE_IGNORE \<Longrightarrow>
   \<exists>k < length (threads (get_session es s)). threads (get_session es s) ! k = Waiting \<and>
     (let s1 = upd_session es (set_response r) s; s2 = thread_finish es k (thread_locked es k False s1);
          t2 = thread_finish es k (thread_locked es k True s)
      in informed s2 = informed s @ [(r, a)] \<and> rawRequest (get_session es s2) = None \<and>
         \<not> respRecvd (get_session es s2) \<and>
         informed t2 = informed s @ [(GPS_NI_RESPONSE_NORESP, a)] \<and> rawRequest (get_session es t2) = None)"
proof -
  assume a: "ni_reachable False s" "rawRequest (get_session es s) = Some a" "r \<noteq> GPS_NI_RESPONSE_IGNORE"
  have "session_ok (get_session es s)" using ok_reachable [OF a(1)] by (simp add: ni_ok_get [of s es])
  then have "filter (\<lambda>t. t = Waiting) (threads (get_session es s)) \<noteq> []" using a(2) by (auto simp: session_ok_def)
  then have "Waiting \<in> set (threads (get_session es s))" by (auto simp: filter_empty_conv)
  then obtain k where k: "k < length (threads (get_session es s))" "threads (get_session es s) ! k = Waiting"
    by (auto simp: in_set_conv_nth)
  define s1 where "s1 = upd_session es (set_response r) s"
  have s1: "get_session es s1 = set_response r (get_session es s)" "informed s1 = informed s" by (simp_all add: s1_def)
  have lk: "informed (thread_locked es k to x) = informed x" for to x by (auto simp: thread_locked_def Let_def)
  have fin: "informed (thread_finish es k x) = informed x @ [m]"
    if "threads (get_session es x) ! k = Finishing (Some m)" for x m
    using that by (simp add: thread_finish_def Let_def)
  have "informed (thread_finish es k (thread_locked es k False s1)) = informed s @ [(r, a)]"
    using fin [of "thread_locked es k False s1" "(r, a)"] k a(2,3) s1
    by (simp add: lk locked_get Let_def set_response_def)
  moreover have "informed (thread_finish es k (thread_locked es k True s)) = informed s @ [(GPS_NI_RESPONSE_NORESP, a)]"
    using fin [of "thread_locked es k True s" "(GPS_NI_RESPONSE_NORESP, a)"] k a(2)
    by (simp add: lk locked_get Let_def)
  ultimately show ?thesis
    using k by (intro exI [of _ k]) (simp add: Let_def s1_def finish_get locked_get)
qed

theorem ni_request_answered_witness:
  "\<exists>k. informed (thread_finish False k (thread_locked False k False
      (upd_session False (set_response GPS_NI_RESPONSE_ACCEPT) one_request))) = [(GPS_NI_RESPONSE_ACCEPT, 100)]"
proof -
  have raw: "rawRequest (get_session False one_request) = Some 100" "informed one_request = []"
    by (simp_all add: ni_run_simps)
  have ne: "GPS_NI_RESPONSE_ACCEPT \<noteq> GPS_NI_RESPONSE_IGNORE" by simp
  from ni_request_answered [OF one_request_reachable raw(1) ne] raw(2) show ?thesis by (auto simp: Let_def)
qed

text \<open>The number of the session is cleared after the lock was given up: a request that is
  accepted in between loses its number, and the user's answer to it is thrown away.\<close>

theorem ni_answer_lost:
  "(let s1 = thread_locked False 0 True one_request;
        s2 = loc_eng_ni_request_handler True voip (Some 200) s1;
        s3 = thread_finish False 0 s2
    in ni_reachable False s3 \<and> notified s3 = [(1, GPS_NI_TYPE_UMTS_SUPL), (2, GPS_NI_TYPE_UMTS_SUPL)] \<and>
       rawRequest (session s3) = Some 200 \<and> loc_eng_ni_respond 2 GPS_NI_RESPONSE_ACCEPT s3 = s3)"
proof -
  define s1 where "s1 = thread_locked False 0 True one_request"
  define s2 where "s2 = loc_eng_ni_request_handler True voip (Some 200) s1"
  have 1: "ni_reachable False s1"
    unfolding s1_def by (rule ni_reachable.step [OF one_request_reachable], rule ni_step.wake) (simp_all add: ni_run_simps)
  have 2: "ni_reachable False s2"
    unfolding s2_def by (rule ni_reachable.step [OF 1], rule ni_step.request) simp
  have "ni_reachable False (thread_finish False 0 s2)"
    by (rule ni_reachable.step [OF 2], rule ni_step.finish) (simp_all add: s2_def s1_def ni_run_simps)
  moreover have "notified (thread_finish False 0 s2) = [(1, GPS_NI_TYPE_UMTS_SUPL), (2, GPS_NI_TYPE_UMTS_SUPL)]"
    "rawRequest (session (thread_finish False 0 s2)) = Some 200"
    "loc_eng_ni_respond 2 GPS_NI_RESPONSE_ACCEPT (thread_finish False 0 s2) = thread_finish False 0 s2"
    by (simp_all add: s2_def s1_def ni_run_simps)
  ultimately show ?thesis by (simp add: Let_def s1_def s2_def)
qed

text \<open>After a restart of the engine the wake-up meant for the old thread is still set when the
  next request opens its session: that request is answered at once with the previous answer,
  although the user has not been heard.\<close>

theorem ni_stale_answer_after_restart:
  "(let s0 = loc_eng_ni_respond 1 GPS_NI_RESPONSE_ACCEPT one_request;
        s1 = loc_eng_ni_reset_on_engine_restart s0;
        s2 = loc_eng_ni_request_handler True voip (Some 200) s1;
        s3 = thread_finish False 1 (thread_locked False 1 False s2)
    in respRecvd (session s2) \<and> informed s2 = [] \<and> informed s3 = [(GPS_NI_RESPONSE_ACCEPT, 200)])"
  by (simp add: ni_run_simps)

text \<open>The restart frees the payload before it takes the lock: if the waiting thread times out
  in between, it sends the freed payload to the modem, and the message frees it again.\<close>

theorem ni_restart_race:
  "(let s1 = reset_free False one_request;
        s2 = thread_finish False 0 (thread_locked False 0 True s1);
        s3 = reset_wake False (reset_clear False s2)
    in freed_payloads s3 = [100] \<and> informed s3 = [(GPS_NI_RESPONSE_NORESP, 100)] \<and>
       loc_eng_ni_reset_on_engine_restart one_request =
         reset_wake False (reset_clear False (reset_free False one_request)))"
  by (simp add: ni_run_simps)

end
