(* ===== verification/LocCfg.thy ===== *)
theory LocCfg
  imports Complex_Main Prelude
begin

text \<open>
  Models \<open>src/gps/utils/loc_cfg.cpp\<close>, the reader of \<open>gps.conf\<close> and its like, with
  \<open>loc_util_trim_space\<close> of \<open>src/gps/utils/loc_misc_utils.cpp\<close>: the tokens of a line, the
  numbers in it, the table of parameters it is matched with, and the two loops over a file
  and over a buffer.

  A parameter's storage is an address: \<open>vals\<close> holds what is stored there, \<open>sets\<close> the
  validity bytes. A C string is the list of the characters before its NUL. The library
  calls \<open>strtok_r\<close>, \<open>fgets\<close>, \<open>strtol\<close> (on a \<open>long\<close> of \<open>lb\<close> bits) and \<open>atoi\<close> are defined
  here as the C standard has them; the rounding of \<open>atof\<close> is the platform's and \<open>atof\<close> is an
  argument.
\<close>

section \<open>The C library\<close>

definition newline :: char where "newline = CHR 0x0A"
definition NUL :: char where "NUL = CHR 0x00"

definition isspace :: "char \<Rightarrow> bool" where
  "isspace c \<longleftrightarrow> c = CHR 0x20 \<or> (9 \<le> (of_char c :: nat) \<and> (of_char c :: nat) \<le> 13)"

text \<open>One call of \<open>strtok_r\<close> with a single delimiter: the token and what \<open>lasts\<close> points at.\<close>

definition strtok :: "char \<Rightarrow> string \<Rightarrow> (string \<times> string) option" where
  "strtok d s = (let t = dropWhile (\<lambda>c. c = d) s in
     if t = [] then None
     else Some (takeWhile (\<lambda>c. c \<noteq> d) t, drop 1 (dropWhile (\<lambda>c. c \<noteq> d) t)))"

lemma strtok_shorter: "strtok d s = Some (tok, rest) \<Longrightarrow> length rest < length s"
  using length_dropWhile_le [of "\<lambda>c. c = d" s]
    length_dropWhile_le [of "\<lambda>c. c \<noteq> d" "dropWhile (\<lambda>c. c = d) s"]
  by (cases s) (auto simp: strtok_def Let_def split: if_splits)

text \<open>\<open>fgets(buf, n, fp)\<close> on the rest of the file: at most \<open>n - 1\<close> characters, up to and
  with the newline.\<close>

definition fgets :: "nat \<Rightarrow> string \<Rightarrow> (string \<times> string) option" where
  "fgets n s = (if s = [] then None
     else let m = min (n - 1) (length (takeWhile (\<lambda>c. c \<noteq> newline) s) + 1)
          in Some (take m s, drop m s))"

definition digit_value :: "char \<Rightarrow> nat option" where
  "digit_value c = (let k = of_char c :: nat in
     if 48 \<le> k \<and> k \<le> 57 then Some (k - 48)
     else if 97 \<le> k \<and> k \<le> 122 then Some (k - 87)
     else if 65 \<le> k \<and> k \<le> 90 then Some (k - 55)
     else None)"

fun digits :: "nat \<Rightarrow> nat \<Rightarrow> string \<Rightarrow> nat" where
  "digits base acc [] = acc"
| "digits base acc (c # cs) =
     (case digit_value c of
        None \<Rightarrow> acc
      | Some d \<Rightarrow> if d < base then digits base (acc * base + d) cs else acc)"

fun sign :: "string \<Rightarrow> bool \<times> string" where
  "sign [] = (False, [])"
| "sign (c # cs) = (if c = CHR ''-'' then (True, cs) else if c = CHR ''+'' then (False, cs)
     else (False, c # cs))"

fun skip_0x :: "string \<Rightarrow> string" where
  "skip_0x (a # b # c # cs) =
     (if a = CHR ''0'' \<and> (b = CHR ''x'' \<or> b = CHR ''X'') \<and>
         (case digit_value c of None \<Rightarrow> False | Some d \<Rightarrow> d < 16)
      then c # cs else a # b # c # cs)"
| "skip_0x s = s"

definition strtol :: "nat \<Rightarrow> string \<Rightarrow> nat \<Rightarrow> int" where
  "strtol lb s base =
     (case sign (dropWhile isspace s) of (neg, t) \<Rightarrow>
        let t = (if base = 16 then skip_0x t else t);
            v = int (digits base 0 t);
            v = (if neg then - v else v)
        in max (- (2 ^ (lb - 1))) (min (2 ^ (lb - 1) - 1) v))"

section \<open>Trimming\<close>

text \<open>The loop of \<open>loc_util_trim_space\<close> on the buffer, in place: \<open>first\<close> and \<open>last\<close> are
  the pointers \<open>first_nonspace\<close> (only whether it is set matters) and \<open>last_nonspace\<close>.\<close>

function trim_loop :: "string \<Rightarrow> nat \<Rightarrow> nat \<Rightarrow> bool \<Rightarrow> nat option \<Rightarrow> string \<times> nat option" where
  "trim_loop buf scan wr first lnon =
     (if scan < length buf \<and> buf ! scan \<noteq> NUL
      then let c = buf ! scan;
               first = (first \<or> \<not> isspace c);
               buf' = (if first then buf[wr := c] else buf);
               wr' = (if first then Suc wr else wr);
               lnon = (if first \<and> \<not> isspace c then Some wr' else lnon)
           in trim_loop buf' (Suc scan) wr' first lnon
      else (buf, lnon))"
  by auto
termination by (relation "measure (\<lambda>(buf, scan, _). length buf - scan)") (auto simp: Let_def)

declare trim_loop.simps [simp del]

definition loc_util_trim_space :: "string \<Rightarrow> string" where
  "loc_util_trim_space org_string =
     (case trim_loop org_string 0 0 False None of
        (buf, None) \<Rightarrow> buf
      | (buf, Some l) \<Rightarrow> buf[l := NUL])"

section \<open>The parameter table\<close>

datatype stored = Str string | Num uint32 | Dbl real

record loc_param =
  param_name :: string
  param_ptr :: "addr option"
  param_set :: "addr option"
  param_type :: char

record loc_param_v =
  v_name :: string
  v_str :: string
  v_int :: uint32
  v_double :: real

record conf_mem =
  vals :: "addr \<Rightarrow> stored"
  sets :: "addr \<Rightarrow> uint8"
  logger :: "stored \<times> stored"

definition LOC_MAX_PARAM_STRING :: nat where "LOC_MAX_PARAM_STRING = 80"
definition LOC_MAX_PARAM_LINE :: nat where "LOC_MAX_PARAM_LINE = 160"

definition store_param :: "addr \<Rightarrow> stored \<Rightarrow> addr option \<Rightarrow> conf_mem \<Rightarrow> conf_mem" where
  "store_param p v flag m =
     (let m = m\<lparr>vals := (vals m)(p := v)\<rparr>
      in case flag of None \<Rightarrow> m | Some f \<Rightarrow> m\<lparr>sets := (sets m)(f := 1)\<rparr>)"

definition loc_set_config_entry ::
  "loc_param option \<Rightarrow> loc_param_v option \<Rightarrow> conf_mem \<Rightarrow> conf_mem \<times> int" where
  "loc_set_config_entry config_entry config_value m =
     (case (config_entry, config_value) of
        (Some e, Some v) \<Rightarrow>
          (case param_ptr e of
             None \<Rightarrow> (m, -1)
           | Some p \<Rightarrow>
               if param_name e = v_name v then
                 if param_type e = CHR ''s'' then
                   (store_param p (Str (if v_str v = ''NULL'' then []
                      else take LOC_MAX_PARAM_STRING (v_str v))) (param_set e) m, 0)
                 else if param_type e = CHR ''n'' then
                   (store_param p (Num (v_int v)) (param_set e) m, 0)
                 else if param_type e = CHR ''f'' then
                   (store_param p (Dbl (v_double v)) (param_set e) m, 0)
                 else (m, -1)
               else (m, -1))
      | _ \<Rightarrow> (m, -1))"

section \<open>A line\<close>

text \<open>The first half of \<open>loc_fill_conf_item\<close>: None when the line has not two operands.\<close>

definition conf_value :: "nat \<Rightarrow> (string \<Rightarrow> real) \<Rightarrow> string \<Rightarrow> loc_param_v option" where
  "conf_value lb atof input_buf =
     (case strtok CHR ''='' input_buf of
        None \<Rightarrow> None
      | Some (name, lasts) \<Rightarrow>
          (case strtok CHR ''='' lasts of
             None \<Rightarrow> None
           | Some (val, _) \<Rightarrow>
               let name = cstr (loc_util_trim_space (name @ [NUL]));
                   val = cstr (loc_util_trim_space (val @ [NUL]))
               in Some (if 3 \<le> length val \<and> val ! 0 = CHR ''0'' \<and>
                           (val ! 1 = CHR ''x'' \<or> val ! 1 = CHR ''X'')
                        then \<lparr>v_name = name, v_str = val,
                              v_int = word_of_int (strtol lb (drop 2 val) 16), v_double = 0\<rparr>
                        else \<lparr>v_name = name, v_str = val,
                              v_int = word_of_int (strtol lb val 10), v_double = atof val\<rparr>)))"

fun set_entries :: "loc_param_v \<Rightarrow> loc_param list \<Rightarrow> conf_mem \<times> nat \<Rightarrow> conf_mem \<times> nat" where
  "set_entries v [] s = s"
| "set_entries v (e # es) (m, ret) =
     (case loc_set_config_entry (Some e) (Some v) m of
        (m', r) \<Rightarrow> set_entries v es (m', if r = 0 then ret + 1 else ret))"

definition loc_fill_conf_item ::
  "nat \<Rightarrow> (string \<Rightarrow> real) \<Rightarrow> string option \<Rightarrow> loc_param list option \<Rightarrow> uint32 \<Rightarrow> conf_mem
   \<Rightarrow> conf_mem \<times> nat" where
  "loc_fill_conf_item lb atof input_buf config_table table_length m =
     (case (input_buf, config_table) of
        (Some buf, Some table) \<Rightarrow>
          (case conf_value lb atof (cstr buf) of
             None \<Rightarrow> (m, 0)
           | Some v \<Rightarrow> set_entries v (take (unat table_length) table) (m, 0))
      | _ \<Rightarrow> (m, 0))"

section \<open>A file and a buffer\<close>

definition clear_flags :: "loc_param list \<Rightarrow> conf_mem \<Rightarrow> conf_mem" where
  "clear_flags table m = fold (\<lambda>e m. case param_set e of None \<Rightarrow> m
     | Some f \<Rightarrow> m\<lparr>sets := (sets m)(f := 0)\<rparr>) table m"

function read_loop ::
  "nat \<Rightarrow> (string \<Rightarrow> real) \<Rightarrow> loc_param list option \<Rightarrow> uint32 \<Rightarrow> uint32 \<Rightarrow> string \<Rightarrow> conf_mem
   \<Rightarrow> conf_mem \<times> string" where
  "read_loop lb atof config_table table_length num_params s m =
     (if num_params = 0 then (m, s)
      else case fgets LOC_MAX_PARAM_LINE s of
        None \<Rightarrow> (m, s)
      | Some (input_buf, rest) \<Rightarrow>
          (case loc_fill_conf_item lb atof (Some input_buf) config_table table_length m of
             (m', k) \<Rightarrow> read_loop lb atof config_table table_length (num_params - of_nat k) rest m'))"
  by auto
termination
  by (relation "measure (\<lambda>(_, _, _, _, _, s, _). length s)")
    (auto simp: fgets_def LOC_MAX_PARAM_LINE_def Let_def split: if_splits)

declare read_loop.simps [simp del]

definition loc_read_conf_r ::
  "nat \<Rightarrow> (string \<Rightarrow> real) \<Rightarrow> string option \<Rightarrow> loc_param list option \<Rightarrow> uint32 \<Rightarrow> conf_mem
   \<Rightarrow> conf_mem \<times> string option \<times> int" where
  "loc_read_conf_r lb atof conf_fp config_table table_length m =
     (case conf_fp of
        None \<Rightarrow> (m, None, -1)
      | Some s \<Rightarrow>
          let m = (case config_table of None \<Rightarrow> m
                   | Some table \<Rightarrow> clear_flags (take (unat table_length) table) m)
          in case read_loop lb atof config_table table_length table_length s m of
               (m', rest) \<Rightarrow> (m', Some rest, 0))"

text \<open>\<open>DEBUG_LEVEL\<close> and \<open>TIMESTAMP\<close> are the two variables behind \<open>loc_param_table\<close>.\<close>

definition loc_param_table :: "addr \<Rightarrow> addr \<Rightarrow> loc_param list" where
  "loc_param_table debug_level timestamp =
     [\<lparr>param_name = ''DEBUG_LEVEL'', param_ptr = Some debug_level, param_set = None, param_type = CHR ''n''\<rparr>,
      \<lparr>param_name = ''TIMESTAMP'', param_ptr = Some timestamp, param_set = None, param_type = CHR ''n''\<rparr>]"

definition loc_read_conf ::
  "nat \<Rightarrow> (string \<Rightarrow> real) \<Rightarrow> addr \<Rightarrow> addr \<Rightarrow> (string \<Rightarrow> string option) \<Rightarrow> string
   \<Rightarrow> loc_param list option \<Rightarrow> uint32 \<Rightarrow> conf_mem \<Rightarrow> conf_mem" where
  "loc_read_conf lb atof debug_level timestamp fopen conf_file_name config_table table_length m =
     (let m = (case fopen conf_file_name of
          None \<Rightarrow> m
        | Some text \<Rightarrow>
            let m = (if table_length \<noteq> 0 \<and> config_table \<noteq> None
                     then fst (loc_read_conf_r lb atof (Some text) config_table table_length m) else m)
            in fst (loc_read_conf_r lb atof (Some text) (Some (loc_param_table debug_level timestamp)) 2 m))
      in m\<lparr>logger := (vals m debug_level, vals m timestamp)\<rparr>)"

function update_loop ::
  "nat \<Rightarrow> (string \<Rightarrow> real) \<Rightarrow> loc_param list \<Rightarrow> uint32 \<Rightarrow> uint32 \<Rightarrow> string \<Rightarrow> conf_mem \<Rightarrow> nat
   \<Rightarrow> conf_mem \<times> nat" where
  "update_loop lb atof table table_length num_params s m ret =
     (if num_params = 0 then (m, ret)
      else case strtok newline s of
        None \<Rightarrow> (m, ret)
      | Some (input_buf, saveptr) \<Rightarrow>
          (case loc_fill_conf_item lb atof (Some input_buf) (Some table) table_length m of
             (m', k) \<Rightarrow> update_loop lb atof table table_length (num_params - of_nat k) saveptr m' (ret + 1)))"
  by auto
termination
  by (relation "measure (\<lambda>(_, _, _, _, _, s, _). length s)") (auto dest: strtok_shorter)

declare update_loop.simps [simp del]

text \<open>\<open>malloc\<close> is taken to succeed when \<open>mem_ok\<close>. The first token is taken before the loop
  tests \<open>num_params\<close>, which changes nothing. The result is the number of lines gone through.\<close>

definition loc_update_conf ::
  "nat \<Rightarrow> (string \<Rightarrow> real) \<Rightarrow> bool \<Rightarrow> string option \<Rightarrow> nat \<Rightarrow> loc_param list option \<Rightarrow> uint32
   \<Rightarrow> conf_mem \<Rightarrow> conf_mem \<times> int" where
  "loc_update_conf lb atof mem_ok conf_data len config_table table_length m =
     (case (conf_data, config_table) of
        (Some text, Some table) \<Rightarrow>
          if len \<noteq> 0 \<and> table_length \<noteq> 0 \<and> mem_ok then
            (case update_loop lb atof table table_length (table_length - 1) (cstr (take len text)) m 0 of
               (m', ret) \<Rightarrow> (m', int ret))
          else (m, -1)
      | _ \<Rightarrow> (m, -1))"

section \<open>What the trimming leaves\<close>

definition strip :: "string \<Rightarrow> string" where
  "strip s = rev (dropWhile isspace (rev (dropWhile isspace s)))"

lemma cstr_NUL: "NUL \<notin> set s \<Longrightarrow> cstr (s @ NUL # r) = s"
  by (induction s) (auto simp: cstr_def NUL_def)

text \<open>After the blanks in front are skipped: \<open>done\<close> has been shifted to the front, \<open>l\<close>
  points behind its last character that is not a blank.\<close>

lemma trim_shift:
  "\<lbrakk>NUL \<notin> set s; wr = length moved; scan = length moved + length gap;
    l = Some k; k \<le> length moved\<rbrakk>
   \<Longrightarrow> \<exists>junk l'. trim_loop (moved @ gap @ s @ [NUL]) scan wr True l = (moved @ s @ junk, Some l') \<and>
     junk \<noteq> [] \<and>
     l' = (if \<forall>c \<in> set s. isspace c then k
           else length moved + (length s - length (takeWhile isspace (rev s))))"
proof (induction s arbitrary: moved gap scan wr l k)
  case Nil
  then show ?case by (subst trim_loop.simps) (auto simp: nth_append)
next
  case (Cons c s)
  let ?buf = "moved @ gap @ (c # s) @ [NUL]"
  have n: "?buf ! scan = c" "scan < length ?buf" "c \<noteq> NUL"
    using Cons.prems by (auto simp: nth_append)
  obtain gap' where g: "?buf[wr := c] = (moved @ [c]) @ gap' @ s @ [NUL]" "length gap' = length gap"
  proof (cases gap)
    case Nil
    then show thesis using Cons.prems by (intro that [of "[]"]) (auto simp: list_update_append)
  next
    case (Cons x gap0)
    then show thesis using Cons.prems by (intro that [of "gap0 @ [c]"]) (auto simp: list_update_append)
  qed
  let ?l = "if isspace c then l else Some (Suc wr)"
  let ?k = "if isspace c then k else Suc wr"
  have step: "trim_loop ?buf scan wr True l = trim_loop ((moved @ [c]) @ gap' @ s @ [NUL]) (Suc scan) (Suc wr) True ?l"
    using n g by (subst trim_loop.simps) (simp add: Let_def)
  obtain junk l' where ih: "trim_loop ((moved @ [c]) @ gap' @ s @ [NUL]) (Suc scan) (Suc wr) True ?l
      = ((moved @ [c]) @ s @ junk, Some l')" "junk \<noteq> []"
    "l' = (if \<forall>c \<in> set s. isspace c then ?k
           else length (moved @ [c]) + (length s - length (takeWhile isspace (rev s))))"
  proof -
    have "NUL \<notin> set s" "Suc wr = length (moved @ [c])" "Suc scan = length (moved @ [c]) + length gap'"
      "?l = Some ?k" "?k \<le> length (moved @ [c])" using Cons.prems g(2) by auto
    from Cons.IH [OF this] that show thesis by blast
  qed
  have l': "l' = (if \<forall>c \<in> set (c # s). isspace c then k
           else length moved + (length (c # s) - length (takeWhile isspace (rev (c # s)))))"
  proof (cases "\<forall>c \<in> set s. isspace c")
    case True
    have l'k: "l' = ?k" by (rule trans [OF ih(3) if_P [OF True]])
    have "takeWhile isspace (rev s @ [c]) = rev s @ (if isspace c then [c] else [])"
      using True takeWhile_append2 [of "rev s" isspace "[c]"] by simp
    then show ?thesis using True l'k Cons.prems(2) by (cases "isspace c") simp_all
  next
    case False
    then obtain x where "x \<in> set (rev s)" "\<not> isspace x" by auto
    then have "takeWhile isspace (rev s @ [c]) = takeWhile isspace (rev s)"
      by (rule takeWhile_append1)
    moreover have "length (takeWhile isspace (rev s)) \<le> length s"
      using length_takeWhile_le [of isspace "rev s"] by simp
    moreover have "l' = length (moved @ [c]) + (length s - length (takeWhile isspace (rev s)))"
      by (rule trans [OF ih(3) if_not_P [OF False]])
    ultimately have "l' = length moved + (length (c # s) - length (takeWhile isspace (rev (c # s))))"
      by (simp add: Suc_diff_le)
    moreover have "\<not> (\<forall>c \<in> set (c # s). isspace c)" using False by auto
    ultimately show ?thesis by (subst if_not_P)
  qed
  have "trim_loop ?buf scan wr True l = (moved @ (c # s) @ junk, Some l')"
    unfolding step ih(1) by simp
  with l' ih(2) show ?case by blast
qed

lemma trim_lead:
  "\<lbrakk>\<forall>c \<in> set b. isspace c \<and> c \<noteq> NUL; scan = length pre\<rbrakk>
   \<Longrightarrow> trim_loop (pre @ b @ r) scan 0 False None = trim_loop (pre @ b @ r) (scan + length b) 0 False None"
proof (induction b arbitrary: pre scan)
  case (Cons c b)
  have "trim_loop (pre @ (c # b) @ r) scan 0 False None = trim_loop (pre @ (c # b) @ r) (Suc scan) 0 False None"
    using Cons.prems by (subst trim_loop.simps) (simp add: Let_def nth_append)
  then show ?case using Cons.IH [of "Suc scan" "pre @ [c]"] Cons.prems by simp
qed simp

lemma trim_eq:
  assumes "NUL \<notin> set s"
  shows "cstr (loc_util_trim_space (s @ [NUL])) = (if \<forall>c \<in> set s. isspace c then s else strip s)"
proof -
  let ?b = "takeWhile isspace s"
  have b: "\<forall>c \<in> set ?b. isspace c \<and> c \<noteq> NUL" using assms by (auto dest: set_takeWhileD)
  show ?thesis
  proof (cases "dropWhile isspace s")
    case Nil
    then have s: "\<forall>c \<in> set s. isspace c" by (simp add: dropWhile_eq_Nil_conv)
    have "trim_loop ([] @ s @ [NUL]) 0 0 False None = trim_loop ([] @ s @ [NUL]) (0 + length s) 0 False None"
      using s assms by (intro trim_lead) auto
    also have "\<dots> = (s @ [NUL], None)" by (subst trim_loop.simps) (simp add: nth_append)
    finally show ?thesis using s assms by (simp add: loc_util_trim_space_def cstr_NUL)
  next
    case (Cons c r)
    then have s: "s = ?b @ c # r" and c: "\<not> isspace c"
      using takeWhile_dropWhile_id [of isspace s] hd_dropWhile [of isspace s] by auto
    have nul: "NUL \<notin> set r" "c \<noteq> NUL" using assms s by (metis in_set_conv_decomp Un_iff set_append set_subset_Cons subsetD list.set_intros(1))+
    have e: "s @ [NUL] = [] @ ?b @ (c # r @ [NUL])" by (subst s) simp
    obtain gap where g: "([] @ ?b @ (c # r @ [NUL]))[0 := c] = [c] @ gap @ r @ [NUL]" "length gap = length ?b"
    proof (cases ?b)
      case Nil
      then show thesis by (intro that [of "[]"]) auto
    next
      case (Cons x b0)
      then show thesis by (intro that [of "b0 @ [c]"]) auto
    qed
    have "trim_loop (s @ [NUL]) 0 0 False None = trim_loop ([] @ ?b @ (c # r @ [NUL])) (0 + length ?b) 0 False None"
      unfolding e by (rule trim_lead [OF b]) simp
    also have "\<dots> = trim_loop ([c] @ gap @ r @ [NUL]) (Suc (length ?b)) 1 True (Some 1)"
      using c nul(2) g(1) by (subst trim_loop.simps) (simp add: Let_def nth_append)
    finally have l: "trim_loop (s @ [NUL]) 0 0 False None = trim_loop ([c] @ gap @ r @ [NUL]) (Suc (length ?b)) 1 True (Some 1)" .
    obtain junk l' where t: "trim_loop (s @ [NUL]) 0 0 False None = ([c] @ r @ junk, Some l')" "junk \<noteq> []"
      "l' = (if \<forall>c \<in> set r. isspace c then 1 else 1 + (length r - length (takeWhile isspace (rev r))))"
      using trim_shift [OF nul(1), of 1 "[c]" "Suc (length ?b)" gap "Some 1" 1] g(2) l by auto
    let ?w = "c # take (l' - 1) r"
    have lw: "l' = length ?w" "l' - 1 \<le> length r" using t(3) by (auto split: if_splits)
    have w: "strip s = ?w"
    proof -
      have "dropWhile isspace (rev r @ [c]) = rev ?w"
      proof (cases "\<forall>c \<in> set r. isspace c")
        case True
        then show ?thesis using c t(3) dropWhile_append2 [of "rev r" isspace "[c]"] by simp
      next
        case False
        then have "dropWhile isspace (rev r @ [c]) = dropWhile isspace (rev r) @ [c]"
          by (metis dropWhile_append1 set_rev)
        also have "dropWhile isspace (rev r) = rev (take (length r - length (takeWhile isspace (rev r))) r)"
          by (metis dropWhile_eq_drop rev_take rev_rev_ident length_rev rev_drop)
        finally show ?thesis using t(3) False by simp
      qed
      then show ?thesis by (simp add: strip_def Cons)
    qed
    have j: "([c] @ r @ junk)[l' := NUL] = ?w @ NUL # drop (Suc l') ([c] @ r @ junk)"
    proof -
      have "l' < length ([c] @ r @ junk)" using lw t(2) by (cases junk) auto
      then have "([c] @ r @ junk)[l' := NUL] = take l' ([c] @ r @ junk) @ NUL # drop (Suc l') ([c] @ r @ junk)"
        by (rule upd_conv_take_nth_drop)
      moreover have "take l' ([c] @ r @ junk) = ?w" using lw by (cases l') auto
      ultimately show ?thesis by simp
    qed
    have "NUL \<notin> set ?w" using nul by (auto dest: in_set_takeD)
    then have "cstr (loc_util_trim_space (s @ [NUL])) = strip s"
      unfolding loc_util_trim_space_def t(1) w using j cstr_NUL [of ?w] by simp
    moreover have "\<not> (\<forall>c \<in> set s. isspace c)" using c s by (metis in_set_conv_decomp)
    ultimately show ?thesis by (subst if_not_P)
  qed
qed

section \<open>What a file sets\<close>

text \<open>The lines \<open>fgets\<close> delivers from a file, and the assignments in them.\<close>

lemma fgets_shorter: "fgets LOC_MAX_PARAM_LINE s = Some (l, rest) \<Longrightarrow> length rest < length s"
  by (auto simp: fgets_def LOC_MAX_PARAM_LINE_def Let_def split: if_splits)

function file_lines :: "string \<Rightarrow> string list" where
  "file_lines s = (case fgets LOC_MAX_PARAM_LINE s of None \<Rightarrow> [] | Some (l, rest) \<Rightarrow> l # file_lines rest)"
  by auto
termination by (relation "measure length") (auto dest: fgets_shorter)

declare file_lines.simps [simp del]

definition file_items :: "nat \<Rightarrow> (string \<Rightarrow> real) \<Rightarrow> string \<Rightarrow> loc_param_v list" where
  "file_items lb atof s = List.map_filter (\<lambda>l. conf_value lb atof (cstr l)) (file_lines s)"

definition conv :: "loc_param \<Rightarrow> loc_param_v \<Rightarrow> stored" where
  "conv e v = (if param_type e = CHR ''s'' then Str (if v_str v = ''NULL'' then []
        else take LOC_MAX_PARAM_STRING (v_str v))
     else if param_type e = CHR ''n'' then Num (v_int v) else Dbl (v_double v))"

definition table_ok :: "loc_param list \<Rightarrow> bool" where
  "table_ok table \<longleftrightarrow> distinct (map param_name table) \<and> distinct (map param_ptr table) \<and>
     distinct (filter (\<lambda>f. f \<noteq> None) (map param_set table)) \<and>
     (\<forall>e \<in> set table. param_ptr e \<noteq> None \<and> param_type e \<in> {CHR ''s'', CHR ''n'', CHR ''f''})"

definition apply_item :: "loc_param list \<Rightarrow> loc_param_v \<Rightarrow> conf_mem \<Rightarrow> conf_mem" where
  "apply_item table v m = fst (set_entries v table (m, 0))"

lemma store_param_sel [simp]:
  "vals (store_param p v flag m) = (vals m)(p := v)"
  "sets (store_param p v flag m) = (case flag of None \<Rightarrow> sets m | Some f \<Rightarrow> (sets m)(f := 1))"
  by (simp_all add: store_param_def Let_def split: option.split)

lemma set_entry_other: "param_name e \<noteq> v_name v \<Longrightarrow> loc_set_config_entry (Some e) (Some v) m = (m, -1)"
  by (simp add: loc_set_config_entry_def split: option.split)

lemma set_entry_match:
  "\<lbrakk>param_name e = v_name v; param_ptr e = Some p; param_type e \<in> {CHR ''s'', CHR ''n'', CHR ''f''}\<rbrakk>
   \<Longrightarrow> loc_set_config_entry (Some e) (Some v) m = (store_param p (conv e v) (param_set e) m, 0)"
  by (auto simp: loc_set_config_entry_def conv_def)

lemma set_entries_absent: "v_name v \<notin> param_name ` set table \<Longrightarrow> set_entries v table (m, k) = (m, k)"
  by (induction table) (auto simp: set_entry_other)

lemma set_entries_present:
  "\<lbrakk>e \<in> set table; distinct (map param_name table); param_name e = v_name v; param_ptr e = Some p;
    param_type e \<in> {CHR ''s'', CHR ''n'', CHR ''f''}\<rbrakk>
   \<Longrightarrow> set_entries v table (m, k) = (store_param p (conv e v) (param_set e) m, k + 1)"
proof (induction table arbitrary: m k)
  case (Cons x table)
  show ?case
  proof (cases "x = e")
    case True
    then have "v_name v \<notin> param_name ` set table" using Cons.prems(2,3) by auto
    then show ?thesis using True Cons.prems by (simp add: set_entry_match set_entries_absent)
  next
    case False
    then have e: "e \<in> set table" using Cons.prems(1) by simp
    moreover have "param_name x \<notin> param_name ` set table" using Cons.prems(2) by simp
    ultimately have "param_name x \<noteq> v_name v" using imageI [OF e, of param_name] Cons.prems(3) by force
    then show ?thesis using Cons e by (simp add: set_entry_other)
  qed
qed simp

lemma table_okD:
  assumes "table_ok table" "e \<in> set table"
  obtains p where "param_ptr e = Some p" "param_type e \<in> {CHR ''s'', CHR ''n'', CHR ''f''}"
  using assms by (auto simp: table_ok_def)

lemma set_entries_count:
  assumes "table_ok table"
  shows "set_entries v table (m, k) =
    (apply_item table v m, if v_name v \<in> param_name ` set table then k + 1 else k)"
proof (cases "v_name v \<in> param_name ` set table")
  case True
  then obtain e where e: "e \<in> set table" "param_name e = v_name v" by auto
  obtain p where "param_ptr e = Some p" "param_type e \<in> {CHR ''s'', CHR ''n'', CHR ''f''}"
    using table_okD [OF assms e(1)] .
  then show ?thesis
    using assms e set_entries_present [of e table v p] True by (simp add: table_ok_def apply_item_def)
next
  case False
  then show ?thesis using set_entries_absent [OF False] by (simp add: apply_item_def)
qed

lemma ptr_inj: "\<lbrakk>table_ok table; e \<in> set table; e' \<in> set table; param_ptr e = param_ptr e'\<rbrakk> \<Longrightarrow> e = e'"
  by (auto simp: table_ok_def distinct_map inj_on_def)

lemma set_inj:
  "\<lbrakk>table_ok table; e \<in> set table; e' \<in> set table; param_set e = Some f; param_set e' = Some f\<rbrakk> \<Longrightarrow> e = e'"
  by (auto simp: table_ok_def filter_map distinct_map inj_on_def)

lemma name_inj: "\<lbrakk>table_ok table; e \<in> set table; e' \<in> set table; param_name e = param_name e'\<rbrakk> \<Longrightarrow> e = e'"
  by (auto simp: table_ok_def distinct_map inj_on_def)

lemma apply_item_effect:
  assumes ok: "table_ok table" and e: "e \<in> set table" "param_ptr e = Some p"
  shows "vals (apply_item table v m) p = (if v_name v = param_name e then conv e v else vals m p)"
    and "param_set e = Some f \<Longrightarrow>
         sets (apply_item table v m) f = (if v_name v = param_name e then 1 else sets m f)"
proof -
  have "vals (apply_item table v m) p = (if v_name v = param_name e then conv e v else vals m p) \<and>
    (param_set e = Some f \<longrightarrow>
      sets (apply_item table v m) f = (if v_name v = param_name e then 1 else sets m f))"
  proof (cases "v_name v \<in> param_name ` set table")
    case True
    then obtain e' where e': "e' \<in> set table" "param_name e' = v_name v" by auto
    obtain p' where p': "param_ptr e' = Some p'" "param_type e' \<in> {CHR ''s'', CHR ''n'', CHR ''f''}"
      using table_okD [OF ok e'(1)] .
    have a: "apply_item table v m = store_param p' (conv e' v) (param_set e') m"
      using set_entries_present [OF e'(1) _ e'(2) p'] ok by (simp add: apply_item_def table_ok_def)
    show ?thesis
    proof (cases "e' = e")
      case True
      then show ?thesis using a e e' p'(1) by simp
    next
      case False
      then have "p' \<noteq> p" "v_name v \<noteq> param_name e" "param_set e = Some f \<Longrightarrow> param_set e' \<noteq> Some f"
        using ptr_inj [OF ok e'(1) e(1)] name_inj [OF ok e'(1) e(1)] set_inj [OF ok e'(1) e(1)] e e' p'
        by auto
      then show ?thesis using a by (auto split: option.split)
    qed
  next
    case False
    then show ?thesis using set_entries_absent [OF False] e by (auto simp: apply_item_def)
  qed
  then show "vals (apply_item table v m) p = (if v_name v = param_name e then conv e v else vals m p)"
    "param_set e = Some f \<Longrightarrow>
         sets (apply_item table v m) f = (if v_name v = param_name e then 1 else sets m f)" by auto
qed

lemma unat_of_nat_eq32: "n < 2 ^ 32 \<Longrightarrow> unat (of_nat n :: uint32) = n"
  by (simp add: unsigned_of_nat take_bit_nat_eq_self)

lemma fold_items:
  assumes ok: "table_ok table" and e: "e \<in> set table" "param_ptr e = Some p"
  shows "vals (fold (apply_item table) vs m) p =
      (case filter (\<lambda>v. v_name v = param_name e) (rev vs) of [] \<Rightarrow> vals m p | v # _ \<Rightarrow> conv e v)"
    and "param_set e = Some f \<Longrightarrow> sets (fold (apply_item table) vs m) f =
      (if filter (\<lambda>v. v_name v = param_name e) vs = [] then sets m f else 1)"
  by (induction vs rule: rev_induct) (auto simp: apply_item_effect [OF ok e])

lemma fold_items_none:
  "\<forall>v \<in> set vs. v_name v \<notin> param_name ` set table \<Longrightarrow> fold (apply_item table) vs m = m"
  by (induction vs arbitrary: m) (auto simp: apply_item_def set_entries_absent)

lemma fill_item:
  assumes "table_ok table" "unat tn = length table"
  shows "loc_fill_conf_item lb atof (Some l) (Some table) tn m =
    (case conf_value lb atof (cstr l) of None \<Rightarrow> (m, 0)
     | Some v \<Rightarrow> (apply_item table v m, if v_name v \<in> param_name ` set table then 1 else 0))"
  using assms by (auto simp: loc_fill_conf_item_def set_entries_count split: option.split)

lemma file_items_step:
  "file_items lb atof s = (case fgets LOC_MAX_PARAM_LINE s of None \<Rightarrow> []
     | Some (l, rest) \<Rightarrow> (case conf_value lb atof (cstr l) of None \<Rightarrow> [] | Some v \<Rightarrow> [v]) @
         file_items lb atof rest)"
  by (subst file_items_def, subst file_lines.simps)
    (auto simp: file_items_def List.map_filter_def split: option.split prod.split)

text \<open>The names of the table that are still to come: as long as no name comes twice, the
  counter of the loop is their number, and the loop ends early only when none is left.\<close>

lemma read_loop_all:
  assumes "table_ok table" "unat tn = length table"
    and "D \<subseteq> param_name ` set table" and "num = of_nat (card (param_name ` set table - D))"
    and "\<forall>n \<in> param_name ` set table. length (filter (\<lambda>v. v_name v = n) (file_items lb atof s)) \<le> (if n \<in> D then 0 else 1)"
  shows "fst (read_loop lb atof (Some table) tn num s m) = fold (apply_item table) (file_items lb atof s) m"
  using assms(3,4,5)
proof (induction s arbitrary: m num D rule: measure_induct_rule [of length])
  case (less s)
  let ?N = "param_name ` set table"
  have small: "card ?N < 2 ^ 32"
    using card_image_le [of "set table" param_name] card_length [of table] assms(2) unsigned_less [of tn, where 'a = nat]
    by simp
  have fin: "finite ?N" by simp
  have card_small: "card (?N - D) < 2 ^ 32"
    using card_mono [OF fin, of "?N - D"] small by fastforce
  show ?case
  proof (cases "num = 0")
    case True
    then have "card (?N - D) = 0"
      using less.prems(2) card_small by (metis unat_0 unat_of_nat_eq32)
    then have "?N \<subseteq> D" using fin by auto
    then have "\<forall>v \<in> set (file_items lb atof s). v_name v \<notin> ?N"
      using less.prems(3) by (force simp: filter_empty_conv)
    then show ?thesis using True by (subst read_loop.simps) (simp add: fold_items_none)
  next
    case False
    show ?thesis
    proof (cases "fgets LOC_MAX_PARAM_LINE s")
      case None
      then show ?thesis by (subst read_loop.simps, subst file_items_step) simp
    next
      case (Some lr)
      obtain l rest where lr: "fgets LOC_MAX_PARAM_LINE s = Some (l, rest)" using Some by (cases lr) auto
      note short = fgets_shorter [OF lr]
      show ?thesis
      proof (cases "conf_value lb atof (cstr l)")
        case None
        have it: "file_items lb atof s = file_items lb atof rest"
          by (subst file_items_step) (simp add: lr None)
        show ?thesis
          using False lr None less.IH [OF short less.prems(1,2)] less.prems(3)
          by (subst read_loop.simps) (simp add: fill_item [OF assms(1,2)] it)
      next
        case (Some v)
        have it: "file_items lb atof s = v # file_items lb atof rest"
          by (subst file_items_step) (simp add: lr Some)
        show ?thesis
        proof (cases "v_name v \<in> ?N")
          case True
          let ?D = "insert (v_name v) D"
          have nD: "v_name v \<notin> D" using less.prems(3) True by (auto simp: it split: if_splits)
          have "card (?N - D) = Suc (card (?N - ?D))"
            using True nD fin by (metis card_Suc_Diff1 Diff_iff Diff_insert finite_Diff)
          then have "num - 1 = of_nat (card (?N - ?D))" using less.prems(2) by simp
          moreover have "\<forall>n \<in> ?N. length (filter (\<lambda>v. v_name v = n) (file_items lb atof rest))
              \<le> (if n \<in> ?D then 0 else 1)"
          proof
            fix n assume "n \<in> ?N"
            then have b: "length (filter (\<lambda>v. v_name v = n) (file_items lb atof s)) \<le> (if n \<in> D then 0 else 1)"
              using less.prems(3) by blast
            show "length (filter (\<lambda>v. v_name v = n) (file_items lb atof rest)) \<le> (if n \<in> ?D then 0 else 1)"
            proof (cases "v_name v = n")
              case True
              then show ?thesis using b nD by (simp add: it)
            next
              case False
              then show ?thesis using b by (simp add: it split: if_splits)
            qed
          qed
          ultimately have "fst (read_loop lb atof (Some table) tn (num - 1) rest (apply_item table v m)) =
              fold (apply_item table) (file_items lb atof rest) (apply_item table v m)"
            using less.prems(1) True by (intro less.IH [OF short, of ?D]) auto
          then show ?thesis using False lr Some True
            by (subst read_loop.simps) (simp add: fill_item [OF assms(1,2)] it)
        next
          case nN: False
          have "filter (\<lambda>v. v_name v = n) (file_items lb atof s) =
              filter (\<lambda>v. v_name v = n) (file_items lb atof rest)" if "n \<in> ?N" for n
            using nN that by (auto simp: it)
          then have "\<forall>n \<in> ?N. length (filter (\<lambda>v. v_name v = n) (file_items lb atof rest))
              \<le> (if n \<in> D then 0 else 1)"
            using less.prems(3) by metis
          from less.IH [OF short less.prems(1,2) this]
          have "fst (read_loop lb atof (Some table) tn num rest (apply_item table v m)) =
              fold (apply_item table) (file_items lb atof rest) (apply_item table v m)" .
          then show ?thesis using False lr Some nN
            by (subst read_loop.simps) (simp add: fill_item [OF assms(1,2)] it)
        qed
      qed
    qed
  qed
qed

lemma clear_flags_effect:
  "vals (clear_flags table m) = vals m"
  "\<lbrakk>e \<in> set table; param_set e = Some f\<rbrakk> \<Longrightarrow> sets (clear_flags table m) f = 0"
proof -
  show "vals (clear_flags table m) = vals m"
    unfolding clear_flags_def by (induction table arbitrary: m) (auto split: option.split)
  have keep: "sets m f = 0 \<Longrightarrow> sets (clear_flags table m) f = 0" for m
    unfolding clear_flags_def by (induction table arbitrary: m) (auto split: option.split)
  show "\<lbrakk>e \<in> set table; param_set e = Some f\<rbrakk> \<Longrightarrow> sets (clear_flags table m) f = 0"
    using keep unfolding clear_flags_def
  proof (induction table arbitrary: m)
    case (Cons x table)
    have k: "sets m f = 0 \<Longrightarrow> sets (clear_flags table m) f = 0" for m
      unfolding clear_flags_def by (induction table arbitrary: m) (auto split: option.split)
    show ?case using Cons.prems(1,2) Cons.IH k by (auto simp: clear_flags_def)
  qed simp
qed

text \<open>C5: Reading a file with \<open>loc_read_conf_r\<close> does what its table says: when the names,
  the storage and the validity bytes of the table are distinct and no name of the table is
  assigned twice in the file, every record whose name the file assigns holds the value of
  that line, converted by its type, and is marked valid, and every other record keeps its
  value and is marked not set; the counter never ends the loop before that.\<close>

theorem conf_read_complete:
  assumes "table_ok table" and "unat tn = length table"
    and "\<forall>e \<in> set table. length (filter (\<lambda>v. v_name v = param_name e) (file_items lb atof text)) \<le> 1"
    and "e \<in> set table" and "param_ptr e = Some p"
  shows "let m' = fst (loc_read_conf_r lb atof (Some text) (Some table) tn m);
             here = filter (\<lambda>v. v_name v = param_name e) (file_items lb atof text)
    in vals m' p = (case here of [] \<Rightarrow> vals m p | v # _ \<Rightarrow> conv e v) \<and>
       (\<forall>f. param_set e = Some f \<longrightarrow> sets m' f = (if here = [] then 0 else 1))"
proof -
  let ?N = "param_name ` set table" and ?vs = "file_items lb atof text"
  let ?here = "filter (\<lambda>v. v_name v = param_name e) ?vs"
  have "card ?N = length table"
    using assms(1) by (metis distinct_card length_map set_map table_ok_def)
  then have "tn = of_nat (card (?N - {}))" by (simp flip: assms(2))
  then have "fst (read_loop lb atof (Some table) tn tn text (clear_flags table m)) =
      fold (apply_item table) ?vs (clear_flags table m)"
    using assms(3) by (intro read_loop_all [OF assms(1,2), of "{}"]) auto
  then have m: "fst (loc_read_conf_r lb atof (Some text) (Some table) tn m) =
      fold (apply_item table) ?vs (clear_flags table m)"
    using assms(2) by (simp add: loc_read_conf_r_def Let_def case_prod_beta)
  have "length ?here \<le> 1" using assms(3,4) by blast
  then have r: "rev ?here = ?here" by (cases ?here) auto
  show ?thesis
    unfolding m Let_def
    using fold_items(1) [OF assms(1,4,5), of ?vs "clear_flags table m"]
      fold_items(2) [OF assms(1,4,5), of _ ?vs "clear_flags table m"]
      clear_flags_effect(1) [of table m] clear_flags_effect(2) [OF assms(4), of _ m] r
    by (simp flip: rev_filter split: list.split)
qed

lemma update_loop_misses:
  assumes "table_ok table" "unat tn = length table"
  shows "\<exists>D. finite D \<and> card D \<le> unat num \<and>
    (\<forall>e p. e \<in> set table \<and> param_ptr e = Some p \<and> param_name e \<notin> D \<longrightarrow>
       vals (fst (update_loop lb atof table tn num s m r)) p = vals m p)"
proof (induction s arbitrary: m num r rule: measure_induct_rule [of length])
  case (less s)
  show ?case
  proof (cases "num = 0 \<or> strtok newline s = None")
    case True
    then show ?thesis by (intro exI [of _ "{}"]) (subst update_loop.simps, auto)
  next
    case False
    then obtain l rest where lr: "strtok newline s = Some (l, rest)" by auto
    obtain m' k where f: "loc_fill_conf_item lb atof (Some l) (Some table) tn m = (m', k)"
      by fastforce
    have u: "update_loop lb atof table tn num s m r =
        update_loop lb atof table tn (num - of_nat k) rest m' (r + 1)"
      using False lr f by (subst update_loop.simps) simp
    obtain D where D: "finite D" "card D \<le> unat (num - of_nat k)"
        "\<forall>e p. e \<in> set table \<and> param_ptr e = Some p \<and> param_name e \<notin> D \<longrightarrow>
          vals (fst (update_loop lb atof table tn (num - of_nat k) rest m' (r + 1))) p = vals m' p"
      using less.IH [OF strtok_shorter [OF lr]] by blast
    have "(k = 0 \<and> m' = m) \<or> (\<exists>v. k = 1 \<and> m' = apply_item table v m) \<or> (k = 0 \<and> (\<exists>v. m' = apply_item table v m \<and> v_name v \<notin> param_name ` set table))"
      using f by (auto simp: fill_item [OF assms] split: option.splits if_splits)
    then consider "k = 0" "m' = m" | v where "k = 1" "m' = apply_item table v m"
      by (auto simp: apply_item_def set_entries_absent)
    then show ?thesis
    proof cases
      case 1
      then show ?thesis using D u by auto
    next
      case 2
      have "unat num \<noteq> 0" using False by (simp add: unsigned_eq_0_iff)
      moreover have "unat (num - 1) = unat num - 1" using False by (simp add: unat_minus_one)
      ultimately have "card (insert (v_name v) D) \<le> unat num"
        using D(1,2) 2(1) card_insert_le_m1 [of "unat num" D] by auto
      moreover have "vals (apply_item table v m) p = vals m p"
        if "e \<in> set table" "param_ptr e = Some p" "param_name e \<noteq> v_name v" for e p
        using that by (simp add: apply_item_effect [OF assms(1) that(1,2)])
      ultimately show ?thesis using D u 2
        by (intro exI [of _ "insert (v_name v) D"]) auto
    qed
  qed
qed

text \<open>\<open>loc_update_conf\<close> counts one record too few: however many lines the buffer has,
  at least one record of the table keeps the value it had, and a table of one record is
  never updated at all.\<close>

theorem conf_update_one_short:
  assumes "table_ok table" and "table \<noteq> []" and "unat tn = length table"
  shows "\<exists>e \<in> set table. vals (fst (loc_update_conf lb atof mem_ok (Some text) len (Some table) tn m)) (the (param_ptr e))
    = vals m (the (param_ptr e))"
proof -
  let ?m' = "fst (loc_update_conf lb atof mem_ok (Some text) len (Some table) tn m)"
  obtain D where D: "finite D" "card D \<le> unat (tn - 1)"
      "\<forall>e p. e \<in> set table \<and> param_ptr e = Some p \<and> param_name e \<notin> D \<longrightarrow>
         vals (fst (update_loop lb atof table tn (tn - 1) (cstr (take len text)) m 0)) p = vals m p"
    using update_loop_misses [OF assms(1,3), of "tn - 1" lb atof "cstr (take len text)" m 0]
    by (elim exE conjE) (rule that)
  have c: "card (param_name ` set table) = length table"
    using assms(1) by (metis distinct_card length_map set_map table_ok_def)
  have "tn \<noteq> 0" using assms(2,3) by auto
  then have "unat (tn - 1) = length table - 1" using assms(3) by (simp add: unat_minus_one)
  moreover have "0 < length table" using assms(2) by simp
  ultimately have "card D < card (param_name ` set table)" using D(2) c by linarith
  then have "\<not> param_name ` set table \<subseteq> D" using card_mono [OF D(1)] by (meson not_le)
  then obtain e where e: "e \<in> set table" "param_name e \<notin> D" by auto
  obtain p where p: "param_ptr e = Some p" using table_okD [OF assms(1) e(1)] .
  have "vals (fst (update_loop lb atof table tn (tn - 1) (cstr (take len text)) m 0)) p = vals m p"
    using D(3) e p by blast
  then have "vals ?m' p = vals m p"
    by (simp add: loc_update_conf_def case_prod_beta)
  then show ?thesis using e(1) p by (intro bexI [of _ e]) auto
qed

definition num_record :: "string \<Rightarrow> addr \<Rightarrow> loc_param" where
  "num_record name p = \<lparr>param_name = name, param_ptr = Some p, param_set = Some p, param_type = CHR ''n''\<rparr>"

definition blank_mem :: conf_mem where
  "blank_mem = \<lparr>vals = (\<lambda>_. Num 0), sets = (\<lambda>_. 0), logger = (Num 0, Num 0)\<rparr>"

theorem conf_update_one_short_witness:
  "vals (fst (loc_update_conf 32 (\<lambda>_. 0) True (Some ''A=1'') 3 (Some [num_record ''A'' 7]) 1 blank_mem)) 7 = Num 0"
  using conf_update_one_short [of "[num_record ''A'' 7]" 1 32 "\<lambda>_. 0" True "''A=1''" 3 blank_mem]
  by (simp add: table_ok_def num_record_def blank_mem_def)

text \<open>A name assigned twice uses up the counter of \<open>loc_read_conf_r\<close>: with the records
  \<open>A\<close> and \<open>B\<close> and the file \<open>A=1\<close>, \<open>A=0x2\<close>, \<open>B=3\<close>, the last line is never read and \<open>B\<close>
  stays unset, although the file assigns it.\<close>

theorem conf_duplicate_starves:
  "let m' = fst (loc_read_conf_r 32 (\<lambda>_. 0)
         (Some (''A = 1'' @ [newline] @ ''A=0x2'' @ [newline] @ ''B=3'' @ [newline]))
         (Some [num_record ''A'' 1, num_record ''B'' 2]) 2 blank_mem)
   in vals m' 1 = Num 2 \<and> vals m' 2 = Num 0 \<and> sets m' 1 = 1 \<and> sets m' 2 = 0"
  by code_simp

theorem conf_read_complete_witness:
  "vals (fst (loc_read_conf_r 32 (\<lambda>_. 0) (Some (''B = 3'' @ [newline] @ ''A=0x20'' @ [newline]))
     (Some [num_record ''A'' 1, num_record ''B'' 2]) 2 blank_mem)) 1 = Num 32"
proof -
  let ?t = "''B = 3'' @ [newline] @ ''A=0x20'' @ [newline]"
  have i: "file_items 32 (\<lambda>_. 0) ?t =
     [\<lparr>v_name = ''B'', v_str = ''3'', v_int = 3, v_double = 0\<rparr>,
      \<lparr>v_name = ''A'', v_str = ''0x20'', v_int = 32, v_double = 0\<rparr>]"
    by code_simp
  have "table_ok [num_record ''A'' 1, num_record ''B'' 2]" by (simp add: table_ok_def num_record_def)
  from conf_read_complete [OF this, of 2 32 "\<lambda>_. 0" ?t "num_record ''A'' 1" 1 blank_mem]
  show ?thesis unfolding i by (simp add: num_record_def conv_def Let_def)
qed

text \<open>\<open>loc_util_trim_space\<close>, working in place on a terminated buffer, leaves the string
  without the blanks in front and behind; only a string of nothing but blanks is left as it
  is.\<close>

theorem trim_space_strips:
  assumes "NUL \<notin> set s"
  shows "cstr (loc_util_trim_space (s @ [NUL])) = (if \<forall>c \<in> set s. isspace c then s else strip s)"
  using assms by (rule trim_eq)

theorem trim_space_strips_witness:
  "cstr (loc_util_trim_space ('' a b '' @ [NUL])) = ''a b''"
  using trim_space_strips [of "'' a b ''"] by (simp add: NUL_def strip_def isspace_def)

end
