(* ===== verification/EngConf.thy ===== *)
theory EngConf
  imports LocCfg
begin

unbundle bit_operations_syntax

text \<open>
  The configuration of the engine: the structures \<open>gps_conf\<close> and \<open>sap_conf\<close> of
  \<open>src/gps/loc_api/libloc_api_50001/loc_eng.cpp\<close>, the two tables through which
  \<open>loc_cfg.cpp\<close> fills them from \<open>/etc/gps.conf\<close> and \<open>/etc/sap.conf\<close>, their defaults, and
  \<open>getCarrierCapabilities\<close>. Each field has an address in the store of \<open>LocCfg\<close>; the fields
  of \<open>gps_conf\<close> are the addresses below 15, those of \<open>sap_conf\<close> are 20 to 36 (the validity
  byte of a field has the same number), the two variables of the logger 90 and 91.
\<close>

section \<open>The structures and their tables\<close>

definition GPS_LOCK :: addr where "GPS_LOCK = 0"
definition SUPL_VER :: addr where "SUPL_VER = 1"
definition LPP_PROFILE :: addr where "LPP_PROFILE = 2"
definition A_GLONASS_POS_PROTOCOL_SELECT :: addr where "A_GLONASS_POS_PROTOCOL_SELECT = 3"
definition AGPS_CERT_WRITABLE_MASK :: addr where "AGPS_CERT_WRITABLE_MASK = 4"
definition SUPL_MODE :: addr where "SUPL_MODE = 5"
definition INTERMEDIATE_POS :: addr where "INTERMEDIATE_POS = 6"
definition ACCURACY_THRES :: addr where "ACCURACY_THRES = 7"
definition NMEA_PROVIDER :: addr where "NMEA_PROVIDER = 8"
definition CAPABILITIES :: addr where "CAPABILITIES = 9"
definition XTRA_VERSION_CHECK :: addr where "XTRA_VERSION_CHECK = 10"
definition XTRA_SERVER_1 :: addr where "XTRA_SERVER_1 = 11"
definition XTRA_SERVER_2 :: addr where "XTRA_SERVER_2 = 12"
definition XTRA_SERVER_3 :: addr where "XTRA_SERVER_3 = 13"
definition USE_EMERGENCY_PDN :: addr where "USE_EMERGENCY_PDN = 14"

lemmas gps_fields = GPS_LOCK_def SUPL_VER_def LPP_PROFILE_def A_GLONASS_POS_PROTOCOL_SELECT_def
  AGPS_CERT_WRITABLE_MASK_def SUPL_MODE_def INTERMEDIATE_POS_def ACCURACY_THRES_def
  NMEA_PROVIDER_def CAPABILITIES_def XTRA_VERSION_CHECK_def XTRA_SERVER_1_def XTRA_SERVER_2_def
  XTRA_SERVER_3_def USE_EMERGENCY_PDN_def

definition is_gps_field :: "addr \<Rightarrow> bool" where
  "is_gps_field a \<longleftrightarrow> a < 15"

definition param :: "string \<Rightarrow> addr \<Rightarrow> addr option \<Rightarrow> char \<Rightarrow> loc_param" where
  "param name p flag ty = \<lparr>param_name = name, param_ptr = Some p, param_set = flag, param_type = ty\<rparr>"

definition gps_conf_table :: "loc_param list" where
  "gps_conf_table =
    [param ''GPS_LOCK'' GPS_LOCK None CHR ''n'',
     param ''SUPL_VER'' SUPL_VER None CHR ''n'',
     param ''LPP_PROFILE'' LPP_PROFILE None CHR ''n'',
     param ''A_GLONASS_POS_PROTOCOL_SELECT'' A_GLONASS_POS_PROTOCOL_SELECT None CHR ''n'',
     param ''AGPS_CERT_WRITABLE_MASK'' AGPS_CERT_WRITABLE_MASK None CHR ''n'',
     param ''SUPL_MODE'' SUPL_MODE None CHR ''n'',
     param ''INTERMEDIATE_POS'' INTERMEDIATE_POS None CHR ''n'',
     param ''ACCURACY_THRES'' ACCURACY_THRES None CHR ''n'',
     param ''NMEA_PROVIDER'' NMEA_PROVIDER None CHR ''n'',
     param ''CAPABILITIES'' CAPABILITIES None CHR ''n'',
     param ''XTRA_VERSION_CHECK'' XTRA_VERSION_CHECK None CHR ''n'',
     param ''XTRA_SERVER_1'' XTRA_SERVER_1 None CHR ''s'',
     param ''XTRA_SERVER_2'' XTRA_SERVER_2 None CHR ''s'',
     param ''XTRA_SERVER_3'' XTRA_SERVER_3 None CHR ''s'',
     param ''USE_EMERGENCY_PDN_FOR_EMERGENCY_SUPL'' USE_EMERGENCY_PDN None CHR ''n'']"

definition sap_conf_table :: "loc_param list" where
  "sap_conf_table =
    [param ''GYRO_BIAS_RANDOM_WALK'' 20 (Some 20) CHR ''f'',
     param ''ACCEL_RANDOM_WALK_SPECTRAL_DENSITY'' 21 (Some 21) CHR ''f'',
     param ''ANGLE_RANDOM_WALK_SPECTRAL_DENSITY'' 22 (Some 22) CHR ''f'',
     param ''RATE_RANDOM_WALK_SPECTRAL_DENSITY'' 23 (Some 23) CHR ''f'',
     param ''VELOCITY_RANDOM_WALK_SPECTRAL_DENSITY'' 24 (Some 24) CHR ''f'',
     param ''SENSOR_ACCEL_BATCHES_PER_SEC'' 25 None CHR ''n'',
     param ''SENSOR_ACCEL_SAMPLES_PER_BATCH'' 26 None CHR ''n'',
     param ''SENSOR_GYRO_BATCHES_PER_SEC'' 27 None CHR ''n'',
     param ''SENSOR_GYRO_SAMPLES_PER_BATCH'' 28 None CHR ''n'',
     param ''SENSOR_ACCEL_BATCHES_PER_SEC_HIGH'' 29 None CHR ''n'',
     param ''SENSOR_ACCEL_SAMPLES_PER_BATCH_HIGH'' 30 None CHR ''n'',
     param ''SENSOR_GYRO_BATCHES_PER_SEC_HIGH'' 31 None CHR ''n'',
     param ''SENSOR_GYRO_SAMPLES_PER_BATCH_HIGH'' 32 None CHR ''n'',
     param ''SENSOR_CONTROL_MODE'' 33 None CHR ''n'',
     param ''SENSOR_USAGE'' 34 None CHR ''n'',
     param ''SENSOR_ALGORITHM_CONFIG_MASK'' 35 None CHR ''n'',
     param ''SENSOR_PROVIDER'' 36 None CHR ''n'']"

definition gps_conf_len :: uint32 where "gps_conf_len = 15"
definition sap_conf_len :: uint32 where "sap_conf_len = 17"

text \<open>Reading a field.\<close>

definition num_at :: "conf_mem \<Rightarrow> addr \<Rightarrow> uint32" where
  "num_at m a = (case vals m a of Num w \<Rightarrow> w | _ \<Rightarrow> 0)"

definition str_at :: "conf_mem \<Rightarrow> addr \<Rightarrow> string" where
  "str_at m a = (case vals m a of Str s \<Rightarrow> s | _ \<Rightarrow> [])"

section \<open>Defaults and files\<close>

definition put_vals :: "(addr \<times> stored) list \<Rightarrow> conf_mem \<Rightarrow> conf_mem" where
  "put_vals xs m = fold (\<lambda>(a, v) m. m\<lparr>vals := (vals m)(a := v)\<rparr>) xs m"

definition clear_sets :: "addr list \<Rightarrow> conf_mem \<Rightarrow> conf_mem" where
  "clear_sets xs m = fold (\<lambda>a m. m\<lparr>sets := (sets m)(a := 0)\<rparr>) xs m"

definition loc_default_parameters :: "conf_mem \<Rightarrow> conf_mem" where
  "loc_default_parameters m =
     clear_sets [20, 21, 22, 23, 24] (put_vals
       [(INTERMEDIATE_POS, Num 0), (ACCURACY_THRES, Num 0), (NMEA_PROVIDER, Num 0),
        (GPS_LOCK, Num 0), (SUPL_VER, Num 0x10000), (SUPL_MODE, Num 3), (CAPABILITIES, Num 7),
        (LPP_PROFILE, Num 0), (A_GLONASS_POS_PROTOCOL_SELECT, Num 0), (XTRA_VERSION_CHECK, Num 0),
        (USE_EMERGENCY_PDN, Num 1),
        (20, Dbl 0), (25, Num 2), (26, Num 5), (27, Num 2), (28, Num 5), (29, Num 4), (30, Num 25),
        (31, Num 4), (32, Num 25), (33, Num 0), (34, Num 0), (35, Num 0),
        (21, Dbl 0), (22, Dbl 0), (23, Dbl 0), (24, Dbl 0), (36, Num 1),
        (AGPS_CERT_WRITABLE_MASK, Num 0)] m)"

text \<open>The program's memory before anything has run.\<close>

definition boot_conf :: conf_mem where
  "boot_conf = \<lparr>vals = (\<lambda>a. if a \<in> {11, 12, 13} then Str [] else if a \<in> {20, 21, 22, 23, 24} then Dbl 0
       else if a = 90 then Num 0xFF else Num 0),
     sets = (\<lambda>_. 0), logger = (Num 0xFF, Num 0)\<rparr>"

text \<open>\<open>loc_eng_read_config\<close>: the flag is \<open>configAlreadyRead\<close>.\<close>

definition loc_eng_read_config ::
  "nat \<Rightarrow> (string \<Rightarrow> real) \<Rightarrow> (string \<Rightarrow> string option) \<Rightarrow> bool \<times> conf_mem \<Rightarrow> bool \<times> conf_mem" where
  "loc_eng_read_config lb atof fopen =
     (\<lambda>(configAlreadyRead, m).
        if \<not> configAlreadyRead then
          let m = loc_default_parameters m;
              m = loc_read_conf lb atof 90 91 fopen ''/etc/gps.conf'' (Some gps_conf_table) gps_conf_len m;
              m = loc_read_conf lb atof 90 91 fopen ''/etc/sap.conf'' (Some sap_conf_table) sap_conf_len m
          in (True, m)
        else (configAlreadyRead, m))"

section \<open>Capabilities\<close>

definition getCarrierCapabilities :: "conf_mem \<Rightarrow> uint32" where
  "getCarrierCapabilities m =
     (let capabilities = num_at m CAPABILITIES;
          capabilities = (if num_at m SUPL_MODE AND 2 \<noteq> 2 then capabilities AND NOT 4 else capabilities);
          capabilities = (if num_at m SUPL_MODE AND 1 \<noteq> 1 then capabilities AND NOT 2 else capabilities)
      in capabilities)"

section \<open>The store stays typed\<close>

text \<open>The type a table gives an address, as \<open>loc_set_config_entry\<close> writes it.\<close>

definition has_type :: "char \<Rightarrow> stored \<Rightarrow> bool" where
  "has_type ty v \<longleftrightarrow> (case v of
      Str s \<Rightarrow> ty = CHR ''s'' \<and> length s \<le> LOC_MAX_PARAM_STRING
    | Num _ \<Rightarrow> ty = CHR ''n''
    | Dbl _ \<Rightarrow> ty = CHR ''f'')"

definition conf_env :: "addr \<Rightarrow> char" where
  "conf_env a = (if a \<in> {11, 12, 13} then CHR ''s'' else if a \<in> {20, 21, 22, 23, 24} then CHR ''f'' else CHR ''n'')"

definition conf_typed :: "conf_mem \<Rightarrow> bool" where
  "conf_typed m \<longleftrightarrow> (\<forall>a. has_type (conf_env a) (vals m a))"

definition table_typed :: "loc_param list \<Rightarrow> bool" where
  "table_typed table \<longleftrightarrow> (\<forall>e \<in> set table. \<forall>p. param_ptr e = Some p \<longrightarrow> param_type e = conf_env p)"

lemma tables_typed: "table_typed gps_conf_table" "table_typed sap_conf_table" "table_typed (loc_param_table 90 91)"
  by (simp_all add: table_typed_def gps_conf_table_def sap_conf_table_def loc_param_table_def param_def
      conf_env_def gps_fields)

lemma conf_typedD: "conf_typed m \<Longrightarrow> has_type (conf_env a) (vals m a)"
  by (simp add: conf_typed_def)

lemma conf_typed_vals: "vals m' = vals m \<Longrightarrow> conf_typed m' = conf_typed m"
  by (simp add: conf_typed_def)

lemma has_type_conv:
  "param_type e \<in> {CHR ''s'', CHR ''n'', CHR ''f''} \<Longrightarrow> has_type (param_type e) (conv e v)"
  by (auto simp: has_type_def conv_def)

lemma set_entry_typed:
  assumes "conf_typed m" "\<And>p. param_ptr e = Some p \<Longrightarrow> param_type e = conf_env p"
  shows "conf_typed (fst (loc_set_config_entry (Some e) v m))"
  using assms
  by (auto simp: loc_set_config_entry_def conf_typed_def has_type_def split: option.splits)

lemma set_entries_typed:
  "conf_typed m \<Longrightarrow> table_typed table \<Longrightarrow> conf_typed (fst (set_entries v table (m, k)))"
proof (induction table arbitrary: m k)
  case (Cons e table)
  obtain m' r where s: "loc_set_config_entry (Some e) (Some v) m = (m', r)" by fastforce
  have "conf_typed m'" using set_entry_typed [of m e "Some v"] Cons.prems s by (auto simp: table_typed_def)
  then show ?case using Cons by (simp add: s table_typed_def)
qed simp

lemma fill_typed:
  assumes "conf_typed m" "table_typed table"
  shows "conf_typed (fst (loc_fill_conf_item lb atof buf (Some table) n m))"
proof -
  have "table_typed (take (unat n) table)" using assms(2) by (auto simp: table_typed_def dest: in_set_takeD)
  then show ?thesis using assms(1) set_entries_typed
    by (auto simp: loc_fill_conf_item_def split: option.splits)
qed

lemma read_loop_typed:
  "conf_typed m \<Longrightarrow> table_typed table \<Longrightarrow> conf_typed (fst (read_loop lb atof (Some table) n k s m))"
proof (induction s arbitrary: m k rule: measure_induct_rule [of length])
  case (less s)
  show ?case
  proof (cases "k = 0 \<or> fgets LOC_MAX_PARAM_LINE s = None")
    case True
    then show ?thesis using less.prems by (subst read_loop.simps) auto
  next
    case False
    then obtain l rest where l: "fgets LOC_MAX_PARAM_LINE s = Some (l, rest)" by auto
    obtain m' j where f: "loc_fill_conf_item lb atof (Some l) (Some table) n m = (m', j)" by fastforce
    have "conf_typed m'" using fill_typed [OF less.prems, of lb atof "Some l" n] f by simp
    then show ?thesis using less.IH [OF fgets_shorter [OF l]] less.prems(2) False l f
      by (subst read_loop.simps) simp
  qed
qed

lemma update_loop_typed:
  "conf_typed m \<Longrightarrow> table_typed table \<Longrightarrow> conf_typed (fst (update_loop lb atof table n k s m r))"
proof (induction s arbitrary: m k r rule: measure_induct_rule [of length])
  case (less s)
  show ?case
  proof (cases "k = 0 \<or> strtok newline s = None")
    case True
    then show ?thesis using less.prems by (subst update_loop.simps) auto
  next
    case False
    then obtain l rest where l: "strtok newline s = Some (l, rest)" by auto
    obtain m' j where f: "loc_fill_conf_item lb atof (Some l) (Some table) n m = (m', j)" by fastforce
    have "conf_typed m'" using fill_typed [OF less.prems, of lb atof "Some l" n] f by simp
    then show ?thesis using less.IH [OF strtok_shorter [OF l]] less.prems(2) False l f
      by (subst update_loop.simps) simp
  qed
qed

lemma read_conf_r_typed:
  assumes "conf_typed m" "table_typed table"
  shows "conf_typed (fst (loc_read_conf_r lb atof fp (Some table) n m))"
proof -
  have "conf_typed (clear_flags (take (unat n) table) m)"
    using assms(1) conf_typed_vals [OF clear_flags_effect(1)] by blast
  then show ?thesis using read_loop_typed [OF _ assms(2)] assms(1)
    by (auto simp: loc_read_conf_r_def Let_def case_prod_beta split: option.split)
qed

lemma read_conf_typed:
  assumes "conf_typed m" "table_typed table"
  shows "conf_typed (loc_read_conf lb atof 90 91 fopen name (Some table) n m)"
  using read_conf_r_typed [OF read_conf_r_typed [OF assms] tables_typed(3)]
    read_conf_r_typed [OF assms(1) tables_typed(3)] assms(1)
  by (auto simp: loc_read_conf_def Let_def conf_typed_def split: option.split)

lemma update_conf_typed:
  "conf_typed m \<Longrightarrow> table_typed table \<Longrightarrow>
   conf_typed (fst (loc_update_conf lb atof mem_ok text len (Some table) n m))"
  using update_loop_typed
  by (auto simp: loc_update_conf_def case_prod_beta split: option.split)

lemma defaults_typed: "conf_typed m \<Longrightarrow> conf_typed (loc_default_parameters m)"
proof -
  have put: "conf_typed (put_vals xs m)" if "conf_typed m" "\<forall>(a, v) \<in> set xs. has_type (conf_env a) v" for xs m
    using that unfolding put_vals_def by (induction xs arbitrary: m) (auto simp: conf_typed_def)
  have clear: "vals (clear_sets xs m) = vals m" for xs m
    unfolding clear_sets_def by (induction xs arbitrary: m) auto
  assume "conf_typed m"
  then show ?thesis unfolding loc_default_parameters_def
    by (subst conf_typed_vals [OF clear], intro put)
      (simp_all add: has_type_def conf_env_def gps_fields)
qed

text \<open>C18: A typed configuration store stays typed: whatever the files contain, after the
  configuration was read every field holds a value of the type its readers assume, numbers in
  number fields, floating point in the fields of the sensor model, and strings of at most 80
  characters in the server fields.\<close>

theorem conf_types_kept:
  assumes "conf_typed m"
  shows "conf_typed (snd (loc_eng_read_config lb atof fopen (already, m)))"
  using assms read_conf_typed [OF read_conf_typed [OF defaults_typed tables_typed(1)] tables_typed(2)]
  by (simp add: loc_eng_read_config_def Let_def)

lemma boot_typed: "conf_typed boot_conf"
  by (simp add: conf_typed_def boot_conf_def has_type_def conf_env_def)

theorem conf_types_kept_witness:
  "conf_typed (snd (loc_eng_read_config 32 (\<lambda>_. 0) (\<lambda>_. Some ''CAPABILITIES=abc'') (False, boot_conf)))"
  by (rule conf_types_kept [OF boot_typed])

end
