(* ===== verification/UserAgent.thy ===== *)
theory UserAgent
  imports LocCfg
begin

unbundle bit_operations_syntax

text \<open>
  The user agent of the XTRA downloads, \<open>LocEngAdapter::setXtraUserAgent\<close> of
  \<open>src/gps/loc_api/libloc_api_50001/LocEngAdapter.cpp\<close>: properties of the phone, with their
  separators encoded, and the serial number of the chipset are put into one line, which is
  saved in a file. What the property service, the files and the context return are arguments.
\<close>

section \<open>Encoding\<close>

definition PROPERTY_VALUE_MAX :: nat where "PROPERTY_VALUE_MAX = 92"
definition CHIPSET_SERIAL_NUMBER_MAX_LEN :: nat where "CHIPSET_SERIAL_NUMBER_MAX_LEN = 16"
definition USER_AGENT_MAX_LEN :: nat where "USER_AGENT_MAX_LEN = 512"

definition encodings :: "(char \<times> string) list" where
  "encodings = [(CHR ''/'', ''%2F''), (CHR ''+'', ''%2B''), (CHR ''|'', ''%7C''), (CHR ''%'', ''%25'')]"

definition NUM_CHARS_IN_CODE :: nat where "NUM_CHARS_IN_CODE = 3"

text \<open>The loop over the input; \<open>out\<close> is the buffer up to \<open>outpos\<close>.\<close>

fun encode_loop :: "nat \<Rightarrow> string \<Rightarrow> string \<Rightarrow> string" where
  "encode_loop sz [] out = out"
| "encode_loop sz (c # cs) out =
     (if \<not> length out < sz - 1 then out
      else case map_of encodings c of
          None \<Rightarrow> encode_loop sz cs (out @ [c])
        | Some code \<Rightarrow>
            if length out + NUM_CHARS_IN_CODE \<ge> sz then out
            else encode_loop sz cs (out @ take (sz - 1 - length out) code))"

definition encodeInPlace :: "string \<Rightarrow> nat \<Rightarrow> string" where
  "encodeInPlace value sz = encode_loop sz (cstr value) []"

section \<open>The serial number\<close>

text \<open>The loop that removes blanks at the end. \<open>len\<close> is unsigned: the test \<open>--len >= 0\<close> is
  always true, and below the first character the loop reads in front of the buffer, which is
  \<open>None\<close>.\<close>

fun trim_serial :: "string \<Rightarrow> nat \<Rightarrow> string option" where
  "trim_serial buf 0 = None"
| "trim_serial buf (Suc len) =
     (if isspace (buf ! len) then trim_serial (take len buf) len else Some buf)"

text \<open>The contents of the file, or \<open>None\<close> when it cannot be opened.\<close>

definition getChipsetSerialNo :: "string option \<Rightarrow> nat \<Rightarrow> string \<Rightarrow> string option" where
  "getChipsetSerialNo file buflen def =
     (case file of
        None \<Rightarrow> Some (take (buflen - 1) def)
      | Some text \<Rightarrow>
          let read = take (buflen - 1) text;
              buf = (if read = [] then take (buflen - 1) def else cstr read)
          in trim_serial buf (length buf))"

section \<open>The line and its file\<close>

record phone =
  release :: string
  manufacture :: string
  model :: string
  board :: string
  brand :: string
  serial_file :: "string option"
  izatDevId :: int

text \<open>\<open>property_get\<close> with the default.\<close>

definition property_or :: "string \<Rightarrow> string" where
  "property_or v = (if v = [] then ''-'' else take (PROPERTY_VALUE_MAX - 1) v)"

definition user_agent_text :: "phone \<Rightarrow> string \<Rightarrow> string" where
  "user_agent_text p chipsetsn =
     (let enc = (\<lambda>v. encodeInPlace (property_or v) PROPERTY_VALUE_MAX)
      in ''A/'' @ enc (release p) @ ''/'' @ enc (manufacture p) @ ''/'' @ enc (model p) @ ''/'' @ enc (board p) @
         ''/-/QCX3/s'' @ show_unsigned (izatDevId p) @ ''/-/'' @ chipsetsn @ ''/-/'' @ enc (brand p) @ ''/-/-/-'')"

text \<open>What the file system answers: the folder (0 when it is there, 1 when it is not, 2 for
  another error), whether it can be made, and whether the file can be opened.\<close>

record disk =
  folder :: nat
  mkdir_ok :: bool
  fopen_ok :: bool

definition saveUserAgentString :: "disk \<Rightarrow> string \<Rightarrow> string option" where
  "saveUserAgentString d data =
     (if length data < 1 then None
      else if folder d = 2 \<or> (folder d = 1 \<and> \<not> mkdir_ok d) then None
      else if fopen_ok d then Some data else None)"

text \<open>\<open>LocSetXtraUserAgent::proc\<close>: the outer option is the read out of bounds, the inner one
  that nothing is written.\<close>

definition setXtraUserAgent :: "phone \<Rightarrow> disk \<Rightarrow> string option option" where
  "setXtraUserAgent p d =
     (case getChipsetSerialNo (serial_file p) CHIPSET_SERIAL_NUMBER_MAX_LEN ''-'' of
        None \<Rightarrow> None
      | Some sn \<Rightarrow>
          let userAgent = take (USER_AGENT_MAX_LEN - 1) (user_agent_text p sn);
              userAgent = map (\<lambda>c. if c = CHR '' '' then CHR ''#'' else c) userAgent
          in Some (saveUserAgentString d userAgent))"

section \<open>What the encoding keeps\<close>

fun decode :: "string \<Rightarrow> string" where
  "decode (a # b # c # s) =
     (case find (\<lambda>(k, code). code = [a, b, c]) encodings of
        Some (k, _) \<Rightarrow> k # decode s
      | None \<Rightarrow> a # decode (b # c # s))"
| "decode s = s"

definition enc1 :: "char \<Rightarrow> string" where
  "enc1 c = (case map_of encodings c of None \<Rightarrow> [c] | Some code \<Rightarrow> code)"

lemma enc1_cases: "(map_of encodings c = None \<and> c \<notin> set ''/+|%'' \<and> enc1 c = [c]) \<or>
   (\<exists>code. map_of encodings c = Some code \<and> length code = 3 \<and> enc1 c = code \<and>
      find (\<lambda>(k, d). d = code) encodings = Some (c, code))"
  by (auto simp: encodings_def enc1_def)

lemma decode_plain: "c \<noteq> CHR ''%'' \<Longrightarrow> decode (c # s) = c # decode s"
proof (cases s)
  case (Cons b s')
  assume "c \<noteq> CHR ''%''"
  then show ?thesis using Cons by (cases s') (simp_all add: encodings_def)
qed simp

lemma decode_enc: "decode (concat (map enc1 xs)) = xs"
proof (induction xs)
  case (Cons c xs)
  show ?case
  proof (cases "map_of encodings c")
    case None
    then show ?thesis using enc1_cases [of c] Cons decode_plain by auto
  next
    case (Some code)
    then obtain a b d where "code = [a, b, d]" "enc1 c = code" "find (\<lambda>(k, d). d = code) encodings = Some (c, code)"
      using enc1_cases [of c] by (auto simp: length_Suc_conv numeral_eq_Suc)
    then show ?thesis using Cons by simp
  qed
qed simp

lemma encode_loop_prefix:
  assumes "length out \<le> sz - 1" and "0 < sz"
  shows "\<exists>k \<le> length cs. encode_loop sz cs out = out @ concat (map enc1 (take k cs)) \<and>
    length (encode_loop sz cs out) \<le> sz - 1 \<and>
    (k < length cs \<longrightarrow> sz - 1 < length (out @ concat (map enc1 (take (Suc k) cs))))"
  using assms
proof (induction cs arbitrary: out)
  case (Cons c cs)
  let ?stop = "\<not> length out < sz - 1 \<or> sz - 1 < length (out @ enc1 c)"
  have step: "encode_loop sz (c # cs) out = (if ?stop then out else encode_loop sz cs (out @ enc1 c))"
    using enc1_cases [of c] Cons.prems by (auto simp: NUM_CHARS_IN_CODE_def)
  show ?case
  proof (cases ?stop)
    case True
    have "enc1 c \<noteq> []" using enc1_cases [of c] by auto
    then have "sz - 1 < length (out @ enc1 c)" using True Cons.prems by (cases "enc1 c") auto
    then show ?thesis using step True Cons.prems(1) by (intro exI [of _ 0]) simp
  next
    case False
    then obtain k where "k \<le> length cs" "encode_loop sz cs (out @ enc1 c) = (out @ enc1 c) @ concat (map enc1 (take k cs))"
      "length (encode_loop sz cs (out @ enc1 c)) \<le> sz - 1"
      "k < length cs \<longrightarrow> sz - 1 < length ((out @ enc1 c) @ concat (map enc1 (take (Suc k) cs)))"
      using Cons.IH [of "out @ enc1 c"] Cons.prems(2) by (meson not_less)
    then show ?thesis using step False by (intro exI [of _ "Suc k"]) simp
  qed
qed simp

text \<open>Encoding is exact up to the room there is: the encoded value decodes to a prefix of the
  value, it fits into the array with its end mark, and the prefix is the longest whose encoding
  fits, so that no code is ever cut.\<close>

theorem encode_roundtrip:
  assumes "0 < sz"
  shows "\<exists>k \<le> length (cstr value). decode (encodeInPlace value sz) = take k (cstr value) \<and>
    length (encodeInPlace value sz) < sz \<and>
    (k < length (cstr value) \<longrightarrow> sz \<le> length (concat (map enc1 (take (Suc k) (cstr value)))))"
proof -
  obtain k where "k \<le> length (cstr value)" "encodeInPlace value sz = concat (map enc1 (take k (cstr value)))"
    "length (encodeInPlace value sz) \<le> sz - 1"
    "k < length (cstr value) \<longrightarrow> sz - 1 < length (concat (map enc1 (take (Suc k) (cstr value))))"
    using encode_loop_prefix [of "[]" sz "cstr value"] assms unfolding encodeInPlace_def append_Nil
    by (metis le0 list.size(3))
  then show ?thesis using assms decode_enc [of "take k (cstr value)"] by (intro exI [of _ k]) auto
qed

theorem encode_roundtrip_witness:
  "length (encodeInPlace ''a/b+c'' 8) < 8"
  using encode_roundtrip [of 8 "''a/b+c''"] by auto

section \<open>The serial number\<close>

lemma trim_serial_spec:
  "trim_serial buf (length buf) =
     (if \<forall>c \<in> set buf. isspace c then None else Some (rev (dropWhile isspace (rev buf))))"
proof (induction buf rule: rev_induct)
  case (snoc c buf)
  then show ?case by auto
qed simp

text \<open>The serial number is read without its trailing blanks, at most 15 characters of it; a
  file that can be opened and holds only blanks (or begins with a NUL) makes the loop run
  off the front of the buffer, because the test of the unsigned length never fails.\<close>

theorem serial_number_trimmed:
  assumes "s = cstr (take 15 content)" and "content \<noteq> []"
  shows "getChipsetSerialNo (Some content) CHIPSET_SERIAL_NUMBER_MAX_LEN ''-'' =
    (if \<forall>c \<in> set s. isspace c then None else Some (rev (dropWhile isspace (rev s))))"
  using assms trim_serial_spec [of s]
  by (simp add: getChipsetSerialNo_def CHIPSET_SERIAL_NUMBER_MAX_LEN_def Let_def)

theorem serial_number_trimmed_witness:
  "getChipsetSerialNo (Some ''   '') CHIPSET_SERIAL_NUMBER_MAX_LEN ''-'' = None"
  using serial_number_trimmed [of "''   ''" "''   ''"] by (simp add: cstr_def isspace_def)

end
