(* ===== verification/EngData.thy ===== *)
theory EngData
  imports Agps NiSession EngConf UserAgent
begin

unbundle bit_operations_syntax

text \<open>
  The data of the location engine: \<open>loc_eng_data_s_type\<close> of
  \<open>src/gps/loc_api/libloc_api_50001/loc_eng.h\<close> together with the engine adapter it owns
  (\<open>LocEngAdapter.h\<close>, \<open>LocEngAdapter.cpp\<close>), the messages of \<open>loc_eng.cpp\<close>,
  \<open>loc_eng_msg.h\<close> and \<open>loc_eng_xtra.cpp\<close> that its task handles, the calls it makes to the
  modem's API module and the callbacks to the framework.

  The API module and the framework are outside the repository: the calls made to them are
  recorded in \<open>api_calls\<close> and \<open>cbs\<close>, and what they return is in the environment
  \<open>eng_env\<close>. The proxy to the position fusion (\<open>UlpProxyBase\<close>) is the one of this
  repository, which handles nothing and so leaves every message to the engine.
\<close>

section \<open>Types\<close>

datatype gps_status =
    GPS_STATUS_NONE | GPS_STATUS_SESSION_BEGIN | GPS_STATUS_SESSION_END
  | GPS_STATUS_ENGINE_ON | GPS_STATUS_ENGINE_OFF

datatype pos_mode =
    LOC_POSITION_MODE_INVALID | LOC_POSITION_MODE_STANDALONE
  | LOC_POSITION_MODE_MS_BASED | LOC_POSITION_MODE_MS_ASSISTED

record LocPosMode =
  lp_mode :: pos_mode
  single_shot :: bool

datatype sess_status = LOC_SESS_SUCCESS | LOC_SESS_INTERMEDIATE | LOC_SESS_FAILURE

record gps_fix =
  has_accuracy :: bool
  accuracy :: real
  tech_mask :: uint32
  rawData :: "addr option"

datatype server_type =
    LOC_AGPS_CDMA_PDE_SERVER | LOC_AGPS_CUSTOM_PDE_SERVER | LOC_AGPS_MPC_SERVER | LOC_AGPS_SUPL_SERVER

text \<open>The pointers to the four state machines.\<close>

datatype nif = AgnssNif | InternetNif | WifiNif | DsNif

datatype eng_msg =
    MsgRequestNi ni_notification "payload option"
  | MsgStartFix | MsgStopFix | MsgPositionMode LocPosMode | MsgGetZpp
  | MsgSetTime int int int | MsgInjectLocation real real real
  | MsgSetServerIpv4 uint32 int server_type | MsgSetServerUrl string
  | MsgAGlonassProtocol uint32 | MsgSuplVer uint32 | MsgSuplMode | MsgLppConfig uint32
  | MsgSensorControlConfig uint32 uint32 | MsgSensorProperties "(uint8 \<times> stored) list"
  | MsgSensorPerfControlConfig "uint32 list" | MsgExtPowerConfig int
  | MsgReportPosition gps_fix sess_status | MsgReportSv | MsgReportStatus gps_status
  | MsgReportNmea string | MsgReportXtraServer "string list"
  | MsgReqRelBIT AGpsExtType uint32 "uint8 list option" bool
  | MsgSuplEsOpened | MsgSuplEsClosed | MsgRequestSuplEs uint32
  | MsgRequestATL uint32 AGpsExtType | MsgReleaseATL uint32
  | MsgReqRelWifi AGpsExtType sender_id "string option" "string option" bool
  | MsgRequestXtra | MsgRequestTime | MsgDelAidData "16 word"
  | MsgEnableData "string option" uint32 | MsgSetCapabilities | MsgInit
  | MsgAtlOpenSuccess "nif option" string AGpsBearerType
  | MsgAtlClosed "nif option" | MsgAtlOpenFailed "nif option"
  | MsgEngDown | MsgEngUp | MsgDataClientInit
  | MsgInstallAGpsCert "nat list" uint32 | MsgUpdateRegistrationMask uint32 bool
  | MsgGnssConstellationConfig | MsgReportGpsMeasurement
  | MsgRequestXtraServer | MsgInjectXtraData "uint8 list" | MsgSetXtraVersionCheck uint32
  | MsgGpsLock int | MsgSetXtraUserAgent | MsgSetUlpProxy bool

datatype xtra_check = DISABLED | AUTO | XTRA2 | XTRA3

datatype api_call =
    ApiStartFix LocPosMode | ApiStopFix | ApiSetPositionMode LocPosMode | ApiSetInSession bool
  | ApiGetZpp | ApiSetTime int int int | ApiInjectPosition real real real
  | ApiSetServerIp uint32 int server_type | ApiSetServerUrl string
  | ApiAGlonass uint32 | ApiSUPLVersion uint32 | ApiLPPConfig uint32
  | ApiSensorControl uint32 uint32 | ApiSensorProperties "(uint8 \<times> stored) list"
  | ApiSensorPerf "uint32 list" | ApiExtPower int | ApiDeleteAidingData "16 word"
  | ApiAtlOpenStatus uint32 int "string option" int "AGpsExtType option" | ApiAtlCloseStatus uint32 int
  | ApiEnableData uint32 | ApiSetAPN string | ApiInitDataClient
  | ApiInstallCert "nat list" uint32 | ApiUpdateRegistrationMask uint32 bool | ApiConstellation
  | ApiRequestXtraServer | ApiSetXtraData "uint8 list" | ApiXtraVersionCheck xtra_check
  | CtxPowerVote bool | CtxRequestUlp uint32 | DmnLaunch | SaveUserAgent "string option option"
  | ApiGpsLock int | ApiInformNi ni_response payload | UlpSetCapabilities uint32

datatype callback =
    StatusCb gps_status | LocationNull | LocationCb gps_fix | SvStatusCb | NmeaCb string
  | NmeaGeneratePos bool | NmeaGenerateSv | SetCapabilitiesCb uint32 | XtraServersCb "string list"
  | XtraDownloadCb | RequestUtcTimeCb | MeasurementCb

record loc_eng =
  has_adapter :: bool
  reg_mask :: uint32
  mNavigating :: bool
  mFixCriteria :: LocPosMode
  mPowerVote :: uint32
  mSupportsAgpsRequests :: bool
  mSupportsPositionInjection :: bool
  mSupportsTimeInjection :: bool
  ulpPosMode :: LocPosMode
  ulpFixSet :: bool
  location_cb :: bool
  status_cb :: bool
  sv_status_cb :: bool
  nmea_cb :: bool
  set_capabilities_cb :: bool
  request_utc_time_cb :: bool
  agps_status_cb :: bool
  gps_measurement_cb :: bool
  report_xtra_server_cb :: bool
  download_request_cb :: bool
  intermediateFix :: uint8
  generateNmea :: bool
  engine_status :: gps_status
  fix_session_status :: gps_status
  aiding_data_for_deletion :: "16 word"
  ni_data :: ni_state
  agnss_nif :: "agps_sm option"
  internet_nif :: "agps_sm option"
  wifi_nif :: "agps_sm option"
  ds_nif :: "agps_sm option"
  supl_host :: "(string \<times> int) option"
  c2k_host :: "(string \<times> int) option"
  conf :: conf_mem
  agpsStatus :: uint32
  eng_queue :: "eng_msg list"
  api_calls :: "api_call list"
  cbs :: "callback list"
  freed_raw :: "addr list"
  null_deref :: bool

text \<open>What lies outside: the results of the API module, the name service, the creation of
  threads and memory, and the configuration of the C library.\<close>

record eng_env =
  env_agps :: agps_env
  env_long :: nat
  env_atof :: "string \<Rightarrow> real"
  env_mem :: bool
  env_thread :: bool
  env_startFix :: "LocPosMode \<Rightarrow> int"
  env_stopFix :: int
  env_dataClient :: int
  env_constellation :: bool
  env_dns :: "string \<Rightarrow> uint32 option"
  env_phone :: phone
  env_disk :: disk

definition invalid_mode :: LocPosMode where
  "invalid_mode = \<lparr>lp_mode = LOC_POSITION_MODE_INVALID, single_shot = False\<rparr>"

text \<open>The engine's structure as the program starts, before \<open>loc_eng_init\<close>.\<close>

definition boot_eng :: "conf_mem \<Rightarrow> loc_eng" where
  "boot_eng c = \<lparr>has_adapter = False, reg_mask = 0, mNavigating = False, mFixCriteria = invalid_mode, mPowerVote = 0,
     mSupportsAgpsRequests = False, mSupportsPositionInjection = False, mSupportsTimeInjection = False,
     ulpPosMode = invalid_mode, ulpFixSet = False,
     location_cb = False, status_cb = False, sv_status_cb = False, nmea_cb = False,
     set_capabilities_cb = False, request_utc_time_cb = False, agps_status_cb = False,
     gps_measurement_cb = False, report_xtra_server_cb = False, download_request_cb = False,
     intermediateFix = 0, generateNmea = False, engine_status = GPS_STATUS_NONE,
     fix_session_status = GPS_STATUS_NONE, aiding_data_for_deletion = 0, ni_data = ni_boot,
     agnss_nif = None, internet_nif = None, wifi_nif = None, ds_nif = None,
     supl_host = None, c2k_host = None, conf = c, agpsStatus = 0,
     eng_queue = [], api_calls = [], cbs = [], freed_raw = [], null_deref = False\<rparr>"

section \<open>Calls and messages\<close>

definition call :: "api_call \<Rightarrow> loc_eng \<Rightarrow> loc_eng" where
  "call c s = s\<lparr>api_calls := api_calls s @ [c]\<rparr>"

definition post :: "eng_msg \<Rightarrow> loc_eng \<Rightarrow> loc_eng" where
  "post m s = s\<lparr>eng_queue := eng_queue s @ [m]\<rparr>"

definition callback :: "callback \<Rightarrow> loc_eng \<Rightarrow> loc_eng" where
  "callback c s = s\<lparr>cbs := cbs s @ [c]\<rparr>"

definition muted :: "loc_eng \<Rightarrow> bool" where
  "muted s \<longleftrightarrow> mute_session_state (ni_data s) = LOC_MUTE_SESS_IN_SESSION"

definition set_mute :: "mute_state \<Rightarrow> loc_eng \<Rightarrow> loc_eng" where
  "set_mute v s = s\<lparr>ni_data := (ni_data s)\<lparr>mute_session_state := v\<rparr>\<rparr>"

section \<open>The adapter\<close>

definition setInSession :: "bool \<Rightarrow> loc_eng \<Rightarrow> loc_eng" where
  "setInSession v s =
     (let s = call (ApiSetInSession v) (s\<lparr>mNavigating := v\<rparr>)
      in if \<not> mNavigating s
         then s\<lparr>mFixCriteria := (mFixCriteria s)\<lparr>lp_mode := LOC_POSITION_MODE_INVALID\<rparr>\<rparr> else s)"

definition adapter_setPositionMode :: "LocPosMode option \<Rightarrow> loc_eng \<Rightarrow> loc_eng" where
  "adapter_setPositionMode p s =
     (let s = (case p of None \<Rightarrow> s | Some m \<Rightarrow> s\<lparr>mFixCriteria := m\<rparr>)
      in call (ApiSetPositionMode (mFixCriteria s)) s)"

definition POWER_VOTE_RIGHT :: uint32 where "POWER_VOTE_RIGHT = 0x20"
definition POWER_VOTE_VALUE :: uint32 where "POWER_VOTE_VALUE = 0x10"

definition setPowerVoteRight :: "bool \<Rightarrow> loc_eng \<Rightarrow> loc_eng" where
  "setPowerVoteRight r s = s\<lparr>mPowerVote := (if r then mPowerVote s OR POWER_VOTE_RIGHT
     else mPowerVote s AND NOT POWER_VOTE_RIGHT)\<rparr>"

definition getPowerVoteRight :: "loc_eng \<Rightarrow> bool" where
  "getPowerVoteRight s \<longleftrightarrow> mPowerVote s AND POWER_VOTE_RIGHT \<noteq> 0"

definition getPowerVote :: "loc_eng \<Rightarrow> bool" where
  "getPowerVote s \<longleftrightarrow> mPowerVote s AND POWER_VOTE_VALUE \<noteq> 0"

definition requestPowerVote :: "loc_eng \<Rightarrow> loc_eng" where
  "requestPowerVote s =
     (if getPowerVoteRight s then call (ApiGpsLock (if getPowerVote s then 103 else 101)) s else s)"

definition setPowerVote :: "bool \<Rightarrow> loc_eng \<Rightarrow> loc_eng" where
  "setPowerVote on s =
     call (CtxPowerVote on) (requestPowerVote (s\<lparr>mPowerVote := (if on then mPowerVote s OR POWER_VOTE_VALUE
       else mPowerVote s AND NOT POWER_VOTE_VALUE)\<rparr>))"

definition adapter_setTime :: "int \<Rightarrow> int \<Rightarrow> int \<Rightarrow> loc_eng \<Rightarrow> loc_eng" where
  "adapter_setTime time timeReference uncertainty s =
     (if mSupportsTimeInjection s then call (ApiSetTime time timeReference uncertainty) s
      else s\<lparr>mSupportsTimeInjection := True\<rparr>)"

definition setXtraVersionCheck :: "uint32 \<Rightarrow> loc_eng \<Rightarrow> loc_eng" where
  "setXtraVersionCheck check s =
     call (ApiXtraVersionCheck (if check = 0 then DISABLED else if check = 1 then AUTO
       else if check = 2 then XTRA2 else if check = 3 then XTRA3 else DISABLED)) s"

text \<open>Another fusion proxy takes over the mode and the request for fixes of the old one. The
  argument says whether it is the proxy already in use; a new one, made here when NULL is given,
  is of the base class.\<close>

definition setUlpProxy :: "bool \<Rightarrow> loc_eng \<Rightarrow> loc_eng" where
  "setUlpProxy same s =
     (if same then s
      else
        let old_mode = ulpPosMode s;
            old_set = ulpFixSet s;
            s = s\<lparr>ulpPosMode := invalid_mode, ulpFixSet := False\<rparr>;
            s = (if lp_mode old_mode \<noteq> LOC_POSITION_MODE_INVALID then s\<lparr>ulpPosMode := old_mode\<rparr> else s)
        in if old_set then s\<lparr>ulpFixSet := True\<rparr> else s)"

text \<open>Upward calls of the API module that become messages: those of the first group are
  sent to the engine whatever it supports, those of the second only when it handles AGPS
  requests, which is also what they return to the dispatch loop.\<close>

datatype up_call =
    UpPosition gps_fix sess_status | UpSv | UpStatus gps_status | UpNmea string | UpMeasurement
  | UpEngineDown | UpEngineUp

fun adapter_report :: "up_call \<Rightarrow> loc_eng \<Rightarrow> loc_eng" where
  "adapter_report (UpPosition f st) s = post (MsgReportPosition f st) s"
| "adapter_report UpSv s = post MsgReportSv s"
| "adapter_report (UpStatus st) s = post (MsgReportStatus st) s"
| "adapter_report (UpNmea n) s = post (MsgReportNmea n) s"
| "adapter_report UpMeasurement s = post MsgReportGpsMeasurement s"
| "adapter_report UpEngineDown s = post MsgEngDown s"
| "adapter_report UpEngineUp s = post MsgEngUp s"

text \<open>The constructor of \<open>LocEngReportXtraServer\<close>: a URL of \<open>gps.conf\<close> replaces the modem's,
  URLs of the blocked host are left out, and the rest move to the front of the three slots.\<close>

definition lower_char :: "char \<Rightarrow> char" where
  "lower_char c = (let k = of_char c :: nat in if 65 \<le> k \<and> k \<le> 90 then char_of (k + 32) else c)"

fun contains :: "string \<Rightarrow> string \<Rightarrow> bool" where
  "contains pat [] = (pat = [])"
| "contains pat (c # s) = (take (length pat) (c # s) = pat \<or> contains pat s)"

definition strcasestr :: "string \<Rightarrow> string \<Rightarrow> bool" where
  "strcasestr s pat = contains (map lower_char pat) (map lower_char s)"

definition xtra_servers :: "conf_mem \<Rightarrow> string \<Rightarrow> string \<Rightarrow> string \<Rightarrow> nat \<Rightarrow> string list" where
  "xtra_servers c url1 url2 url3 maxlength =
     (let url1 = (if str_at c XTRA_SERVER_1 \<noteq> [] then str_at c XTRA_SERVER_1 else url1);
          url2 = (if str_at c XTRA_SERVER_2 \<noteq> [] then str_at c XTRA_SERVER_2 else url2);
          url3 = (if str_at c XTRA_SERVER_3 \<noteq> [] then str_at c XTRA_SERVER_3 else url3);
          kept = map (take maxlength) (filter (\<lambda>u. \<not> strcasestr u ''xtra1.gpsonextra.net'') [url1, url2, url3])
      in kept @ replicate (3 - length kept) [])"

datatype up_request =
    UpXtraServer string string string nat | UpXtraData | UpTime | UpATL uint32 AGpsExtType
  | UpReleaseATL uint32 | UpSuplES uint32 | UpDataCallOpened | UpDataCallClosed
  | UpNiNotify ni_notification "payload option"

fun request_msg :: "conf_mem \<Rightarrow> up_request \<Rightarrow> eng_msg" where
  "request_msg c (UpXtraServer u1 u2 u3 n) = MsgReportXtraServer (xtra_servers c u1 u2 u3 n)"
| "request_msg c UpXtraData = MsgRequestXtra"
| "request_msg c UpTime = MsgRequestTime"
| "request_msg c (UpATL h ty) = MsgRequestATL h ty"
| "request_msg c (UpReleaseATL h) = MsgReleaseATL h"
| "request_msg c (UpSuplES h) = MsgRequestSuplEs h"
| "request_msg c UpDataCallOpened = MsgSuplEsOpened"
| "request_msg c UpDataCallClosed = MsgSuplEsClosed"
| "request_msg c (UpNiNotify n d) = MsgRequestNi (n\<lparr>notif_timeout := LOC_NI_NO_RESPONSE_TIME\<rparr>) d"

definition adapter_request :: "up_request \<Rightarrow> loc_eng \<Rightarrow> bool \<times> loc_eng" where
  "adapter_request r s =
     (if mSupportsAgpsRequests s then (True, post (request_msg (conf s) r) s) else (False, s))"

end
