(* ===== verification/LocEng.thy ===== *)
theory LocEng
  imports EngData
begin

unbundle bit_operations_syntax

text \<open>
  The location engine, \<open>src/gps/loc_api/libloc_api_50001/loc_eng.cpp\<close>: the functions behind
  the HAL interface, which mostly queue a message, and the handlers of the messages, which
  run one after the other in the task of the adapter. \<open>eng_proc\<close> is the virtual \<open>proc\<close> of
  the message classes, \<open>eng_deliver\<close> one turn of the task.

  A call through a NULL machine pointer sets \<open>null_deref\<close>.
\<close>

section \<open>Status, sessions, aiding data\<close>

definition update_aiding_data_for_deletion :: "loc_eng \<Rightarrow> loc_eng" where
  "update_aiding_data_for_deletion s =
     (if engine_status s \<noteq> GPS_STATUS_ENGINE_ON \<and> aiding_data_for_deletion s \<noteq> 0
      then (call (ApiDeleteAidingData (aiding_data_for_deletion s)) s)\<lparr>aiding_data_for_deletion := 0\<rparr>
      else s)"

definition loc_inform_gps_status :: "gps_status \<Rightarrow> loc_eng \<Rightarrow> loc_eng" where
  "loc_inform_gps_status status s = (if status_cb s then callback (StatusCb status) s else s)"

definition loc_eng_report_status :: "gps_status \<Rightarrow> loc_eng \<Rightarrow> loc_eng" where
  "loc_eng_report_status status s =
     (let s = (if (status = GPS_STATUS_SESSION_BEGIN \<or> status = GPS_STATUS_ENGINE_ON) \<and>
                  mute_session_state (ni_data s) = LOC_MUTE_SESS_WAIT
               then set_mute LOC_MUTE_SESS_IN_SESSION s else s);
          s = (if mute_session_state (ni_data s) = LOC_MUTE_SESS_IN_SESSION \<and>
                  (status = GPS_STATUS_SESSION_END \<or> status = GPS_STATUS_ENGINE_OFF)
               then set_mute LOC_MUTE_SESS_NONE s else s);
          navigating = mNavigating s;
          s = (if status \<noteq> GPS_STATUS_NONE \<and>
                  \<not> (status = GPS_STATUS_SESSION_END \<and> navigating) \<and>
                  \<not> (status = GPS_STATUS_SESSION_BEGIN \<and> \<not> navigating)
               then if mute_session_state (ni_data s) \<noteq> LOC_MUTE_SESS_IN_SESSION
                    then loc_inform_gps_status status s else s
               else s);
          s = (if status = GPS_STATUS_ENGINE_ON \<or> status = GPS_STATUS_ENGINE_OFF
               then s\<lparr>engine_status := status\<rparr> else s)
      in if status = GPS_STATUS_SESSION_BEGIN \<or> status = GPS_STATUS_SESSION_END
         then s\<lparr>fix_session_status := status\<rparr> else s)"

definition eng_mute_one_session :: "loc_eng \<Rightarrow> loc_eng" where
  "eng_mute_one_session s = s\<lparr>ni_data := loc_eng_mute_one_session (ni_data s)\<rparr>"

text \<open>The codes of \<open>enum loc_api_adapter_err\<close> that count as a started session: success,
  engine down (the same code as phone offline) and internal error.\<close>

definition start_accepted :: "int \<Rightarrow> bool" where
  "start_accepted r \<longleftrightarrow> r = 0 \<or> r = 7 \<or> r = 10"

definition loc_eng_start_handler :: "eng_env \<Rightarrow> loc_eng \<Rightarrow> int \<times> loc_eng" where
  "loc_eng_start_handler env s =
     (if \<not> mNavigating s then
        let r = env_startFix env (mFixCriteria s);
            s = call (ApiStartFix (mFixCriteria s)) s
        in (r, if start_accepted r then setInSession True s else s)
      else (0, s))"

definition loc_eng_stop_handler :: "eng_env \<Rightarrow> loc_eng \<Rightarrow> int \<times> loc_eng" where
  "loc_eng_stop_handler env s =
     (if mNavigating s then (env_stopFix env, setInSession False (call ApiStopFix s)) else (0, s))"

definition loc_eng_start :: "loc_eng \<Rightarrow> int \<times> loc_eng" where
  "loc_eng_start s =
     (if \<not> has_adapter s then (-1, s) else (0, post MsgStartFix (s\<lparr>ulpFixSet := True\<rparr>)))"

definition loc_eng_stop :: "loc_eng \<Rightarrow> int \<times> loc_eng" where
  "loc_eng_stop s =
     (if \<not> has_adapter s then (-1, s) else (0, post MsgStopFix (s\<lparr>ulpFixSet := False\<rparr>)))"

definition loc_eng_cleanup :: "loc_eng \<Rightarrow> loc_eng" where
  "loc_eng_cleanup s =
     (if \<not> has_adapter s then s else if mNavigating s then snd (loc_eng_stop s) else s)"

definition GPS_CAPABILITY_MSB :: uint32 where "GPS_CAPABILITY_MSB = 2"
definition GPS_CAPABILITY_MSA :: uint32 where "GPS_CAPABILITY_MSA = 4"
definition GPS_CAPABILITY_ON_DEMAND_TIME :: uint32 where "GPS_CAPABILITY_ON_DEMAND_TIME = 0x10"
definition GPS_CAPABILITY_MEASUREMENTS :: uint32 where "GPS_CAPABILITY_MEASUREMENTS = 0x40"

definition loc_eng_set_position_mode :: "LocPosMode \<Rightarrow> loc_eng \<Rightarrow> int \<times> loc_eng" where
  "loc_eng_set_position_mode params s =
     (if \<not> has_adapter s then (-1, s)
      else let caps = num_at (conf s) CAPABILITIES;
               params = (if caps AND GPS_CAPABILITY_MSB = 0 \<and> caps AND GPS_CAPABILITY_MSA = 0 \<and>
                            lp_mode params \<noteq> LOC_POSITION_MODE_STANDALONE
                         then params\<lparr>lp_mode := LOC_POSITION_MODE_STANDALONE\<rparr> else params)
           in (0, post (MsgPositionMode params) (s\<lparr>ulpPosMode := params\<rparr>)))"

definition loc_eng_inject_time :: "int \<Rightarrow> int \<Rightarrow> int \<Rightarrow> loc_eng \<Rightarrow> int \<times> loc_eng" where
  "loc_eng_inject_time time timeReference uncertainty s =
     (if \<not> has_adapter s then (-1, s) else (0, post (MsgSetTime time timeReference uncertainty) s))"

definition loc_eng_inject_location :: "real \<Rightarrow> real \<Rightarrow> real \<Rightarrow> loc_eng \<Rightarrow> int \<times> loc_eng" where
  "loc_eng_inject_location latitude longitude accur s =
     (if \<not> has_adapter s then (-1, s)
      else (0, if mSupportsPositionInjection s then post (MsgInjectLocation latitude longitude accur) s else s))"

definition loc_eng_delete_aiding_data :: "16 word \<Rightarrow> loc_eng \<Rightarrow> loc_eng" where
  "loc_eng_delete_aiding_data f s = (if \<not> has_adapter s then s else post (MsgDelAidData f) s)"

text \<open>The zero-power position goes to the fusion proxy, which here drops it.\<close>

definition loc_eng_get_zpp_handler :: "loc_eng \<Rightarrow> loc_eng" where
  "loc_eng_get_zpp_handler s = call ApiGetZpp s"

section \<open>Reports\<close>

definition free_rawData :: "gps_fix \<Rightarrow> loc_eng \<Rightarrow> loc_eng" where
  "free_rawData f s = (case rawData f of None \<Rightarrow> s | Some p \<Rightarrow> s\<lparr>freed_raw := freed_raw s @ [p]\<rparr>)"

text \<open>The condition of the second branch of \<open>LocEngReportPosition::proc\<close>. The code compares
  the configured \<open>intermediateFix\<close> (and not the status of the report) with
  \<open>LOC_SESS_INTERMEDIATE\<close>, which is 1.\<close>

definition position_wanted :: "loc_eng \<Rightarrow> gps_fix \<Rightarrow> sess_status \<Rightarrow> bool" where
  "position_wanted s f st \<longleftrightarrow>
     (st = LOC_SESS_SUCCESS \<and> (0x01 OR 0x08 OR 0x80) AND tech_mask f \<noteq> 0) \<or>
     (intermediateFix s = 1 \<and>
      \<not> (has_accuracy f \<and> num_at (conf s) ACCURACY_THRES \<noteq> 0 \<and>
         accuracy f > real (unat (num_at (conf s) ACCURACY_THRES))))"

definition report_position :: "gps_fix \<Rightarrow> sess_status \<Rightarrow> loc_eng \<Rightarrow> loc_eng" where
  "report_position f st s =
     (if muted s then s
      else
        let (reported, s) =
              (if location_cb s then
                 if st = LOC_SESS_FAILURE then (True, callback LocationNull s)
                 else if position_wanted s f st then (True, callback (LocationCb f) s)
                 else (False, s)
               else (False, s));
            s = (if reported \<and> single_shot (mFixCriteria s)
                 then setInSession False (if st = LOC_SESS_INTERMEDIATE then call ApiStopFix s else s)
                 else s);
            s = (if generateNmea s \<and> mNavigating s
                 then callback (NmeaGeneratePos (reported \<and> st \<noteq> LOC_SESS_FAILURE)) s else s)
        in free_rawData f s)"

definition report_sv :: "loc_eng \<Rightarrow> loc_eng" where
  "report_sv s =
     (if muted s then s
      else let s = (if sv_status_cb s then callback SvStatusCb s else s)
           in if generateNmea s then callback NmeaGenerateSv s else s)"

section \<open>Servers and data calls\<close>

definition MAX_URL_LEN :: nat where "MAX_URL_LEN = 256"
definition MAX_APN_LEN :: nat where "MAX_APN_LEN = 100"

definition loc_eng_set_server ::
  "eng_env \<Rightarrow> server_type \<Rightarrow> string option \<Rightarrow> int \<Rightarrow> loc_eng \<Rightarrow> int \<times> loc_eng" where
  "loc_eng_set_server env ty hostname port s =
     (if ty = LOC_AGPS_SUPL_SERVER then
        let url = (case hostname of
              None \<Rightarrow> []
            | Some h \<Rightarrow> if map lower_char h = ''none'' then [] else h @ '':'' @ show_unsigned port)
        in (0, if length url < MAX_URL_LEN then post (MsgSetServerUrl url) s else s)
      else
        (case Option.bind hostname (env_dns env) of
           None \<Rightarrow> (-2, s)
         | Some ip \<Rightarrow> (0, post (MsgSetServerIpv4 ip port ty) s)))"

definition HOST_BUF_LEN :: nat where "HOST_BUF_LEN = 101"

definition loc_eng_set_server_proxy ::
  "eng_env \<Rightarrow> server_type \<Rightarrow> string \<Rightarrow> int \<Rightarrow> loc_eng \<Rightarrow> int \<times> loc_eng" where
  "loc_eng_set_server_proxy env ty hostname port s =
     (let s = (case ty of
            LOC_AGPS_SUPL_SERVER \<Rightarrow> s\<lparr>supl_host := Some (strlcpy HOST_BUF_LEN hostname, port)\<rparr>
          | LOC_AGPS_CDMA_PDE_SERVER \<Rightarrow> s\<lparr>c2k_host := Some (strlcpy HOST_BUF_LEN hostname, port)\<rparr>
          | _ \<Rightarrow> s)
      in if has_adapter s then loc_eng_set_server env ty (Some hostname) port s else (0, s))"

definition loc_eng_agps_reinit :: "eng_env \<Rightarrow> loc_eng \<Rightarrow> loc_eng" where
  "loc_eng_agps_reinit env s =
     (let s = (case supl_host s of None \<Rightarrow> s
          | Some (h, p) \<Rightarrow> snd (loc_eng_set_server env LOC_AGPS_SUPL_SERVER (Some h) p s))
      in case c2k_host s of None \<Rightarrow> s
          | Some (h, p) \<Rightarrow> snd (loc_eng_set_server env LOC_AGPS_CDMA_PDE_SERVER (Some h) p s))"

definition loc_eng_agps_ril_update_network_availability ::
  "uint32 \<Rightarrow> string option \<Rightarrow> loc_eng \<Rightarrow> loc_eng" where
  "loc_eng_agps_ril_update_network_availability available apn s =
     (let s = s\<lparr>agpsStatus := available\<rparr>
      in if \<not> has_adapter s then s
         else case apn of None \<Rightarrow> s
              | Some a \<Rightarrow> post (MsgEnableData (Some (take (min (length a) MAX_APN_LEN) a)) available) s)"

section \<open>The state machines of the engine\<close>

definition get_nif :: "nif \<Rightarrow> loc_eng \<Rightarrow> agps_sm option" where
  "get_nif n s = (case n of AgnssNif \<Rightarrow> agnss_nif s | InternetNif \<Rightarrow> internet_nif s
     | WifiNif \<Rightarrow> wifi_nif s | DsNif \<Rightarrow> ds_nif s)"

definition set_nif :: "nif \<Rightarrow> agps_sm \<Rightarrow> loc_eng \<Rightarrow> loc_eng" where
  "set_nif n m s = (case n of AgnssNif \<Rightarrow> s\<lparr>agnss_nif := Some m\<rparr> | InternetNif \<Rightarrow> s\<lparr>internet_nif := Some m\<rparr>
     | WifiNif \<Rightarrow> s\<lparr>wifi_nif := Some m\<rparr> | DsNif \<Rightarrow> s\<lparr>ds_nif := Some m\<rparr>)"

text \<open>A call of a method of the machine behind a pointer.\<close>

definition on_nif :: "nif option \<Rightarrow> (agps_sm \<Rightarrow> agps_sm) \<Rightarrow> loc_eng \<Rightarrow> loc_eng" where
  "on_nif n f s =
     (case n of
        None \<Rightarrow> s\<lparr>null_deref := True\<rparr>
      | Some n \<Rightarrow> (case get_nif n s of None \<Rightarrow> s\<lparr>null_deref := True\<rparr> | Some m \<Rightarrow> set_nif n (f m) s))"

definition getAgpsStateMachine :: "AGpsExtType \<Rightarrow> loc_eng \<Rightarrow> nif option" where
  "getAgpsStateMachine agpsType s =
     (let ptr = (\<lambda>n. if get_nif n s = None then None else Some n)
      in case agpsType of
           AGPS_TYPE_WIFI \<Rightarrow> ptr WifiNif
         | AGPS_TYPE_INVALID \<Rightarrow> ptr AgnssNif
         | AGPS_TYPE_SUPL \<Rightarrow> ptr AgnssNif
         | AGPS_TYPE_SUPL_ES \<Rightarrow> (if ds_nif s \<noteq> None then ptr DsNif else ptr AgnssNif)
         | _ \<Rightarrow> ptr InternetNif)"

definition atl_sub :: "uint32 \<Rightarrow> bool \<Rightarrow> subscriber" where
  "atl_sub h compatible = \<lparr>ID = h, cls = ATLSubscriber compatible\<rparr>"

definition ds_sub :: "uint32 \<Rightarrow> subscriber" where
  "ds_sub h = \<lparr>ID = h, cls = DSSubscriber False\<rparr>"

definition req_rel_BIT ::
  "eng_env \<Rightarrow> AGpsExtType \<Rightarrow> uint32 \<Rightarrow> uint8 list option \<Rightarrow> bool \<Rightarrow> loc_eng \<Rightarrow> loc_eng" where
  "req_rel_BIT env ty ipv4 ipv6 isReq s =
     (let sub = newBITSubscriber ipv4 ipv6
      in on_nif (getAgpsStateMachine ty s)
           (\<lambda>m. if isReq then subscribeRsrc (env_agps env) sub m
                else snd (unsubscribeRsrc (env_agps env) sub m)) s)"

definition request_SuplEs :: "eng_env \<Rightarrow> uint32 \<Rightarrow> loc_eng \<Rightarrow> loc_eng" where
  "request_SuplEs env h s =
     (if ds_nif s \<noteq> None then on_nif (Some DsNif) (subscribeRsrc (env_agps env) (ds_sub h)) s
      else if agnss_nif s \<noteq> None
      then on_nif (Some AgnssNif) (subscribeRsrc (env_agps env) (atl_sub h False)) s
      else call (ApiAtlOpenStatus h 0 None (-1) None) s)"

definition request_ATL :: "eng_env \<Rightarrow> uint32 \<Rightarrow> AGpsExtType \<Rightarrow> loc_eng \<Rightarrow> loc_eng" where
  "request_ATL env h ty s =
     (case getAgpsStateMachine ty s of
        Some n \<Rightarrow> on_nif (Some n) (subscribeRsrc (env_agps env) (atl_sub h (ty = AGPS_TYPE_INVALID))) s
      | None \<Rightarrow> call (ApiAtlOpenStatus h 0 None (-1) (Some ty)) s)"

text \<open>One of the three attempts of \<open>LocEngReleaseATL::proc\<close>: whether the machine had the
  subscriber.\<close>

definition try_release :: "eng_env \<Rightarrow> nif \<Rightarrow> subscriber \<Rightarrow> loc_eng \<Rightarrow> bool \<times> loc_eng" where
  "try_release env n sub s =
     (case get_nif n s of
        None \<Rightarrow> (False, s)
      | Some m \<Rightarrow> (case unsubscribeRsrc (env_agps env) sub m of (found, m') \<Rightarrow> (found, set_nif n m' s)))"

definition release_ATL :: "eng_env \<Rightarrow> uint32 \<Rightarrow> loc_eng \<Rightarrow> loc_eng" where
  "release_ATL env h s =
     (case try_release env AgnssNif (atl_sub h False) s of
        (True, s) \<Rightarrow> s
      | (False, s) \<Rightarrow>
     (case try_release env InternetNif (atl_sub h False) s of
        (True, s) \<Rightarrow> s
      | (False, s) \<Rightarrow>
     (case try_release env DsNif (ds_sub h) s of
        (True, s) \<Rightarrow> s
      | (False, s) \<Rightarrow> call (ApiAtlCloseStatus h 0) s)))"

definition req_rel_wifi ::
  "eng_env \<Rightarrow> AGpsExtType \<Rightarrow> sender_id \<Rightarrow> uint32 \<Rightarrow> string option \<Rightarrow> string option \<Rightarrow> bool \<Rightarrow> loc_eng \<Rightarrow> loc_eng" where
  "req_rel_wifi env ty sender number ssid password isReq s =
     (if wifi_nif s \<noteq> None then
        let sub = newWIFISubscriber ssid password sender number
        in on_nif (Some WifiNif)
             (\<lambda>m. if isReq then subscribeRsrc (env_agps env) sub m
                  else snd (unsubscribeRsrc (env_agps env) sub m)) s
      else call (ApiAtlOpenStatus number 0 None (-1) (Some ty)) s)"

definition atl_open_success :: "eng_env \<Rightarrow> nif option \<Rightarrow> string \<Rightarrow> AGpsBearerType \<Rightarrow> loc_eng \<Rightarrow> loc_eng" where
  "atl_open_success env n apn bearer s =
     on_nif n (\<lambda>m. onRsrcEvent (env_agps env) RSRC_GRANTED (setAPN (Some apn) (length apn) (setBearer bearer m))) s"

definition loc_eng_agps_open :: "AGpsExtType \<Rightarrow> string option \<Rightarrow> AGpsBearerType \<Rightarrow> loc_eng \<Rightarrow> int \<times> loc_eng" where
  "loc_eng_agps_open agpsType apn bearer s =
     (if \<not> (has_adapter s \<and> agps_status_cb s) then (-1, s)
      else case apn of
        None \<Rightarrow> (0, s)
      | Some a \<Rightarrow> (0, post (MsgAtlOpenSuccess (getAgpsStateMachine agpsType s) (take (min (length a) MAX_APN_LEN) a) bearer) s))"

definition loc_eng_agps_closed :: "AGpsExtType \<Rightarrow> loc_eng \<Rightarrow> int \<times> loc_eng" where
  "loc_eng_agps_closed agpsType s =
     (if \<not> (has_adapter s \<and> agps_status_cb s) then (-1, s)
      else (0, post (MsgAtlClosed (getAgpsStateMachine agpsType s)) s))"

definition loc_eng_agps_open_failed :: "AGpsExtType \<Rightarrow> loc_eng \<Rightarrow> int \<times> loc_eng" where
  "loc_eng_agps_open_failed agpsType s =
     (if \<not> (has_adapter s \<and> agps_status_cb s) then (-1, s)
      else (0, post (MsgAtlOpenFailed (getAgpsStateMachine agpsType s)) s))"

end
