(* ===== verification/Nmea.thy ===== *)
theory Nmea
  imports LocEng
begin

unbundle bit_operations_syntax

text \<open>
  NMEA sentences, \<open>src/gps/loc_api/libloc_api_50001/loc_eng_nmea.cpp\<close>: the sentences generated
  for a position (GSA, VTG, RMC, GGA) and for the satellites in view (GSV), and their
  checksums. A sentence is built piece by piece in a buffer of 200 bytes; a piece that does not
  fit ends the function (\<open>put_piece\<close> gives \<open>None\<close>), except the last one, which is cut off.
  Floating-point variables are real numbers: their formatting is that of \<open>printf\<close>, exact and
  rounded to the nearest with ties to even, but the rounding of the arithmetic itself is not
  modelled.
\<close>

section \<open>Formatting\<close>

definition zfill :: "nat \<Rightarrow> string \<Rightarrow> string" where
  "zfill w s = replicate (w - length s) CHR ''0'' @ s"

text \<open>\<open>%d\<close>, \<open>%02d\<close> and \<open>%2.2d\<close>.\<close>

definition fmt_int :: "int \<Rightarrow> string" where
  "fmt_int i = (if i < 0 then CHR ''-'' # dec_digits (nat (- i)) else dec_digits (nat i))"

definition fmt_0 :: "nat \<Rightarrow> int \<Rightarrow> string" where
  "fmt_0 w i = (if i < 0 then CHR ''-'' # zfill (w - 1) (dec_digits (nat (- i))) else zfill w (dec_digits (nat i)))"

definition fmt_prec :: "nat \<Rightarrow> int \<Rightarrow> string" where
  "fmt_prec p i = (if i < 0 then CHR ''-'' # zfill p (dec_digits (nat (- i))) else zfill p (dec_digits (nat i)))"

definition round_even :: "real \<Rightarrow> int" where
  "round_even x =
     (let f = \<lfloor>x\<rfloor>; r = x - of_int f
      in if r < 1 / 2 then f else if r > 1 / 2 then f + 1 else if even f then f else f + 1)"

text \<open>\<open>%.<d>f\<close> for a number that is not negative, and in general.\<close>

definition fixed_abs :: "nat \<Rightarrow> real \<Rightarrow> string" where
  "fixed_abs d x =
     (let n = nat (round_even (x * 10 ^ d))
      in dec_digits (n div 10 ^ d) @ (if d = 0 then [] else CHR ''.'' # zfill d (dec_digits (n mod 10 ^ d))))"

definition fixed :: "nat \<Rightarrow> real \<Rightarrow> string" where
  "fixed d x = (if x < 0 then CHR ''-'' # fixed_abs d (- x) else fixed_abs d x)"

definition nmea_digit :: "nat \<Rightarrow> char" where
  "nmea_digit n = ''0123456789ABCDEF'' ! n"

definition hex2 :: "uint8 \<Rightarrow> string" where
  "hex2 w = [nmea_digit (unat w div 16), nmea_digit (unat w mod 16)]"

text \<open>The cast of a floating-point number to \<open>int\<close> truncates.\<close>

definition trunc :: "real \<Rightarrow> int" where
  "trunc x = (if x < 0 then \<lceil>x\<rceil> else \<lfloor>x\<rfloor>)"

definition fmod60 :: "real \<Rightarrow> real" where
  "fmod60 x = x - 60 * of_int \<lfloor>x / 60\<rfloor>"

section \<open>Inputs and state\<close>

record nmea_location =
  timestamp :: int
  has_lat_long :: bool
  latitude :: real
  longitude :: real
  has_altitude :: bool
  altitude :: real
  has_speed :: bool
  speed :: real
  has_bearing :: bool
  bearing :: real

record nmea_extended =
  ext_has_dop :: bool
  ext_pdop :: real
  ext_hdop :: real
  ext_vdop :: real
  has_altitude_msl :: bool
  altitudeMeanSeaLevel :: real
  has_mag_dev :: bool
  magneticDeviation :: real

record sv_info =
  prn :: int
  elevation :: real
  azimuth :: real
  snr :: real

record nmea_state =
  sv_used_mask :: uint32
  hdop :: real
  pdop :: real
  vdop :: real
  has_nmea_cb :: bool
  nmea_mode :: pos_mode
  sent :: "(string \<times> nat) list"

record tm =
  tm_year :: int
  tm_mon :: int
  tm_mday :: int
  tm_hour :: int
  tm_min :: int
  tm_sec :: int

text \<open>\<open>gmtime\<close> of the C library: the proleptic Gregorian calendar, NULL when the year does not
  fit into an \<open>int\<close>. The year is counted from March.\<close>

definition gmtime :: "int \<Rightarrow> tm option" where
  "gmtime t =
     (let days = t div 86400; secs = t mod 86400;
          z = days + 719468; era = z div 146097; doe = z mod 146097;
          yoe = (doe - doe div 1460 + doe div 36524 - doe div 146096) div 365;
          doy = doe - (365 * yoe + yoe div 4 - yoe div 100);
          mp = (5 * doy + 2) div 153;
          month = (if mp < 10 then mp + 3 else mp - 9);
          year = yoe + era * 400 + (if month \<le> 2 then 1 else 0) - 1900
      in if year < - (2 ^ 31) \<or> year \<ge> 2 ^ 31 then None
         else Some \<lparr>tm_year = year, tm_mon = month - 1, tm_mday = doy - (153 * mp + 2) div 5 + 1,
           tm_hour = secs div 3600, tm_min = secs div 60 mod 60, tm_sec = secs mod 60\<rparr>)"

text \<open>Division of C, towards zero, and its remainder.\<close>

definition cdiv :: "int \<Rightarrow> int \<Rightarrow> int" where
  "cdiv a b = (if a < 0 then - ((- a) div b) else a div b)"

definition crem :: "int \<Rightarrow> int \<Rightarrow> int" where
  "crem a b = a - b * cdiv a b"

section \<open>The buffer\<close>

definition NMEA_SENTENCE_MAX_LENGTH :: nat where "NMEA_SENTENCE_MAX_LENGTH = 200"

definition put_piece :: "string \<Rightarrow> string \<Rightarrow> string option" where
  "put_piece piece s =
     (if length piece \<ge> NMEA_SENTENCE_MAX_LENGTH - length s then None else Some (s @ piece))"

text \<open>\<open>snprintf\<close> without a test of its result.\<close>

definition put_last :: "string \<Rightarrow> string \<Rightarrow> string" where
  "put_last piece s = s @ take (NMEA_SENTENCE_MAX_LENGTH - length s - 1) piece"

definition xor_bytes :: "string \<Rightarrow> uint8" where
  "xor_bytes s = fold (\<lambda>c w. w XOR of_char c) s 0"

definition loc_eng_nmea_put_checksum :: "string \<Rightarrow> nat \<Rightarrow> string \<times> nat" where
  "loc_eng_nmea_put_checksum pNmea maxSize =
     (let body = drop 1 pNmea;
          len = length body;
          text = CHR ''*'' # hex2 (xor_bytes body) @ [CHR 0x0D, CHR 0x0A]
      in (pNmea @ take (maxSize - len - 1 - 1) text, len + length text))"

definition loc_eng_nmea_send :: "string \<times> nat \<Rightarrow> nmea_state \<Rightarrow> nmea_state" where
  "loc_eng_nmea_send x s = (if has_nmea_cb s then s\<lparr>sent := sent s @ [x]\<rparr> else s)"

definition send_checked :: "string \<Rightarrow> nmea_state \<Rightarrow> nmea_state" where
  "send_checked sentence s = loc_eng_nmea_send (loc_eng_nmea_put_checksum sentence NMEA_SENTENCE_MAX_LENGTH) s"

section \<open>The sentences of a position\<close>

function used_loop :: "uint32 \<Rightarrow> int \<Rightarrow> int list \<Rightarrow> int list" where
  "used_loop m i used =
     (if m = 0 \<or> length used \<ge> 32 then used
      else used_loop (drop_bit 1 m) (i + 1) (if m AND 1 \<noteq> 0 then used @ [i] else used))"
  by auto
termination
proof (relation "measure (\<lambda>(m, _, _). unat m)", goal_cases)
  case (2 m i u)
  then have "0 < unat m" by (simp add: unat_gt_0)
  moreover have "unat (drop_bit 1 m) = unat m div 2" by (simp add: drop_bit_eq_div unat_div_distrib)
  ultimately show ?case by simp
qed simp

declare used_loop.simps [simp del]

fun gsa_slots :: "nat \<Rightarrow> int list \<Rightarrow> string \<Rightarrow> string option" where
  "gsa_slots 0 used s = Some s"
| "gsa_slots (Suc k) [] s = do { s \<leftarrow> put_piece '','' s; gsa_slots k [] s }"
| "gsa_slots (Suc k) (u # used) s = do { s \<leftarrow> put_piece (fmt_0 2 u @ '','') s; gsa_slots k used s }"

definition cached_dop :: "nmea_state \<Rightarrow> bool" where
  "cached_dop s \<longleftrightarrow> pdop s > 0 \<and> hdop s > 0 \<and> vdop s > 0"

definition gsa_sentence :: "int list \<Rightarrow> nmea_extended \<Rightarrow> nmea_state \<Rightarrow> string option" where
  "gsa_sentence used e st =
     (let fixType = (if used = [] then ''1'' else if length used \<le> 3 then ''2'' else ''3'')
      in do {
        s \<leftarrow> put_piece (''$GPGSA,A,'' @ fixType @ '','') [];
        s \<leftarrow> gsa_slots 12 used s;
        Some (put_last
          (if ext_has_dop e then fixed 1 (ext_pdop e) @ '','' @ fixed 1 (ext_hdop e) @ '','' @ fixed 1 (ext_vdop e)
           else if cached_dop st then fixed 1 (pdop st) @ '','' @ fixed 1 (hdop st) @ '','' @ fixed 1 (vdop st)
           else '',,'') s)
      })"

text \<open>The letter of the mode, shared by two sentences.\<close>

definition mode_letter :: "nmea_location \<Rightarrow> nmea_state \<Rightarrow> string" where
  "mode_letter l st =
     (if \<not> has_lat_long l then ''N'' else if nmea_mode st = LOC_POSITION_MODE_STANDALONE then ''A'' else ''D'')"

text \<open>The inner \<open>magTrack\<close>, which has the deviation, is a variable of its own that ends with its
  block; what is printed is the outer one.\<close>

definition vtg_sentence :: "nmea_location \<Rightarrow> nmea_extended \<Rightarrow> nmea_state \<Rightarrow> string option" where
  "vtg_sentence l e st = do {
     s \<leftarrow> put_piece
       (if has_bearing l then
          let magTrack = bearing l;
              inner = (if has_mag_dev e then
                  let m = bearing l - magneticDeviation e
                  in if m < 0 then m + 360 else if m > 360 then m - 360 else m
                else 0)
          in ''$GPVTG,'' @ fixed 1 (bearing l) @ '',T,'' @ fixed 1 magTrack @ '',M,''
        else ''$GPVTG,,T,,M,'') [];
     s \<leftarrow> put_piece
       (if has_speed l then
          fixed 1 (speed l * (3600 / 1852)) @ '',N,'' @ fixed 1 (speed l * 3.6) @ '',K,''
        else '',N,,K,'') s;
     Some (put_last (mode_letter l st) s)
   }"

definition lat_long_text :: "nmea_location \<Rightarrow> string" where
  "lat_long_text l =
     (let latHemisphere = (if latitude l > 0 then CHR ''N'' else CHR ''S'');
          lat = (if latitude l > 0 then latitude l else latitude l * -1);
          lonHemisphere = (if longitude l < 0 then CHR ''W'' else CHR ''E'');
          lon = (if longitude l < 0 then longitude l * -1 else longitude l);
          latMinutes = fmod60 (lat * 60);
          lonMinutes = fmod60 (lon * 60)
      in fmt_0 2 (\<lfloor>lat\<rfloor> mod 256) @ zfill 9 (fixed 6 latMinutes) @ '','' @ [latHemisphere] @ '','' @
         fmt_0 3 (\<lfloor>lon\<rfloor> mod 256) @ zfill 9 (fixed 6 lonMinutes) @ '','' @ [lonHemisphere] @ '','')"

definition time_text :: "tm \<Rightarrow> string" where
  "time_text t = fmt_0 2 (tm_hour t) @ fmt_0 2 (tm_min t) @ fmt_0 2 (tm_sec t)"

definition rmc_sentence :: "tm \<Rightarrow> nmea_location \<Rightarrow> nmea_extended \<Rightarrow> nmea_state \<Rightarrow> string option" where
  "rmc_sentence t l e st = do {
     s \<leftarrow> put_piece (''$GPRMC,'' @ time_text t @ '',A,'') [];
     s \<leftarrow> put_piece (if has_lat_long l then lat_long_text l else '',,,,'') s;
     s \<leftarrow> put_piece (if has_speed l then fixed 1 (speed l * (3600 / 1852)) @ '','' else '','') s;
     s \<leftarrow> put_piece (if has_bearing l then fixed 1 (bearing l) @ '','' else '','') s;
     s \<leftarrow> put_piece (fmt_prec 2 (tm_mday t) @ fmt_prec 2 (tm_mon t + 1) @ fmt_prec 2 (crem (tm_year t) 100) @ '','') s;
     s \<leftarrow> put_piece
       (if has_mag_dev e then
          let direction = (if magneticDeviation e < 0 then CHR ''W'' else CHR ''E'');
              magneticVariation = (if magneticDeviation e < 0 then magneticDeviation e * -1 else magneticDeviation e)
          in fixed 1 magneticVariation @ '','' @ [direction] @ '',''
        else '',,'') s;
     Some (put_last (mode_letter l st) s)
   }"

definition gga_sentence :: "tm \<Rightarrow> int list \<Rightarrow> nmea_location \<Rightarrow> nmea_extended \<Rightarrow> nmea_state \<Rightarrow> string option" where
  "gga_sentence t used l e st =
     (let gpsQuality = (if \<not> has_lat_long l then ''0''
            else if nmea_mode st = LOC_POSITION_MODE_STANDALONE then ''1'' else ''2'');
          head = gpsQuality @ '','' @ fmt_0 2 (int (length used)) @ '',''
      in do {
        s \<leftarrow> put_piece (''$GPGGA,'' @ time_text t @ '','') [];
        s \<leftarrow> put_piece (if has_lat_long l then lat_long_text l else '',,,,'') s;
        s \<leftarrow> put_piece
          (if ext_has_dop e then head @ fixed 1 (ext_hdop e) @ '',''
           else if cached_dop st then head @ fixed 1 (hdop st) @ '',''
           else head @ '','') s;
        s \<leftarrow> put_piece (if has_altitude_msl e then fixed 1 (altitudeMeanSeaLevel e) @ '',M,'' else '',,'') s;
        Some (put_last
          (if has_altitude l \<and> has_altitude_msl e then fixed 1 (altitude l - altitudeMeanSeaLevel e) @ '',M,,''
           else '',,,'') s)
      })"

definition clear_dop :: "nmea_state \<Rightarrow> nmea_state" where
  "clear_dop s = s\<lparr>pdop := 0, hdop := 0, vdop := 0\<rparr>"

text \<open>The blank reports for fixes that are not final.\<close>

definition send_blank :: "nmea_state \<Rightarrow> nmea_state" where
  "send_blank s =
     send_checked ''$GPGGA,,,,,,0,,,,,,,,''
       (send_checked ''$GPRMC,,V,,,,,,,,,,N''
         (send_checked ''$GPVTG,,T,,M,,N,,K,N''
           (send_checked ''$GPGSA,A,1,,,,,,,,,,,,,,,'' s)))"

definition loc_eng_nmea_generate_pos ::
  "nmea_location \<Rightarrow> nmea_extended \<Rightarrow> bool \<Rightarrow> nmea_state \<Rightarrow> nmea_state" where
  "loc_eng_nmea_generate_pos l e generate_nmea s =
     (case gmtime (cdiv (timestamp l) 1000) of
        None \<Rightarrow> s
      | Some t \<Rightarrow>
          if generate_nmea then
            let used = used_loop (sv_used_mask s) 1 [];
                s = s\<lparr>sv_used_mask := 0\<rparr>
            in case gsa_sentence used e s of None \<Rightarrow> s | Some gsa \<Rightarrow>
               let s = send_checked gsa s
               in case vtg_sentence l e s of None \<Rightarrow> s | Some vtg \<Rightarrow>
                  let s = send_checked vtg s
                  in case rmc_sentence t l e s of None \<Rightarrow> s | Some rmc \<Rightarrow>
                     let s = send_checked rmc s
                     in case gga_sentence t used l e s of None \<Rightarrow> s
                        | Some gga \<Rightarrow> clear_dop (send_checked gga s)
          else clear_dop (send_blank s))"

section \<open>The sentences of the satellites\<close>

text \<open>The ranges of satellite numbers, macros at the head of the file (\<open>nmea_ranges\<close> has their values), are
  an argument.\<close>

record prn_ranges =
  GPS_PRN_START :: int
  GPS_PRN_END :: int
  GLONASS_PRN_START :: int
  GLONASS_PRN_END :: int

definition nmea_ranges :: prn_ranges where
  "nmea_ranges = \<lparr>GPS_PRN_START = 1, GPS_PRN_END = 32, GLONASS_PRN_START = 65, GLONASS_PRN_END = 96\<rparr>"

definition gps_sv :: "prn_ranges \<Rightarrow> sv_info \<Rightarrow> bool" where
  "gps_sv r v \<longleftrightarrow> GPS_PRN_START r \<le> prn v \<and> prn v \<le> GPS_PRN_END r"

definition gln_sv :: "prn_ranges \<Rightarrow> sv_info \<Rightarrow> bool" where
  "gln_sv r v \<longleftrightarrow> GLONASS_PRN_START r \<le> prn v \<and> prn v \<le> GLONASS_PRN_END r"

text \<open>The counts: a satellite in both ranges counts as GPS only.\<close>

definition gpsCount :: "prn_ranges \<Rightarrow> sv_info list \<Rightarrow> nat" where
  "gpsCount r svs = length (filter (gps_sv r) svs)"

definition glnCount :: "prn_ranges \<Rightarrow> sv_info list \<Rightarrow> nat" where
  "glnCount r svs = length (filter (\<lambda>v. \<not> gps_sv r v \<and> gln_sv r v) svs)"

text \<open>The inner loop: \<open>i\<close> satellites of the kind have been put into the sentence; the result is
  the sentence and the satellites not yet looked at.\<close>

fun gsv_fill :: "(sv_info \<Rightarrow> bool) \<Rightarrow> nat \<Rightarrow> sv_info list \<Rightarrow> string \<Rightarrow> (string \<times> sv_info list) option" where
  "gsv_fill kind i [] s = Some (s, [])"
| "gsv_fill kind i (v # vs) s =
     (if i \<ge> 4 then Some (s, v # vs)
      else if kind v then do {
        s \<leftarrow> put_piece ('','' @ fmt_0 2 (prn v) @ '','' @ fmt_0 2 (trunc (0.5 + elevation v)) @ '','' @
          fmt_0 3 (trunc (0.5 + azimuth v)) @ '','') s;
        s \<leftarrow> (if snr v > 0 then put_piece (fmt_0 2 (trunc (0.5 + snr v))) s else Some s);
        gsv_fill kind (i + 1) vs s
      }
      else gsv_fill kind i vs s)"

text \<open>The \<open>while\<close> loop over the sentences, \<open>k\<close> of them left; \<open>True\<close>: it was not left early.\<close>

fun gsv_sentences ::
  "string \<Rightarrow> (sv_info \<Rightarrow> bool) \<Rightarrow> nat \<Rightarrow> nat \<Rightarrow> nat \<Rightarrow> sv_info list \<Rightarrow> nmea_state \<Rightarrow> bool \<times> nmea_state" where
  "gsv_sentences talker kind n cnt 0 vs st = (True, st)"
| "gsv_sentences talker kind n cnt (Suc k) vs st =
     (case do {
        s \<leftarrow> put_piece (talker @ '','' @ fmt_int (int cnt) @ '','' @ fmt_int (int (cnt - k)) @ '','' @ fmt_0 2 (int n)) [];
        gsv_fill kind 0 vs s
      } of
        None \<Rightarrow> (False, st)
      | Some (s, rest) \<Rightarrow> gsv_sentences talker kind n cnt k rest (send_checked s st))"

definition gsv_block ::
  "string \<Rightarrow> nat \<Rightarrow> (sv_info \<Rightarrow> bool) \<Rightarrow> sv_info list \<Rightarrow> nmea_state \<Rightarrow> bool \<times> nmea_state" where
  "gsv_block talker n kind svs s =
     (if n = 0 then (True, send_checked (talker @ '',1,1,0,'') s)
      else let count = n div 4 + (if n mod 4 \<noteq> 0 then 1 else 0)
           in gsv_sentences talker kind n count count svs s)"

text \<open>What is kept for the next position.\<close>

definition cache_sv :: "uint32 \<Rightarrow> nmea_extended \<Rightarrow> nmea_state \<Rightarrow> nmea_state" where
  "cache_sv gps_used_in_fix_mask e s =
     (let s = s\<lparr>sv_used_mask := gps_used_in_fix_mask\<rparr>
      in if ext_has_dop e then s\<lparr>pdop := ext_pdop e, hdop := ext_hdop e, vdop := ext_vdop e\<rparr>
         else s\<lparr>pdop := 0, hdop := 0, vdop := 0\<rparr>)"

definition loc_eng_nmea_generate_sv ::
  "prn_ranges \<Rightarrow> sv_info list \<Rightarrow> uint32 \<Rightarrow> nmea_extended \<Rightarrow> nmea_state \<Rightarrow> nmea_state" where
  "loc_eng_nmea_generate_sv r svs gps_used_in_fix_mask e s =
     (case gsv_block ''$GPGSV'' (gpsCount r svs) (gps_sv r) svs s of
        (False, s) \<Rightarrow> s
      | (True, s) \<Rightarrow>
          (case gsv_block ''$GLGSV'' (glnCount r svs) (gln_sv r) svs s of
             (False, s) \<Rightarrow> s
           | (True, s) \<Rightarrow> cache_sv gps_used_in_fix_mask e s))"

end
