(* ===== verification/NmeaFacts.thy ===== *)
theory NmeaFacts
  imports Nmea
begin

unbundle bit_operations_syntax

text \<open>
  What holds of the sentences: a receiver that checks the checksum reads the text back, no
  sentence is longer than the buffer, and the satellites in view are reported four to a
  sentence, each once and in order.
\<close>

section \<open>Checksums\<close>

definition hex_value :: "char \<Rightarrow> nat" where
  "hex_value c = (let k = of_char c :: nat in if 65 \<le> k then k - 55 else k - 48)"

text \<open>A receiver: the text between \<open>$\<close> and \<open>*\<close> when the two digits behind are its checksum.\<close>

definition nmea_decode :: "string \<Rightarrow> string option" where
  "nmea_decode s =
     (case s of [] \<Rightarrow> None
      | c # r \<Rightarrow>
          let body = takeWhile (\<lambda>c. c \<noteq> CHR ''*'') r
          in (case dropWhile (\<lambda>c. c \<noteq> CHR ''*'') r of
                [st, a, b, cr, lf] \<Rightarrow>
                  if c = CHR ''$'' \<and> unat (xor_bytes body) = hex_value a * 16 + hex_value b then Some body else None
              | _ \<Rightarrow> None))"

lemma hex_value_digit: "n < 16 \<Longrightarrow> hex_value (nmea_digit n) = n"
proof -
  have "\<forall>k \<in> {..<16}. hex_value (nmea_digit k) = k" by code_simp
  then show "n < 16 \<Longrightarrow> hex_value (nmea_digit n) = n" by simp
qed

lemma hex2_value: "hex2 w = [a, b] \<Longrightarrow> hex_value a * 16 + hex_value b = unat w"
proof -
  assume "hex2 w = [a, b]"
  moreover have "unat w div 16 < 16" using unsigned_less [of w, where 'a = nat] by simp
  ultimately show ?thesis by (auto simp: hex2_def hex_value_digit)
qed

definition checked :: "string \<Rightarrow> string" where
  "checked s = s @ CHR ''*'' # hex2 (xor_bytes (drop 1 s)) @ [CHR 0x0D, CHR 0x0A]"

lemma put_checksum_room:
  "s \<noteq> [] \<Longrightarrow> length s \<le> 194 \<Longrightarrow> loc_eng_nmea_put_checksum s 200 = (checked s, length s + 4)"
  by (simp add: loc_eng_nmea_put_checksum_def checked_def hex2_def Let_def)

text \<open>A receiver reads back what was put into a sentence: for every text without a star
  that leaves room for the checksum, the sentence with its checksum decodes to the text. The
  length returned along with it is one less than that of the sentence, whose first character
  is not counted.\<close>

theorem nmea_checksum_roundtrip:
  assumes "CHR ''*'' \<notin> set body" and "length body \<le> 193"
  shows "\<exists>text n. loc_eng_nmea_put_checksum (CHR ''$'' # body) NMEA_SENTENCE_MAX_LENGTH = (text, n) \<and>
    nmea_decode text = Some body \<and> Suc n = length text"
proof -
  obtain a b where h: "hex2 (xor_bytes body) = [a, b]" by (simp add: hex2_def)
  have t: "takeWhile (\<lambda>c. c \<noteq> CHR ''*'') (body @ CHR ''*'' # r) = body"
    "dropWhile (\<lambda>c. c \<noteq> CHR ''*'') (body @ CHR ''*'' # r) = CHR ''*'' # r" for r
    using assms(1) by (induction body) auto
  have "nmea_decode (checked (CHR ''$'' # body)) = Some body"
    using hex2_value [OF h] by (simp add: nmea_decode_def checked_def h t)
  then show ?thesis using put_checksum_room [of "CHR ''$'' # body"] assms(2)
    by (simp add: NMEA_SENTENCE_MAX_LENGTH_def checked_def h)
qed

theorem nmea_checksum_roundtrip_witness:
  "\<exists>text n. loc_eng_nmea_put_checksum ''$GPVTG,,T,,M,,N,,K,N'' 200 = (text, n) \<and>
     nmea_decode text = Some ''GPVTG,,T,,M,,N,,K,N''"
  using nmea_checksum_roundtrip [of "''GPVTG,,T,,M,,N,,K,N''"] by (auto simp: NMEA_SENTENCE_MAX_LENGTH_def)

section \<open>Bounds\<close>

definition fits :: "string \<Rightarrow> bool" where
  "fits s \<longleftrightarrow> length s < 200"

lemma put_piece_fits: "put_piece p s = Some t \<Longrightarrow> fits t"
  by (auto simp: put_piece_def fits_def NMEA_SENTENCE_MAX_LENGTH_def split: if_splits)

lemma put_last_fits: "fits s \<Longrightarrow> fits (put_last p s)"
  by (auto simp: put_last_def fits_def NMEA_SENTENCE_MAX_LENGTH_def)

lemma gsa_slots_fits: "gsa_slots k used s = Some t \<Longrightarrow> fits s \<Longrightarrow> fits t"
  by (induction k used s rule: gsa_slots.induct)
    (auto simp: put_piece_fits bind_eq_Some_conv)

lemma sentences_fit:
  "gsa_sentence used e st = Some t \<Longrightarrow> fits t" "vtg_sentence l e st = Some t \<Longrightarrow> fits t"
  "rmc_sentence tm l e st = Some t \<Longrightarrow> fits t" "gga_sentence tm used l e st = Some t \<Longrightarrow> fits t"
  by (auto simp: gsa_sentence_def vtg_sentence_def rmc_sentence_def gga_sentence_def Let_def bind_eq_Some_conv
      intro!: put_last_fits intro: put_piece_fits gsa_slots_fits)

lemma checksum_fits: "fits s \<Longrightarrow> fits (fst (loc_eng_nmea_put_checksum s 200))"
  by (cases s) (auto simp: fits_def loc_eng_nmea_put_checksum_def hex2_def Let_def)

definition all_fit :: "nmea_state \<Rightarrow> bool" where
  "all_fit s \<longleftrightarrow> (\<forall>x \<in> set (sent s). fits (fst x))"

lemma all_fit_send: "all_fit s \<Longrightarrow> fits t \<Longrightarrow> all_fit (send_checked t s)"
  using checksum_fits [of t]
  by (auto simp: all_fit_def send_checked_def loc_eng_nmea_send_def NMEA_SENTENCE_MAX_LENGTH_def)

lemma all_fit_upd [simp]:
  "all_fit (s\<lparr>sv_used_mask := m\<rparr>) = all_fit s" "all_fit (clear_dop s) = all_fit s"
  "all_fit (s\<lparr>pdop := a, hdop := b, vdop := c\<rparr>) = all_fit s"
  by (simp_all add: all_fit_def clear_dop_def)

lemma all_fit_pos: "all_fit s \<Longrightarrow> all_fit (loc_eng_nmea_generate_pos l e g s)"
  by (auto simp: loc_eng_nmea_generate_pos_def send_blank_def Let_def fits_def [of "_ # _"] intro!: all_fit_send dest: sentences_fit
      split: option.split)

lemma gsv_fill_fits: "gsv_fill kind i vs s = Some (t, r) \<Longrightarrow> fits s \<Longrightarrow> fits t"
proof (induction vs arbitrary: i s)
  case (Cons v vs)
  show ?case
  proof (cases "i < 4 \<and> kind v")
    case True
    then obtain s1 s2 where "put_piece ('','' @ fmt_0 2 (prn v) @ '','' @ fmt_0 2 (trunc (0.5 + elevation v)) @ '','' @
          fmt_0 3 (trunc (0.5 + azimuth v)) @ '','') s = Some s1"
      "(if snr v > 0 then put_piece (fmt_0 2 (trunc (0.5 + snr v))) s1 else Some s1) = Some s2"
      "gsv_fill kind (i + 1) vs s2 = Some (t, r)"
      using Cons.prems(1) by (auto simp: bind_eq_Some_conv simp del: append.simps)
    then show ?thesis using Cons.IH put_piece_fits by (metis option.inject)
  qed (use Cons in \<open>auto split: if_splits\<close>)
qed simp

lemma all_fit_gsv: "all_fit st \<Longrightarrow> all_fit (snd (gsv_sentences talker kind n c k vs st))"
proof (induction k arbitrary: vs st)
  case (Suc k)
  show ?case
  proof (cases "do {
        s \<leftarrow> put_piece (talker @ '','' @ fmt_int (int c) @ '','' @ fmt_int (int (c - k)) @ '','' @ fmt_0 2 (int n)) [];
        gsv_fill kind 0 vs s
      }")
    case (Some x)
    then obtain s rest where x: "x = (s, rest)" "fits s"
      by (cases x) (auto simp: bind_eq_Some_conv dest: gsv_fill_fits put_piece_fits)
    then show ?thesis using Suc.IH [OF all_fit_send [OF Suc.prems x(2)]] Some by simp
  qed (use Suc.prems in simp)
qed simp

lemma all_fit_block: "all_fit st \<Longrightarrow> length talker \<le> 6 \<Longrightarrow> all_fit (snd (gsv_block talker n kind vs st))"
  by (auto simp: gsv_block_def Let_def fits_def simp del: gsv_sentences.simps intro!: all_fit_gsv all_fit_send)

text \<open>No sentence overruns its buffer: whatever the position, the satellites and the state,
  every sentence that is passed on, with its checksum, has at most 199 characters, so that its
  end mark is inside the 200 bytes as well.\<close>

theorem nmea_sentences_bounded:
  assumes "\<forall>x \<in> set (sent s). length (fst x) < NMEA_SENTENCE_MAX_LENGTH"
  shows "(\<forall>x \<in> set (sent (loc_eng_nmea_generate_pos l e g s)). length (fst x) < NMEA_SENTENCE_MAX_LENGTH) \<and>
    (\<forall>x \<in> set (sent (loc_eng_nmea_generate_sv r svs m e s)). length (fst x) < NMEA_SENTENCE_MAX_LENGTH)"
proof -
  have s: "all_fit s" using assms by (simp add: all_fit_def fits_def NMEA_SENTENCE_MAX_LENGTH_def)
  obtain b1 s1 where 1: "gsv_block ''$GPGSV'' (gpsCount r svs) (gps_sv r) svs s = (b1, s1)" by fastforce
  have s1: "all_fit s1" using all_fit_block [OF s, of "''$GPGSV''" "gpsCount r svs" "gps_sv r" svs] 1 by simp
  obtain b2 s2 where 2: "gsv_block ''$GLGSV'' (glnCount r svs) (gln_sv r) svs s1 = (b2, s2)" by fastforce
  have s2: "all_fit s2" using all_fit_block [OF s1, of "''$GLGSV''" "glnCount r svs" "gln_sv r" svs] 2 by simp
  have "all_fit (loc_eng_nmea_generate_sv r svs m e s)"
    using s1 s2 by (simp add: loc_eng_nmea_generate_sv_def cache_sv_def 1 2 Let_def all_fit_def split: bool.split)
  then show ?thesis using all_fit_pos [OF s, of l e g]
    by (simp add: all_fit_def fits_def NMEA_SENTENCE_MAX_LENGTH_def)
qed

section \<open>Satellites in view\<close>

text \<open>The sentences as they should be: the satellites of a kind in groups of four.\<close>

fun chunks4 :: "'a list \<Rightarrow> 'a list list" where
  "chunks4 [] = []"
| "chunks4 (x # xs) = (x # take 3 xs) # chunks4 (drop 3 xs)"

definition sv_text :: "sv_info \<Rightarrow> string" where
  "sv_text v = '','' @ fmt_0 2 (prn v) @ '','' @ fmt_0 2 (trunc (0.5 + elevation v)) @ '','' @
     fmt_0 3 (trunc (0.5 + azimuth v)) @ '','' @ (if snr v > 0 then fmt_0 2 (trunc (0.5 + snr v)) else [])"

definition gsv_head :: "string \<Rightarrow> nat \<Rightarrow> nat \<Rightarrow> nat \<Rightarrow> string" where
  "gsv_head talker n cnt no =
     talker @ '','' @ fmt_int (int cnt) @ '','' @ fmt_int (int no) @ '','' @ fmt_0 2 (int n)"

definition gsv_spec :: "string \<Rightarrow> sv_info list \<Rightarrow> string list" where
  "gsv_spec talker vs =
     (if vs = [] then [talker @ '',1,1,0,'']
      else map (\<lambda>(no, group). gsv_head talker (length vs) (length (chunks4 vs)) no @ concat (map sv_text group))
             (enumerate 1 (chunks4 vs)))"

text \<open>Angles and signal strengths as a receiver reports them.\<close>

definition sane :: "sv_info \<Rightarrow> bool" where
  "sane v \<longleftrightarrow> 0 \<le> elevation v \<and> elevation v \<le> 90 \<and> 0 \<le> azimuth v \<and> azimuth v \<le> 360 \<and> snr v \<le> 99"

lemma length_chunks4: "length (chunks4 xs) = length xs div 4 + (if length xs mod 4 \<noteq> 0 then 1 else 0)"
proof (induction xs rule: chunks4.induct)
  case (2 x xs)
  show ?case
  proof (cases "length xs < 3")
    case True
    then have "length xs = 0 \<or> length xs = 1 \<or> length xs = 2" by arith
    then show ?thesis by (auto dest: dvd_imp_le)
  next
    case False
    then obtain m where m: "length xs = m + 3" by (metis add.commute le_Suc_ex not_less)
    then have "length (chunks4 (x # xs)) = Suc (m div 4 + (if m mod 4 \<noteq> 0 then 1 else 0))" "length (x # xs) = m + 4"
      using 2 by simp_all
    then show ?thesis by simp
  qed
qed simp

lemma dec_len: "n < 10 \<Longrightarrow> length (dec_digits n) = 1" "n < 100 \<Longrightarrow> length (dec_digits n) \<le> 2"
  "n < 1000 \<Longrightarrow> length (dec_digits n) \<le> 3"
proof -
  show 1: "n < 10 \<Longrightarrow> length (dec_digits n) = 1" for n by (subst dec_digits.simps) simp
  show 2: "length (dec_digits n) \<le> 2" if "n < 100" for n
  proof -
    have "n div 10 < 10" using that by (simp add: less_mult_imp_div_less)
    from 1 [OF this] show ?thesis by (subst dec_digits.simps) (simp del: dec_digits.simps)
  qed
  show "length (dec_digits n) \<le> 3" if "n < 1000"
  proof -
    have "n div 10 < 100" using that by (simp add: less_mult_imp_div_less)
    from 2 [OF this] show ?thesis by (subst dec_digits.simps) (simp del: dec_digits.simps)
  qed
qed

lemma fmt_len:
  "0 \<le> i \<Longrightarrow> i < 100 \<Longrightarrow> length (fmt_0 2 i) = 2" "0 \<le> i \<Longrightarrow> i < 1000 \<Longrightarrow> length (fmt_0 3 i) = 3"
  "0 \<le> i \<Longrightarrow> i < 10 \<Longrightarrow> length (fmt_int i) = 1"
  using dec_len [of "nat i"] by (simp_all add: fmt_0_def fmt_int_def zfill_def del: dec_digits.simps)

lemma sane_ints:
  assumes "sane v"
  shows "0 \<le> trunc (0.5 + elevation v)" "trunc (0.5 + elevation v) < 100"
    "0 \<le> trunc (0.5 + azimuth v)" "trunc (0.5 + azimuth v) < 1000"
    "0 < snr v \<Longrightarrow> 0 \<le> trunc (0.5 + snr v)" "0 < snr v \<Longrightarrow> trunc (0.5 + snr v) < 100"
  using assms by (auto simp: sane_def trunc_def floor_less_iff)

lemma sv_text_len:
  assumes "sane v" and "0 \<le> prn v" and "prn v < 100"
  shows "length (sv_text v) \<le> 13"
  using sane_ints [OF assms(1)] assms(2,3) by (auto simp: sv_text_def fmt_len simp del: append.simps)

lemma gsv_fill_spec:
  assumes "\<forall>v \<in> set vs. kind v \<longrightarrow> sane v \<and> 0 \<le> prn v \<and> prn v < 100"
    and "length s + 13 * (4 - i) < 200" and "i \<le> 4"
  shows "\<exists>rest. gsv_fill kind i vs s = Some (s @ concat (map sv_text (take (4 - i) (filter kind vs))), rest) \<and>
    filter kind rest = drop (4 - i) (filter kind vs) \<and> set rest \<subseteq> set vs"
  using assms
proof (induction vs arbitrary: i s)
  case (Cons v vs)
  show ?case
  proof (cases "i = 4")
    case False
    then have i: "i < 4" "4 - i = Suc (4 - Suc i)" using Cons.prems(3) by auto
    show ?thesis
    proof (cases "kind v")
      case True
      then have v: "sane v" "0 \<le> prn v" "prn v < 100" using Cons.prems(1) by auto
      let ?p1 = "'','' @ fmt_0 2 (prn v) @ '','' @ fmt_0 2 (trunc (0.5 + elevation v)) @ '','' @
          fmt_0 3 (trunc (0.5 + azimuth v)) @ '',''"
      have l1: "length ?p1 = 11" using v sane_ints [OF v(1)] by (simp add: fmt_len del: append.simps)
      have p1: "put_piece ?p1 s = Some (s @ ?p1)"
        using l1 Cons.prems(2) i unfolding put_piece_def NMEA_SENTENCE_MAX_LENGTH_def by simp
      have p2: "(if snr v > 0 then put_piece (fmt_0 2 (trunc (0.5 + snr v))) (s @ ?p1) else Some (s @ ?p1)) = Some (s @ sv_text v)"
      proof (cases "snr v > 0")
        case True
        then have "length (fmt_0 2 (trunc (0.5 + snr v))) = 2" using sane_ints(5,6) [OF v(1)] fmt_len(1) by blast
        then have "put_piece (fmt_0 2 (trunc (0.5 + snr v))) (s @ ?p1) = Some ((s @ ?p1) @ fmt_0 2 (trunc (0.5 + snr v)))"
          using l1 Cons.prems(2) i unfolding put_piece_def NMEA_SENTENCE_MAX_LENGTH_def length_append [of s] by simp
        then show ?thesis using True by (simp add: sv_text_def del: append.simps)
      qed (simp add: sv_text_def del: append.simps)
      have ni: "(4 \<le> i) = False" using i by simp
      have "gsv_fill kind i (v # vs) s = gsv_fill kind (i + 1) vs (s @ sv_text v)"
        by (simp only: gsv_fill.simps ni True if_True if_False p1 p2 Option.bind.simps)
      moreover have "length (s @ sv_text v) + 13 * (4 - (i + 1)) < 200"
        using sv_text_len [OF v] Cons.prems(2) i by simp
      ultimately show ?thesis using Cons.IH [of "s @ sv_text v" "i + 1"] Cons.prems(1) i True by auto
    next
      case False
      then show ?thesis using Cons.IH [of s i] Cons.prems i by auto
    qed
  qed simp
qed simp

lemma chunks4_take: "xs \<noteq> [] \<Longrightarrow> chunks4 xs = take 4 xs # chunks4 (drop 4 xs)"
  by (cases xs) (simp_all add: numeral_eq_Suc)

definition send_all :: "string list \<Rightarrow> nmea_state \<Rightarrow> nmea_state" where
  "send_all xs st = fold send_checked xs st"

lemma gsv_sentences_spec:
  assumes "\<forall>v \<in> set vs. kind v \<longrightarrow> sane v \<and> 0 \<le> prn v \<and> prn v < 100"
    and "length (chunks4 (filter kind vs)) = k" and "k \<le> cnt" and "cnt < 10" and "n < 100" and "length talker = 6"
  shows "gsv_sentences talker kind n cnt k vs st = (True, send_all
     (map (\<lambda>(no, group). gsv_head talker n cnt no @ concat (map sv_text group))
       (enumerate (Suc cnt - k) (chunks4 (filter kind vs)))) st)"
  using assms(1-3)
proof (induction k arbitrary: vs st)
  case (Suc k)
  have ne: "filter kind vs \<noteq> []" using Suc.prems(2) by auto
  let ?h = "gsv_head talker n cnt (cnt - k)"
  have h: "length ?h = 13"
    using assms(4-6) Suc.prems(3) by (simp add: gsv_head_def fmt_len del: append.simps)
  then have p: "put_piece ?h [] = Some ?h" by (simp add: put_piece_def NMEA_SENTENCE_MAX_LENGTH_def)
  obtain rest where r: "gsv_fill kind 0 vs ?h = Some (?h @ concat (map sv_text (take 4 (filter kind vs))), rest)"
    "filter kind rest = drop 4 (filter kind vs)" "set rest \<subseteq> set vs"
    using gsv_fill_spec [OF Suc.prems(1), of ?h 0] h by auto
  have c: "chunks4 (filter kind vs) = take 4 (filter kind vs) # chunks4 (filter kind rest)"
    using chunks4_take [OF ne] r(2) by simp
  have "gsv_sentences talker kind n cnt k rest (send_checked (?h @ concat (map sv_text (take 4 (filter kind vs)))) st) =
    (True, send_all (map (\<lambda>(no, group). gsv_head talker n cnt no @ concat (map sv_text group))
       (enumerate (Suc cnt - k) (chunks4 (filter kind rest))))
      (send_checked (?h @ concat (map sv_text (take 4 (filter kind vs)))) st))"
    by (rule Suc.IH) (use Suc.prems r(3) c in auto)
  moreover have "Suc cnt - k = Suc (cnt - k)" using Suc.prems(3) by simp
  ultimately show ?case using p r(1) c
    by (simp add: gsv_head_def send_all_def del: append.simps)
qed (simp add: send_all_def)

lemma chunks4_concat: "concat (chunks4 xs) = xs"
  by (induction xs rule: chunks4.induct) simp_all

lemma chunks4_short: "c \<in> set (chunks4 xs) \<Longrightarrow> c \<noteq> [] \<and> length c \<le> 4"
  by (induction xs rule: chunks4.induct) auto

lemma gsv_block_spec:
  assumes "\<forall>v \<in> set vs. sane v" and "length vs \<le> 32" and "length talker = 6"
    and "\<And>v. kind v \<Longrightarrow> 0 \<le> prn v \<and> prn v < 100"
  shows "gsv_block talker (length (filter kind vs)) kind vs st = (True, send_all (gsv_spec talker (filter kind vs)) st)"
proof (cases "filter kind vs = []")
  case True
  then show ?thesis by (simp add: gsv_block_def gsv_spec_def send_all_def)
next
  case False
  let ?k = "length (chunks4 (filter kind vs))"
  have n: "length (filter kind vs) \<le> 32" using assms(2) length_filter_le [of kind vs] by linarith
  then have k: "?k < 10" by (auto simp: length_chunks4)
  have "gsv_sentences talker kind (length (filter kind vs)) ?k ?k vs st = (True, send_all
     (map (\<lambda>(no, group). gsv_head talker (length (filter kind vs)) ?k no @ concat (map sv_text group))
       (enumerate (Suc ?k - ?k) (chunks4 (filter kind vs)))) st)"
    by (rule gsv_sentences_spec) (use assms n k in auto)
  then show ?thesis using False
    by (simp add: gsv_block_def gsv_spec_def length_chunks4 Let_def)
qed

text \<open>C35: The satellites in view are reported completely: for disjoint ranges of two-digit
  numbers, up to 32 satellites with sensible
  angles and signal strengths, the sentences sent are those of the GPS satellites and then
  those of the GLONASS satellites, each kind in groups of four, numbered from one and in the
  order given (or one empty sentence), and the caches for the next position are filled.\<close>

theorem nmea_satellites_reported:
  assumes "\<forall>v \<in> set svs. sane v" and "length svs \<le> 32"
    and "0 \<le> GPS_PRN_START r" and "GPS_PRN_END r < GLONASS_PRN_START r" and "GLONASS_PRN_END r < 100"
    and "GPS_PRN_END r < 100" and "0 \<le> GLONASS_PRN_START r"
  shows "loc_eng_nmea_generate_sv r svs m e s =
    (send_all (gsv_spec ''$GPGSV'' (filter (gps_sv r) svs) @ gsv_spec ''$GLGSV'' (filter (gln_sv r) svs)) s)
      \<lparr>sv_used_mask := m, pdop := if ext_has_dop e then ext_pdop e else 0,
       hdop := if ext_has_dop e then ext_hdop e else 0, vdop := if ext_has_dop e then ext_vdop e else 0\<rparr>"
proof -
  have n: "glnCount r svs = length (filter (gln_sv r) svs)" unfolding glnCount_def
    using assms(4) by (intro arg_cong [where f = length] filter_cong) (auto simp: gps_sv_def gln_sv_def)
  have 1: "gsv_block ''$GPGSV'' (gpsCount r svs) (gps_sv r) svs s = (True, send_all (gsv_spec ''$GPGSV'' (filter (gps_sv r) svs)) s)"
    unfolding gpsCount_def by (rule gsv_block_spec [OF assms(1,2)]) (use assms(3-7) in \<open>auto simp: gps_sv_def\<close>)
  have 2: "gsv_block ''$GLGSV'' (glnCount r svs) (gln_sv r) svs t = (True, send_all (gsv_spec ''$GLGSV'' (filter (gln_sv r) svs)) t)" for t
    unfolding n by (rule gsv_block_spec [OF assms(1,2)]) (use assms(3-7) in \<open>auto simp: gln_sv_def\<close>)
  show ?thesis by (simp add: loc_eng_nmea_generate_sv_def cache_sv_def 1 2 send_all_def Let_def)
qed

definition nmea0 :: nmea_state where
  "nmea0 = \<lparr>sv_used_mask = 0, hdop = 0, pdop = 0, vdop = 0, has_nmea_cb = True,
     nmea_mode = LOC_POSITION_MODE_STANDALONE, sent = []\<rparr>"

definition ext0 :: nmea_extended where
  "ext0 = \<lparr>ext_has_dop = False, ext_pdop = 0, ext_hdop = 0, ext_vdop = 0, has_altitude_msl = False,
     altitudeMeanSeaLevel = 0, has_mag_dev = False, magneticDeviation = 0\<rparr>"

theorem nmea_satellites_reported_witness:
  "sv_used_mask (loc_eng_nmea_generate_sv nmea_ranges [\<lparr>prn = 3, elevation = 10, azimuth = 200, snr = 30\<rparr>] 4 ext0 nmea0) = 4"
  using nmea_satellites_reported [of "[\<lparr>prn = 3, elevation = 10, azimuth = 200, snr = 30\<rparr>]" nmea_ranges 4 ext0 nmea0]
  by (simp add: sane_def nmea_ranges_def)

theorem nmea_sentences_bounded_witness:
  "list_all (\<lambda>x. length (fst x) < NMEA_SENTENCE_MAX_LENGTH) (sent (loc_eng_nmea_generate_sv nmea_ranges [] 0 ext0 nmea0))"
  unfolding list_all_iff
  using nmea_sentences_bounded [of nmea0 _ ext0 True nmea_ranges "[]" 0] by (simp add: nmea0_def)

section \<open>Two slips\<close>

text \<open>The track in the VTG sentence is never the magnetic one.\<close>

lemma vtg_ignores_deviation:
  "vtg_sentence l (e\<lparr>has_mag_dev := b, magneticDeviation := d\<rparr>) st = vtg_sentence l e st"
  by (simp add: vtg_sentence_def)

text \<open>The degrees are rounded down and the minutes to the nearest, so that a position a hair
  below one degree is printed as 0 degrees and 60 minutes.\<close>

lemma minutes_of_sixty:
  "zfill 9 (fixed 6 (fmod60 (0.999999999 * 60))) = ''60.000000'' \<and> \<lfloor>0.999999999 :: real\<rfloor> = 0"
proof -
  have z: "\<lfloor>0.999999999 :: real\<rfloor> = 0" by (simp add: floor_eq_iff)
  have "\<lfloor>59.99999994 / 60 :: real\<rfloor> = 0" by (simp add: floor_eq_iff)
  then have m: "fmod60 (0.999999999 * 60) = 59.99999994" by (simp add: fmod60_def)
  have f: "\<lfloor>59999999.94 :: real\<rfloor> = 59999999" by (simp add: floor_eq_iff)
  have "round_even (59.99999994 * 10 ^ 6) = 60000000"
    using f by (simp add: round_even_def Let_def)
  then have "fixed 6 59.99999994 = dec_digits 60 @ ''.'' @ zfill 6 (dec_digits 0)"
    by (simp add: fixed_def fixed_abs_def Let_def del: dec_digits.simps)
  also have "\<dots> = ''60.000000''" by code_simp
  finally have "fixed 6 59.99999994 = ''60.000000''" .
  then have "zfill 9 (fixed 6 59.99999994) = ''60.000000''" by (simp add: zfill_def)
  then show ?thesis unfolding m using z by blast
qed

end
