(* ===== verification/EngProc.thy ===== *)
theory EngProc
  imports LocEng
begin

unbundle bit_operations_syntax

text \<open>
  The life of the engine: initialisation, configuration, the restart of the modem, and the
  message task. \<open>eng_proc\<close> is the virtual function \<open>proc\<close> of the message classes,
  \<open>eng_deliver\<close> one turn of the task, \<open>eng_run\<close> a sequence of messages. All functions are in
  \<open>src/gps/loc_api/libloc_api_50001/loc_eng.cpp\<close> and \<open>loc_eng_xtra.cpp\<close>.
\<close>

section \<open>Initialisation\<close>

record loc_callbacks =
  cb_location :: bool
  cb_status :: bool
  cb_sv_status :: bool
  cb_nmea :: bool
  cb_set_capabilities :: bool
  cb_request_utc_time :: bool

definition NMEA_1HZ_REPORT :: uint32 where "NMEA_1HZ_REPORT = 4"
definition GNSS_MEASUREMENT :: uint32 where "GNSS_MEASUREMENT = 0x1000000"

text \<open>\<open>memset\<close> of the structure: everything but the configuration and \<open>agpsStatus\<close>, which are
  separate variables, and what is recorded of the outside. The session records keep only their
  threads.\<close>

definition memset_eng :: "loc_eng \<Rightarrow> loc_eng" where
  "memset_eng s =
     (boot_eng (conf s))\<lparr>agpsStatus := agpsStatus s, eng_queue := eng_queue s, api_calls := api_calls s,
       cbs := cbs s, freed_raw := freed_raw s, null_deref := null_deref s,
       ni_data := (ni_data s)\<lparr>session := init_session\<lparr>threads := threads (session (ni_data s))\<rparr>,
         sessionEs := init_session\<lparr>threads := threads (sessionEs (ni_data s))\<rparr>, reqIDCounter := 0,
         ni_notify_cb := False, mute_session_state := LOC_MUTE_SESS_NONE\<rparr>\<rparr>"

definition loc_eng_init :: "loc_callbacks option \<Rightarrow> uint32 \<Rightarrow> loc_eng \<Rightarrow> int \<times> loc_eng" where
  "loc_eng_init callbacks event s =
     (case callbacks of
        None \<Rightarrow> (-1, s)
      | Some c \<Rightarrow>
          if event = 0 then (-1, s)
          else if has_adapter s then (0, s)
          else
            let s = memset_eng s;
                s = s\<lparr>location_cb := cb_location c, sv_status_cb := cb_sv_status c, status_cb := cb_status c,
                      nmea_cb := cb_nmea c, set_capabilities_cb := cb_set_capabilities c,
                      request_utc_time_cb := cb_request_utc_time c,
                      intermediateFix := ucast (num_at (conf s) INTERMEDIATE_POS)\<rparr>;
                gen = (event AND NMEA_1HZ_REPORT \<noteq> 0 \<and> num_at (conf s) NMEA_PROVIDER = 0);
                event = (if gen then event XOR NMEA_1HZ_REPORT else event);
                s = s\<lparr>generateNmea := gen, has_adapter := True, reg_mask := event\<rparr>
            in (0, post MsgInit s))"

definition loc_eng_xtra_version_check :: "uint32 \<Rightarrow> loc_eng \<Rightarrow> loc_eng" where
  "loc_eng_xtra_version_check check s = post (MsgSetXtraVersionCheck check) s"

definition sensor_property_addrs :: "addr list" where
  "sensor_property_addrs = [20, 21, 22, 23, 24]"

definition loc_eng_reinit :: "loc_eng \<Rightarrow> loc_eng" where
  "loc_eng_reinit s =
     (let c = conf s;
          s = post MsgGnssConstellationConfig s;
          s = post (MsgSuplVer (num_at c SUPL_VER)) s;
          s = post (MsgLppConfig (num_at c LPP_PROFILE)) s;
          s = post (MsgSensorControlConfig (num_at c 34) (num_at c 36)) s;
          s = post (MsgAGlonassProtocol (num_at c A_GLONASS_POS_PROTOCOL_SELECT)) s;
          s = (if \<exists>a \<in> set sensor_property_addrs. sets c a \<noteq> 0
               then post (MsgSensorProperties (map (\<lambda>a. (sets c a, vals c a)) sensor_property_addrs)) s else s);
          s = post (MsgSensorPerfControlConfig (map (num_at c) [33, 26, 25, 28, 27, 30, 29, 32, 31, 35])) s;
          s = post (MsgEnableData None (if agpsStatus s \<noteq> 0 then 1 else 0)) s
      in loc_eng_xtra_version_check (num_at c XTRA_VERSION_CHECK) s)"

definition loc_eng_agps_init :: "eng_env \<Rightarrow> bool option \<Rightarrow> loc_eng \<Rightarrow> loc_eng" where
  "loc_eng_agps_init env callbacks s =
     (if \<not> has_adapter s then s
      else if agps_status_cb s then s
      else case callbacks of
        None \<Rightarrow> s
      | Some cb \<Rightarrow>
          let s = s\<lparr>agps_status_cb := cb,
                    internet_nif := Some (new_sm servicerTypeAgps AGPS_TYPE_WWAN_ANY False),
                    wifi_nif := Some (new_sm servicerTypeAgps AGPS_TYPE_WIFI True)\<rparr>
          in if num_at (conf s) CAPABILITIES AND GPS_CAPABILITY_MSA \<noteq> 0 \<or>
                num_at (conf s) CAPABILITIES AND GPS_CAPABILITY_MSB \<noteq> 0
             then
               let s = s\<lparr>agnss_nif := Some (new_sm servicerTypeAgps AGPS_TYPE_SUPL False)\<rparr>;
                   s = (if mSupportsAgpsRequests s
                        then call DmnLaunch (if num_at (conf s) USE_EMERGENCY_PDN \<noteq> 0 then post MsgDataClientInit s else s)
                        else s)
               in loc_eng_agps_reinit env s
             else s)"

section \<open>Configuration and certificates\<close>

text \<open>The assignments to \<open>gps_conf_tmp\<close> at the end, which make it the new \<open>gps_conf\<close>.\<close>

definition keep_gps_conf :: "conf_mem \<Rightarrow> conf_mem \<Rightarrow> conf_mem" where
  "keep_gps_conf tmp new =
     new\<lparr>vals := (\<lambda>a. if is_gps_field a \<and> a \<notin> {SUPL_VER, LPP_PROFILE, A_GLONASS_POS_PROTOCOL_SELECT, GPS_LOCK}
       then vals tmp a else vals new a)\<rparr>"

definition loc_eng_configuration_update :: "eng_env \<Rightarrow> string option \<Rightarrow> int \<Rightarrow> loc_eng \<Rightarrow> loc_eng" where
  "loc_eng_configuration_update env config_data len s =
     (if config_data \<noteq> None \<and> len > 0 then
        let tmp = conf s;
            new = fst (loc_update_conf (env_long env) (env_atof env) (env_mem env) config_data (nat len)
                    (Some gps_conf_table) gps_conf_len tmp);
            s = s\<lparr>conf := new\<rparr>;
            changed = (\<lambda>a. num_at tmp a \<noteq> num_at new a);
            s = (if has_adapter s then
                   let s = (if changed SUPL_VER then post (MsgSuplVer (num_at new SUPL_VER)) s else s);
                       s = (if changed LPP_PROFILE then post (MsgLppConfig (num_at new LPP_PROFILE)) s else s);
                       s = (if changed A_GLONASS_POS_PROTOCOL_SELECT
                            then post (MsgAGlonassProtocol (num_at new A_GLONASS_POS_PROTOCOL_SELECT)) s else s)
                   in if changed SUPL_MODE then post MsgSuplMode s else s
                 else s)
        in s\<lparr>conf := keep_gps_conf tmp new\<rparr>
      else s)"

text \<open>The loop that counts the certificate slots clears the lowest bit set in each round.\<close>

function slot_loop :: "uint32 \<Rightarrow> uint32 \<Rightarrow> uint32" where
  "slot_loop counter slotCount =
     (if counter = 0 then slotCount else slot_loop (counter AND (counter - 1)) (slotCount + 1))"
  by auto
termination
proof (relation "measure (\<lambda>(c, _). unat c)", goal_cases)
  case (2 c n)
  have "c AND (c - 1) \<le> c - 1" by (rule word_and_le1)
  moreover have "c - 1 < c" using 2 by (simp add: word_less_nat_alt unat_minus_one unat_gt_0)
  ultimately show ?case by (simp add: word_less_nat_alt word_le_nat_alt)
qed simp

declare slot_loop.simps [simp del]

definition AGPS_CERTIFICATE_MAX_LENGTH :: nat where "AGPS_CERTIFICATE_MAX_LENGTH = 2000"

datatype cert_result = AGPS_CERTIFICATE_OPERATION_SUCCESS | AGPS_CERTIFICATE_ERROR_GENERIC
  | AGPS_CERTIFICATE_ERROR_TOO_MANY_CERTIFICATES

text \<open>A certificate is its length; the number of certificates is below $2^{32}$.\<close>

definition loc_eng_agps_install_certificates :: "nat list \<Rightarrow> loc_eng \<Rightarrow> cert_result \<times> loc_eng" where
  "loc_eng_agps_install_certificates certificates s =
     (let slotBitMask = num_at (conf s) AGPS_CERT_WRITABLE_MASK;
          slotCount = slot_loop slotBitMask 0
      in if certificates = [] then (AGPS_CERTIFICATE_OPERATION_SUCCESS, s)
         else if \<not> has_adapter s then (AGPS_CERTIFICATE_ERROR_GENERIC, s)
         else if unat slotCount < length certificates then (AGPS_CERTIFICATE_ERROR_TOO_MANY_CERTIFICATES, s)
         else if \<exists>c \<in> set certificates. c > AGPS_CERTIFICATE_MAX_LENGTH then (AGPS_CERTIFICATE_ERROR_GENERIC, s)
         else (AGPS_CERTIFICATE_OPERATION_SUCCESS, post (MsgInstallAGpsCert certificates slotBitMask) s))"

section \<open>XTRA and measurements\<close>

definition loc_eng_xtra_init :: "(bool \<times> bool) option \<Rightarrow> loc_eng \<Rightarrow> int \<times> loc_eng" where
  "loc_eng_xtra_init callbacks s =
     (case callbacks of
        None \<Rightarrow> (-1, s)
      | Some (download, server) \<Rightarrow> (0, s\<lparr>download_request_cb := download, report_xtra_server_cb := server\<rparr>))"

text \<open>The next two go through the adapter pointer unchecked.\<close>

definition loc_eng_xtra_inject_data :: "uint8 list \<Rightarrow> loc_eng \<Rightarrow> int \<times> loc_eng" where
  "loc_eng_xtra_inject_data d s =
     (0, if has_adapter s then post (MsgInjectXtraData d) s else s\<lparr>null_deref := True\<rparr>)"

definition loc_eng_xtra_request_server :: "loc_eng \<Rightarrow> int \<times> loc_eng" where
  "loc_eng_xtra_request_server s =
     (0, if has_adapter s then post MsgRequestXtraServer s else s\<lparr>null_deref := True\<rparr>)"

datatype measurement_result = GPS_MEASUREMENT_OPERATION_SUCCESS | GPS_MEASUREMENT_ERROR_ALREADY_INIT
  | GPS_MEASUREMENT_ERROR_GENERIC

definition loc_eng_gps_measurement_init :: "bool option \<Rightarrow> loc_eng \<Rightarrow> measurement_result \<times> loc_eng" where
  "loc_eng_gps_measurement_init callbacks s =
     (if gps_measurement_cb s then (GPS_MEASUREMENT_ERROR_ALREADY_INIT, s)
      else case callbacks of
        None \<Rightarrow> (GPS_MEASUREMENT_ERROR_GENERIC, s)
      | Some cb \<Rightarrow>
          if \<not> has_adapter s then (GPS_MEASUREMENT_ERROR_GENERIC, s)
          else (GPS_MEASUREMENT_OPERATION_SUCCESS, (post (MsgUpdateRegistrationMask GNSS_MEASUREMENT True) s)\<lparr>gps_measurement_cb := cb\<rparr>))"

definition loc_eng_gps_measurement_close :: "loc_eng \<Rightarrow> loc_eng" where
  "loc_eng_gps_measurement_close s =
     (if \<not> has_adapter s then s
      else (post (MsgUpdateRegistrationMask GNSS_MEASUREMENT False) s)\<lparr>gps_measurement_cb := False\<rparr>)"

section \<open>Restart of the modem\<close>

definition loc_eng_handle_engine_down :: "loc_eng \<Rightarrow> loc_eng" where
  "loc_eng_handle_engine_down s =
     loc_eng_report_status GPS_STATUS_ENGINE_OFF
       (s\<lparr>ni_data := loc_eng_ni_reset_on_engine_restart (ni_data s)\<rparr>)"

definition loc_eng_handle_engine_up :: "eng_env \<Rightarrow> loc_eng \<Rightarrow> loc_eng" where
  "loc_eng_handle_engine_up env s =
     (let s = requestPowerVote (loc_eng_reinit s);
          s = (if agps_status_cb s then
                 let s = s\<lparr>agnss_nif := map_option dropAllSubscribers (agnss_nif s),
                           internet_nif := map_option dropAllSubscribers (internet_nif s)\<rparr>
                 in loc_eng_agps_reinit env s
               else s)
      in if mNavigating s then post MsgStartFix (setInSession False s) else s)"

section \<open>The message task\<close>

definition rsrc_event :: "eng_env \<Rightarrow> nif option \<Rightarrow> AgpsRsrcStatus \<Rightarrow> loc_eng \<Rightarrow> loc_eng" where
  "rsrc_event env n ev s = on_nif n (onRsrcEvent (env_agps env) ev) s"

text \<open>\<open>LocEngSuplEsOpened\<close> and \<open>LocEngSuplEsClosed\<close> test the pointer.\<close>

definition supl_es_event :: "eng_env \<Rightarrow> AgpsRsrcStatus \<Rightarrow> loc_eng \<Rightarrow> loc_eng" where
  "supl_es_event env ev s = (if ds_nif s \<noteq> None then rsrc_event env (Some DsNif) ev s else s)"

definition sender_num :: "sender_id \<Rightarrow> uint32" where
  "sender_num sid = (case sid of SENDER_ID_QUIPC \<Rightarrow> 0 | SENDER_ID_MSAPM \<Rightarrow> 1 | SENDER_ID_MSAPU \<Rightarrow> 2
     | SENDER_ID_GPSONE_DAEMON \<Rightarrow> 3 | SENDER_ID_MODEM \<Rightarrow> 4 | SENDER_ID_UNKNOWN \<Rightarrow> 5)"

text \<open>The \<open>proc\<close> of the message classes that have no function of their own.\<close>

definition LocEngRequestNi_proc :: "eng_env \<Rightarrow> ni_notification \<Rightarrow> payload option \<Rightarrow> loc_eng \<Rightarrow> loc_eng" where
  [simp]: "LocEngRequestNi_proc env n d s =
     s\<lparr>ni_data := loc_eng_ni_request_handler (env_thread env) n d (ni_data s)\<rparr>"

definition LocEngSetTime_proc :: "int \<Rightarrow> int \<Rightarrow> int \<Rightarrow> loc_eng \<Rightarrow> loc_eng" where
  [simp]: "LocEngSetTime_proc t r u s = adapter_setTime t r u s"

definition LocEngInjectLocation_proc :: "real \<Rightarrow> real \<Rightarrow> real \<Rightarrow> loc_eng \<Rightarrow> loc_eng" where
  [simp]: "LocEngInjectLocation_proc la lo a s = call (ApiInjectPosition la lo a) s"

definition LocEngSetServerIpv4_proc :: "uint32 \<Rightarrow> int \<Rightarrow> server_type \<Rightarrow> loc_eng \<Rightarrow> loc_eng" where
  [simp]: "LocEngSetServerIpv4_proc ip p ty s = call (ApiSetServerIp ip p ty) s"

definition LocEngSetServerUrl_proc :: "string \<Rightarrow> loc_eng \<Rightarrow> loc_eng" where
  [simp]: "LocEngSetServerUrl_proc u s = call (ApiSetServerUrl u) s"

definition LocEngAGlonassProtocol_proc :: "uint32 \<Rightarrow> loc_eng \<Rightarrow> loc_eng" where
  [simp]: "LocEngAGlonassProtocol_proc v s = call (ApiAGlonass v) s"

definition LocEngSuplVer_proc :: "uint32 \<Rightarrow> loc_eng \<Rightarrow> loc_eng" where
  [simp]: "LocEngSuplVer_proc v s = call (ApiSUPLVersion v) s"

definition LocEngSuplMode_proc :: "loc_eng \<Rightarrow> loc_eng" where
  [simp]: "LocEngSuplMode_proc s = call (UlpSetCapabilities (getCarrierCapabilities (conf s))) s"

definition LocEngLppConfig_proc :: "uint32 \<Rightarrow> loc_eng \<Rightarrow> loc_eng" where
  [simp]: "LocEngLppConfig_proc v s = call (ApiLPPConfig v) s"

definition LocEngSensorControlConfig_proc :: "uint32 \<Rightarrow> uint32 \<Rightarrow> loc_eng \<Rightarrow> loc_eng" where
  [simp]: "LocEngSensorControlConfig_proc a b s = call (ApiSensorControl a b) s"

definition LocEngSensorProperties_proc :: "(uint8\<times>stored) list \<Rightarrow> loc_eng \<Rightarrow> loc_eng" where
  [simp]: "LocEngSensorProperties_proc ps s = call (ApiSensorProperties ps) s"

definition LocEngSensorPerfControlConfig_proc :: "uint32 list \<Rightarrow> loc_eng \<Rightarrow> loc_eng" where
  [simp]: "LocEngSensorPerfControlConfig_proc ps s = call (ApiSensorPerf ps) s"

definition LocEngExtPowerConfig_proc :: "int \<Rightarrow> loc_eng \<Rightarrow> loc_eng" where
  [simp]: "LocEngExtPowerConfig_proc b s = call (ApiExtPower b) s"

definition LocEngReportNmea_proc :: "string \<Rightarrow> loc_eng \<Rightarrow> loc_eng" where
  [simp]: "LocEngReportNmea_proc n s = (if nmea_cb s then callback (NmeaCb n) s else s)"

definition LocEngReportXtraServer_proc :: "string list \<Rightarrow> loc_eng \<Rightarrow> loc_eng" where
  [simp]: "LocEngReportXtraServer_proc us s =
     (if report_xtra_server_cb s then callback (XtraServersCb us) s else s)"

definition LocEngRequestXtra_proc :: "loc_eng \<Rightarrow> loc_eng" where
  [simp]: "LocEngRequestXtra_proc s = (if download_request_cb s then callback XtraDownloadCb s else s)"

definition LocEngRequestTime_proc :: "loc_eng \<Rightarrow> loc_eng" where
  [simp]: "LocEngRequestTime_proc s =
     (if num_at (conf s) CAPABILITIES AND GPS_CAPABILITY_ON_DEMAND_TIME \<noteq> 0 \<and> request_utc_time_cb s
      then callback RequestUtcTimeCb s else s)"

definition LocEngDelAidData_proc :: "16 word \<Rightarrow> loc_eng \<Rightarrow> loc_eng" where
  [simp]: "LocEngDelAidData_proc f s = update_aiding_data_for_deletion (s\<lparr>aiding_data_for_deletion := f\<rparr>)"

definition LocEngEnableData_proc :: "string option \<Rightarrow> uint32 \<Rightarrow> loc_eng \<Rightarrow> loc_eng" where
  [simp]: "LocEngEnableData_proc apn en s =
     (let s = call (ApiEnableData en) s in case apn of None \<Rightarrow> s | Some a \<Rightarrow> call (ApiSetAPN a) s)"

definition LocEngSetCapabilities_proc :: "loc_eng \<Rightarrow> loc_eng" where
  [simp]: "LocEngSetCapabilities_proc s =
     (if set_capabilities_cb s then callback (SetCapabilitiesCb (num_at (conf s) CAPABILITIES)) s else s)"

definition LocEngInit_proc :: "loc_eng \<Rightarrow> loc_eng" where
  [simp]: "LocEngInit_proc s = post MsgSetCapabilities (loc_eng_reinit s)"

definition LocEngDataClientInit_proc :: "eng_env \<Rightarrow> loc_eng \<Rightarrow> loc_eng" where
  [simp]: "LocEngDataClientInit_proc env s =
     (let s = call ApiInitDataClient s
      in if env_dataClient env = 0 then s\<lparr>ds_nif := Some (new_ds_sm servicerTypeExt)\<rparr> else s)"

definition LocEngInstallAGpsCert_proc :: "nat list \<Rightarrow> uint32 \<Rightarrow> loc_eng \<Rightarrow> loc_eng" where
  [simp]: "LocEngInstallAGpsCert_proc cs m s = call (ApiInstallCert cs m) s"

definition LocEngUpdateRegistrationMask_proc :: "uint32 \<Rightarrow> bool \<Rightarrow> loc_eng \<Rightarrow> loc_eng" where
  [simp]: "LocEngUpdateRegistrationMask_proc m b s = call (ApiUpdateRegistrationMask m b) s"

definition LocEngGnssConstellationConfig_proc :: "eng_env \<Rightarrow> loc_eng \<Rightarrow> loc_eng" where
  [simp]: "LocEngGnssConstellationConfig_proc env s =
     (let s = call ApiConstellation s
      in if env_constellation env
         then s\<lparr>conf := put_vals [(CAPABILITIES, Num (num_at (conf s) CAPABILITIES OR GPS_CAPABILITY_MEASUREMENTS))] (conf s)\<rparr>
         else s)"

definition LocEngReportGpsMeasurement_proc :: "loc_eng \<Rightarrow> loc_eng" where
  [simp]: "LocEngReportGpsMeasurement_proc s =
     (if \<not> muted s \<and> gps_measurement_cb s then callback MeasurementCb s else s)"

fun eng_proc :: "eng_env \<Rightarrow> eng_msg \<Rightarrow> loc_eng \<Rightarrow> loc_eng" where
  "eng_proc env (MsgRequestNi n d) s = LocEngRequestNi_proc env n d s"
| "eng_proc env MsgStartFix s = snd (loc_eng_start_handler env s)"
| "eng_proc env MsgStopFix s = snd (loc_eng_stop_handler env s)"
| "eng_proc env (MsgPositionMode m) s = adapter_setPositionMode (Some m) s"
| "eng_proc env MsgGetZpp s = loc_eng_get_zpp_handler s"
| "eng_proc env (MsgSetTime t r u) s = LocEngSetTime_proc t r u s"
| "eng_proc env (MsgInjectLocation la lo a) s = LocEngInjectLocation_proc la lo a s"
| "eng_proc env (MsgSetServerIpv4 ip p ty) s = LocEngSetServerIpv4_proc ip p ty s"
| "eng_proc env (MsgSetServerUrl u) s = LocEngSetServerUrl_proc u s"
| "eng_proc env (MsgAGlonassProtocol v) s = LocEngAGlonassProtocol_proc v s"
| "eng_proc env (MsgSuplVer v) s = LocEngSuplVer_proc v s"
| "eng_proc env MsgSuplMode s = LocEngSuplMode_proc s"
| "eng_proc env (MsgLppConfig v) s = LocEngLppConfig_proc v s"
| "eng_proc env (MsgSensorControlConfig a b) s = LocEngSensorControlConfig_proc a b s"
| "eng_proc env (MsgSensorProperties ps) s = LocEngSensorProperties_proc ps s"
| "eng_proc env (MsgSensorPerfControlConfig ps) s = LocEngSensorPerfControlConfig_proc ps s"
| "eng_proc env (MsgExtPowerConfig b) s = LocEngExtPowerConfig_proc b s"
| "eng_proc env (MsgReportPosition f st) s = report_position f st s"
| "eng_proc env MsgReportSv s = report_sv s"
| "eng_proc env (MsgReportStatus st) s = update_aiding_data_for_deletion (loc_eng_report_status st s)"
| "eng_proc env (MsgReportNmea n) s = LocEngReportNmea_proc n s"
| "eng_proc env (MsgReportXtraServer us) s = LocEngReportXtraServer_proc us s"
| "eng_proc env (MsgReqRelBIT ty v4 v6 req) s = req_rel_BIT env ty v4 v6 req s"
| "eng_proc env MsgSuplEsOpened s = supl_es_event env RSRC_GRANTED s"
| "eng_proc env MsgSuplEsClosed s = supl_es_event env RSRC_RELEASED s"
| "eng_proc env (MsgRequestSuplEs h) s = request_SuplEs env h s"
| "eng_proc env (MsgRequestATL h ty) s = request_ATL env h ty s"
| "eng_proc env (MsgReleaseATL h) s = release_ATL env h s"
| "eng_proc env (MsgReqRelWifi ty sid ssid pw req) s = req_rel_wifi env ty sid (sender_num sid) ssid pw req s"
| "eng_proc env MsgRequestXtra s = LocEngRequestXtra_proc s"
| "eng_proc env MsgRequestTime s = LocEngRequestTime_proc s"
| "eng_proc env (MsgDelAidData f) s = LocEngDelAidData_proc f s"
| "eng_proc env (MsgEnableData apn en) s = LocEngEnableData_proc apn en s"
| "eng_proc env MsgSetCapabilities s = LocEngSetCapabilities_proc s"
| "eng_proc env MsgInit s = LocEngInit_proc s"
| "eng_proc env (MsgAtlOpenSuccess n apn bearer) s = atl_open_success env n apn bearer s"
| "eng_proc env (MsgAtlClosed n) s = rsrc_event env n RSRC_RELEASED s"
| "eng_proc env (MsgAtlOpenFailed n) s = rsrc_event env n RSRC_DENIED s"
| "eng_proc env MsgEngDown s = loc_eng_handle_engine_down s"
| "eng_proc env MsgEngUp s = loc_eng_handle_engine_up env s"
| "eng_proc env MsgDataClientInit s = LocEngDataClientInit_proc env s"
| "eng_proc env (MsgInstallAGpsCert cs m) s = LocEngInstallAGpsCert_proc cs m s"
| "eng_proc env (MsgUpdateRegistrationMask m b) s = LocEngUpdateRegistrationMask_proc m b s"
| "eng_proc env MsgGnssConstellationConfig s = LocEngGnssConstellationConfig_proc env s"
| "eng_proc env MsgReportGpsMeasurement s = LocEngReportGpsMeasurement_proc s"
| "eng_proc env MsgRequestXtraServer s = call ApiRequestXtraServer s"
| "eng_proc env (MsgInjectXtraData d) s = call (ApiSetXtraData d) s"
| "eng_proc env (MsgSetXtraVersionCheck c) s = setXtraVersionCheck c s"
| "eng_proc env (MsgGpsLock l) s = call (ApiGpsLock l) s"
| "eng_proc env MsgSetXtraUserAgent s = call (SaveUserAgent (setXtraUserAgent (env_phone env) (env_disk env))) s"
| "eng_proc env (MsgSetUlpProxy same) s = setUlpProxy same s"

fun eng_run :: "eng_env \<Rightarrow> eng_msg list \<Rightarrow> loc_eng \<Rightarrow> loc_eng" where
  "eng_run env [] s = s"
| "eng_run env (m # ms) s = eng_run env ms (eng_proc env m s)"

text \<open>One turn of the task: the message at the head of the queue.\<close>

definition eng_deliver :: "eng_env \<Rightarrow> loc_eng \<Rightarrow> loc_eng option" where
  "eng_deliver env s =
     (case eng_queue s of [] \<Rightarrow> None | m # ms \<Rightarrow> Some (eng_proc env m (s\<lparr>eng_queue := ms\<rparr>)))"

end
