(* ===== verification/EngFacts.thy ===== *)
theory EngFacts
  imports EngProc
begin

unbundle bit_operations_syntax

text \<open>
  What holds of the engine: what a muted session hides, when aiding data is deleted, what a
  restart of the modem and an update of the configuration leave, and the bookkeeping of the
  fix session.
\<close>

section \<open>Bundles\<close>

lemmas eng_prim = call_def post_def callback_def set_mute_def setInSession_def

lemmas eng_ops = update_aiding_data_for_deletion_def loc_inform_gps_status_def loc_eng_report_status_def
  loc_eng_start_handler_def loc_eng_stop_handler_def loc_eng_get_zpp_handler_def free_rawData_def
  adapter_setPositionMode_def adapter_setTime_def setXtraVersionCheck_def requestPowerVote_def

lemmas nif_ops = on_nif_def get_nif_def set_nif_def rsrc_event_def supl_es_event_def req_rel_BIT_def request_SuplEs_def
  request_ATL_def try_release_def release_ATL_def req_rel_wifi_def atl_open_success_def

text \<open>Everything but the state machines and the null flag.\<close>

definition core :: "loc_eng \<Rightarrow> loc_eng" where
  "core s = s\<lparr>agnss_nif := None, internet_nif := None, wifi_nif := None, ds_nif := None, null_deref := False\<rparr>"

lemma core_fields [simp]:
  "ni_data (core s) = ni_data s" "cbs (core s) = cbs s" "api_calls (core s) = api_calls s"
  "engine_status (core s) = engine_status s" "aiding_data_for_deletion (core s) = aiding_data_for_deletion s"
  "mNavigating (core s) = mNavigating s" "eng_queue (core s) = eng_queue s" "has_adapter (core s) = has_adapter s"
  "mFixCriteria (core s) = mFixCriteria s"
  by (simp_all add: core_def)

lemma core_set_nif [simp]: "core (set_nif n m s) = core s"
  by (cases n) (simp_all add: core_def set_nif_def)

lemma core_on_nif [simp]: "core (on_nif n f s) = core s"
  by (simp add: on_nif_def core_def [of "_\<lparr>null_deref := _\<rparr>"] split: option.split) (simp add: core_def)

lemma core_eq:
  assumes "core s' = core s"
  shows "ni_data s' = ni_data s" "cbs s' = cbs s" "api_calls s' = api_calls s" "engine_status s' = engine_status s"
    "aiding_data_for_deletion s' = aiding_data_for_deletion s" "mNavigating s' = mNavigating s"
    "eng_queue s' = eng_queue s" "has_adapter s' = has_adapter s" "mFixCriteria s' = mFixCriteria s"
  using assms [THEN arg_cong, of ni_data] assms [THEN arg_cong, of cbs] assms [THEN arg_cong, of api_calls]
    assms [THEN arg_cong, of engine_status] assms [THEN arg_cong, of aiding_data_for_deletion]
    assms [THEN arg_cong, of mNavigating] assms [THEN arg_cong, of eng_queue] assms [THEN arg_cong, of has_adapter]
    assms [THEN arg_cong, of mFixCriteria]
  by simp_all

lemma core_try_release: "core (snd (try_release env n sub s)) = core s"
  by (simp add: try_release_def case_prod_beta split: option.split)

lemma core_of_call: "core (call c s) = call c (core s)"
  by (simp add: core_def call_def)

lemma core_call: "core s' = core s \<Longrightarrow> core (call c s') = core (call c s)"
  by (simp add: core_of_call)

lemma ulp_fields [simp]:
  "ni_data (setUlpProxy b s) = ni_data s" "cbs (setUlpProxy b s) = cbs s" "api_calls (setUlpProxy b s) = api_calls s"
  "engine_status (setUlpProxy b s) = engine_status s" "mNavigating (setUlpProxy b s) = mNavigating s"
  "aiding_data_for_deletion (setUlpProxy b s) = aiding_data_for_deletion s" "eng_queue (setUlpProxy b s) = eng_queue s"
  by (simp_all add: setUlpProxy_def Let_def)

text \<open>The handlers that only drive a state machine, or tell the modem that there is none.\<close>

definition drives_nif :: "eng_msg \<Rightarrow> bool" where
  "drives_nif m \<longleftrightarrow> (case m of
      MsgReqRelBIT _ _ _ _ \<Rightarrow> True | MsgSuplEsOpened \<Rightarrow> True | MsgSuplEsClosed \<Rightarrow> True
    | MsgRequestSuplEs _ \<Rightarrow> True | MsgRequestATL _ _ \<Rightarrow> True | MsgReleaseATL _ \<Rightarrow> True
    | MsgReqRelWifi _ _ _ _ _ \<Rightarrow> True | MsgAtlOpenSuccess _ _ _ \<Rightarrow> True | MsgAtlClosed _ \<Rightarrow> True
    | MsgAtlOpenFailed _ \<Rightarrow> True | _ \<Rightarrow> False)"

fun atl_answer :: "api_call \<Rightarrow> bool" where
  "atl_answer (ApiAtlOpenStatus _ _ _ _ _) = True"
| "atl_answer (ApiAtlCloseStatus _ _) = True"
| "atl_answer _ = False"

definition answers :: "loc_eng \<Rightarrow> loc_eng \<Rightarrow> bool" where
  "answers s s' \<longleftrightarrow> core s' = core s \<or> (\<exists>c. atl_answer c \<and> core s' = core (call c s))"

lemma answers_simps [simp]:
  "answers s s" "answers s (on_nif n f s)" "atl_answer c \<Longrightarrow> answers s (call c s)"
  by (auto simp: answers_def)

lemma answers_core: "core s' = core s \<Longrightarrow> answers s s'"
  by (simp add: answers_def)

lemma answers_core_call: "core s' = core s \<Longrightarrow> atl_answer c \<Longrightarrow> answers s (call c s')"
  unfolding answers_def using core_call by blast

lemma answers_release_ATL [simp]: "answers s (release_ATL env h s)"
proof -
  obtain b1 s1 where 1: "try_release env AgnssNif (atl_sub h False) s = (b1, s1)" by fastforce
  obtain b2 s2 where 2: "try_release env InternetNif (atl_sub h False) s1 = (b2, s2)" by fastforce
  obtain b3 s3 where 3: "try_release env DsNif (ds_sub h) s2 = (b3, s3)" by fastforce
  have c: "core s1 = core s" "core s2 = core s" "core s3 = core s"
    using core_try_release [of env AgnssNif "atl_sub h False" s] core_try_release [of env InternetNif "atl_sub h False" s1]
      core_try_release [of env DsNif "ds_sub h" s2] by (simp_all add: 1 2 3)
  show ?thesis using answers_core [OF c(1)] answers_core [OF c(2)] answers_core [OF c(3)]
      answers_core_call [OF c(3), of "ApiAtlCloseStatus h 0"]
    by (cases b1; cases b2; cases b3) (simp_all add: release_ATL_def 1 2 3)
qed

lemma answers_drives: "drives_nif m \<Longrightarrow> answers s (eng_proc env m s)"
  by (cases m) (simp_all add: drives_nif_def req_rel_BIT_def supl_es_event_def rsrc_event_def
      request_SuplEs_def request_ATL_def req_rel_wifi_def atl_open_success_def Let_def split: option.split)

text \<open>What the framework sees of a session.\<close>

fun user_visible :: "callback \<Rightarrow> bool" where
  "user_visible (StatusCb _) = True"
| "user_visible LocationNull = True"
| "user_visible (LocationCb _) = True"
| "user_visible SvStatusCb = True"
| "user_visible (NmeaGeneratePos _) = True"
| "user_visible NmeaGenerateSv = True"
| "user_visible MeasurementCb = True"
| "user_visible _ = False"

text \<open>The messages after which a session need not be muted any more: its end, the modem gone
  down, and a new request that mutes a session.\<close>

fun ends_mute :: "eng_msg \<Rightarrow> bool" where
  "ends_mute (MsgReportStatus st) = (st = GPS_STATUS_SESSION_END \<or> st = GPS_STATUS_ENGINE_OFF)"
| "ends_mute MsgEngDown = True"
| "ends_mute (MsgRequestNi n _) = privacy_override n"
| "ends_mute _ = False"

definition seen :: "loc_eng \<Rightarrow> callback list" where
  "seen s = filter user_visible (cbs s)"

section \<open>Views of the engine\<close>

text \<open>
  Most messages only pass something on to the modem or drive a state machine. A view of the
  engine is a function of its state that does not look at what these do: the machines, the
  queue, the configuration, the criteria of the fix, and the calls that neither start nor end
  a session nor delete anything. The lemmas of the locale say once which messages a view does
  not see.
\<close>

fun plain_call :: "api_call \<Rightarrow> bool" where
  "plain_call (ApiStartFix _) = False"
| "plain_call ApiStopFix = False"
| "plain_call (ApiSetInSession _) = False"
| "plain_call (ApiDeleteAidingData _) = False"
| "plain_call _ = True"

lemma answer_plain: "atl_answer c \<Longrightarrow> plain_call c"
  by (cases c) simp_all

fun plain :: "eng_msg \<Rightarrow> bool" where
  "plain MsgStartFix = False"
| "plain MsgStopFix = False"
| "plain (MsgReportPosition _ _) = False"
| "plain MsgReportSv = False"
| "plain (MsgReportStatus _) = False"
| "plain MsgReportGpsMeasurement = False"
| "plain (MsgDelAidData _) = False"
| "plain (MsgRequestNi _ _) = False"
| "plain MsgEngDown = False"
| "plain MsgEngUp = False"
| "plain _ = True"

locale eng_post_view =
  fixes view :: "loc_eng \<Rightarrow> 'a"
  assumes view_core: "core s' = core s \<Longrightarrow> view s' = view s"
    and view_call [simp]: "plain_call c \<Longrightarrow> view (call c s) = view s"
    and view_post [simp]: "view (post m s) = view s"
begin

lemma view_answers:
  assumes "answers s s'"
  shows "view s' = view s"
proof (cases "core s' = core s")
  case False
  then obtain c where "plain_call c" "core s' = core (call c s)"
    using assms answer_plain by (auto simp: answers_def)
  then show ?thesis using view_core [of s' "call c s"] by simp
qed (rule view_core)

lemma view_nifs [simp]:
  "view (s\<lparr>agnss_nif := x, internet_nif := y\<rparr>) = view s" "view (s\<lparr>ds_nif := z\<rparr>) = view s"
  by (rule view_core, simp add: core_def)+

lemma view_reinit [simp]: "view (loc_eng_reinit s) = view s"
  by (simp add: loc_eng_reinit_def loc_eng_xtra_version_check_def Let_def)

lemma view_set_server [simp]: "view (snd (loc_eng_set_server env ty h p s)) = view s"
  by (simp add: loc_eng_set_server_def Let_def split: option.split)

lemma view_agps_reinit [simp]: "view (loc_eng_agps_reinit env s) = view s"
proof -
  define s1 where "s1 = (case supl_host s of None \<Rightarrow> s
          | Some (h, p) \<Rightarrow> snd (loc_eng_set_server env LOC_AGPS_SUPL_SERVER (Some h) p s))"
  have "view s1 = view s" by (simp add: s1_def split: option.split)
  moreover have "view (loc_eng_agps_reinit env s) = view s1"
    by (simp add: loc_eng_agps_reinit_def s1_def [symmetric] split: option.split)
  ultimately show ?thesis by simp
qed

text \<open>A restarted engine: the view is as before, but for the session that is started anew.\<close>

lemma view_engine_up:
  obtains s2 where "view s2 = view s"
    and "loc_eng_handle_engine_up env s = (if mNavigating s2 then post MsgStartFix (setInSession False s2) else s2)"
proof -
  define s1 where "s1 = requestPowerVote (loc_eng_reinit s)"
  define s2 where "s2 = (if agps_status_cb s1 then
       loc_eng_agps_reinit env (s1\<lparr>agnss_nif := map_option dropAllSubscribers (agnss_nif s1),
         internet_nif := map_option dropAllSubscribers (internet_nif s1)\<rparr>) else s1)"
  have "view s1 = view s" by (simp add: s1_def requestPowerVote_def)
  then have "view s2 = view s" by (simp add: s2_def)
  then show ?thesis using that [of s2] by (simp add: loc_eng_handle_engine_up_def Let_def s2_def s1_def)
qed

end

locale eng_view = eng_post_view +
  assumes view_callback [simp]: "\<not> user_visible b \<Longrightarrow> view (callback b s) = view s"
    and view_conf [simp]: "view (s\<lparr>conf := cf\<rparr>) = view s"
    and view_criteria [simp]: "view (s\<lparr>mFixCriteria := pm\<rparr>) = view s"
    and view_time [simp]: "view (s\<lparr>mSupportsTimeInjection := tb\<rparr>) = view s"
    and view_ulp [simp]: "view (setUlpProxy same s) = view s"
begin

lemma view_plain:
  assumes "plain m"
  shows "view (eng_proc env m s) = view s"
proof (cases "drives_nif m")
  case True
  then show ?thesis using view_answers answers_drives by blast
next
  case False
  then show ?thesis using assms
    by (cases m) (simp_all add: drives_nif_def eng_ops Let_def split: option.split)
qed

end

text \<open>What the framework sees.\<close>

interpretation vis: eng_view "\<lambda>s. (ni_data s, seen s)"
proof unfold_locales
  show "(ni_data s', seen s') = (ni_data s, seen s)" if "core s' = core s" for s s'
    using core_eq(1,2) [OF that] by (simp add: seen_def)
qed (simp_all add: seen_def eng_prim)

text \<open>What is deleted, and what decides on it.\<close>

fun is_deletion :: "api_call \<Rightarrow> bool" where
  "is_deletion (ApiDeleteAidingData _) = True"
| "is_deletion _ = False"

lemma plain_no_deletion: "plain_call c \<Longrightarrow> \<not> is_deletion c"
  by (cases c) simp_all

definition deletions :: "loc_eng \<Rightarrow> api_call list" where
  "deletions s = filter is_deletion (api_calls s)"

interpretation del: eng_view "\<lambda>s. (deletions s, engine_status s, aiding_data_for_deletion s)"
proof unfold_locales
  show "(deletions s', engine_status s', aiding_data_for_deletion s') =
      (deletions s, engine_status s, aiding_data_for_deletion s)" if "core s' = core s" for s s'
    using core_eq(3-5) [OF that] by (simp add: deletions_def)
qed (simp_all add: deletions_def eng_prim plain_no_deletion)

text \<open>The session as the modem has been told of it: \<open>None\<close> when a fix was started in a session.\<close>

fun session_call :: "api_call \<Rightarrow> bool option \<Rightarrow> bool option" where
  "session_call (ApiStartFix _) b = (if b = Some False then b else None)"
| "session_call (ApiSetInSession v) b = (if b = None then None else Some v)"
| "session_call _ b = b"

lemma plain_session [simp]: "plain_call c \<Longrightarrow> session_call c b = b"
  by (cases c) simp_all

definition modem_session :: "loc_eng \<Rightarrow> bool option" where
  "modem_session s = fold session_call (api_calls s) (Some False)"

interpretation ses: eng_view "\<lambda>s. (mNavigating s, modem_session s)"
proof unfold_locales
  show "(mNavigating s', modem_session s') = (mNavigating s, modem_session s)" if "core s' = core s" for s s'
    using core_eq(3,6) [OF that] by (simp add: modem_session_def)
qed (simp_all add: modem_session_def eng_prim)

section \<open>Muted sessions\<close>

lemma ni_request_mute:
  "\<not> privacy_override n \<Longrightarrow>
   mute_session_state (loc_eng_ni_request_handler c n d x) = mute_session_state x"
  by (simp add: loc_eng_ni_request_handler_def ni_request_def open_session_def upd_session_def free_payload_def
      Let_def split: option.split)

lemma delete_frame [simp]:
  "ni_data (update_aiding_data_for_deletion s) = ni_data s" "cbs (update_aiding_data_for_deletion s) = cbs s"
  "mNavigating (update_aiding_data_for_deletion s) = mNavigating s"
  by (simp_all add: update_aiding_data_for_deletion_def call_def)

lemma mute_step:
  assumes "muted s" and "\<not> ends_mute m"
  shows "muted (eng_proc env m s) \<and> seen (eng_proc env m s) = seen s"
proof (cases "plain m")
  case True
  then show ?thesis using vis.view_plain [of m env s] assms(1) by (simp add: muted_def)
next
  case False
  have up: "ni_data (loc_eng_handle_engine_up env s) = ni_data s \<and> seen (loc_eng_handle_engine_up env s) = seen s"
    by (rule vis.view_engine_up [where s = s and env = env]) (simp add: seen_def eng_prim Let_def)
  show ?thesis
  proof (cases m)
    case (MsgReportStatus st)
    then show ?thesis using assms
      by (cases st) (simp_all add: loc_eng_report_status_def muted_def seen_def Let_def)
  next
    case (MsgRequestNi n d)
    then show ?thesis using assms ni_request_mute by (simp add: muted_def seen_def)
  qed (insert assms False up, simp_all add: muted_def seen_def report_position_def report_sv_def
      loc_eng_start_handler_def loc_eng_stop_handler_def eng_prim Let_def)
qed

text \<open>C8: A muted session shows nothing to the framework: from the moment the mute is in
  force, no status, position, satellite, measurement or generated NMEA report gets through,
  whatever messages the task handles, until the session or the engine ends, the modem goes
  down, or a further request asks for a muted session.\<close>

theorem mute_session_silent:
  assumes "muted s" and "\<forall>m \<in> set ms. \<not> ends_mute m"
  shows "muted (eng_run env ms s) \<and> seen (eng_run env ms s) = seen s"
  using assms
proof (induction ms arbitrary: s)
  case (Cons m ms)
  then show ?case using mute_step [of s m env] by simp
qed simp

definition phone0 :: phone where
  "phone0 = \<lparr>release = ''7.1'', manufacture = ''asus'', model = ''Z00L'', board = ''msm8916'', brand = ''asus'',
     serial_file = None, izatDevId = 0\<rparr>"

definition disk0 :: disk where
  "disk0 = \<lparr>folder = 0, mkdir_ok = True, fopen_ok = True\<rparr>"

definition eng_env0 :: eng_env where
  "eng_env0 = \<lparr>env_agps = \<lparr>stale = (\<lambda>_. \<lparr>ID = 0, cls = ATLSubscriber False\<rparr>), overlay = (\<lambda>_. []), callbackExt = (\<lambda>_. 0),
       timer_handle = True\<rparr>, env_long = 32, env_atof = (\<lambda>_. 0), env_mem = True, env_thread = True,
     env_startFix = (\<lambda>_. 0), env_stopFix = 0, env_dataClient = 0, env_constellation = True, env_dns = (\<lambda>_. Some 1),
     env_phone = phone0, env_disk = disk0\<rparr>"

definition up_eng :: loc_eng where
  "up_eng = (boot_eng boot_conf)\<lparr>has_adapter := True, status_cb := True, location_cb := True, sv_status_cb := True\<rparr>"

theorem mute_session_silent_witness:
  "seen (eng_run eng_env0 [MsgReportSv, MsgReportStatus GPS_STATUS_ENGINE_ON]
     (set_mute LOC_MUTE_SESS_IN_SESSION up_eng)) = []"
  using mute_session_silent [of "set_mute LOC_MUTE_SESS_IN_SESSION up_eng"
      "[MsgReportSv, MsgReportStatus GPS_STATUS_ENGINE_ON]" eng_env0]
  by (simp add: muted_def set_mute_def seen_def up_eng_def boot_eng_def)

text \<open>A second request for a muted session ends the mute of the session that runs: the
  handler sets the state back to waiting, so that the next position is reported although the
  session began muted and has not ended.\<close>

theorem mute_lost_to_second_request:
  assumes "muted s" and "ni_notify_cb (ni_data s)" and "privacy_override n"
    and "rawRequest (session (ni_data s)) = None" and "rawRequest (sessionEs (ni_data s)) = None"
    and "location_cb s"
  shows "\<not> muted (eng_proc env (MsgRequestNi n d) s)"
    and "LocationNull \<in> set (seen (eng_run env [MsgRequestNi n d, MsgReportPosition f LOC_SESS_FAILURE] s))"
proof -
  let ?s = "eng_proc env (MsgRequestNi n d) s"
  have w: "mute_session_state (ni_data ?s) = LOC_MUTE_SESS_WAIT"
    using assms(2-5) by (simp add: loc_eng_ni_request_handler_def ni_request_def open_session_def upd_session_def
        loc_eng_mute_one_session_def Let_def)
  then show "\<not> muted ?s" by (simp add: muted_def)
  then show "LocationNull \<in> set (seen (eng_run env [MsgRequestNi n d, MsgReportPosition f LOC_SESS_FAILURE] s))"
    using assms(6) by (simp add: report_position_def seen_def eng_prim free_rawData_def Let_def split: option.split)
qed

theorem mute_lost_to_second_request_witness:
  "\<not> muted (eng_proc eng_env0 (MsgRequestNi (voip\<lparr>privacy_override := True\<rparr>) (Some 7))
     (up_eng\<lparr>ni_data := ni_boot\<lparr>ni_notify_cb := True, mute_session_state := LOC_MUTE_SESS_IN_SESSION\<rparr>\<rparr>))"
  by (rule mute_lost_to_second_request(1))
    (simp_all add: muted_def up_eng_def boot_eng_def ni_boot_def voip_def init_session_def)

section \<open>Aiding data\<close>

lemma deletions_prim [simp]:
  "deletions (callback b s) = deletions s" "deletions (setInSession v s) = deletions s"
  "deletions (post m s) = deletions s" "deletions (set_mute mv s) = deletions s"
  "deletions (call ApiStopFix s) = deletions s" "deletions (call (ApiStartFix p) s) = deletions s"
  "deletions (free_rawData f s) = deletions s" "deletions (s\<lparr>ni_data := n\<rparr>) = deletions s"
  by (simp_all add: deletions_def eng_prim free_rawData_def Let_def split: option.split)

lemma deletions_report [simp]:
  "deletions (loc_eng_report_status st s) = deletions s"
  "aiding_data_for_deletion (loc_eng_report_status st s) = aiding_data_for_deletion s"
  by (simp_all add: deletions_def loc_eng_report_status_def loc_inform_gps_status_def eng_prim Let_def)

lemma deletions_ops [simp]:
  "deletions (report_sv s) = deletions s"
  "deletions (snd (loc_eng_start_handler env s)) = deletions s"
  "deletions (snd (loc_eng_stop_handler env s)) = deletions s"
  "deletions (loc_eng_handle_engine_down s) = deletions s"
  by (simp_all add: report_sv_def loc_eng_start_handler_def loc_eng_stop_handler_def loc_eng_handle_engine_down_def Let_def)

lemma deletions_report_position [simp]: "deletions (report_position f st s) = deletions s"
  by (simp add: report_position_def Let_def)

lemma deletions_engine_up [simp]: "deletions (loc_eng_handle_engine_up env s) = deletions s"
  by (rule del.view_engine_up [where s = s and env = env]) simp

lemma deletions_delete:
  "deletions (update_aiding_data_for_deletion s) = deletions s \<or>
   (deletions (update_aiding_data_for_deletion s) = deletions s @ [ApiDeleteAidingData (aiding_data_for_deletion s)] \<and>
    aiding_data_for_deletion s \<noteq> 0 \<and> engine_status (update_aiding_data_for_deletion s) \<noteq> GPS_STATUS_ENGINE_ON \<and>
    aiding_data_for_deletion (update_aiding_data_for_deletion s) = 0)"
  by (simp add: update_aiding_data_for_deletion_def deletions_def call_def)

text \<open>C16: Aiding data is deleted only while the engine is not on: whichever message the task
  handles, it deletes nothing or exactly what was pending (or what the message asks for), and
  then the engine is not on when it is done and nothing is left pending.\<close>

theorem aiding_data_deleted_when_off:
  "deletions (eng_proc env m s) = deletions s \<or>
   (\<exists>f. deletions (eng_proc env m s) = deletions s @ [ApiDeleteAidingData f] \<and>
      f = (case m of MsgDelAidData g \<Rightarrow> g | _ \<Rightarrow> aiding_data_for_deletion s) \<and> f \<noteq> 0 \<and>
      engine_status (eng_proc env m s) \<noteq> GPS_STATUS_ENGINE_ON \<and>
      aiding_data_for_deletion (eng_proc env m s) = 0)"
  (is "?keeps \<or> ?deletes")
proof (cases "plain m")
  case True
  then show ?thesis using del.view_plain [of m env s] by simp
next
  case False
  show ?thesis
  proof (cases m)
    case (MsgReportStatus x)
    then show ?thesis using deletions_delete [of "loc_eng_report_status x s"] by simp
  next
    case (MsgDelAidData g)
    then show ?thesis using deletions_delete [of "s\<lparr>aiding_data_for_deletion := g\<rparr>"] by (simp add: deletions_def)
  qed (use False in simp_all)
qed

text \<open>A request to delete aiding data that waits for the engine to go off is lost when a
  second one arrives: only the mask of the last request reaches the modem.\<close>

theorem aiding_request_overwritten:
  assumes "engine_status s = GPS_STATUS_ENGINE_ON" and "b \<noteq> 0"
  shows "deletions (eng_run env [MsgDelAidData a, MsgDelAidData b, MsgReportStatus GPS_STATUS_ENGINE_OFF] s) =
    deletions s @ [ApiDeleteAidingData b]"
  using assms by (simp add: update_aiding_data_for_deletion_def deletions_def loc_eng_report_status_def
      loc_inform_gps_status_def eng_prim Let_def)

theorem aiding_request_overwritten_witness:
  "deletions (eng_run eng_env0 [MsgDelAidData 1, MsgDelAidData 2, MsgReportStatus GPS_STATUS_ENGINE_OFF]
     (up_eng\<lparr>engine_status := GPS_STATUS_ENGINE_ON\<rparr>)) = [ApiDeleteAidingData 2]"
  using aiding_request_overwritten [of "up_eng\<lparr>engine_status := GPS_STATUS_ENGINE_ON\<rparr>" 2 eng_env0 1]
  by (simp add: deletions_def up_eng_def boot_eng_def)

section \<open>Fix sessions\<close>

lemma modem_session_prim [simp]:
  "modem_session (callback b s) = modem_session s" "modem_session (post m s) = modem_session s"
  "modem_session (set_mute mv s) = modem_session s" "modem_session (free_rawData f s) = modem_session s"
  "modem_session (call ApiStopFix s) = modem_session s"
  "modem_session (call (ApiDeleteAidingData d) s) = modem_session s"
  "modem_session (call (ApiStartFix p) s) = (if modem_session s = Some False then Some False else None)"
  "modem_session (setInSession v s) = (if modem_session s = None then None else Some v)"
  by (simp_all add: modem_session_def eng_prim free_rawData_def Let_def split: option.split)

lemma navigating_prim [simp]:
  "mNavigating (callback b s) = mNavigating s" "mNavigating (post m s) = mNavigating s"
  "mNavigating (call c s) = mNavigating s" "mNavigating (set_mute mv s) = mNavigating s"
  "mNavigating (free_rawData f s) = mNavigating s" "mNavigating (setInSession v s) = v"
  by (simp_all add: eng_prim free_rawData_def Let_def split: option.split)

lemma session_fields [simp]:
  "modem_session (s\<lparr>ni_data := n\<rparr>) = modem_session s"
  "modem_session (s\<lparr>engine_status := st\<rparr>) = modem_session s"
  "modem_session (s\<lparr>fix_session_status := st\<rparr>) = modem_session s"
  "modem_session (s\<lparr>aiding_data_for_deletion := d\<rparr>) = modem_session s"
  by (simp_all add: modem_session_def)

lemma session_report [simp]:
  "modem_session (loc_eng_report_status st s) = modem_session s"
  "mNavigating (loc_eng_report_status st s) = mNavigating s"
  by (simp_all add: loc_eng_report_status_def loc_inform_gps_status_def Let_def)

lemma session_delete [simp]: "modem_session (update_aiding_data_for_deletion s) = modem_session s"
  by (simp add: update_aiding_data_for_deletion_def)

definition session_agrees :: "loc_eng \<Rightarrow> bool" where
  "session_agrees s \<longleftrightarrow> modem_session s = Some (mNavigating s)"

lemma session_agrees_step:
  assumes "session_agrees s"
  shows "session_agrees (eng_proc env m s)"
proof (cases "plain m")
  case True
  then show ?thesis using assms ses.view_plain [of m env s] by (simp add: session_agrees_def)
next
  case False
  have up: "session_agrees (loc_eng_handle_engine_up env s)"
    by (rule ses.view_engine_up [where s = s and env = env]) (use assms in \<open>simp add: session_agrees_def\<close>)
  have pos: "session_agrees (report_position f st s)" for f st
    using assms by (simp add: report_position_def session_agrees_def Let_def)
  show ?thesis using assms False up pos
    by (cases m) (simp_all add: session_agrees_def report_sv_def loc_eng_start_handler_def loc_eng_stop_handler_def
        loc_eng_handle_engine_down_def Let_def)
qed

text \<open>C7: The modem's idea of the session is the adapter's, once it is: whatever messages the task handles,
  a fix is started only when no session is on, and the flag the modem was last given is the
  flag of the adapter.\<close>

theorem fix_session_protocol:
  assumes "modem_session s = Some (mNavigating s)"
  shows "modem_session (eng_run env ms s) = Some (mNavigating (eng_run env ms s))"
proof -
  have "session_agrees s \<Longrightarrow> session_agrees (eng_run env ms s)"
    by (induction ms arbitrary: s) (simp_all add: session_agrees_step)
  then show ?thesis using assms by (simp add: session_agrees_def)
qed

theorem fix_session_protocol_witness:
  "modem_session (eng_run eng_env0 [MsgStartFix, MsgStartFix, MsgEngUp, MsgStartFix, MsgStopFix] up_eng) \<noteq> None"
  using fix_session_protocol [of up_eng eng_env0 "[MsgStartFix, MsgStartFix, MsgEngUp, MsgStartFix, MsgStopFix]"]
  by (simp add: modem_session_def up_eng_def boot_eng_def)

text \<open>The mode of the criteria survives everything of a restart but the end of the session.\<close>

interpretation crit: eng_post_view "\<lambda>s. (mNavigating s, mFixCriteria s)"
proof unfold_locales
  show "(mNavigating s', mFixCriteria s') = (mNavigating s, mFixCriteria s)" if "core s' = core s" for s s'
    using core_eq(6,9) [OF that] by simp
qed (simp_all add: eng_prim)

text \<open>After a restart of the modem in a session the fix is started again, but without its
  mode: ending the session resets the mode of the criteria, and the start that was queued
  passes them on.\<close>

theorem restart_loses_mode:
  assumes "mNavigating s"
  shows "MsgStartFix \<in> set (eng_queue (eng_proc env MsgEngUp s)) \<and>
    (\<exists>p. ApiStartFix p \<in> set (api_calls (eng_run env [MsgEngUp, MsgStartFix] s)) \<and>
      lp_mode p = LOC_POSITION_MODE_INVALID \<and> single_shot p = single_shot (mFixCriteria s))"
proof -
  obtain s2 where c: "(mNavigating s2, mFixCriteria s2) = (mNavigating s, mFixCriteria s)"
    and u: "loc_eng_handle_engine_up env s = (if mNavigating s2 then post MsgStartFix (setInSession False s2) else s2)"
    by (rule crit.view_engine_up)
  have "MsgStartFix \<in> set (eng_queue (eng_proc env MsgEngUp s))"
    using assms c u by (simp add: eng_prim Let_def)
  moreover have "ApiStartFix ((mFixCriteria s)\<lparr>lp_mode := LOC_POSITION_MODE_INVALID\<rparr>) \<in>
      set (api_calls (eng_run env [MsgEngUp, MsgStartFix] s))"
    using assms c u by (simp add: loc_eng_start_handler_def eng_prim Let_def)
  ultimately show ?thesis
    by (intro conjI exI [of _ "(mFixCriteria s)\<lparr>lp_mode := LOC_POSITION_MODE_INVALID\<rparr>"]) simp_all
qed

theorem restart_loses_mode_witness:
  "MsgStartFix \<in> set (eng_queue (eng_proc eng_env0 MsgEngUp (up_eng\<lparr>mNavigating := True\<rparr>)))"
  using restart_loses_mode [of "up_eng\<lparr>mNavigating := True\<rparr>" eng_env0] by simp

section \<open>State machines at a restart\<close>

lemma nif_prim [simp]:
  "get_nif n (call c s) = get_nif n s" "get_nif n (post m s) = get_nif n s"
  "get_nif n (setInSession v s) = get_nif n s"
  by (simp_all add: get_nif_def eng_prim Let_def split: nif.split)

lemma nif_reinit [simp]: "get_nif n (loc_eng_reinit s) = get_nif n s"
  by (simp add: loc_eng_reinit_def loc_eng_xtra_version_check_def Let_def)

lemma nif_set_server [simp]: "get_nif n (snd (loc_eng_set_server env ty h p s)) = get_nif n s"
  by (simp add: loc_eng_set_server_def Let_def split: option.split)

lemma nif_agps_reinit [simp]: "get_nif n (loc_eng_agps_reinit env s) = get_nif n s"
proof -
  define s1 where "s1 = (case supl_host s of None \<Rightarrow> s
          | Some (h, p) \<Rightarrow> snd (loc_eng_set_server env LOC_AGPS_SUPL_SERVER (Some h) p s))"
  have "get_nif n s1 = get_nif n s" by (simp add: s1_def split: option.split)
  then show ?thesis by (simp add: loc_eng_agps_reinit_def s1_def [symmetric] split: option.split)
qed

lemma agps_cb_reinit [simp]: "agps_status_cb (requestPowerVote (loc_eng_reinit s)) = agps_status_cb s"
  by (simp add: loc_eng_reinit_def loc_eng_xtra_version_check_def requestPowerVote_def eng_prim Let_def)

lemma nif_engine_up:
  assumes "agps_status_cb s"
  shows "get_nif AgnssNif (loc_eng_handle_engine_up env s) = map_option dropAllSubscribers (get_nif AgnssNif s)"
proof -
  define s1 where "s1 = requestPowerVote (loc_eng_reinit s)"
  have g: "get_nif AgnssNif s1 = get_nif AgnssNif s"
    unfolding s1_def requestPowerVote_def by simp
  have "get_nif AgnssNif (s1\<lparr>agnss_nif := map_option dropAllSubscribers (agnss_nif s1), internet_nif := x\<rparr>) =
    map_option dropAllSubscribers (get_nif AgnssNif s1)" for x
    by (simp add: get_nif_def)
  then show ?thesis using assms g
    by (simp add: loc_eng_handle_engine_up_def s1_def [symmetric] Let_def) (simp add: s1_def)
qed

lemma subscribe_acquired:
  assumes "mState m = Acquired" and "mSubscribers m = []"
  shows "actions (subscribeRsrc env (atl_sub h False) m) = actions m @ [AtlOpenStatus h 1 (mAPN m) (mBearer m) (mType m)]"
  using assms
  by (simp add: subscribeRsrc_def hasSubscribers_def state_onRsrcEvent_def sm_onRsrcEvent_def acquired_onRsrcEvent_def
      atl_sub_def notifyRsrcStatus_def deliver_status_def atl_notify_def atl_type_def act_def addSubscriber_stack
      add_new_def read_sub_def Let_def)

text \<open>A restart of the modem drops the subscribers of a state machine and leaves its state:
  an acquired interface stays acquired without a subscriber, nothing asks the framework to
  release it, and the next request is granted at once from what was known before the restart.\<close>

theorem restart_strands_machine:
  assumes "agps_status_cb s" and "agnss_nif s = Some m" and "mState m = Acquired"
  shows "\<exists>m'. agnss_nif (eng_proc env MsgEngUp s) = Some m' \<and> mState m' = Acquired \<and>
    \<not> hasSubscribers m' \<and> actions m' = actions m \<and>
    actions (subscribeRsrc (env_agps env) (atl_sub h False) m') =
      actions m @ [AtlOpenStatus h 1 (mAPN m) (mBearer m) (mType m)]"
proof -
  have "agnss_nif (eng_proc env MsgEngUp s) = Some (dropAllSubscribers m)"
    using nif_engine_up [OF assms(1), of env] assms(2) by (simp add: get_nif_def)
  moreover have "mState (dropAllSubscribers m) = Acquired" "mSubscribers (dropAllSubscribers m) = []"
    using assms(3) by (simp_all add: dropAllSubscribers_def)
  moreover from subscribe_acquired [OF this, of "env_agps env" h]
  have "actions (subscribeRsrc (env_agps env) (atl_sub h False) (dropAllSubscribers m)) =
      actions m @ [AtlOpenStatus h 1 (mAPN m) (mBearer m) (mType m)]"
    by (simp add: dropAllSubscribers_def)
  ultimately show ?thesis by (simp add: hasSubscribers_def) (simp add: dropAllSubscribers_def)
qed

theorem restart_strands_machine_witness:
  "\<exists>m'. agnss_nif (eng_proc eng_env0 MsgEngUp (up_eng\<lparr>agps_status_cb := True, agnss_nif := Some two_atl\<rparr>)) = Some m' \<and>
     mState m' = Acquired \<and> \<not> hasSubscribers m'"
  using restart_strands_machine [of "up_eng\<lparr>agps_status_cb := True, agnss_nif := Some two_atl\<rparr>" two_atl eng_env0]
  by (auto simp: two_atl_def)

end
