(* ===== verification/EngLife.thy ===== *)
theory EngLife
  imports EngFacts
begin

unbundle bit_operations_syntax

text \<open>
  Initialisation and configuration of the engine: what an update of the configuration may
  change, which certificates are installed, what becomes of the server addresses set before
  the initialisation, what the task does after it, and how the modem's requests for a data
  connection reach the state machines.
\<close>

section \<open>Configuration\<close>

lemma conf_post [simp]: "conf (post m s) = conf s"
  by (simp add: post_def)

lemma conf_update:
  "conf (loc_eng_configuration_update env d n s) =
    (if d \<noteq> None \<and> n > 0 then keep_gps_conf (conf s)
       (fst (loc_update_conf (env_long env) (env_atof env) (env_mem env) d (nat n) (Some gps_conf_table) gps_conf_len (conf s)))
     else conf s)"
  by (simp add: loc_eng_configuration_update_def Let_def)

text \<open>An update of the configuration while the program runs can change four fields of
  \<open>gps_conf\<close>, the SUPL version, the LPP profile, the A-GLONASS protocol and the GPS lock; every
  other field keeps its value, and with them the capabilities the carrier allows.\<close>

theorem config_update_scope:
  "(\<forall>a. is_gps_field a \<and> a \<notin> {SUPL_VER, LPP_PROFILE, A_GLONASS_POS_PROTOCOL_SELECT, GPS_LOCK} \<longrightarrow>
      vals (conf (loc_eng_configuration_update env d n s)) a = vals (conf s) a) \<and>
   getCarrierCapabilities (conf (loc_eng_configuration_update env d n s)) = getCarrierCapabilities (conf s)"
proof -
  have keep: "vals (conf (loc_eng_configuration_update env d n s)) a = vals (conf s) a"
    if "is_gps_field a \<and> a \<notin> {SUPL_VER, LPP_PROFILE, A_GLONASS_POS_PROTOCOL_SELECT, GPS_LOCK}" for a
    using that by (simp add: conf_update keep_gps_conf_def)
  have "num_at (conf (loc_eng_configuration_update env d n s)) a = num_at (conf s) a"
    if "a \<in> {CAPABILITIES, SUPL_MODE}" for a
    using keep [of a] that unfolding num_at_def by (simp add: gps_fields is_gps_field_def) (elim disjE; simp)
  then have "getCarrierCapabilities (conf (loc_eng_configuration_update env d n s)) = getCarrierCapabilities (conf s)"
    by (simp add: getCarrierCapabilities_def)
  then show ?thesis using keep by blast
qed

theorem config_update_scope_witness:
  "vals (conf (loc_eng_configuration_update eng_env0 (Some ''CAPABILITIES=1'') 14 up_eng)) CAPABILITIES = Num 0"
  using config_update_scope [of eng_env0 "Some ''CAPABILITIES=1''" 14 up_eng, THEN conjunct1, THEN spec, of CAPABILITIES]
  by (simp add: gps_fields is_gps_field_def up_eng_def boot_eng_def boot_conf_def)

text \<open>A phone after the defaults were loaded.\<close>

definition ready_eng :: loc_eng where
  "ready_eng = up_eng\<lparr>conf := loc_default_parameters boot_conf\<rparr>"

text \<open>A change of \<open>SUPL_MODE\<close> by an update is announced but not made: the message that is
  queued for it reads the configuration after it was put back, and tells the position proxy the
  capabilities of the old mode (7, where the new mode leaves 1).\<close>

theorem supl_mode_update_lost:
  "eng_queue (loc_eng_configuration_update eng_env0 (Some ''SUPL_MODE=0'') 11 ready_eng) = [MsgSuplMode] \<and>
   api_calls (eng_proc eng_env0 MsgSuplMode (loc_eng_configuration_update eng_env0 (Some ''SUPL_MODE=0'') 11 ready_eng)) =
     [UlpSetCapabilities 7] \<and>
   getCarrierCapabilities (put_vals [(SUPL_MODE, Num 0)] (conf ready_eng)) = 1"
  by code_simp

section \<open>Certificates\<close>

fun ones :: "nat \<Rightarrow> nat" where
  "ones n = (if n = 0 then 0 else n mod 2 + ones (n div 2))"

declare ones.simps [simp del]

lemma ones_rec: "ones n = n mod 2 + ones (n div 2)"
  by (subst ones.simps) (simp add: ones.simps [of 0])

lemma ones_double: "ones (2 * n) = ones n" "ones (Suc (2 * n)) = Suc (ones n)"
  by (simp_all add: ones_rec [of "2 * n"] ones_rec [of "Suc (2 * n)"])

lemma ones_clear_lowest: "0 < n \<Longrightarrow> Suc (ones (n AND (n - 1))) = ones n"
proof (induction n rule: less_induct)
  case (less n)
  show ?case
  proof (cases "even n")
    case True
    then obtain k where k: "n = 2 * k" by blast
    then have "0 < k" using less.prems by simp
    then have "(n - 1) div 2 = k - 1" "odd (n - 1)" using k by auto
    then have "n AND (n - 1) = 2 * (k AND (k - 1))"
      using k by (subst and_rec) simp
    then show ?thesis using less.IH [of k] \<open>0 < k\<close> k by (simp add: ones_double)
  next
    case False
    then obtain k where k: "n = Suc (2 * k)" by (metis oddE Suc_eq_plus1)
    then have "n AND (n - 1) = 2 * k" by (subst and_rec) simp
    then show ?thesis using k by (simp add: ones_double)
  qed
qed

lemma ones_card: "ones n = card {i. bit n i} \<and> finite {i. bit n i}"
proof (induction n rule: less_induct)
  case (less n)
  show ?case
  proof (cases "n = 0")
    case False
    have "{i. bit n i} = (if odd n then {0} else {}) \<union> Suc ` {i. bit (n div 2) i}" (is "_ = ?R")
    proof (intro set_eqI)
      show "i \<in> {i. bit n i} \<longleftrightarrow> i \<in> ?R" for i by (cases i) (auto simp: bit_0 bit_Suc)
    qed
    moreover have "finite {i. bit (n div 2) i}" "ones (n div 2) = card {i. bit (n div 2) i}"
      using less.IH [of "n div 2"] False by simp_all
    moreover have "n mod 2 = of_bool (odd n)" by (simp add: mod_2_eq_odd)
    ultimately show ?thesis by (simp add: ones_rec [of n] card_image)
  qed (simp add: ones.simps)
qed

lemma slot_loop_ones: "unat k + ones (unat c) < 2 ^ 32 \<Longrightarrow> unat (slot_loop c k) = unat k + ones (unat c)"
proof (induction c k rule: slot_loop.induct)
  case (1 c k)
  show ?case
  proof (cases "c = 0")
    case False
    then have "0 < unat c" by (simp add: unat_gt_0)
    moreover have "unat (c AND (c - 1)) = unat c AND (unat c - 1)"
      using False by (simp add: unsigned_and_eq unat_minus_one)
    ultimately have o: "Suc (ones (unat (c AND (c - 1)))) = ones (unat c)" using ones_clear_lowest by metis
    then have "unat (k + 1) = Suc (unat k)"
      using "1.prems" by (simp add: unat_word_ariths(1))
    then show ?thesis using 1 False o by (subst slot_loop.simps) simp
  qed (simp add: slot_loop.simps ones.simps)
qed

lemma bits_unat: "{i. bit (unat c) i} = {i. bit (c :: uint32) i}"
  by (auto simp: bit_unsigned_iff dest: bit_imp_le_length)

lemma slot_count: "unat (slot_loop m 0) = card {i. bit m i}"
proof -
  have "{i. bit m i} \<subseteq> {..<32}" using bit_imp_le_length [of m] by auto
  then have "card {i. bit m i} \<le> 32" using card_mono [of "{..<32}" "{i. bit m i}"] by simp
  then show ?thesis using slot_loop_ones [of 0 m] ones_card [of "unat m"] by (simp add: bits_unat)
qed

text \<open>C25: Certificates are passed on to the modem exactly when there are some, the engine is
  initialised, the mask of writable slots has a bit for each of them, and none is longer than
  2000 bytes; in every other case nothing is queued.\<close>

theorem certificates_installed_iff:
  "eng_queue (snd (loc_eng_agps_install_certificates cs s)) =
     (if cs \<noteq> [] \<and> has_adapter s \<and> length cs \<le> card {i. bit (num_at (conf s) AGPS_CERT_WRITABLE_MASK) i} \<and>
         (\<forall>c \<in> set cs. c \<le> 2000)
      then eng_queue s @ [MsgInstallAGpsCert cs (num_at (conf s) AGPS_CERT_WRITABLE_MASK)] else eng_queue s)"
  by (auto simp: loc_eng_agps_install_certificates_def AGPS_CERTIFICATE_MAX_LENGTH_def slot_count post_def Let_def
      not_less not_le)

theorem certificates_installed_iff_witness:
  "eng_queue (snd (loc_eng_agps_install_certificates [2000] up_eng)) = []"
  using certificates_installed_iff [of "[2000]" up_eng]
  by (simp add: up_eng_def boot_eng_def num_at_def boot_conf_def gps_fields)

section \<open>After the initialisation\<close>

lemma init_result:
  assumes "\<not> has_adapter s" and "e \<noteq> 0"
  shows "snd (loc_eng_init (Some c) e s) = post MsgInit ((memset_eng s)
      \<lparr>location_cb := cb_location c, sv_status_cb := cb_sv_status c, status_cb := cb_status c, nmea_cb := cb_nmea c,
        set_capabilities_cb := cb_set_capabilities c, request_utc_time_cb := cb_request_utc_time c,
        intermediateFix := ucast (num_at (conf s) INTERMEDIATE_POS),
        generateNmea := (e AND NMEA_1HZ_REPORT \<noteq> 0 \<and> num_at (conf s) NMEA_PROVIDER = 0), has_adapter := True,
        reg_mask := (if e AND NMEA_1HZ_REPORT \<noteq> 0 \<and> num_at (conf s) NMEA_PROVIDER = 0 then e XOR NMEA_1HZ_REPORT else e)\<rparr>)"
  using assms by (simp add: loc_eng_init_def memset_eng_def boot_eng_def Let_def)

text \<open>Server addresses given before the initialisation are forgotten: the buffers kept for
  them are part of the structure that the initialisation clears, so that the AGPS
  initialisation finds none and queues no server for the modem.\<close>

theorem buffered_server_wiped:
  assumes "\<not> has_adapter s" and "e \<noteq> 0"
  shows "set (eng_queue (loc_eng_agps_init env (Some cb)
      (snd (loc_eng_init (Some c) e (snd (loc_eng_set_server_proxy env ty h p s)))))) \<subseteq> set (eng_queue s) \<union> {MsgInit}"
proof -
  let ?s = "snd (loc_eng_set_server_proxy env ty h p s)"
  let ?i = "snd (loc_eng_init (Some c) e ?s)"
  have n: "\<not> has_adapter ?s" "eng_queue ?s = eng_queue s"
    using assms(1) by (cases ty; simp add: loc_eng_set_server_proxy_def Let_def)+
  have i: "supl_host ?i = None" "c2k_host ?i = None" "eng_queue ?i = eng_queue s @ [MsgInit]"
      "\<not> mSupportsAgpsRequests ?i"
    using n by (simp_all add: init_result [OF n(1) assms(2)] post_def memset_eng_def boot_eng_def)
  show ?thesis using i by (auto simp: loc_eng_agps_init_def loc_eng_agps_reinit_def Let_def split: if_splits)
qed

theorem buffered_server_wiped_witness:
  "eng_queue (loc_eng_agps_init eng_env0 (Some True) (snd (loc_eng_init (Some \<lparr>cb_location = True, cb_status = True,
      cb_sv_status = True, cb_nmea = True, cb_set_capabilities = True, cb_request_utc_time = True\<rparr>) 1
      (snd (loc_eng_set_server_proxy eng_env0 LOC_AGPS_SUPL_SERVER ''supl.google.com'' 7276 (boot_eng boot_conf)))))) \<noteq>
    [MsgInit, MsgSetServerUrl ''supl.google.com:7276'']"
  using buffered_server_wiped [of "boot_eng boot_conf" 1 eng_env0 True "\<lparr>cb_location = True, cb_status = True,
      cb_sv_status = True, cb_nmea = True, cb_set_capabilities = True, cb_request_utc_time = True\<rparr>"
      LOC_AGPS_SUPL_SERVER "''supl.google.com''" 7276]
  by (auto simp: boot_eng_def)

text \<open>The task until its queue is empty, at most \<open>k\<close> turns.\<close>

fun eng_drain :: "eng_env \<Rightarrow> nat \<Rightarrow> loc_eng \<Rightarrow> loc_eng" where
  "eng_drain env 0 s = s"
| "eng_drain env (Suc k) s = (case eng_deliver env s of None \<Rightarrow> s | Some s' \<Rightarrow> eng_drain env k s')"

lemma drain_empty: "eng_queue s = [] \<Longrightarrow> eng_drain env k s = s"
  by (cases k) (simp_all add: eng_deliver_def)

lemma drain_Cons:
  "eng_queue s = m # ms \<Longrightarrow> eng_drain env (Suc k) s = eng_drain env k (eng_proc env m (s\<lparr>eng_queue := ms\<rparr>))"
  by (simp add: eng_deliver_def)

text \<open>Messages that post nothing are handled in order.\<close>

definition posts_nothing :: "eng_env \<Rightarrow> eng_msg \<Rightarrow> bool" where
  "posts_nothing env m \<longleftrightarrow> (\<forall>s q. eng_proc env m (s\<lparr>eng_queue := q\<rparr>) = (eng_proc env m s)\<lparr>eng_queue := q\<rparr>)"

lemma drain_run:
  assumes "eng_queue s = ms" and "\<forall>m \<in> set ms. posts_nothing env m" and "length ms \<le> k"
  shows "eng_drain env k s = (eng_run env ms s)\<lparr>eng_queue := []\<rparr>"
  using assms
proof (induction ms arbitrary: s k)
  case Nil
  then show ?case by (simp add: drain_empty)
next
  case (Cons m ms)
  then obtain j where k: "k = Suc j" by (cases k) auto
  have p: "eng_proc env m (s\<lparr>eng_queue := ms\<rparr>) = (eng_proc env m s)\<lparr>eng_queue := ms\<rparr>"
    using Cons.prems(2) by (simp add: posts_nothing_def)
  have "eng_drain env j ((eng_proc env m s)\<lparr>eng_queue := ms\<rparr>) =
      (eng_run env ms ((eng_proc env m s)\<lparr>eng_queue := ms\<rparr>))\<lparr>eng_queue := []\<rparr>"
    using Cons.IH [of "(eng_proc env m s)\<lparr>eng_queue := ms\<rparr>" j] Cons.prems k by simp
  moreover have "(eng_run env xs (t\<lparr>eng_queue := q\<rparr>))\<lparr>eng_queue := []\<rparr> = (eng_run env xs t)\<lparr>eng_queue := []\<rparr>"
    if "\<forall>m \<in> set xs. posts_nothing env m" for xs t q
    using that
  proof (induction xs arbitrary: t q)
    case (Cons x xs)
    then show ?case by (simp add: posts_nothing_def)
  qed simp
  ultimately show ?case using drain_Cons [OF Cons.prems(1)] k p Cons.prems(2) by simp
qed

definition setup_msgs :: "conf_mem \<Rightarrow> uint32 \<Rightarrow> eng_msg list" where
  "setup_msgs c status =
     [MsgGnssConstellationConfig, MsgSuplVer (num_at c SUPL_VER), MsgLppConfig (num_at c LPP_PROFILE),
      MsgSensorControlConfig (num_at c 34) (num_at c 36), MsgAGlonassProtocol (num_at c A_GLONASS_POS_PROTOCOL_SELECT)] @
     (if \<exists>a \<in> set sensor_property_addrs. sets c a \<noteq> 0
      then [MsgSensorProperties (map (\<lambda>a. (sets c a, vals c a)) sensor_property_addrs)] else []) @
     [MsgSensorPerfControlConfig (map (num_at c) [33, 26, 25, 28, 27, 30, 29, 32, 31, 35]),
      MsgEnableData None (if status \<noteq> 0 then 1 else 0), MsgSetXtraVersionCheck (num_at c XTRA_VERSION_CHECK)]"

lemma reinit_posts:
  "loc_eng_reinit s = s\<lparr>eng_queue := eng_queue s @ setup_msgs (conf s) (agpsStatus s)\<rparr>"
  by (simp add: loc_eng_reinit_def loc_eng_xtra_version_check_def setup_msgs_def post_def Let_def)

lemma setup_post_nothing: "m \<in> set (setup_msgs c st @ [MsgSetCapabilities]) \<Longrightarrow> posts_nothing env m"
  by (auto simp: setup_msgs_def posts_nothing_def eng_prim setXtraVersionCheck_def Let_def split: if_splits)

text \<open>C9: After the initialisation of an engine that was not initialised, with an event mask and a
  callback for capabilities and nothing else in the queue, the task comes to rest within twelve turns, and the last thing
  it does is to tell the framework the capabilities, those of the configuration together with
  the measurements when the modem has them: the question to the modem is answered before.\<close>

theorem init_reports_capabilities:
  assumes "\<not> has_adapter s" and "eng_queue s = []" and "e \<noteq> 0" and "cb_set_capabilities c"
  shows "eng_queue (eng_drain env 12 (snd (loc_eng_init (Some c) e s))) = [] \<and>
    cbs (eng_drain env 12 (snd (loc_eng_init (Some c) e s))) = cbs s @
      [SetCapabilitiesCb (if env_constellation env then num_at (conf s) CAPABILITIES OR GPS_CAPABILITY_MEASUREMENTS
        else num_at (conf s) CAPABILITIES)]"
proof -
  let ?i = "snd (loc_eng_init (Some c) e s)"
  have q: "eng_queue ?i = [MsgInit]" and f: "conf ?i = conf s" "cbs ?i = cbs s" "set_capabilities_cb ?i"
    using assms by (simp_all add: init_result post_def memset_eng_def boot_eng_def)
  let ?r = "eng_proc env MsgInit (?i\<lparr>eng_queue := []\<rparr>)"
  let ?ms = "setup_msgs (conf ?i) (agpsStatus ?i) @ [MsgSetCapabilities]"
  have r: "?r = ?i\<lparr>eng_queue := ?ms\<rparr>" by (simp add: reinit_posts post_def)
  have "length ?ms \<le> 11" by (simp add: setup_msgs_def)
  then have d: "eng_drain env 12 ?i = (eng_run env ?ms (?i\<lparr>eng_queue := ?ms\<rparr>))\<lparr>eng_queue := []\<rparr>"
    using drain_Cons [OF q, of env 11] drain_run [of ?r ?ms env 11] setup_post_nothing r by (simp del: eng_proc.simps)
  then have "eng_queue (eng_drain env 12 ?i) = []" by simp
  moreover have "cbs (eng_drain env 12 ?i) = cbs s @
      [SetCapabilitiesCb (if env_constellation env then num_at (conf s) CAPABILITIES OR GPS_CAPABILITY_MEASUREMENTS
        else num_at (conf s) CAPABILITIES)]"
    unfolding d using f
    by (simp add: setup_msgs_def eng_prim setXtraVersionCheck_def put_vals_def num_at_def Let_def)
  ultimately show ?thesis ..
qed

definition all_cbs :: loc_callbacks where
  "all_cbs = \<lparr>cb_location = True, cb_status = True, cb_sv_status = True, cb_nmea = True,
     cb_set_capabilities = True, cb_request_utc_time = True\<rparr>"

theorem init_reports_capabilities_witness:
  "cbs (eng_drain eng_env0 12 (snd (loc_eng_init (Some all_cbs) 0x1FF (boot_eng (loc_default_parameters boot_conf))))) =
     [SetCapabilitiesCb 0x47]"
proof -
  have "num_at (loc_default_parameters boot_conf) CAPABILITIES OR GPS_CAPABILITY_MEASUREMENTS = 0x47"
    by code_simp
  then show ?thesis
    using init_reports_capabilities [where s = "boot_eng (loc_default_parameters boot_conf)" and e = "0x1FF" and
        c = all_cbs and env = eng_env0]
    by (simp add: boot_eng_def all_cbs_def eng_env0_def)
qed

section \<open>Positions\<close>

definition new_cbs :: "loc_eng \<Rightarrow> loc_eng \<Rightarrow> callback list" where
  "new_cbs s s' = drop (length (cbs s)) (cbs s')"

lemma cbs_prim [simp]:
  "cbs (callback b s) = cbs s @ [b]" "cbs (call c s) = cbs s" "cbs (setInSession v s) = cbs s"
  "cbs (free_rawData f s) = cbs s"
  by (simp_all add: eng_prim free_rawData_def Let_def split: option.split)

text \<open>Which positions the framework is to get.\<close>

definition fix_wanted :: "loc_eng \<Rightarrow> gps_fix \<Rightarrow> sess_status \<Rightarrow> bool" where
  "fix_wanted s f st \<longleftrightarrow>
     (st = LOC_SESS_SUCCESS \<and> (bit (tech_mask f) 0 \<or> bit (tech_mask f) 3 \<or> bit (tech_mask f) 7)) \<or>
     (intermediateFix s = 1 \<and> (\<not> has_accuracy f \<or> num_at (conf s) ACCURACY_THRES = 0 \<or>
        accuracy f \<le> real (unat (num_at (conf s) ACCURACY_THRES))))"

lemma position_wanted_fix: "position_wanted s f st = fix_wanted s f st"
proof -
  have bits: "(0x01 OR 0x08 OR 0x80) AND w \<noteq> 0 \<longleftrightarrow> bit w 0 \<or> bit w 3 \<or> bit w 7" for w :: uint32
  proof -
    have "(0x01 OR 0x08 OR 0x80 :: uint32) = 2 ^ 0 OR 2 ^ 3 OR 2 ^ 7" by simp
    moreover have "bit ((2 ^ 0 OR 2 ^ 3 OR 2 ^ 7) AND w) i \<longleftrightarrow> (i = 0 \<or> i = 3 \<or> i = 7) \<and> bit w i" for i
      by (simp only: bit_and_iff bit_or_iff bit_exp_iff) (auto dest: bit_imp_le_length)
    ultimately have "bit ((0x01 OR 0x08 OR 0x80) AND w) i \<longleftrightarrow> (i = 0 \<or> i = 3 \<or> i = 7) \<and> bit w i" for i
      by metis
    moreover have "x \<noteq> 0 \<longleftrightarrow> (\<exists>i. bit x i)" for x :: uint32
      by (auto intro: bit_eqI)
    ultimately show ?thesis by metis
  qed
  show ?thesis unfolding position_wanted_def fix_wanted_def bits by (auto simp: not_less)
qed

text \<open>The callbacks that hand a position, or none, to the framework.\<close>

fun is_location :: "callback \<Rightarrow> bool" where
  "is_location (LocationCb f) = True"
| "is_location LocationNull = True"
| "is_location _ = False"

text \<open>What a report of a position is to give the framework.\<close>

definition location_reports :: "loc_eng \<Rightarrow> gps_fix \<Rightarrow> sess_status \<Rightarrow> callback list" where
  "location_reports s f st =
     (if muted s \<or> \<not> location_cb s then []
      else if st = LOC_SESS_FAILURE then [LocationNull]
      else if fix_wanted s f st then [LocationCb f] else [])"

text \<open>C17: What the framework gets for a report of a position: nothing in a muted session or without a
  callback for positions; for a failed report the callback is called without a position, once;
  otherwise the position is passed on, once, exactly when it is a final fix from satellites,
  sensors or both, or when intermediate fixes are enabled and its accuracy is not known to be worse
  than the threshold. The latter holds for any status but a failure, because the code tests the
  configuration in place of the status. A session stays as it was, except that a single-shot
  session is over when the framework was called.\<close>

theorem position_reported_iff:
  "filter is_location (new_cbs s (report_position f st s)) = location_reports s f st \<and>
   mNavigating (report_position f st s) =
     (mNavigating s \<and> \<not> (single_shot (mFixCriteria s) \<and> location_reports s f st \<noteq> []))"
  using position_wanted_fix [of s f st]
  by (simp add: report_position_def new_cbs_def location_reports_def Let_def)
    (simp add: eng_prim free_rawData_def split: option.split)

theorem position_reported_iff_witness:
  "filter is_location (new_cbs (up_eng\<lparr>intermediateFix := 1\<rparr>) (report_position
       \<lparr>has_accuracy = False, accuracy = 0, tech_mask = 2, rawData = None\<rparr> LOC_SESS_SUCCESS (up_eng\<lparr>intermediateFix := 1\<rparr>))) =
     [LocationCb \<lparr>has_accuracy = False, accuracy = 0, tech_mask = 2, rawData = None\<rparr>]"
  using position_reported_iff [of "up_eng\<lparr>intermediateFix := 1\<rparr>"
      "\<lparr>has_accuracy = False, accuracy = 0, tech_mask = 2, rawData = None\<rparr>" LOC_SESS_SUCCESS]
  by (simp add: muted_def up_eng_def boot_eng_def ni_boot_def fix_wanted_def location_reports_def)

section \<open>Requests of the modem\<close>

definition asked :: "subscriber \<Rightarrow> agps_sm \<Rightarrow> agps_sm" where
  "asked x m = m\<lparr>mSubscribers := [next_obj m], mem := (mem m)(next_obj m := x), next_obj := Suc (next_obj m),
     mState := Pending, actions := actions m @ [NifRequest (mType m) GPS_REQUEST_AGPS_DATA_CONN None ([], [])]\<rparr>"

lemma subscribe_released:
  assumes "mState m = Released" and "mSubscribers m = []" and "\<not> isDS m" and "mServicer m = servicerTypeAgps"
  shows "subscribeRsrc env (atl_sub h False) m = asked (atl_sub h False) m"
  using assms
  by (simp add: atl_sub_def agps_run_simps asked_def)

lemma unsubscribe_only:
  assumes "mState m = Pending" and "mSubscribers m = [a]" and "a \<notin> set (freed m)"
    and "mem m a = atl_sub h False" and "\<not> isDS m" and "mServicer m = servicerTypeAgps"
  shows "fst (unsubscribeRsrc env (atl_sub h False) m)"
    and "mState (snd (unsubscribeRsrc env (atl_sub h False) m)) = Released"
    and "mSubscribers (snd (unsubscribeRsrc env (atl_sub h False) m)) = []"
    and "actions (snd (unsubscribeRsrc env (atl_sub h False) m)) =
      actions m @ [AtlCloseStatus h 1, NifRequest (mType m) GPS_RELEASE_AGPS_DATA_CONN (Some INADDR_NONE) ([], [])]"
proof -
  have "mSubscribers m = [] @ a # []" using assms(2) by simp
  from leave_alone [OF this assms(3), of env]
  have l: "leave env (Obj a) m = (tell_all RSRC_UNSUBSCRIBE [mem m a] m)
    \<lparr>mSubscribers := [], freed := freed m @ [a], uaf := uaf m\<rparr>"
    using assms(4) by (simp add: waitForCloseComplete_def atl_sub_def)
  have f: "search_list (hasSubscriber env (notify_to (Stack (atl_sub h False)) RSRC_STATUS_MAX False)) m
      (map (\<lambda>a. (a, True)) (mSubscribers m)) = (m, Some ([], (a, True), []))"
    using assms(2,4) by (simp add: hasSubscriber_def)
  have u: "unsubscribeRsrc env (atl_sub h False) m =
      (True, state_onRsrcEvent env RSRC_UNSUBSCRIBE (Some (Obj a)) m)"
    by (simp add: unsubscribeRsrc_def sub_search_def f)
  have st: "state_onRsrcEvent env RSRC_UNSUBSCRIBE (Some (Obj a)) m =
     (snd (sendRsrcRequest env GPS_RELEASE_AGPS_DATA_CONN (leave env (Obj a) m)))\<lparr>mState := Released\<rparr>"
    using assms(1) by (simp add: state_onRsrcEvent_def pending_onRsrcEvent_def l hasSubscribers_def Let_def)
  show "fst (unsubscribeRsrc env (atl_sub h False) m)"
    "mState (snd (unsubscribeRsrc env (atl_sub h False) m)) = Released" by (simp_all add: u st)
  show "mSubscribers (snd (unsubscribeRsrc env (atl_sub h False) m)) = []"
    using assms(5,6) shape_send [of "leave env (Obj a) m" env GPS_RELEASE_AGPS_DATA_CONN]
    by (simp add: u st l same_shape_def)
  show "actions (snd (unsubscribeRsrc env (atl_sub h False) m)) =
      actions m @ [AtlCloseStatus h 1, NifRequest (mType m) GPS_RELEASE_AGPS_DATA_CONN (Some INADDR_NONE) ([], [])]"
    using assms by (simp add: u st l tell_all_def told_def atl_sub_def agps_run_simps)
qed

text \<open>C15: A data connection the modem asks for and gives back, while nobody else uses the interface:
  the released machine of the SUPL interface
  asks the framework for the connection; when the modem releases the handle before it is
  granted, the machine confirms the release, gives the request up and is free again. Nothing
  else of the engine changes, and the modem gets no second answer.\<close>

theorem atl_request_release:
  assumes "agnss_nif s = Some m" and "mState m = Released" and "mSubscribers m = []"
    and "next_obj m \<notin> set (freed m)" and "\<not> isDS m" and "mServicer m = servicerTypeAgps"
  shows "\<exists>m'. eng_run env [MsgRequestATL h AGPS_TYPE_SUPL, MsgReleaseATL h] s = s\<lparr>agnss_nif := Some m'\<rparr> \<and>
    mState m' = Released \<and> mSubscribers m' = [] \<and>
    actions m' = actions m @ [NifRequest (mType m) GPS_REQUEST_AGPS_DATA_CONN None ([], []), AtlCloseStatus h 1,
      NifRequest (mType m) GPS_RELEASE_AGPS_DATA_CONN (Some INADDR_NONE) ([], [])]"
proof -
  let ?x = "atl_sub h False"
  have q: "eng_proc env (MsgRequestATL h AGPS_TYPE_SUPL) s = s\<lparr>agnss_nif := Some (asked ?x m)\<rparr>"
    using assms(1) subscribe_released [OF assms(2,3,5,6)]
    by (simp add: request_ATL_def getAgpsStateMachine_def on_nif_def get_nif_def set_nif_def)
  have a: "mState (asked ?x m) = Pending" "mSubscribers (asked ?x m) = [next_obj m]"
    "next_obj m \<notin> set (freed (asked ?x m))" "mem (asked ?x m) (next_obj m) = ?x" "\<not> isDS (asked ?x m)"
    "mServicer (asked ?x m) = servicerTypeAgps"
    using assms by (simp_all add: asked_def)
  note u = unsubscribe_only [OF a, of "env_agps env"]
  have "release_ATL env h (s\<lparr>agnss_nif := Some (asked ?x m)\<rparr>) =
      s\<lparr>agnss_nif := Some (snd (unsubscribeRsrc (env_agps env) ?x (asked ?x m)))\<rparr>"
    using u(1) by (simp add: release_ATL_def try_release_def get_nif_def set_nif_def case_prod_beta)
  moreover have "actions (asked ?x m) = actions m @ [NifRequest (mType m) GPS_REQUEST_AGPS_DATA_CONN None ([], [])]"
    "mType (asked ?x m) = mType m" by (simp_all add: asked_def)
  ultimately show ?thesis using q u(2-4)
    by (intro exI [of _ "snd (unsubscribeRsrc (env_agps env) ?x (asked ?x m))"]) simp
qed

theorem atl_request_release_witness:
  "\<exists>m'. agnss_nif (eng_run eng_env0 [MsgRequestATL 5 AGPS_TYPE_SUPL, MsgReleaseATL 5]
     (up_eng\<lparr>agnss_nif := Some (new_sm servicerTypeAgps AGPS_TYPE_SUPL False)\<rparr>)) = Some m' \<and> mState m' = Released"
proof -
  let ?m = "new_sm servicerTypeAgps AGPS_TYPE_SUPL False"
  have "mState ?m = Released" "mSubscribers ?m = []" "next_obj ?m \<notin> set (freed ?m)" "\<not> isDS ?m"
    "mServicer ?m = servicerTypeAgps" by (simp_all add: new_sm_def)
  from atl_request_release [OF _ this, of "up_eng\<lparr>agnss_nif := Some ?m\<rparr>" eng_env0 5] show ?thesis by auto
qed

text \<open>When the framework reports the data connection of a machine that was never made (the SUPL
  machine of a phone whose configuration has neither assisted mode), the message goes through
  the NULL pointer that was looked up when it was posted.\<close>

theorem agps_open_null_machine:
  assumes "has_adapter s" and "agps_status_cb s" and "agnss_nif s = None" and "eng_queue s = []"
  shows "\<exists>s'. eng_deliver env (snd (loc_eng_agps_open AGPS_TYPE_SUPL (Some apn) bearer s)) = Some s' \<and> null_deref s'"
  using assms by (simp add: loc_eng_agps_open_def eng_deliver_def post_def atl_open_success_def on_nif_def
      getAgpsStateMachine_def get_nif_def)

theorem agps_open_null_machine_witness:
  "\<exists>s'. eng_deliver eng_env0 (snd (loc_eng_agps_open AGPS_TYPE_SUPL (Some ''internet'') AGPS_APN_BEARER_IPV4
     (up_eng\<lparr>agps_status_cb := True\<rparr>))) = Some s' \<and> null_deref s'"
  by (rule agps_open_null_machine) (simp_all add: up_eng_def boot_eng_def)

end
