(* ===== verification/Target.thy ===== *)
theory Target
  imports LocCfg
begin

unbundle bit_operations_syntax

text \<open>
  The detection of the target, \<open>src/gps/utils/loc_target.cpp\<close> with \<open>loc_target.h\<close>, and the
  name tables of \<open>src/gps/utils/loc_log.cpp\<close>. What the property service and the device files
  hold is in a \<open>platform\<close>; the target is an unsigned integer of 32 bits, detected once and kept
  in \<open>gTarget\<close>.
\<close>

section \<open>Targets\<close>

definition GNSS_NONE :: uint32 where "GNSS_NONE = 0"
definition GNSS_MSM :: uint32 where "GNSS_MSM = 1"
definition GNSS_GSS :: uint32 where "GNSS_GSS = 2"
definition GNSS_MDM :: uint32 where "GNSS_MDM = 3"
definition GNSS_QCA1530 :: uint32 where "GNSS_QCA1530 = 4"
definition GNSS_AUTO :: uint32 where "GNSS_AUTO = 5"
definition GNSS_UNKNOWN :: uint32 where "GNSS_UNKNOWN = 6"

definition NO_SSC :: uint32 where "NO_SSC = 0"
definition HAS_SSC :: uint32 where "HAS_SSC = 1"

lemmas gnss_defs = GNSS_NONE_def GNSS_MSM_def GNSS_GSS_def GNSS_MDM_def GNSS_QCA1530_def GNSS_AUTO_def
  GNSS_UNKNOWN_def NO_SSC_def HAS_SSC_def

definition TARGET_SET :: "uint32 \<Rightarrow> uint32 \<Rightarrow> uint32" where
  "TARGET_SET gnss ssc = push_bit 1 gnss OR ssc"

definition TARGET_MDM :: uint32 where "TARGET_MDM = TARGET_SET GNSS_MDM HAS_SSC"
definition TARGET_APQ_SA :: uint32 where "TARGET_APQ_SA = TARGET_SET GNSS_GSS NO_SSC"
definition TARGET_MPQ :: uint32 where "TARGET_MPQ = TARGET_SET GNSS_NONE NO_SSC"
definition TARGET_MSM_NO_SSC :: uint32 where "TARGET_MSM_NO_SSC = TARGET_SET GNSS_MSM NO_SSC"
definition TARGET_QCA1530 :: uint32 where "TARGET_QCA1530 = TARGET_SET GNSS_QCA1530 NO_SSC"
definition TARGET_AUTO :: uint32 where "TARGET_AUTO = TARGET_SET GNSS_AUTO NO_SSC"
definition TARGET_UNKNOWN :: uint32 where "TARGET_UNKNOWN = TARGET_SET GNSS_UNKNOWN NO_SSC"

lemmas target_defs = TARGET_MDM_def TARGET_APQ_SA_def TARGET_MPQ_def TARGET_MSM_NO_SSC_def TARGET_QCA1530_def
  TARGET_AUTO_def TARGET_UNKNOWN_def TARGET_SET_def

definition getTargetGnssType :: "uint32 \<Rightarrow> uint32" where
  "getTargetGnssType target = drop_bit 1 target"

text \<open>The value \<open>(unsigned int)-1\<close>: not detected yet.\<close>

definition no_target :: uint32 where "no_target = - 1"

section \<open>Detection\<close>

text \<open>A device file is its contents, or \<open>None\<close> when it cannot be opened; of the two files with
  a fallback it is also known whether the first exists. \<open>qca1530_prop i\<close> is what the property
  \<open>sys.qca1530\<close> holds in the i-th second, \<open>None\<close> when it cannot be read.\<close>

record platform =
  qca1530_prop :: "nat \<Rightarrow> string option"
  baseband_prop :: string
  hw_platform_exists :: bool
  hw_platform_file :: "string option"
  hw_platform_dep_file :: "string option"
  soc_id_exists :: bool
  soc_id_file :: "string option"
  soc_id_dep_file :: "string option"
  mdm_file :: "string option"
  lean_prop :: string

definition LINE_LEN :: nat where "LINE_LEN = 100"

definition read_a_line :: "string option \<Rightarrow> nat \<Rightarrow> int \<times> string" where
  "read_a_line file line_size =
     (case file of
        None \<Rightarrow> (-1, [])
      | Some s \<Rightarrow> (0, case fgets line_size s of None \<Rightarrow> [] | Some (line, _) \<Rightarrow> take (line_size - 1) (cstr line)))"

definition QCA1530_DETECT_TIMEOUT :: nat where "QCA1530_DETECT_TIMEOUT = 15"

fun qca1530_loop :: "(nat \<Rightarrow> string option) \<Rightarrow> nat \<Rightarrow> nat \<Rightarrow> bool" where
  "qca1530_loop prop i 0 = False"
| "qca1530_loop prop i (Suc left) =
     (case prop i of
        None \<Rightarrow> False
      | Some v \<Rightarrow> if v = ''yes'' then True else if v = ''detect'' then qca1530_loop prop (i + 1) left else False)"

definition is_qca1530 :: "platform \<Rightarrow> bool" where
  "is_qca1530 p = qca1530_loop (qca1530_prop p) 0 QCA1530_DETECT_TIMEOUT"

text \<open>\<open>memcmp\<close> of the beginning of a C string with a constant without NUL; \<open>is_line\<close> also asks
  that the line ends there.\<close>

definition begins :: "string \<Rightarrow> string \<Rightarrow> bool" where
  "begins s pat \<longleftrightarrow> take (length pat) s = pat"

definition is_line :: "string \<Rightarrow> string \<Rightarrow> bool" where
  "is_line s pat \<longleftrightarrow> begins s pat \<and>
     (case drop (length pat) s of [] \<Rightarrow> True | c # _ \<Rightarrow> c = CHR 0x0A \<or> c = CHR 0x0D)"

definition loc_get_target :: "platform \<Rightarrow> uint32 \<Rightarrow> uint32" where
  "loc_get_target p gTarget =
     (if gTarget \<noteq> no_target then gTarget
      else if is_qca1530 p then TARGET_QCA1530
      else
        let baseband = baseband_prop p;
            rd_hw_platform = snd (if hw_platform_exists p then read_a_line (hw_platform_file p) LINE_LEN
                                  else read_a_line (hw_platform_dep_file p) LINE_LEN);
            rd_id = snd (if soc_id_exists p then read_a_line (soc_id_file p) LINE_LEN
                         else read_a_line (soc_id_dep_file p) LINE_LEN)
        in if begins baseband ''auto'' then TARGET_AUTO
           else if begins baseband ''apq'' then
             (if is_line rd_id ''130'' then TARGET_MPQ else TARGET_APQ_SA)
           else if is_line rd_hw_platform ''Liquid'' \<or> is_line rd_hw_platform ''Surf'' \<or> is_line rd_hw_platform ''MTP''
           then (if fst (read_a_line (mdm_file p) LINE_LEN) = 0 then TARGET_MDM else gTarget)
           else if is_line rd_id ''142'' \<or> is_line rd_id ''116'' then TARGET_MSM_NO_SSC
           else TARGET_UNKNOWN)"

definition loc_identify_lean_target :: "platform \<Rightarrow> bool" where
  "loc_identify_lean_target p \<longleftrightarrow> lean_prop p = ''true''"

section \<open>Names\<close>

fun loc_get_name_from_mask :: "(string \<times> int) list \<Rightarrow> int \<Rightarrow> string" where
  "loc_get_name_from_mask [] m = ''UNKNOWN''"
| "loc_get_name_from_mask ((name, val) # table) m =
     (if val AND m \<noteq> 0 then name else loc_get_name_from_mask table m)"

fun loc_get_name_from_val :: "(string \<times> int) list \<Rightarrow> int \<Rightarrow> string" where
  "loc_get_name_from_val [] v = ''UNKNOWN''"
| "loc_get_name_from_val ((name, val) # table) v =
     (if val = v then name else loc_get_name_from_val table v)"

definition target_name :: "(string \<times> int) list" where
  "target_name = [(''GNSS_NONE'', 0), (''GNSS_MSM'', 1), (''GNSS_GSS'', 2), (''GNSS_MDM'', 3),
     (''GNSS_QCA1530'', 4), (''GNSS_AUTO'', 5), (''GNSS_UNKNOWN'', 6)]"

definition loc_get_target_name :: "uint32 \<Rightarrow> string" where
  "loc_get_target_name target =
     (let index = sint (getTargetGnssType target);
          index = (if index < 0 \<or> index \<ge> int (length target_name) then int (length target_name) - 1 else index)
      in if target AND HAS_SSC = HAS_SSC
         then '' '' @ loc_get_name_from_val target_name index @ '' with SSC''
         else '' '' @ loc_get_name_from_val target_name index @ ''  without SSC'')"

definition loc_logger_init :: "bool \<Rightarrow> nat \<Rightarrow> nat \<Rightarrow> nat \<times> nat" where
  "loc_logger_init user_build debug timestamp =
     ((if user_build \<and> debug > 2 then 2 else debug), timestamp)"

section \<open>What is detected\<close>

text \<open>The boards on which the detection can stay without a result.\<close>

definition undetected :: "platform \<Rightarrow> bool" where
  "undetected p \<longleftrightarrow>
     (let hw = (if hw_platform_exists p then hw_platform_file p else hw_platform_dep_file p);
          line = snd (read_a_line hw LINE_LEN)
      in \<not> begins (baseband_prop p) ''auto'' \<and> \<not> begins (baseband_prop p) ''apq'' \<and>
         (is_line line ''Liquid'' \<or> is_line line ''Surf'' \<or> is_line line ''MTP'') \<and> mdm_file p = None)"

lemma qca1530_loop_iff:
  "qca1530_loop prop i k \<longleftrightarrow> (\<exists>j < k. prop (i + j) = Some ''yes'' \<and> (\<forall>l < j. prop (i + l) = Some ''detect''))"
proof (induction k arbitrary: i)
  case (Suc k)
  have "qca1530_loop prop i (Suc k) \<longleftrightarrow> prop i = Some ''yes'' \<or> (prop i = Some ''detect'' \<and> qca1530_loop prop (Suc i) k)"
    by (auto split: option.split)
  also have "\<dots> \<longleftrightarrow> (\<exists>j < Suc k. prop (i + j) = Some ''yes'' \<and> (\<forall>l < j. prop (i + l) = Some ''detect''))"
    (is "?l \<longleftrightarrow> (\<exists>j < Suc k. ?Q j)")
  proof -
    have "?Q 0 \<longleftrightarrow> prop i = Some ''yes''" by simp
    moreover have "?Q (Suc j) \<longleftrightarrow>
        prop i = Some ''detect'' \<and> prop (Suc i + j) = Some ''yes'' \<and> (\<forall>l < j. prop (Suc i + l) = Some ''detect'')" for j
      by (auto simp: All_less_Suc2)
    ultimately show ?thesis unfolding Ex_less_Suc2 Suc.IH by blast
  qed
  finally show ?case .
qed simp

lemma qca_detected_iff:
  "is_qca1530 p \<longleftrightarrow> (\<exists>j < 15. qca1530_prop p j = Some ''yes'' \<and> (\<forall>i < j. qca1530_prop p i = Some ''detect''))"
  by (simp add: is_qca1530_def qca1530_loop_iff QCA1530_DETECT_TIMEOUT_def)

lemma read_mdm: "fst (read_a_line f n) = 0 \<longleftrightarrow> f \<noteq> None"
  by (simp add: read_a_line_def split: option.split)

lemma target_vals:
  "TARGET_MDM = 7" "TARGET_APQ_SA = 4" "TARGET_MPQ = 0" "TARGET_MSM_NO_SSC = 2" "TARGET_QCA1530 = 8"
  "TARGET_AUTO = 10" "TARGET_UNKNOWN = 12" "no_target = 0xFFFFFFFF"
  by (simp_all add: target_defs gnss_defs no_target_def)

definition msm8916 :: platform where
  "msm8916 = \<lparr>qca1530_prop = (\<lambda>_. Some []), baseband_prop = ''msm'', hw_platform_exists = True,
     hw_platform_file = Some ''QRD'', hw_platform_dep_file = None, soc_id_exists = True, soc_id_file = Some ''206'',
     soc_id_dep_file = None, mdm_file = None, lean_prop = []\<rparr>"

text \<open>The target is detected once: the external chip wins if the property says so within
  fifteen seconds, the result is one of seven targets and a later call returns it unchanged,
  whatever the files hold by then. The exception are boards named Liquid, Surf or MTP without a
  modem device: no target is chosen, and the next call detects anew.\<close>

theorem target_detected_once:
  "(loc_get_target p no_target = TARGET_QCA1530 \<longleftrightarrow>
      (\<exists>j < 15. qca1530_prop p j = Some ''yes'' \<and> (\<forall>i < j. qca1530_prop p i = Some ''detect''))) \<and>
   (loc_get_target p no_target = no_target \<longleftrightarrow> undetected p \<and> \<not> is_qca1530 p) \<and>
   (loc_get_target p no_target \<noteq> no_target \<longrightarrow>
      loc_get_target p no_target \<in> {TARGET_MDM, TARGET_APQ_SA, TARGET_MPQ, TARGET_MSM_NO_SSC, TARGET_QCA1530,
        TARGET_AUTO, TARGET_UNKNOWN} \<and>
      loc_get_target p' (loc_get_target p no_target) = loc_get_target p no_target)"
  by (simp add: loc_get_target_def undetected_def Let_def read_mdm target_vals flip: qca_detected_iff)

theorem target_detected_once_witness:
  "loc_get_target msm8916 no_target = TARGET_UNKNOWN \<and>
   loc_get_target (msm8916\<lparr>baseband_prop := ''apq''\<rparr>) TARGET_UNKNOWN = TARGET_UNKNOWN"
proof -
  have u: "loc_get_target msm8916 no_target = TARGET_UNKNOWN" by code_simp
  then show ?thesis
    using target_detected_once [of msm8916 "msm8916\<lparr>baseband_prop := ''apq''\<rparr>"] by (simp add: target_vals)
qed

text \<open>An undetected target is reported as one of unknown type with a sensor core, and its type is
  none of the seven.\<close>

lemma undetected_name:
  "loc_get_target_name no_target = '' GNSS_UNKNOWN with SSC'' \<and> GNSS_UNKNOWN < getTargetGnssType no_target"
  by (code_simp)

end
