(* ===== verification/LocApiBase.thy ===== *)
theory LocApiBase
  imports Prelude
begin

unbundle bit_operations_syntax

text \<open>
  Models \<open>src/gps/core/LocApiBase.cpp\<close>, the hub between the modem and the adapters, with
  the parts of \<open>LocApiBase.h\<close>, \<open>LocAdapterBase.h\<close> and \<open>LocAdapterBase.cpp\<close> it works with:
  the array of at most ten registered adapters (\<open>addAdapter\<close>, \<open>removeAdapter\<close>), the
  dispatch of an upward report to all of them or to the first that handles it, the union
  of their event masks that is sent to the modem, the messages that open and close the
  lower layer, and the two decoders of binary data (\<open>hexcode\<close>, \<open>decodeAddress\<close>).

  An adapter is an address; \<open>adapters\<close> holds the object at it. \<open>open\<close> and \<open>close\<close> are
  virtual and belong to the loaded API module, which is not in this repository: the model
  records the calls in \<open>lower\<close>. The message task is the FIFO \<open>queue\<close>. The handlers of the
  adapters are arguments of the dispatch loops.
\<close>

section \<open>The adapters and the API object\<close>

type_synonym evt_mask = uint32

record adapter =
  mEvtMask :: evt_mask
  inSession :: bool

datatype api_msg = LocSsrMsg | LocOpenMsg evt_mask
datatype low_call = Open evt_mask | Close

record loc_api =
  mLocAdapters :: "addr option list"
  mExcludedMask :: evt_mask
  mSupportedMsg :: "64 word"
  queue :: "api_msg list"
  lower :: "low_call list"
  adapters :: "addr \<Rightarrow> adapter"

definition MAX_ADAPTERS :: nat where
  "MAX_ADAPTERS = 10"

definition init_api :: "evt_mask \<Rightarrow> (addr \<Rightarrow> adapter) \<Rightarrow> loc_api" where
  "init_api excludedMask heap = \<lparr>mLocAdapters = replicate MAX_ADAPTERS None,
     mExcludedMask = excludedMask, mSupportedMsg = 0, queue = [], lower = [], adapters = heap\<rparr>"

text \<open>The two dispatch macros: both stop at the first empty slot, the second also at the
  first adapter whose handler returns true.\<close>

fun to_all_adapters :: "(addr \<Rightarrow> 's \<Rightarrow> 's) \<Rightarrow> addr option list \<Rightarrow> 's \<Rightarrow> 's" where
  "to_all_adapters call [] s = s"
| "to_all_adapters call (None # xs) s = s"
| "to_all_adapters call (Some a # xs) s = to_all_adapters call xs (call a s)"

fun to_1st_handling_adapter :: "(addr \<Rightarrow> 's \<Rightarrow> bool \<times> 's) \<Rightarrow> addr option list \<Rightarrow> 's \<Rightarrow> 's" where
  "to_1st_handling_adapter call [] s = s"
| "to_1st_handling_adapter call (None # xs) s = s"
| "to_1st_handling_adapter call (Some a # xs) s =
     (case call a s of (handled, s') \<Rightarrow>
        if handled then s' else to_1st_handling_adapter call xs s')"

definition getEvtMask :: "loc_api \<Rightarrow> evt_mask" where
  "getEvtMask s =
     to_all_adapters (\<lambda>a m. m OR mEvtMask (adapters s a)) (mLocAdapters s) 0
     AND NOT (mExcludedMask s)"

fun session_loop :: "(addr \<Rightarrow> adapter) \<Rightarrow> addr option list \<Rightarrow> bool \<Rightarrow> bool" where
  "session_loop heap [] found = found"
| "session_loop heap (None # xs) found = found"
| "session_loop heap (Some a # xs) found =
     (if found then found else session_loop heap xs (inSession (heap a)))"

definition isInSession :: "loc_api \<Rightarrow> bool" where
  "isInSession s = session_loop (adapters s) (mLocAdapters s) False"

definition sendMsg :: "api_msg \<Rightarrow> loc_api \<Rightarrow> loc_api" where
  "sendMsg m s = s\<lparr>queue := queue s @ [m]\<rparr>"

definition api_open :: "evt_mask \<Rightarrow> loc_api \<Rightarrow> loc_api" where
  "api_open m s = s\<lparr>lower := lower s @ [Open m]\<rparr>"

definition api_close :: "loc_api \<Rightarrow> loc_api" where
  "api_close s = s\<lparr>lower := lower s @ [Close]\<rparr>"

section \<open>Registration\<close>

text \<open>The loop of \<open>addAdapter\<close>: None when it ends without storing the adapter, because
  the adapter is there already or because all ten slots are taken.\<close>

fun add_loop :: "addr \<Rightarrow> addr option list \<Rightarrow> addr option list option" where
  "add_loop a [] = None"
| "add_loop a (x # xs) =
     (if x = Some a then None
      else case x of
        None \<Rightarrow> Some (Some a # xs)
      | Some b \<Rightarrow> map_option ((#) (Some b)) (add_loop a xs))"

definition addAdapter :: "addr \<Rightarrow> loc_api \<Rightarrow> loc_api" where
  "addAdapter a s =
     (case add_loop a (mLocAdapters s) of
        None \<Rightarrow> s
      | Some xs \<Rightarrow> sendMsg (LocOpenMsg (mEvtMask (adapters s a))) (s\<lparr>mLocAdapters := xs\<rparr>))"

text \<open>\<open>while (++i < MAX_ADAPTERS && mLocAdapters[i] != NULL);\<close>\<close>

function scan_up :: "addr option list \<Rightarrow> nat \<Rightarrow> nat" where
  "scan_up xs i =
     (let i' = Suc i in
      if i' < length xs then (if xs ! i' \<noteq> None then scan_up xs i' else i') else i')"
  by auto
termination by (relation "measure (\<lambda>(xs, i). length xs - i)") auto

declare scan_up.simps [simp del]

text \<open>The body of the \<open>for\<close> loop of \<open>removeAdapter\<close> at the slot that holds the adapter:
  the new state and the index the loop goes on from.\<close>

definition remove_at :: "nat \<Rightarrow> loc_api \<Rightarrow> loc_api \<times> nat" where
  "remove_at j s =
     (let xs = (mLocAdapters s)[j := None];
          i = scan_up xs j - 1;
          xs = xs[j := xs ! i];
          xs = xs[i := None];
          s = s\<lparr>mLocAdapters := xs\<rparr>
      in (if i = 0 then api_close s else sendMsg (LocOpenMsg (getEvtMask s)) s, i))"

lemma scan_up_gt: "i < scan_up xs i"
proof (induction xs i rule: scan_up.induct)
  case (1 xs i)
  show ?case
    using 1 by (subst scan_up.simps) (auto simp: Let_def dest: Suc_lessD)
qed

lemma remove_at_length [simp]: "length (mLocAdapters (fst (remove_at j s))) = length (mLocAdapters s)"
  by (auto simp: remove_at_def Let_def api_close_def sendMsg_def)

lemma remove_at_ge: "j \<le> snd (remove_at j s)"
proof -
  have "j < scan_up ((mLocAdapters s)[j := None]) j" by (rule scan_up_gt)
  then show ?thesis by (simp add: remove_at_def Let_def)
qed

function remove_loop :: "addr \<Rightarrow> nat \<Rightarrow> loc_api \<Rightarrow> loc_api" where
  "remove_loop a i s =
     (if i < length (mLocAdapters s) \<and> mLocAdapters s ! i \<noteq> None
      then if mLocAdapters s ! i = Some a
           then remove_loop a (Suc (snd (remove_at i s))) (fst (remove_at i s))
           else remove_loop a (Suc i) s
      else s)"
  by auto
termination
proof (relation "measure (\<lambda>(a, i, s). length (mLocAdapters s) - i)", simp, goal_cases)
  case (1 a i s)
  then show ?case using remove_at_ge [of i s] by simp
next
  case (2 a i s)
  then show ?case by (simp add: diff_less_mono2)
qed

declare remove_loop.simps [simp del]

definition removeAdapter :: "addr \<Rightarrow> loc_api \<Rightarrow> loc_api" where
  "removeAdapter a s = remove_loop a 0 s"

section \<open>Masks, messages and engine restarts\<close>

definition api_updateEvtMask :: "loc_api \<Rightarrow> loc_api" where
  "api_updateEvtMask s = sendMsg (LocOpenMsg (getEvtMask s)) s"

text \<open>\<open>LocAdapterBase::updateEvtMask\<close>.\<close>

definition updateEvtMask :: "addr \<Rightarrow> evt_mask \<Rightarrow> bool \<Rightarrow> loc_api \<Rightarrow> loc_api" where
  "updateEvtMask a event enabled s =
     (let m = mEvtMask (adapters s a);
          m' = (if enabled then m OR event else m AND NOT event)
      in api_updateEvtMask (s\<lparr>adapters := (adapters s)(a := (adapters s a)\<lparr>mEvtMask := m'\<rparr>)\<rparr>))"

fun api_proc :: "api_msg \<Rightarrow> loc_api \<Rightarrow> loc_api" where
  "api_proc LocSsrMsg s = (let s = api_close s in api_open (getEvtMask s) s)"
| "api_proc (LocOpenMsg m) s = api_open m s"

text \<open>One iteration of the message task, and the task run until its queue is empty
  (processing a message sends none).\<close>

definition api_deliver :: "loc_api \<Rightarrow> loc_api" where
  "api_deliver s = (case queue s of [] \<Rightarrow> s | m # ms \<Rightarrow> api_proc m (s\<lparr>queue := ms\<rparr>))"

definition api_drain :: "loc_api \<Rightarrow> loc_api" where
  "api_drain s = (api_deliver ^^ length (queue s)) s"

text \<open>\<open>handleEngineUpEvent\<close>: \<open>up\<close> is what the adapters do with the event (virtual) on
  the state they share.\<close>

definition api_handleEngineUpEvent :: "(addr \<Rightarrow> 's \<Rightarrow> 's) \<Rightarrow> loc_api \<times> 's \<Rightarrow> loc_api \<times> 's" where
  "api_handleEngineUpEvent up =
     (\<lambda>(s, w). let s = sendMsg LocSsrMsg s in (s, to_all_adapters up (mLocAdapters s) w))"

datatype api_op =
    Add addr | Remove addr | Mask addr evt_mask bool | EngineUp | Deliver

fun api_do :: "api_op \<Rightarrow> loc_api \<Rightarrow> loc_api" where
  "api_do (Add a) s = addAdapter a s"
| "api_do (Remove a) s = removeAdapter a s"
| "api_do (Mask a event enabled) s = updateEvtMask a event enabled s"
| "api_do EngineUp s = fst (api_handleEngineUpEvent (\<lambda>_ w. w) (s, ()))"
| "api_do Deliver s = api_deliver s"

section \<open>The registry is a set of at most ten adapters\<close>

definition slots_of :: "addr list \<Rightarrow> addr option list" where
  "slots_of as = map Some as @ replicate (MAX_ADAPTERS - length as) None"

fun live :: "addr option list \<Rightarrow> addr list" where
  "live (Some a # xs) = a # live xs"
| "live _ = []"

definition registered :: "loc_api \<Rightarrow> addr list" where
  "registered s = live (mLocAdapters s)"

definition api_wf :: "loc_api \<Rightarrow> bool" where
  "api_wf s \<longleftrightarrow> mLocAdapters s = slots_of (registered s) \<and> distinct (registered s) \<and>
     length (registered s) \<le> MAX_ADAPTERS"

lemma live_slots [simp]: "live (slots_of as) = as"
proof -
  have "live (replicate k None) = []" for k
    by (cases k) auto
  then have "live (map Some as @ replicate k None) = as" for k
    by (induction as) auto
  then show ?thesis by (simp add: slots_of_def)
qed

lemma api_wfI:
  "mLocAdapters s = slots_of as \<Longrightarrow> distinct as \<Longrightarrow> length as \<le> MAX_ADAPTERS \<Longrightarrow> api_wf s"
  by (simp add: api_wf_def registered_def)

lemma registered_eq: "mLocAdapters s = slots_of as \<Longrightarrow> registered s = as"
  by (simp add: registered_def)

lemma length_slots [simp]: "length as \<le> MAX_ADAPTERS \<Longrightarrow> length (slots_of as) = MAX_ADAPTERS"
  by (simp add: slots_of_def)

lemma nth_slots: "i < MAX_ADAPTERS \<Longrightarrow> slots_of as ! i = (if i < length as then Some (as ! i) else None)"
  by (auto simp: slots_of_def nth_append)

lemma to_all_slots: "to_all_adapters call (slots_of as) s = fold call as s"
proof -
  have "to_all_adapters call (replicate k None) s = s" for k s
    by (cases k) auto
  then have "to_all_adapters call (map Some as @ replicate k None) s = fold call as s" for k
    by (induction as arbitrary: s) auto
  then show ?thesis by (simp add: slots_of_def)
qed

lemma add_loop_slots:
  "add_loop a (map Some as @ replicate k None) =
     (if a \<in> set as \<or> k = 0 then None
      else Some (map Some (as @ [a]) @ replicate (k - 1) None))"
proof (induction as)
  case Nil
  then show ?case by (cases k) auto
qed auto

lemma addAdapter_slots:
  assumes "mLocAdapters s = slots_of as" "length as \<le> MAX_ADAPTERS"
  shows "addAdapter a s =
    (if a \<in> set as \<or> length as = MAX_ADAPTERS then s
     else s\<lparr>mLocAdapters := slots_of (as @ [a]),
            queue := queue s @ [LocOpenMsg (mEvtMask (adapters s a))]\<rparr>)"
  using assms by (auto simp: addAdapter_def slots_of_def add_loop_slots sendMsg_def)

lemma scan_up_slots:
  "\<lbrakk>j < n; n \<le> length xs; \<forall>k. j < k \<and> k < n \<longrightarrow> xs ! k \<noteq> None; n < length xs \<longrightarrow> xs ! n = None\<rbrakk>
   \<Longrightarrow> scan_up xs j = n"
proof (induction xs j rule: scan_up.induct)
  case (1 xs i)
  show ?case
  proof (cases "Suc i = n")
    case True
    with 1 show ?thesis by (subst scan_up.simps) (auto simp: Let_def)
  next
    case False
    with 1 have "Suc i < n" by simp
    with 1 show ?thesis by (subst scan_up.simps) (auto simp: Let_def)
  qed
qed

text \<open>What the swap of \<open>removeAdapter\<close> leaves: the last adapter takes the place of the
  one removed.\<close>

definition take_out :: "addr list \<Rightarrow> addr list \<Rightarrow> addr list" where
  "take_out xs ys = (if ys = [] then xs else xs @ last ys # butlast ys)"

lemma take_out_facts [simp]:
  "mset (take_out xs ys) = mset xs + mset ys"
  "set (take_out xs ys) = set xs \<union> set ys"
  "length (take_out xs ys) = length xs + length ys"
proof -
  show m: "mset (take_out xs ys) = mset xs + mset ys"
    by (cases ys rule: rev_cases) (auto simp: take_out_def)
  show "set (take_out xs ys) = set xs \<union> set ys"
    using m by (metis set_mset_mset set_mset_union)
  show "length (take_out xs ys) = length xs + length ys"
    using m by (metis size_mset size_union)
qed

lemma distinct_take_out: "distinct (xs @ a # ys) \<Longrightarrow> distinct (take_out xs ys)"
  using mset_eq_imp_distinct_iff [of "take_out xs ys" "xs @ ys"] by auto

lemma remove_at_slots:
  assumes s: "mLocAdapters s = slots_of (xs @ a # ys)" and l: "length (xs @ a # ys) \<le> MAX_ADAPTERS"
  shows "snd (remove_at (length xs) s) = length xs + length ys"
    and "mLocAdapters (fst (remove_at (length xs) s)) = slots_of (take_out xs ys)"
proof -
  let ?n = "length xs + length ys"
  have scan: "scan_up ((slots_of (xs @ a # ys))[length xs := None]) (length xs) = Suc ?n"
    using l by (intro scan_up_slots) (auto simp: nth_slots)
  then show "snd (remove_at (length xs) s) = ?n"
    using s by (simp add: remove_at_def Let_def)
  have "(((slots_of (xs @ a # ys))[length xs := None])
          [length xs := ((slots_of (xs @ a # ys))[length xs := None]) ! ?n])[?n := None]
        = slots_of (take_out xs ys)" (is "?l = ?r")
  proof (rule nth_equalityI)
    show "length ?l = length ?r" using l by simp
    fix i assume "i < length ?l"
    then have i: "i < MAX_ADAPTERS" using l by simp
    show "?l ! i = ?r ! i"
    proof (cases ys rule: rev_cases)
      case Nil
      then show ?thesis using i l by (auto simp: nth_slots nth_list_update nth_append take_out_def)
    next
      case (snoc zs z)
      then show ?thesis using i l
        by (auto simp: nth_slots nth_list_update nth_append nth_Cons' take_out_def)
    qed
  qed
  then show "mLocAdapters (fst (remove_at (length xs) s)) = slots_of (take_out xs ys)"
    using s scan by (auto simp: remove_at_def Let_def api_close_def sendMsg_def)
qed

lemma remove_loop_absent:
  "\<lbrakk>mLocAdapters s = slots_of as; length as \<le> MAX_ADAPTERS; a \<notin> set (drop i as)\<rbrakk> \<Longrightarrow> remove_loop a i s = s"
proof (induction a i s rule: remove_loop.induct)
  case (1 a i s)
  show ?case
  proof (cases "i < length as")
    case True
    with 1(5) have "as ! i \<noteq> a" "a \<notin> set (drop (Suc i) as)"
      by (auto simp: Cons_nth_drop_Suc [symmetric])
    with 1 True show ?thesis by (subst remove_loop.simps) (auto simp: nth_slots)
  next
    case False
    with 1 show ?thesis by (subst remove_loop.simps) (auto simp: nth_slots)
  qed
qed

lemma remove_loop_present:
  "\<lbrakk>mLocAdapters s = slots_of (xs @ a # ys); length (xs @ a # ys) \<le> MAX_ADAPTERS;
    distinct (xs @ a # ys); i \<le> length xs\<rbrakk>
   \<Longrightarrow> remove_loop a i s = fst (remove_at (length xs) s)"
proof (induction a i s rule: remove_loop.induct)
  case (1 a i s)
  show ?case
  proof (cases "i = length xs")
    case True
    note r = remove_at_slots [OF 1(3,4)]
    have "remove_loop a (Suc (length xs + length ys)) (fst (remove_at (length xs) s))
          = fst (remove_at (length xs) s)"
      using 1(4) by (intro remove_loop_absent [OF r(2)]) auto
    with 1 True r show ?thesis by (subst remove_loop.simps) (auto simp: nth_slots nth_append)
  next
    case False
    with 1 show ?thesis
      by (subst remove_loop.simps) (auto simp: nth_slots nth_append in_set_conv_nth)
  qed
qed

lemma removeAdapter_cases:
  assumes "mLocAdapters s = slots_of as" "length as \<le> MAX_ADAPTERS" "distinct as"
  obtains (absent) "a \<notin> set as" "removeAdapter a s = s"
  | (present) xs ys where "as = xs @ a # ys" "removeAdapter a s = fst (remove_at (length xs) s)"
      "mLocAdapters (removeAdapter a s) = slots_of (take_out xs ys)"
proof (cases "a \<in> set as")
  case True
  then obtain xs ys where e: "as = xs @ a # ys" by (meson split_list)
  with assms remove_loop_present [of s xs a ys 0] remove_at_slots(2) [of s xs a ys] show thesis
    by (intro present) (auto simp: removeAdapter_def)
next
  case False
  with assms remove_loop_absent [of s as a 0] show thesis
    by (intro absent) (auto simp: removeAdapter_def)
qed

text \<open>What the operations promise their callers, \<open>LocAdapterBase\<close> (whose constructor and
  destructor register and deregister it) and the dispatch loops: a set of members with a
  capacity, without duplicates.\<close>

locale registry =
  fixes reg_add reg_remove :: "'a \<Rightarrow> 's \<Rightarrow> 's"
    and members :: "'s \<Rightarrow> 'a list"
    and ok :: "'s \<Rightarrow> bool"
    and cap :: nat
  assumes add_ok: "ok s \<Longrightarrow> ok (reg_add a s)"
    and remove_ok: "ok s \<Longrightarrow> ok (reg_remove a s)"
    and ok_members: "ok s \<Longrightarrow> distinct (members s) \<and> length (members s) \<le> cap"
    and members_add: "ok s \<Longrightarrow> mset (members (reg_add a s)) =
      (if a \<in> set (members s) \<or> length (members s) = cap then mset (members s)
       else add_mset a (mset (members s)))"
    and members_remove: "ok s \<Longrightarrow> mset (members (reg_remove a s)) = mset (members s) - {#a#}"
begin

lemma add_set:
  assumes "ok s"
  shows "set (members (reg_add a s)) =
    (if card (set (members s)) < cap then insert a (set (members s)) else set (members s))"
proof -
  have "card (set (members s)) = length (members s)" "length (members s) \<le> cap"
    using ok_members [OF assms] distinct_card by auto
  then have "mset (members (reg_add a s)) =
      (if a \<in> set (members s) \<or> \<not> card (set (members s)) < cap then mset (members s)
       else add_mset a (mset (members s)))"
    using members_add [OF assms, of a] by auto
  then show ?thesis
    by (auto split: if_splits dest!: arg_cong [where f = set_mset])
qed

lemma remove_set: "ok s \<Longrightarrow> set (members (reg_remove a s)) = set (members s) - {a}"
proof -
  assume s: "ok s"
  have "set (members (reg_remove a s)) = set_mset (mset (members s) - {#a#})"
    using members_remove [OF s, of a] by (metis set_mset_mset)
  also have "\<dots> = set (remove1 a (members s))" by (simp flip: mset_remove1)
  also have "\<dots> = set (members s) - {a}" using ok_members [OF s] by (simp add: set_remove1_eq)
  finally show ?thesis .
qed

lemma each_once: "ok s \<Longrightarrow> mset (members s) = mset_set (set (members s))"
  using ok_members by (simp add: mset_set_set)

end

lemma api_wfE:
  assumes "api_wf s"
  obtains as where "mLocAdapters s = slots_of as" "registered s = as" "distinct as"
    "length as \<le> MAX_ADAPTERS"
  using assms by (simp add: api_wf_def)

lemma api_wf_members: "api_wf s \<Longrightarrow> distinct (registered s) \<and> length (registered s) \<le> MAX_ADAPTERS"
  by (simp add: api_wf_def)

lemma addAdapter_wf:
  assumes "api_wf s"
  shows "api_wf (addAdapter a s)"
    and "registered (addAdapter a s) =
      (if a \<in> set (registered s) \<or> length (registered s) = MAX_ADAPTERS then registered s
       else registered s @ [a])"
proof -
  obtain as where e: "mLocAdapters s = slots_of as" "registered s = as" "distinct as"
      "length as \<le> MAX_ADAPTERS" using api_wfE [OF assms] .
  note f = addAdapter_slots [OF e(1,4), of a]
  show "registered (addAdapter a s) =
      (if a \<in> set (registered s) \<or> length (registered s) = MAX_ADAPTERS then registered s
       else registered s @ [a])"
    using f by (simp add: registered_def e(1))
  show "api_wf (addAdapter a s)"
  proof (cases "a \<in> set as \<or> length as = MAX_ADAPTERS")
    case True
    with f assms show ?thesis by simp
  next
    case False
    with f e show ?thesis by (intro api_wfI [of _ "as @ [a]"]) auto
  qed
qed

lemma removeAdapter_wf:
  assumes "api_wf s"
  shows "api_wf (removeAdapter a s)"
    and "mset (registered (removeAdapter a s)) = mset (registered s) - {#a#}"
proof -
  obtain as where e: "mLocAdapters s = slots_of as" "registered s = as" "distinct as"
      "length as \<le> MAX_ADAPTERS" using api_wfE [OF assms] .
  have "api_wf (removeAdapter a s) \<and> mset (registered (removeAdapter a s)) = mset as - {#a#}"
  proof (rule removeAdapter_cases [OF e(1,4,3), where a = a])
    assume "a \<notin> set as" "removeAdapter a s = s"
    with assms e(2) show ?thesis by (simp add: diff_single_trivial)
  next
    fix xs ys assume p: "as = xs @ a # ys" "mLocAdapters (removeAdapter a s) = slots_of (take_out xs ys)"
    have "api_wf (removeAdapter a s)"
      using e(3,4) p(1) distinct_take_out [of xs a ys] by (intro api_wfI [OF p(2)]) auto
    then show ?thesis using p by (simp add: registered_eq [OF p(2)])
  qed
  then show "api_wf (removeAdapter a s)"
    "mset (registered (removeAdapter a s)) = mset (registered s) - {#a#}" using e(2) by auto
qed

interpretation api: registry addAdapter removeAdapter registered api_wf MAX_ADAPTERS
  by unfold_locales
    (simp_all add: addAdapter_wf removeAdapter_wf api_wf_members)

text \<open>The abstract registry: the adapters alive after a sequence of operations. An
  eleventh adapter is not registered.\<close>

fun reg_do :: "api_op \<Rightarrow> addr set \<Rightarrow> addr set" where
  "reg_do (Add a) A = (if card A < MAX_ADAPTERS then insert a A else A)"
| "reg_do (Remove a) A = A - {a}"
| "reg_do _ A = A"

definition api_run :: "api_op list \<Rightarrow> loc_api \<Rightarrow> loc_api" where
  "api_run ops s = fold api_do ops s"

definition reg_run :: "api_op list \<Rightarrow> addr set" where
  "reg_run ops = fold reg_do ops {}"

lemma proc_slots [simp]:
  "mLocAdapters (api_proc m s) = mLocAdapters s" "adapters (api_proc m s) = adapters s"
  "mExcludedMask (api_proc m s) = mExcludedMask s" "queue (api_proc m s) = queue s"
  by (cases m; simp add: api_close_def api_open_def Let_def)+

lemma deliver_slots [simp]:
  "mLocAdapters (api_deliver s) = mLocAdapters s" "adapters (api_deliver s) = adapters s"
  "mExcludedMask (api_deliver s) = mExcludedMask s"
  by (simp_all add: api_deliver_def split: list.split)

lemma same_slots:
  assumes "mLocAdapters s' = mLocAdapters s"
  shows "api_wf s' = api_wf s" "registered s' = registered s"
  using assms by (simp_all add: api_wf_def registered_def)

lemma do_same_slots:
  "mLocAdapters (api_do (Mask a event enabled) s) = mLocAdapters s"
  "mLocAdapters (api_do EngineUp s) = mLocAdapters s"
  "mLocAdapters (api_do Deliver s) = mLocAdapters s"
  by (simp_all add: updateEvtMask_def api_updateEvtMask_def sendMsg_def Let_def
      api_handleEngineUpEvent_def)

lemma api_do_refines:
  assumes "api_wf s"
  shows "api_wf (api_do op s) \<and> set (registered (api_do op s)) = reg_do op (set (registered s))"
proof (cases op)
  case (Add a)
  then show ?thesis using assms api.add_ok api.add_set by simp
next
  case (Remove a)
  then show ?thesis using assms api.remove_ok api.remove_set by simp
qed (use assms same_slots [OF do_same_slots(1)] same_slots [OF do_same_slots(2)]
      same_slots [OF do_same_slots(3)] in \<open>simp_all del: api_do.simps\<close>)

lemma init_wf: "api_wf (init_api excl heap)" "registered (init_api excl heap) = []"
proof -
  have "mLocAdapters (init_api excl heap) = slots_of []" by (simp add: init_api_def slots_of_def)
  then show "api_wf (init_api excl heap)" "registered (init_api excl heap) = []"
    by (auto intro: api_wfI simp: registered_eq)
qed

lemma api_run_refines:
  "api_wf (api_run ops (init_api excl heap)) \<and>
   set (registered (api_run ops (init_api excl heap))) = reg_run ops"
proof (induction ops rule: rev_induct)
  case Nil
  then show ?case by (simp add: api_run_def reg_run_def init_wf)
next
  case (snoc op ops)
  then show ?case using api_do_refines [of _ op] by (simp add: api_run_def reg_run_def)
qed

text \<open>C4: Whatever adapters are created, destroyed, masked and restarted in whatever order,
  a report dispatched to all adapters (\<open>TO_ALL_ADAPTERS\<close>, the loop of \<open>reportPosition\<close>,
  \<open>reportSv\<close>, \<open>reportStatus\<close>, \<open>reportNmea\<close>, \<open>handleEngineDownEvent\<close>) reaches every adapter that
  is registered exactly once and no other: the removal by swapping in the last adapter
  leaves neither a hole that would hide an adapter from the loop nor a destroyed one.\<close>

theorem api_dispatch_exactly_once:
  "mset (to_all_adapters (\<lambda>a log. log @ [a]) (mLocAdapters (api_run ops (init_api excl heap))) [])
   = mset_set (reg_run ops)"
proof -
  let ?s = "api_run ops (init_api excl heap)"
  have r: "api_wf ?s" "set (registered ?s) = reg_run ops" using api_run_refines by auto
  have f: "fold (\<lambda>a log. log @ [a]) as xs = xs @ as" for as xs :: "addr list"
    by (induction as arbitrary: xs) auto
  have "to_all_adapters (\<lambda>a log. log @ [a]) (mLocAdapters ?s) [] = registered ?s"
    using r(1) by (elim api_wfE) (simp add: to_all_slots f)
  then show ?thesis using api.each_once [OF r(1)] r(2) by simp
qed

lemma to_1st_slots:
  "to_1st_handling_adapter (\<lambda>a log. (h a, log @ [a])) (slots_of as) log =
   log @ takeWhile (\<lambda>a. \<not> h a) as @ take 1 (dropWhile (\<lambda>a. \<not> h a) as)"
proof -
  let ?f = "\<lambda>a log. (h a, log @ [a])"
  have "to_1st_handling_adapter ?f (replicate k None) log = log" for k log
    by (cases k) auto
  then have "to_1st_handling_adapter ?f (map Some as @ replicate k None) log =
     log @ takeWhile (\<lambda>a. \<not> h a) as @ take 1 (dropWhile (\<lambda>a. \<not> h a) as)" for k
    by (induction as arbitrary: log) auto
  then show ?thesis by (simp add: slots_of_def)
qed

text \<open>A request that one adapter has to serve (\<open>TO_1ST_HANDLING_ADAPTER\<close>: the loop of
  \<open>requestATL\<close>, \<open>releaseATL\<close>, \<open>requestSuplES\<close>, \<open>requestNiNotify\<close>, \<open>requestTime\<close> and others) is
  accepted by exactly one adapter if any registered adapter accepts it, is offered to no
  adapter twice and to none after the one that accepted, and when nobody accepts it every
  registered adapter has been asked.\<close>

theorem api_first_handler:
  "let asked = to_1st_handling_adapter (\<lambda>a log. (h a, log @ [a]))
                 (mLocAdapters (api_run ops (init_api excl heap))) []
   in distinct asked \<and> set asked \<subseteq> reg_run ops \<and>
      filter h asked = (if \<exists>a \<in> reg_run ops. h a then [last asked] else []) \<and>
      (set asked = reg_run ops \<or> (\<exists>a \<in> reg_run ops. h a))"
proof -
  let ?s = "api_run ops (init_api excl heap)"
  obtain as where e: "mLocAdapters ?s = slots_of as" "registered ?s = as" "distinct as"
    using api_run_refines api_wfE by metis
  have s: "set as = reg_run ops" using api_run_refines e(2) by metis
  show ?thesis
  proof (cases "\<exists>a \<in> set as. h a")
    case True
    then obtain xs a ys where x: "as = xs @ a # ys" "h a" "\<forall>b \<in> set xs. \<not> h b"
      by (elim list_split_first)
    then have "to_1st_handling_adapter (\<lambda>a log. (h a, log @ [a])) (mLocAdapters ?s) [] = xs @ [a]"
      by (simp add: e(1) to_1st_slots takeWhile_append2 dropWhile_append2)
    moreover have "filter h xs = []" using x(3) by (simp add: filter_empty_conv)
    ultimately show ?thesis using True x e(3) by (auto simp flip: s)
  next
    case False
    then have "to_1st_handling_adapter (\<lambda>a log. (h a, log @ [a])) (mLocAdapters ?s) [] = as"
      by (simp add: e(1) to_1st_slots takeWhile_eq_all_conv [THEN iffD2]
          dropWhile_eq_Nil_conv [THEN iffD2])
    with False e(3) show ?thesis by (auto simp: filter_empty_conv simp flip: s)
  qed
qed

section \<open>The mask the modem is opened with\<close>

definition mask_union :: "(addr \<Rightarrow> adapter) \<Rightarrow> addr list \<Rightarrow> evt_mask" where
  "mask_union heap as = foldr (\<lambda>a m. mEvtMask (heap a) OR m) as 0"

lemma bit_mask_union: "bit (mask_union heap as) n \<longleftrightarrow> (\<exists>a \<in> set as. bit (mEvtMask (heap a)) n)"
  unfolding mask_union_def by (induction as) (auto simp: bit_or_iff)

lemma fold_mask_union: "fold (\<lambda>a m. m OR mEvtMask (heap a)) as m0 = m0 OR mask_union heap as"
  unfolding mask_union_def by (induction as arbitrary: m0) (simp_all add: or.assoc)

lemma getEvtMask_wf:
  "api_wf s \<Longrightarrow> getEvtMask s = mask_union (adapters s) (registered s) AND NOT (mExcludedMask s)"
  by (elim api_wfE) (simp add: getEvtMask_def to_all_slots fold_mask_union)

lemma getEvtMask_same:
  "\<lbrakk>mLocAdapters s' = mLocAdapters s; adapters s' = adapters s; mExcludedMask s' = mExcludedMask s\<rbrakk>
   \<Longrightarrow> getEvtMask s' = getEvtMask s"
  by (simp add: getEvtMask_def)

text \<open>The calls of the lower layer that a queued message makes.\<close>

fun calls_of :: "evt_mask \<Rightarrow> api_msg \<Rightarrow> low_call list" where
  "calls_of m LocSsrMsg = [Close, Open m]"
| "calls_of m (LocOpenMsg m') = [Open m']"

lemma lower_proc: "lower (api_proc msg s) = lower s @ calls_of (getEvtMask s) msg"
proof (cases msg)
  case LocSsrMsg
  have "getEvtMask (api_close s) = getEvtMask s" by (rule getEvtMask_same) (simp_all add: api_close_def)
  then show ?thesis using LocSsrMsg by (simp add: api_close_def api_open_def)
qed (simp add: api_open_def)

lemma deliver_all:
  "queue s = ms \<Longrightarrow>
   lower ((api_deliver ^^ length ms) s) = lower s @ concat (map (calls_of (getEvtMask s)) ms) \<and>
   mLocAdapters ((api_deliver ^^ length ms) s) = mLocAdapters s \<and>
   adapters ((api_deliver ^^ length ms) s) = adapters s"
proof (induction ms arbitrary: s)
  case (Cons m ms)
  let ?s = "api_deliver s"
  have q: "queue ?s = ms" "lower ?s = lower s @ calls_of (getEvtMask s) m"
    using Cons.prems getEvtMask_same [of "s\<lparr>queue := ms\<rparr>" s]
    by (simp_all add: api_deliver_def lower_proc)
  have g: "getEvtMask ?s = getEvtMask s" by (rule getEvtMask_same) simp_all
  show ?case using Cons.IH [OF q(1)] q g by (simp add: funpow_swap1)
qed simp

lemma api_drain_lower:
  "lower (api_drain s) = lower s @ concat (map (calls_of (getEvtMask s)) (queue s))"
  "mLocAdapters (api_drain s) = mLocAdapters s" "adapters (api_drain s) = adapters s"
  using deliver_all [OF refl, of s] by (simp_all add: api_drain_def)

lemma run_excluded: "mExcludedMask (api_run ops (init_api excl heap)) = excl"
proof -
  have d: "mExcludedMask (fst (remove_at j s)) = mExcludedMask s" for j s
    by (auto simp: remove_at_def Let_def api_close_def sendMsg_def)
  have r: "mExcludedMask (remove_loop a i s) = mExcludedMask s" for a i s
    by (induction a i s rule: remove_loop.induct) (subst remove_loop.simps, auto simp: d)
  have "mExcludedMask (api_do op s) = mExcludedMask s" for op s
    by (cases op) (auto simp: addAdapter_def sendMsg_def removeAdapter_def r updateEvtMask_def
        api_updateEvtMask_def Let_def api_handleEngineUpEvent_def split: option.split)
  then have "mExcludedMask (fold api_do ops s) = mExcludedMask s" for s
    by (induction ops arbitrary: s) auto
  then show ?thesis by (simp add: api_run_def init_api_def)
qed

text \<open>C27: After an adapter changed its event mask, or the engine restarted, and the message
  task has caught up, the modem was last opened with exactly the events some registered
  adapter asks for and this context does not exclude; the restart closes it first.\<close>

theorem api_mask_reaches_modem:
  assumes "op = Mask a event enabled \<or> op = EngineUp"
  shows "let s = api_run ops (init_api excl heap); s' = api_drain (api_do op s)
    in \<exists>m. last (lower s') = Open m \<and>
       (\<forall>n. bit m n \<longleftrightarrow> (\<exists>b \<in> reg_run ops. bit (mEvtMask (adapters s' b)) n) \<and> n < 32 \<and> \<not> bit excl n) \<and>
       (op = EngineUp \<longrightarrow> last (butlast (lower s')) = Close) \<and>
       (op = Mask a event enabled \<longrightarrow> (\<forall>n. bit (mEvtMask (adapters s' a)) n \<longleftrightarrow>
          (if bit event n then enabled else bit (mEvtMask (adapters s a)) n)))"
proof -
  let ?s = "api_run ops (init_api excl heap)"
  let ?t = "api_do op ?s"
  let ?s' = "api_drain ?t"
  have r: "api_wf ?t" "set (registered ?t) = reg_run ops"
    using api_do_refines [of ?s op] api_run_refines [of ops excl heap] assms by auto
  have "mExcludedMask ?t = excl" using run_excluded [of "ops @ [op]" excl heap] by (simp add: api_run_def)
  then have bits: "bit (getEvtMask ?t) n \<longleftrightarrow>
      (\<exists>b \<in> reg_run ops. bit (mEvtMask (adapters ?s' b)) n) \<and> n < 32 \<and> \<not> bit excl n" for n
    using getEvtMask_wf [OF r(1)] r(2)
    by (auto simp: bit_and_iff bit_not_iff bit_mask_union api_drain_lower(3) possible_bit_def)
  have gm: "getEvtMask (sendMsg m x) = getEvtMask x" for m x
    by (rule getEvtMask_same) (simp_all add: sendMsg_def)
  show ?thesis
  proof (cases "op = EngineUp")
    case True
    then have q: "queue ?t = queue ?s @ [LocSsrMsg]"
      by (simp add: api_handleEngineUpEvent_def sendMsg_def)
    have "last (lower ?s') = Open (getEvtMask ?t)" "last (butlast (lower ?s')) = Close"
      by (simp_all add: api_drain_lower q butlast_append)
    then show ?thesis using bits True by (auto simp: Let_def)
  next
    case False
    then have o: "op = Mask a event enabled" using assms by simp
    then have q: "queue ?t = queue ?s @ [LocOpenMsg (getEvtMask ?t)]"
      by (simp add: updateEvtMask_def api_updateEvtMask_def Let_def gm) (simp add: sendMsg_def)
    have l: "last (lower ?s') = Open (getEvtMask ?t)"
      by (simp add: api_drain_lower q)
    have "bit (mEvtMask (adapters ?s' a)) n \<longleftrightarrow>
        (if bit event n then enabled else bit (mEvtMask (adapters ?s a)) n)" for n
      using o by (auto simp: api_drain_lower(3) updateEvtMask_def api_updateEvtMask_def Let_def
          sendMsg_def bit_and_iff bit_or_iff bit_not_iff dest: bit_imp_le_length)
    then show ?thesis using bits l o by (auto simp: Let_def)
  qed
qed

theorem api_mask_reaches_modem_witness:
  "\<exists>m. last (lower (api_drain (api_do (Mask 7 2 True)
          (api_run [Add 7, Add 8] (init_api 1 (\<lambda>_. \<lparr>mEvtMask = 1, inSession = False\<rparr>)))))) = Open m \<and>
       bit m 1 \<and> \<not> bit m 0"
  using api_mask_reaches_modem [where op = "Mask 7 2 True" and a = 7 and event = 2
      and enabled = True and ops = "[Add 7, Add 8]" and excl = 1
      and heap = "\<lambda>_. \<lparr>mEvtMask = 1, inSession = False\<rparr>"]
  by (auto simp: Let_def reg_run_def MAX_ADAPTERS_def bit_simps)

section \<open>Binary data as text\<close>

type_synonym bytes = "uint8 list"

text \<open>\<open>snprintf(&hexstring[i*2], 3, "%02X", ch)\<close>: two digits and the terminator. The
  processor's \<open>char\<close> is unsigned.\<close>

definition hex_digit :: "nat \<Rightarrow> uint8" where
  "hex_digit d = (if d < 10 then of_nat (48 + d) else of_nat (55 + d))"

definition put_hex :: "bytes \<Rightarrow> nat \<Rightarrow> uint8 \<Rightarrow> bytes" where
  "put_hex buf i ch =
     ((buf[i := hex_digit (unat ch div 16)])[i + 1 := hex_digit (unat ch mod 16)])[i + 2 := 0]"

fun hex_loop :: "bytes \<Rightarrow> nat \<Rightarrow> bytes \<Rightarrow> nat \<Rightarrow> bytes \<times> nat" where
  "hex_loop buf string_size [] i = (buf, i)"
| "hex_loop buf string_size (ch # data) i =
     (if i * 2 + 3 \<le> string_size
      then hex_loop (put_hex buf (i * 2) ch) string_size data (Suc i)
      else (buf, i))"

definition hexcode :: "bytes \<Rightarrow> nat \<Rightarrow> bytes \<Rightarrow> bytes \<times> nat" where
  "hexcode hexstring string_size data = hex_loop hexstring string_size data 0"

text \<open>\<open>decodeAddress\<close>: None at the top is an access outside of a buffer (\<open>data[0]\<close> of no
  bytes, the terminator in an empty string); a NULL pointer is None.\<close>

fun put_digit :: "nat \<Rightarrow> uint8 \<Rightarrow> bytes \<times> nat \<Rightarrow> bytes \<times> nat" where
  "put_digit string_size d (buf, idx) =
     (if d \<le> 9 \<and> idx + 1 < string_size then (buf[idx := d + 48], idx + 1) else (buf, idx))"

fun addr_loop :: "nat \<Rightarrow> bytes \<Rightarrow> bytes \<times> nat \<Rightarrow> bytes \<times> nat" where
  "addr_loop string_size [] s = s"
| "addr_loop string_size (ch # data) s =
     addr_loop string_size data
       (put_digit string_size (drop_bit 4 ch) (put_digit string_size (ch AND 0x0F) s))"

definition decodeAddress :: "bytes option \<Rightarrow> nat \<Rightarrow> bytes option \<Rightarrow> (bytes option \<times> nat) option" where
  "decodeAddress addr_string string_size data =
     (case (data, addr_string) of
        (Some ds, Some buf) \<Rightarrow>
          (case ds of
             [] \<Rightarrow> None
           | d # rest \<Rightarrow>
               if d \<noteq> 0x91 then (if buf = [] then None else Some (Some (buf[0 := 0]), 0))
               else case addr_loop string_size rest (buf, 0) of (buf, idxOutput) \<Rightarrow>
                 if idxOutput < length buf then Some (Some (buf[idxOutput := 0]), idxOutput)
                 else None)
      | _ \<Rightarrow> Some (addr_string, 0))"

text \<open>The readings the results are compared with: the string in a buffer, the bytes a
  string of hexadecimal digits denotes, and the packed decimal code of a telephone number
  (two digits a byte, the low half first, a last half filled with \<open>F\<close>).\<close>

definition text_of :: "bytes \<Rightarrow> bytes" where
  "text_of buf = takeWhile (\<lambda>b. b \<noteq> 0) buf"

definition digit_val :: "uint8 \<Rightarrow> nat" where
  "digit_val c = (if unat c < 58 then unat c - 48 else unat c - 55)"

fun unhex :: "bytes \<Rightarrow> bytes" where
  "unhex (a # b # rest) = of_nat (16 * digit_val a + digit_val b) # unhex rest"
| "unhex _ = []"

fun bcd :: "nat list \<Rightarrow> bytes" where
  "bcd [] = []"
| "bcd [d] = [of_nat (15 * 16 + d)]"
| "bcd (d # e # ds) = of_nat (e * 16 + d) # bcd ds"

lemma hex_digit_facts:
  assumes "d < 16"
  shows "digit_val (hex_digit d) = d" "hex_digit d \<noteq> 0"
proof -
  have u: "unat (of_nat n :: uint8) = n" if "n < 256" for n :: nat
    using that by (simp add: unsigned_of_nat take_bit_nat_eq_self)
  have v: "unat (hex_digit d) = (if d < 10 then 48 + d else 55 + d)"
    using assms u [of "48 + d"] u [of "55 + d"] by (simp add: hex_digit_def del: of_nat_add)
  show "digit_val (hex_digit d) = d" using assms by (simp add: digit_val_def v)
  have "unat (hex_digit d) \<noteq> 0" using v by simp
  then show "hex_digit d \<noteq> 0" by auto
qed

definition hex_of :: "bytes \<Rightarrow> bytes" where
  "hex_of data = concat (map (\<lambda>ch. [hex_digit (unat ch div 16), hex_digit (unat ch mod 16)]) data)"

lemma unat8: "unat (ch :: uint8) div 16 < 16" "unat ch mod 16 < 16"
  using unsigned_less [of ch, where 'a = nat] by simp_all

lemma hex_of_facts: "0 \<notin> set (hex_of data)" "unhex (hex_of data) = data" "length (hex_of data) = 2 * length data"
  using unat8 hex_digit_facts
  by (induction data) (force simp: hex_of_def)+

lemma put_hex_eq:
  assumes "length pre = i" "i + 3 \<le> length (pre @ rest)"
  shows "put_hex (pre @ rest) i ch = (pre @ hex_of [ch]) @ 0 # drop 3 rest"
proof -
  obtain a b c rest' where r: "rest = a # b # c # rest'"
    using assms by (cases rest; cases "tl rest"; cases "tl (tl rest)") auto
  show ?thesis using assms(1) by (simp add: r put_hex_def hex_of_def list_update_append)
qed

lemma hex_loop_eq:
  assumes "string_size \<le> length (pre @ rest)" "length pre = 2 * i"
  shows "hex_loop (pre @ rest) string_size data i =
    (let k = min (length data) ((string_size - 1) div 2 - i) in
     (if k = 0 then pre @ rest else pre @ hex_of (take k data) @ 0 # drop (2 * k + 1) rest, i + k))"
  using assms
proof (induction data arbitrary: pre rest i)
  case (Cons ch data)
  show ?case
  proof (cases "i * 2 + 3 \<le> string_size")
    case True
    let ?rest = "0 # drop 3 rest"
    have p: "put_hex (pre @ rest) (i * 2) ch = (pre @ hex_of [ch]) @ ?rest"
      using Cons.prems True by (intro put_hex_eq) auto
    define k where "k = min (length data) ((string_size - 1) div 2 - Suc i)"
    have k: "min (length (ch # data)) ((string_size - 1) div 2 - i) = Suc k"
      using True by (simp add: k_def) linarith
    have l: "string_size \<le> length ((pre @ hex_of [ch]) @ ?rest)" "length (pre @ hex_of [ch]) = 2 * Suc i"
      using Cons.prems True by (auto simp: hex_of_facts)
    have h: "hex_of (take (Suc k) (ch # data)) = hex_of [ch] @ hex_of (take k data)"
      by (simp add: hex_of_def)
    have d: "drop (2 * k + 1) ?rest = drop (2 * Suc k + 1) rest" if "k \<noteq> 0"
      using that by (cases k) (simp_all add: eval_nat_numeral)
    have "hex_loop (pre @ rest) string_size (ch # data) i =
        hex_loop ((pre @ hex_of [ch]) @ ?rest) string_size data (Suc i)"
      using True p by simp
    also have "\<dots> = (if k = 0 then (pre @ hex_of [ch]) @ ?rest
        else (pre @ hex_of [ch]) @ hex_of (take k data) @ 0 # drop (2 * k + 1) ?rest, Suc i + k)"
      using Cons.IH [OF l] by (simp only: Let_def flip: k_def)
    also have "\<dots> = (pre @ hex_of (take (Suc k) (ch # data)) @ 0 # drop (2 * Suc k + 1) rest, i + Suc k)"
    proof (cases "k = 0")
      case True
      then show ?thesis by (simp add: eval_nat_numeral)
    next
      case False
      show ?thesis unfolding h using d [OF False] False by simp
    qed
    finally show ?thesis unfolding k Let_def by simp
  next
    case False
    then have "(string_size - 1) div 2 - i = 0" by linarith
    with False show ?thesis by simp
  qed
qed simp

text \<open>\<open>hexcode\<close> writes as many bytes as fit: with room for \<open>n\<close> characters it encodes
  the first \<open>(n - 1) div 2\<close> bytes of the data, or all of them, returns that number, leaves
  the memory behind the buffer alone, and what it wrote is a terminated string that decodes
  to those bytes. With no room for a digit pair it writes nothing, not even the terminator.\<close>

theorem hexcode_roundtrip:
  assumes "string_size \<le> length hexstring"
  shows "case hexcode hexstring string_size data of (buf, k) \<Rightarrow>
    k = min (length data) ((string_size - 1) div 2) \<and>
    drop string_size buf = drop string_size hexstring \<and>
    (if k = 0 then buf = hexstring else unhex (text_of buf) = take k data \<and> length (text_of buf) = 2 * k)"
proof -
  define k where "k = min (length data) ((string_size - 1) div 2)"
  have e: "hexcode hexstring string_size data =
      (if k = 0 then hexstring else hex_of (take k data) @ 0 # drop (2 * k + 1) hexstring, k)"
    using hex_loop_eq [of string_size "[]" hexstring 0 data] assms
    by (simp only: hexcode_def Let_def k_def append_Nil diff_zero add_0 list.size mult_0_right simp_thms)
  have t: "text_of (hex_of xs @ 0 # ys) = hex_of xs" for xs ys
    using hex_of_facts(1) [of xs] by (auto simp: text_of_def takeWhile_append)
  have kl: "k \<le> length data" by (simp add: k_def)
  show ?thesis
  proof (cases "k = 0")
    case False
    then have "k \<le> (string_size - 1) div 2" "string_size \<noteq> 0" by (auto simp: k_def)
    then have b: "2 * k + 1 \<le> string_size" by linarith
    have "drop string_size (hex_of (take k data) @ 0 # drop (2 * k + 1) hexstring) = drop string_size hexstring"
      using b kl by (simp add: hex_of_facts drop_Cons' add.commute)
    moreover have "min (length data) ((string_size - Suc 0) div 2) = k" by (simp add: k_def)
    ultimately show ?thesis using False kl by (simp add: e t hex_of_facts)
  qed (simp add: e k_def)
qed

theorem hexcode_roundtrip_witness:
  "unhex (text_of (fst (hexcode (replicate 8 7) 8 [0xAB, 0x01, 0xFF, 3]))) = [0xAB, 0x01, 0xFF]"
  using hexcode_roundtrip [of 8 "replicate 8 7" "[0xAB, 0x01, 0xFF, 3]"]
  by (auto split: prod.splits if_splits)

definition nibbles :: "bytes \<Rightarrow> bytes" where
  "nibbles data = concat (map (\<lambda>ch. [ch AND 0x0F, drop_bit 4 ch]) data)"

lemma addr_loop_fold: "addr_loop n data s = fold (put_digit n) (nibbles data) s"
  by (induction data arbitrary: s) (simp_all add: nibbles_def)

lemma put_digits:
  "n \<le> length (pre @ rest) \<Longrightarrow>
   fold (put_digit n) ds (pre @ rest, length pre) =
   (let w = take (n - 1 - length pre) (filter (\<lambda>d. d \<le> 9) ds)
    in (pre @ map (\<lambda>d. d + 48) w @ drop (length w) rest, length pre + length w))"
proof (induction ds arbitrary: pre rest)
  case (Cons d ds)
  show ?case
  proof (cases "d \<le> 9 \<and> length pre + 1 < n")
    case True
    then obtain r rest' where r: "rest = r # rest'" using Cons.prems by (cases rest) auto
    have p: "put_digit n d (pre @ rest, length pre) = ((pre @ [d + 48]) @ rest', length (pre @ [d + 48]))"
      using True r by (simp add: list_update_append)
    have m: "n - Suc (length pre) = Suc (n - Suc (Suc (length pre)))"
      using True by (simp add: Suc_diff_Suc)
    show ?thesis
      unfolding fold_simps comp_apply p
      using Cons.IH [of "pre @ [d + 48]" rest'] Cons.prems True r by (simp add: m Let_def)
  next
    case False
    then have "put_digit n d (pre @ rest, length pre) = (pre @ rest, length pre)" by auto
    moreover have "take (n - 1 - length pre) (filter (\<lambda>d. d \<le> 9) (d # ds)) =
        take (n - 1 - length pre) (filter (\<lambda>d. d \<le> 9) ds)"
      using False by (cases "d \<le> 9") auto
    ultimately show ?thesis using Cons.IH [OF Cons.prems] by simp
  qed
qed simp

lemma nat16:
  assumes "d < 16" "e < 16"
  shows "(of_nat (e * 16 + d) :: uint8) AND 0x0F = of_nat d"
    and "drop_bit 4 (of_nat (e * 16 + d) :: uint8) = of_nat e"
proof -
  have u: "unat (of_nat n :: uint8) = n" if "n < 256" for n :: nat
    using that by (simp add: unsigned_of_nat take_bit_nat_eq_self)
  have n: "e * 16 + d < 256" "d < 256" "e < 256" using assms by linarith+
  have m: "(15 :: uint8) = mask 4" by (simp add: mask_eq_exp_minus_1)
  have "unat (take_bit 4 (of_nat (e * 16 + d) :: uint8)) = unat (of_nat d :: uint8)"
    unfolding unsigned_take_bit_eq u [OF n(1)] u [OF n(2)] using assms(1)
    by (simp add: take_bit_eq_mod)
  then show "(of_nat (e * 16 + d) :: uint8) AND 0x0F = of_nat d"
    unfolding m take_bit_eq_mask [symmetric] by (rule unsigned_word_eqI)
  have "unat (drop_bit 4 (of_nat (e * 16 + d) :: uint8)) = unat (of_nat e :: uint8)"
    unfolding unsigned_drop_bit_eq u [OF n(1)] u [OF n(3)] using assms n
    by (simp add: drop_bit_eq_div take_bit_nat_eq_self)
  then show "drop_bit 4 (of_nat (e * 16 + d) :: uint8) = of_nat e"
    by (rule unsigned_word_eqI)
qed

lemma small_digit: "d < 10 \<Longrightarrow> (of_nat d :: uint8) \<le> 9"
proof -
  assume "d < 10"
  then have "unat (of_nat d :: uint8) \<le> unat (9 :: uint8)"
    by (simp add: unsigned_of_nat take_bit_nat_eq_self)
  then show ?thesis by (simp add: word_le_nat_alt)
qed

lemma bcd_nibbles:
  "\<forall>d \<in> set ds. d < 10 \<Longrightarrow> filter (\<lambda>d. d \<le> 9) (nibbles (bcd ds)) = map of_nat ds"
proof (induction ds rule: bcd.induct)
  case (2 d)
  have "nibbles (bcd [d]) = [of_nat d, of_nat 15]"
    using nat16 [of d 15] 2 by (simp add: nibbles_def del: of_nat_add of_nat_mult)
  then show ?case using 2 small_digit [of d] by simp
next
  case (3 d e ds)
  have "nibbles (bcd (d # e # ds)) = of_nat d # of_nat e # nibbles (bcd ds)"
    using nat16 [of d e] 3(2) by (simp add: nibbles_def del: of_nat_add of_nat_mult)
  then show ?case using 3 small_digit [of d] small_digit [of e] by simp
qed (simp add: nibbles_def)

text \<open>\<open>decodeAddress\<close> reads the packed decimal code of a telephone number back: for
  a number of digits \<open>ds\<close> behind the prefix \<open>0x91\<close> it leaves the number as a terminated
  string, or as many of its digits as leave room for the terminator, returns their count,
  and does not write behind the buffer.\<close>

theorem decodeAddress_roundtrip:
  assumes "\<forall>d \<in> set ds. d < 10" and "0 < string_size" and "string_size \<le> length buf"
  shows "\<exists>out. decodeAddress (Some buf) string_size (Some (0x91 # bcd ds)) =
        Some (Some out, min (length ds) (string_size - 1)) \<and>
      text_of out = map (\<lambda>d. of_nat (d + 48)) (take (string_size - 1) ds) \<and>
      drop string_size out = drop string_size buf"
proof -
  let ?w = "map (\<lambda>d. of_nat (d + 48)) (take (string_size - 1) ds) :: bytes"
  have l: "length ?w = min (length ds) (string_size - 1)" by simp
  have a: "addr_loop string_size (bcd ds) (buf, 0) = (?w @ drop (length ?w) buf, length ?w)"
    using put_digits [of string_size "[]" buf "nibbles (bcd ds)"] assms
    by (simp add: addr_loop_fold bcd_nibbles Let_def take_map comp_def add.commute)
  have b: "length ?w < length buf" "length ?w < string_size" using assms l by auto
  then obtain c rest where r: "drop (length ?w) buf = c # rest"
    by (metis Cons_nth_drop_Suc)
  have "unat (of_nat (d + 48) :: uint8) = d + 48" if "d < 10" for d :: nat
    using that by (simp add: unsigned_of_nat take_bit_nat_eq_self del: of_nat_add)
  then have z: "0 \<notin> set ?w" using assms(1) by (force dest: in_set_takeD)
  have o: "(?w @ drop (length ?w) buf)[length ?w := 0] = ?w @ 0 # rest"
    by (simp only: r) (simp add: list_update_append)
  have "text_of (?w @ 0 # rest) = ?w" using z by (auto simp: text_of_def takeWhile_append)
  moreover have "drop string_size (?w @ 0 # rest) = drop string_size buf"
  proof -
    have "drop string_size (?w @ 0 # rest) = drop (string_size - length ?w) (0 # rest)"
      using b(2) by simp
    also have "\<dots> = drop (string_size - length ?w) (c # rest)"
      using b(2) by (cases "string_size - length ?w") (simp_all del: length_map length_take)
    also have "\<dots> = drop string_size buf" using b(2) by (simp flip: r)
    finally show ?thesis .
  qed
  ultimately show ?thesis
    using a b(1) o l by (simp add: decodeAddress_def)
qed

theorem decodeAddress_roundtrip_witness:
  "\<exists>out. decodeAddress (Some (replicate 6 9)) 5 (Some [0x91, 0x21, 0x43, 0xF5]) = Some (Some out, 4) \<and>
     text_of out = [49, 50, 51, 52]"
  using decodeAddress_roundtrip [of "[1, 2, 3, 4, 5]" 5 "replicate 6 9"]
  by (simp add: eval_nat_numeral) blast

end
