(* ===== verification/DualContext.thy ===== *)
theory DualContext
  imports Target LocApiBase
begin

unbundle bit_operations_syntax

text \<open>
  The contexts of the clients, \<open>src/gps/core/LocDualContext.cpp\<close>, and their base class
  \<open>src/gps/core/ContextBase.cpp\<close>: the foreground and the background context, made on demand
  under one lock and kept for ever, the message task they share, and the choice of the API
  module of each. What the dynamic loader finds is an argument; the calls that leave the
  repository are recorded.
\<close>

section \<open>The API module of a context\<close>

datatype api_module = LbsApi | V02Api | RpcApi | BaseApi

text \<open>What the proxy library and the two API libraries give: whether a library can be opened,
  whether it has the function asked for, and whether that function returns an object.\<close>

record libraries =
  lbs_api :: bool
  v02_lib :: bool
  v02_getter :: bool
  v02_api :: bool
  rpc_lib :: bool
  rpc_getter :: bool
  rpc_api :: bool

definition createLocApi :: "libraries \<Rightarrow> uint32 \<Rightarrow> api_module" where
  "createLocApi libs target =
     (let locApi =
        (if TARGET_MPQ \<noteq> target then
           if lbs_api libs then Some LbsApi
           else if v02_lib libs then
             (if v02_getter libs then (if v02_api libs then Some V02Api else None) else None)
           else if rpc_lib libs then
             (if rpc_getter libs then (if rpc_api libs then Some RpcApi else None) else None)
           else None
         else None)
      in case locApi of None \<Rightarrow> BaseApi | Some a \<Rightarrow> a)"

text \<open>The proxy of the library, or the base class's when there is none.\<close>

record lbs_library =
  lbs_open :: bool
  lbs_getter :: bool
  lbs_object :: bool

definition getLBSProxy :: "lbs_library \<Rightarrow> bool" where
  "getLBSProxy l \<longleftrightarrow> lbs_open l \<and> lbs_getter l \<and> lbs_object l"

section \<open>The two contexts\<close>

definition mFgExclMask :: evt_mask where "mFgExclMask = 0"

definition mBgExclMask :: evt_mask where
  "mBgExclMask = push_bit 0 1 OR push_bit 1 1 OR push_bit 2 1 OR push_bit 3 1 OR push_bit 7 1 OR push_bit 8 1 OR
     push_bit 14 1 OR push_bit 24 1"

datatype ctx_kind = Fg | Bg

record msg_task =
  task_name :: string
  task_joinable :: bool

record ctx =
  mTask :: msg_task
  mLocApi :: loc_api
  mModule :: api_module

text \<open>The static variables, what was created, the calls of \<open>injectFeatureConfig\<close> of the proxy
  and the messages sent.\<close>

record 'm dual =
  mMsgTask :: "msg_task option"
  mFgContext :: "ctx option"
  mBgContext :: "ctx option"
  mInjectContext :: "ctx_kind option"
  ctx_created :: "ctx_kind list"
  tasks_made :: "msg_task list"
  config_injected :: "ctx_kind list"
  ctx_posted :: "(ctx_kind \<times> 'm) list"

definition dual0 :: "'m dual" where
  "dual0 = \<lparr>mMsgTask = None, mFgContext = None, mBgContext = None, mInjectContext = None, ctx_created = [],
     tasks_made = [], config_injected = [], ctx_posted = []\<rparr>"

definition getMsgTask :: "string \<Rightarrow> bool \<Rightarrow> 'm dual \<Rightarrow> msg_task \<times> 'm dual" where
  "getMsgTask name joinable s =
     (case mMsgTask s of
        Some t \<Rightarrow> (t, s)
      | None \<Rightarrow> let t = \<lparr>task_name = name, task_joinable = joinable\<rparr> in (t, s\<lparr>mMsgTask := Some t, tasks_made := tasks_made s @ [t]\<rparr>))"

definition LocDualContext :: "libraries \<Rightarrow> uint32 \<Rightarrow> msg_task \<Rightarrow> evt_mask \<Rightarrow> ctx" where
  "LocDualContext libs target t exMask =
     \<lparr>mTask = t, mLocApi = init_api exMask (\<lambda>_. \<lparr>mEvtMask = 0, inSession = False\<rparr>), mModule = createLocApi libs target\<rparr>"

definition injectFeatureConfig :: "ctx_kind \<Rightarrow> 'm dual \<Rightarrow> 'm dual" where
  "injectFeatureConfig cur s =
     (if mInjectContext s = Some cur then s\<lparr>config_injected := config_injected s @ [cur]\<rparr> else s)"

definition getLocFgContext ::
  "libraries \<Rightarrow> uint32 \<Rightarrow> 'm option \<Rightarrow> string \<Rightarrow> bool \<Rightarrow> 'm dual \<Rightarrow> 'm dual" where
  "getLocFgContext libs target firstMsg name joinable s =
     (let s = (if mFgContext s = None then
                 let (t, s) = getMsgTask name joinable s
                 in s\<lparr>mFgContext := Some (LocDualContext libs target t mFgExclMask), ctx_created := ctx_created s @ [Fg]\<rparr>
               else s);
          s = (if mInjectContext s = None then injectFeatureConfig Fg (s\<lparr>mInjectContext := Some Fg\<rparr>) else s)
      in case firstMsg of None \<Rightarrow> s | Some m \<Rightarrow> s\<lparr>ctx_posted := ctx_posted s @ [(Fg, m)]\<rparr>)"

definition getLocBgContext ::
  "libraries \<Rightarrow> uint32 \<Rightarrow> 'm option \<Rightarrow> string \<Rightarrow> bool \<Rightarrow> 'm dual \<Rightarrow> 'm dual" where
  "getLocBgContext libs target firstMsg name joinable s =
     (let s = (if mBgContext s = None then
                 let (t, s) = getMsgTask name joinable s
                 in s\<lparr>mBgContext := Some (LocDualContext libs target t mBgExclMask), ctx_created := ctx_created s @ [Bg]\<rparr>
               else s);
          s = (if mInjectContext s = None then injectFeatureConfig Bg (s\<lparr>mInjectContext := Some Bg\<rparr>) else s)
      in case firstMsg of None \<Rightarrow> s | Some m \<Rightarrow> s\<lparr>ctx_posted := ctx_posted s @ [(Bg, m)]\<rparr>)"

section \<open>Clients\<close>

text \<open>What a client asks for, with what the loader finds at that time.\<close>

record 'm request =
  req_kind :: ctx_kind
  req_libs :: libraries
  req_target :: uint32
  req_msg :: "'m option"
  req_name :: string
  req_joinable :: bool

definition get_context :: "'m request \<Rightarrow> 'm dual \<Rightarrow> 'm dual" where
  "get_context r = (case req_kind r of
      Fg \<Rightarrow> getLocFgContext (req_libs r) (req_target r) (req_msg r) (req_name r) (req_joinable r)
    | Bg \<Rightarrow> getLocBgContext (req_libs r) (req_target r) (req_msg r) (req_name r) (req_joinable r))"

definition excl_mask :: "ctx_kind \<Rightarrow> evt_mask" where
  "excl_mask k = (case k of Fg \<Rightarrow> mFgExclMask | Bg \<Rightarrow> mBgExclMask)"

text \<open>What the variables hold after a sequence of requests: the task is that of the first
  request, a context is that of the first request for it.\<close>

definition first_task :: "'m request list \<Rightarrow> msg_task" where
  "first_task rs = \<lparr>task_name = req_name (hd rs), task_joinable = req_joinable (hd rs)\<rparr>"

definition first_of :: "ctx_kind \<Rightarrow> 'm request list \<Rightarrow> 'm request option" where
  "first_of k rs = find (\<lambda>r. req_kind r = k) rs"

definition spec_context :: "ctx_kind \<Rightarrow> 'm request list \<Rightarrow> ctx option" where
  "spec_context k rs = map_option (\<lambda>r. LocDualContext (req_libs r) (req_target r) (first_task rs) (excl_mask k)) (first_of k rs)"

definition dual_spec :: "'m request list \<Rightarrow> 'm dual" where
  "dual_spec rs =
     \<lparr>mMsgTask = if rs = [] then None else Some (first_task rs),
      mFgContext = spec_context Fg rs, mBgContext = spec_context Bg rs,
      mInjectContext = if rs = [] then None else Some (req_kind (hd rs)),
      ctx_created = rev (remdups (rev (map req_kind rs))),
      tasks_made = if rs = [] then [] else [first_task rs],
      config_injected = if rs = [] then [] else [req_kind (hd rs)],
      ctx_posted = List.map_filter (\<lambda>r. map_option (Pair (req_kind r)) (req_msg r)) rs\<rparr>"

lemma first_task_snoc: "first_task (rs @ [r]) = (if rs = [] then first_task [r] else first_task rs)"
  by (simp add: first_task_def)

lemma find_snoc: "find P (xs @ [x]) = (case find P xs of None \<Rightarrow> if P x then Some x else None | Some y \<Rightarrow> Some y)"
  by (induction xs) auto

lemma spec_context_snoc:
  "spec_context k (rs @ [r]) =
     (if spec_context k rs = None \<and> req_kind r = k
      then Some (LocDualContext (req_libs r) (req_target r) (first_task (rs @ [r])) (excl_mask k)) else spec_context k rs)"
  by (auto simp: spec_context_def first_of_def find_snoc first_task_def split: option.split)
     (auto simp: hd_append find_None_iff)

lemma spec_context_None: "spec_context k rs = None \<longleftrightarrow> k \<notin> req_kind ` set rs"
  by (auto simp: spec_context_def first_of_def find_None_iff)

lemma first_occurrences_snoc:
  "rev (remdups (rev (xs @ [x]))) = (if x \<in> set xs then rev (remdups (rev xs)) else rev (remdups (rev xs)) @ [x])"
  by simp

lemma get_context_spec: "get_context r (dual_spec rs) = dual_spec (rs @ [r])"
proof (cases "rs = []")
  case True
  then show ?thesis
    by (cases "req_kind r") (auto simp: get_context_def getLocFgContext_def getLocBgContext_def dual_spec_def getMsgTask_def
        spec_context_def first_of_def first_task_def excl_mask_def injectFeatureConfig_def map_filter_def Let_def
        split: option.split)
next
  case False
  have c: "rev (remdups (rev (map req_kind (rs @ [r])))) =
      (if spec_context (req_kind r) rs = None then rev (remdups (rev (map req_kind rs))) @ [req_kind r]
       else rev (remdups (rev (map req_kind rs))))"
    by (simp add: spec_context_None first_occurrences_snoc)
  have s: "spec_context k (rs @ [r]) = (if spec_context k rs = None \<and> req_kind r = k
      then Some (LocDualContext (req_libs r) (req_target r) (first_task rs) (excl_mask k)) else spec_context k rs)" for k
    using False by (simp add: spec_context_snoc first_task_snoc)
  show ?thesis unfolding dual_spec_def [of "rs @ [r]"] c s using False
    by (cases "req_kind r") (auto simp: get_context_def getLocFgContext_def getLocBgContext_def dual_spec_def getMsgTask_def
        excl_mask_def map_filter_def first_task_snoc Let_def split: option.split)
qed

text \<open>The contexts are singletons: whatever clients ask for foreground and background
  contexts in whatever order, there is one message task, with the name the first of them gave;
  each context asked for is made once, on that task and with its own exclusion mask, by the
  first that asks for it; the feature configuration is injected once, into the context made
  first; and the messages of the clients are sent in the order of the requests.\<close>

theorem contexts_are_singletons: "fold get_context rs dual0 = dual_spec rs"
proof (induction rs rule: rev_induct)
  case Nil
  show ?case by (simp add: dual0_def dual_spec_def spec_context_def first_of_def map_filter_def)
next
  case (snoc r rs)
  then show ?case by (simp add: get_context_spec)
qed

text \<open>The API module: on a target with GPS hardware the proxy's comes first, then that of the
  QMI library and then that of the RPC library, which is not tried when the QMI library can be
  opened but has no usable object.\<close>

lemma api_module_choice:
  "createLocApi l t = V02Api \<longleftrightarrow> t \<noteq> TARGET_MPQ \<and> \<not> lbs_api l \<and> v02_lib l \<and> v02_getter l \<and> v02_api l"
  "createLocApi l t = RpcApi \<longleftrightarrow> t \<noteq> TARGET_MPQ \<and> \<not> lbs_api l \<and> \<not> v02_lib l \<and> rpc_lib l \<and> rpc_getter l \<and> rpc_api l"
  "createLocApi l t = LbsApi \<longleftrightarrow> t \<noteq> TARGET_MPQ \<and> lbs_api l"
  by (auto simp: createLocApi_def Let_def)

end
