(* ===== verification/Loc.thy ===== *)
theory Loc
  imports EngLife DualContext
begin

unbundle bit_operations_syntax

text \<open>
  The HAL entry, \<open>src/gps/loc_api/libloc_api_50001/loc.cpp\<close>: the interfaces the framework
  calls, over the engine of \<open>LocEng\<close> and \<open>EngProc\<close>. The state has the engine's structure
  \<open>loc_afw_data\<close>, the two callbacks the HAL keeps to itself and the static variables;
  \<open>framework\<close> is what the framework has been told. A step of the whole is a call of the
  framework, an upward call of the API module or a turn of the message task.
\<close>

section \<open>State\<close>

record hal =
  loc_afw_data :: loc_eng
  gps_loc_cb :: bool
  gps_sv_cb :: bool
  sGnssType :: uint32
  gss_fd :: int
  gTarget :: uint32
  configAlreadyRead :: bool
  geofence_found :: bool
  framework :: "callback list"

text \<open>What lies outside: beside the engine's environment the platform, the configuration files,
  the properties, the files and libraries of the device, the proxy of the context, and the names of
  the interfaces, which are constants of a header of the framework.\<close>

datatype hal_interface =
    LocEngInterface | XTRAInterface | AGpsInterface | NiInterface | AGpsRilInterface | GeofenceInterface
  | AGpsCertInterface | ConfigInterface | GpsMeasurementInterface

record hal_env =
  he_eng :: eng_env
  he_platform :: platform
  he_fopen :: "string \<Rightarrow> string option"
  gps_disable :: string
  baseband :: string
  gss_open :: int
  geofence_lib :: bool
  geofence_getter :: bool
  geofence_object :: bool
  agps_extended :: bool
  cpi_extended :: bool
  iface_name :: "hal_interface \<Rightarrow> string"
  GPS_CAPABILITY_GEOFENCING :: uint32

record gps_callbacks =
  fw_location_cb :: bool
  fw_status_cb :: bool
  fw_sv_status_cb :: bool
  fw_nmea_cb :: bool
  fw_set_capabilities_cb :: bool
  fw_request_utc_time_cb :: bool

definition boot_hal :: "conf_mem \<Rightarrow> hal" where
  "boot_hal c = \<lparr>loc_afw_data = boot_eng c, gps_loc_cb = False, gps_sv_cb = False, sGnssType = GNSS_UNKNOWN,
     gss_fd = -1, gTarget = no_target, configAlreadyRead = False, geofence_found = False, framework = []\<rparr>"

definition on_eng :: "(loc_eng \<Rightarrow> loc_eng) \<Rightarrow> hal \<Rightarrow> hal" where
  "on_eng f h = h\<lparr>loc_afw_data := f (loc_afw_data h)\<rparr>"

text \<open>A call that returns a code, \<open>0\<close> for success.\<close>

definition ret_eng :: "(loc_eng \<Rightarrow> 'r \<times> loc_eng) \<Rightarrow> hal \<Rightarrow> 'r \<times> hal" where
  "ret_eng f h = (case f (loc_afw_data h) of (r, e) \<Rightarrow> (r, h\<lparr>loc_afw_data := e\<rparr>))"

section \<open>The interface\<close>

definition read_config :: "hal_env \<Rightarrow> hal \<Rightarrow> hal" where
  "read_config env h =
     (case loc_eng_read_config (env_long (he_eng env)) (env_atof (he_eng env)) (he_fopen env)
             (configAlreadyRead h, conf (loc_afw_data h)) of
        (done, c) \<Rightarrow> on_eng (\<lambda>e. e\<lparr>conf := c\<rparr>) (h\<lparr>configAlreadyRead := done\<rparr>))"

definition gps_get_hardware_interface :: "hal_env \<Rightarrow> hal \<Rightarrow> hal_interface option \<times> hal" where
  "gps_get_hardware_interface env h =
     (let h = read_config env h;
          propBuf = take (PROPERTY_VALUE_MAX - 1) (gps_disable env);
          ret_val = (if take 1 propBuf = ''1'' then None else Some LocEngInterface)
      in (ret_val, read_config env h))"

text \<open>\<open>gps_conf.CAPABILITIES &= ~(GPS_CAPABILITY_MSA | GPS_CAPABILITY_MSB)\<close>.\<close>

definition no_assisted_modes :: "hal \<Rightarrow> hal" where
  "no_assisted_modes = on_eng (\<lambda>e. e\<lparr>conf := put_vals
     [(CAPABILITIES, Num (num_at (conf e) CAPABILITIES AND NOT (GPS_CAPABILITY_MSA OR GPS_CAPABILITY_MSB)))] (conf e)\<rparr>)"

definition get_gps_interface :: "hal_env \<Rightarrow> hal \<Rightarrow> hal_interface option \<times> hal" where
  "get_gps_interface env h =
     (let h = read_config env h;
          target = loc_get_target (he_platform env) (gTarget h);
          h = h\<lparr>gTarget := target, sGnssType := getTargetGnssType target\<rparr>
      in if sGnssType h = GNSS_GSS \<or> sGnssType h = GNSS_AUTO then
           (Some LocEngInterface, (no_assisted_modes h)\<lparr>gss_fd := gss_open env\<rparr>)
         else if sGnssType h = GNSS_NONE then (None, h)
         else if sGnssType h = GNSS_QCA1530 then (Some LocEngInterface, no_assisted_modes h)
         else (Some LocEngInterface, h))"

definition loc_event_mask :: uint32 where
  "loc_event_mask = push_bit 0 1 OR push_bit 1 1 OR push_bit 6 1 OR push_bit 5 1 OR push_bit 7 1 OR
     push_bit 8 1 OR push_bit 2 1 OR push_bit 4 1"

definition setGpsLockMsg :: "int \<Rightarrow> loc_eng \<Rightarrow> loc_eng" where
  "setGpsLockMsg lockMask e = post (MsgGpsLock lockMask) e"

definition loc_init :: "hal_env \<Rightarrow> gps_callbacks option \<Rightarrow> hal \<Rightarrow> int \<times> hal" where
  "loc_init env callbacks h =
     (case callbacks of
        None \<Rightarrow> (-1, h)
      | Some cb \<Rightarrow>
          let clientCallbacks = \<lparr>cb_location = True, cb_status = fw_status_cb cb, cb_sv_status = True,
                cb_nmea = fw_nmea_cb cb, cb_set_capabilities = fw_set_capabilities_cb cb,
                cb_request_utc_time = fw_request_utc_time_cb cb\<rparr>;
              h = h\<lparr>gps_loc_cb := fw_location_cb cb, gps_sv_cb := fw_sv_status_cb cb\<rparr>;
              (retVal, e) = loc_eng_init (Some clientCallbacks) loc_event_mask (loc_afw_data h);
              e = e\<lparr>mSupportsAgpsRequests := \<not> agps_extended env,
                    mSupportsPositionInjection := \<not> cpi_extended env,
                    mSupportsTimeInjection := \<not> cpi_extended env\<rparr>;
              e = setGpsLockMsg 0 e;
              e = call (CtxRequestUlp (getCarrierCapabilities (conf e))) e;
              e = post MsgSetXtraUserAgent e
          in if retVal \<noteq> 0 then (retVal, h\<lparr>loc_afw_data := e\<rparr>)
             else let target = loc_get_target (he_platform env) (gTarget h);
                      e = setPowerVote True (setPowerVoteRight (target = TARGET_QCA1530) e)
                  in (retVal, h\<lparr>loc_afw_data := e, gTarget := target\<rparr>))"

text \<open>The adapter pointer is not tested here.\<close>

definition loc_cleanup :: "hal \<Rightarrow> hal" where
  "loc_cleanup h =
     (let e = loc_afw_data h
      in if \<not> has_adapter e then h\<lparr>loc_afw_data := e\<lparr>null_deref := True\<rparr>\<rparr>
         else let e = setPowerVote False e;
                  e = setGpsLockMsg (uint (num_at (conf e) GPS_LOCK)) e
              in h\<lparr>loc_afw_data := loc_eng_cleanup e, gps_loc_cb := False, gps_sv_cb := False\<rparr>)"

definition loc_start :: "hal \<Rightarrow> int \<times> hal" where
  "loc_start = ret_eng loc_eng_start"

definition loc_stop :: "hal \<Rightarrow> int \<times> hal" where
  "loc_stop = ret_eng loc_eng_stop"

datatype gps_position_mode = GPS_POSITION_MODE_STANDALONE | GPS_POSITION_MODE_MS_BASED
  | GPS_POSITION_MODE_MS_ASSISTED | OtherMode int

definition loc_mode :: "gps_position_mode \<Rightarrow> pos_mode" where
  "loc_mode m = (case m of
       GPS_POSITION_MODE_MS_BASED \<Rightarrow> LOC_POSITION_MODE_MS_BASED
     | GPS_POSITION_MODE_MS_ASSISTED \<Rightarrow> LOC_POSITION_MODE_MS_ASSISTED
     | _ \<Rightarrow> LOC_POSITION_MODE_STANDALONE)"

text \<open>Of the criteria the model keeps the mode and whether a single fix is asked for.\<close>

definition loc_set_position_mode :: "gps_position_mode \<Rightarrow> bool \<Rightarrow> hal \<Rightarrow> int \<times> hal" where
  "loc_set_position_mode mode single h =
     ret_eng (loc_eng_set_position_mode \<lparr>lp_mode = loc_mode mode, single_shot = single\<rparr>) h"

definition loc_inject_time :: "int \<Rightarrow> int \<Rightarrow> int \<Rightarrow> hal \<Rightarrow> int \<times> hal" where
  "loc_inject_time time timeReference uncertainty = ret_eng (loc_eng_inject_time time timeReference uncertainty)"

definition loc_inject_location :: "real \<Rightarrow> real \<Rightarrow> real \<Rightarrow> hal \<Rightarrow> int \<times> hal" where
  "loc_inject_location latitude longitude accur = ret_eng (loc_eng_inject_location latitude longitude accur)"

definition loc_delete_aiding_data :: "16 word \<Rightarrow> hal \<Rightarrow> hal" where
  "loc_delete_aiding_data f = on_eng (loc_eng_delete_aiding_data f)"

section \<open>Extensions\<close>

definition get_geofence_interface :: "hal_env \<Rightarrow> hal \<Rightarrow> hal_interface option \<times> hal" where
  "get_geofence_interface env h =
     (let h = (if geofence_lib env then
                 if geofence_getter env then h\<lparr>geofence_found := geofence_object env\<rparr> else h
               else h)
      in (if geofence_found h then Some GeofenceInterface else None, h))"

definition loc_get_extension :: "hal_env \<Rightarrow> string \<Rightarrow> hal \<Rightarrow> hal_interface option \<times> hal" where
  "loc_get_extension env name h =
     (let is = (\<lambda>i. name = iface_name env i);
          caps = num_at (conf (loc_afw_data h)) CAPABILITIES
      in if is XTRAInterface then (Some XTRAInterface, h)
         else if is AGpsInterface then (Some AGpsInterface, h)
         else if is NiInterface then (Some NiInterface, h)
         else if is AGpsRilInterface then
           (if baseband env = ''csfb'' then (Some AGpsRilInterface, h) else (None, h))
         else if is GeofenceInterface then
           (if caps OR GPS_CAPABILITY_GEOFENCING env = caps then get_geofence_interface env h else (None, h))
         else if is AGpsCertInterface then (Some AGpsCertInterface, h)
         else if is ConfigInterface then (Some ConfigInterface, h)
         else if is GpsMeasurementInterface then (Some GpsMeasurementInterface, h)
         else (None, h))"

definition loc_agps_init :: "hal_env \<Rightarrow> bool option \<Rightarrow> hal \<Rightarrow> hal" where
  "loc_agps_init env callbacks = on_eng (loc_eng_agps_init (he_eng env) callbacks)"

definition loc_agps_open :: "string option \<Rightarrow> hal \<Rightarrow> int \<times> hal" where
  "loc_agps_open apn = ret_eng (loc_eng_agps_open AGPS_TYPE_SUPL apn AGPS_APN_BEARER_IPV4)"

datatype apn_ip_type = APN_IP_IPV4 | APN_IP_IPV6 | APN_IP_IPV4V6 | OtherApnIp

definition bearer_of :: "apn_ip_type \<Rightarrow> AGpsBearerType" where
  "bearer_of t = (case t of
       APN_IP_IPV4 \<Rightarrow> AGPS_APN_BEARER_IPV4
     | APN_IP_IPV6 \<Rightarrow> AGPS_APN_BEARER_IPV6
     | APN_IP_IPV4V6 \<Rightarrow> AGPS_APN_BEARER_IPV4V6
     | OtherApnIp \<Rightarrow> AGPS_APN_BEARER_INVALID)"

definition loc_agps_open_with_apniptype :: "string option \<Rightarrow> apn_ip_type \<Rightarrow> hal \<Rightarrow> int \<times> hal" where
  "loc_agps_open_with_apniptype apn apnIpType = ret_eng (loc_eng_agps_open AGPS_TYPE_SUPL apn (bearer_of apnIpType))"

definition loc_agps_closed :: "hal \<Rightarrow> int \<times> hal" where
  "loc_agps_closed = ret_eng (loc_eng_agps_closed AGPS_TYPE_SUPL)"

definition loc_agps_open_failed :: "hal \<Rightarrow> int \<times> hal" where
  "loc_agps_open_failed = ret_eng (loc_eng_agps_open_failed AGPS_TYPE_SUPL)"

definition loc_agps_set_server :: "hal_env \<Rightarrow> AGpsExtType \<Rightarrow> string \<Rightarrow> int \<Rightarrow> hal \<Rightarrow> int \<times> hal" where
  "loc_agps_set_server env ty hostname port =
     (let serverType = (case ty of AGPS_TYPE_C2K \<Rightarrow> LOC_AGPS_CDMA_PDE_SERVER | _ \<Rightarrow> LOC_AGPS_SUPL_SERVER)
      in ret_eng (loc_eng_set_server_proxy (he_eng env) serverType hostname port))"

text \<open>Only the callback for downloads is passed on.\<close>

definition loc_xtra_init :: "bool \<Rightarrow> hal \<Rightarrow> int \<times> hal" where
  "loc_xtra_init download = ret_eng (loc_eng_xtra_init (Some (download, False)))"

definition XTRA_DATA_MAX_SIZE :: uint32 where "XTRA_DATA_MAX_SIZE = 100000"

definition loc_xtra_inject_data :: "uint8 list option \<Rightarrow> int \<Rightarrow> hal \<Rightarrow> int \<times> hal" where
  "loc_xtra_inject_data data len h =
     (case data of
        Some d \<Rightarrow>
          if (word_of_int len :: uint32) \<le> XTRA_DATA_MAX_SIZE
          then ret_eng (loc_eng_xtra_inject_data (take (nat len) d)) h else (-1, h)
      | None \<Rightarrow> (-1, h))"

definition loc_gps_measurement_init :: "bool option \<Rightarrow> hal \<Rightarrow> measurement_result \<times> hal" where
  "loc_gps_measurement_init callbacks = ret_eng (loc_eng_gps_measurement_init callbacks)"

definition loc_gps_measurement_close :: "hal \<Rightarrow> hal" where
  "loc_gps_measurement_close = on_eng loc_eng_gps_measurement_close"

definition loc_ni_init :: "bool \<Rightarrow> bool \<Rightarrow> hal \<Rightarrow> hal" where
  "loc_ni_init callbacks notify_cb = on_eng (\<lambda>e. e\<lparr>ni_data := loc_eng_ni_init callbacks notify_cb (ni_data e)\<rparr>)"

definition loc_ni_respond :: "uint32 \<Rightarrow> ni_response \<Rightarrow> hal \<Rightarrow> hal" where
  "loc_ni_respond notif_id user_response =
     on_eng (\<lambda>e. e\<lparr>ni_data := loc_eng_ni_respond notif_id user_response (ni_data e)\<rparr>)"

definition loc_agps_ril_update_network_availability :: "uint32 \<Rightarrow> string option \<Rightarrow> hal \<Rightarrow> hal" where
  "loc_agps_ril_update_network_availability available apn =
     on_eng (loc_eng_agps_ril_update_network_availability available apn)"

definition loc_agps_install_certificates :: "nat list \<Rightarrow> hal \<Rightarrow> cert_result \<times> hal" where
  "loc_agps_install_certificates certificates = ret_eng (loc_eng_agps_install_certificates certificates)"

definition loc_agps_revoke_certificates :: "hal \<Rightarrow> cert_result \<times> hal" where
  "loc_agps_revoke_certificates h = (AGPS_CERTIFICATE_ERROR_GENERIC, h)"

definition loc_configuration_update :: "hal_env \<Rightarrow> string option \<Rightarrow> int \<Rightarrow> hal \<Rightarrow> hal" where
  "loc_configuration_update env config_data len h =
     (let h = on_eng (loc_eng_configuration_update (he_eng env) config_data len) h
      in if sGnssType h = GNSS_GSS \<or> sGnssType h = GNSS_AUTO \<or> sGnssType h = GNSS_QCA1530
         then no_assisted_modes h else h)"

section \<open>The callbacks of the HAL\<close>

text \<open>A location is \<open>None\<close> when the engine passes NULL.\<close>

definition local_loc_cb :: "gps_fix option \<Rightarrow> hal \<Rightarrow> callback list" where
  "local_loc_cb location h =
     (case location of None \<Rightarrow> [] | Some f \<Rightarrow> if gps_loc_cb h then [LocationCb f] else [])"

definition local_sv_cb :: "hal \<Rightarrow> callback list" where
  "local_sv_cb h = (if gps_sv_cb h then [SvStatusCb] else [])"

text \<open>What the framework gets of a call of the engine: locations and satellites pass through
  the two functions above, the other callbacks are the framework's own.\<close>

definition forward :: "hal \<Rightarrow> callback \<Rightarrow> callback list" where
  "forward h c = (case c of
       LocationNull \<Rightarrow> local_loc_cb None h
     | LocationCb f \<Rightarrow> local_loc_cb (Some f) h
     | SvStatusCb \<Rightarrow> local_sv_cb h
     | _ \<Rightarrow> [c])"

text \<open>One turn of the message task.\<close>

definition hal_turn :: "hal_env \<Rightarrow> hal \<Rightarrow> hal option" where
  "hal_turn env h =
     map_option (\<lambda>e. h\<lparr>loc_afw_data := e, framework := framework h @ concat (map (forward h) (new_cbs (loc_afw_data h) e))\<rparr>)
       (eng_deliver (he_eng env) (loc_afw_data h))"

end
