(* ===== verification/LocFacts.thy ===== *)
theory LocFacts
  imports Loc
begin

unbundle bit_operations_syntax

text \<open>
  What holds of the HAL with the engine below it, over every sequence of calls of the framework,
  upward calls of the API module and turns of the message task (\<open>hal_run\<close>): which fixes reach
  the framework, what a phone without the assisted modes asks the modem for, and what a cleanup
  ends.
\<close>

section \<open>Runs\<close>

datatype hal_op =
    OpHwInterface | OpInterface | OpInit "gps_callbacks option" | OpCleanup | OpStart | OpStop
  | OpMode gps_position_mode bool | OpInjectTime int int int | OpInjectLocation real real real
  | OpDeleteAiding "16 word" | OpExtension string | OpAgpsInit "bool option" | OpAgpsOpen "string option"
  | OpAgpsOpenIp "string option" apn_ip_type | OpAgpsClosed | OpAgpsOpenFailed
  | OpAgpsServer AGpsExtType string int | OpXtraInit bool | OpXtraInject "uint8 list option" int
  | OpMeasurementInit "bool option" | OpMeasurementClose | OpNiInit bool bool | OpNiRespond uint32 ni_response
  | OpRil uint32 "string option" | OpInstall "nat list" | OpRevoke | OpConfig "string option" int
  | OpReport up_call | OpRequest up_request | OpTurn

fun hal_do :: "hal_env \<Rightarrow> hal_op \<Rightarrow> hal \<Rightarrow> hal" where
  "hal_do env OpHwInterface h = snd (gps_get_hardware_interface env h)"
| "hal_do env OpInterface h = snd (get_gps_interface env h)"
| "hal_do env (OpInit cb) h = snd (loc_init env cb h)"
| "hal_do env OpCleanup h = loc_cleanup h"
| "hal_do env OpStart h = snd (loc_start h)"
| "hal_do env OpStop h = snd (loc_stop h)"
| "hal_do env (OpMode m b) h = snd (loc_set_position_mode m b h)"
| "hal_do env (OpInjectTime t r u) h = snd (loc_inject_time t r u h)"
| "hal_do env (OpInjectLocation la lo a) h = snd (loc_inject_location la lo a h)"
| "hal_do env (OpDeleteAiding f) h = loc_delete_aiding_data f h"
| "hal_do env (OpExtension n) h = snd (loc_get_extension env n h)"
| "hal_do env (OpAgpsInit cb) h = loc_agps_init env cb h"
| "hal_do env (OpAgpsOpen apn) h = snd (loc_agps_open apn h)"
| "hal_do env (OpAgpsOpenIp apn t) h = snd (loc_agps_open_with_apniptype apn t h)"
| "hal_do env OpAgpsClosed h = snd (loc_agps_closed h)"
| "hal_do env OpAgpsOpenFailed h = snd (loc_agps_open_failed h)"
| "hal_do env (OpAgpsServer ty n p) h = snd (loc_agps_set_server env ty n p h)"
| "hal_do env (OpXtraInit d) h = snd (loc_xtra_init d h)"
| "hal_do env (OpXtraInject d n) h = snd (loc_xtra_inject_data d n h)"
| "hal_do env (OpMeasurementInit cb) h = snd (loc_gps_measurement_init cb h)"
| "hal_do env OpMeasurementClose h = loc_gps_measurement_close h"
| "hal_do env (OpNiInit c n) h = loc_ni_init c n h"
| "hal_do env (OpNiRespond i r) h = loc_ni_respond i r h"
| "hal_do env (OpRil a apn) h = loc_agps_ril_update_network_availability a apn h"
| "hal_do env (OpInstall cs) h = snd (loc_agps_install_certificates cs h)"
| "hal_do env OpRevoke h = snd (loc_agps_revoke_certificates h)"
| "hal_do env (OpConfig d n) h = loc_configuration_update env d n h"
| "hal_do env (OpReport u) h = on_eng (adapter_report u) h"
| "hal_do env (OpRequest r) h = snd (ret_eng (adapter_request r) h)"
| "hal_do env OpTurn h = (case hal_turn env h of None \<Rightarrow> h | Some h' \<Rightarrow> h')"

text \<open>The surroundings may change between the operations.\<close>

fun hal_run :: "(hal_env \<times> hal_op) list \<Rightarrow> hal \<Rightarrow> hal" where
  "hal_run [] h = h"
| "hal_run ((env, op) # ops) h = hal_run ops (hal_do env op h)"

lemmas hal_ops = gps_get_hardware_interface_def get_gps_interface_def loc_start_def loc_stop_def
  loc_set_position_mode_def loc_inject_time_def loc_inject_location_def loc_delete_aiding_data_def loc_agps_init_def
  loc_agps_open_def loc_agps_open_with_apniptype_def loc_agps_closed_def loc_agps_open_failed_def loc_agps_set_server_def
  loc_xtra_init_def loc_xtra_inject_data_def loc_gps_measurement_init_def loc_gps_measurement_close_def loc_ni_init_def
  loc_ni_respond_def loc_agps_ril_update_network_availability_def loc_agps_install_certificates_def
  loc_agps_revoke_certificates_def on_eng_def ret_eng_def case_prod_beta

section \<open>Fixes\<close>

text \<open>Nothing but a location is forwarded as a location.\<close>

lemma forward_location: "\<not> is_location c \<Longrightarrow> filter is_location (forward h c) = []"
  by (cases c) (simp_all add: forward_def local_sv_cb_def)

lemma forward_locations: "filter is_location cs = [] \<Longrightarrow> filter is_location (concat (map (forward h) cs)) = []"
  by (induction cs) (auto simp: forward_location split: if_splits)

text \<open>The callbacks of a report: the location, then perhaps the request for sentences.\<close>

lemma report_position_cbs:
  assumes "location_cb s" and "\<not> muted s"
  shows "\<exists>n. cbs (report_position f st s) = cbs s @ (if st = LOC_SESS_FAILURE then [LocationNull]
      else if position_wanted s f st then [LocationCb f] else []) @ n \<and> filter is_location n = []"
proof -
  define reported where "reported = (st = LOC_SESS_FAILURE \<or> position_wanted s f st)"
  define s1 where "s1 = (if st = LOC_SESS_FAILURE then callback LocationNull s
     else if position_wanted s f st then callback (LocationCb f) s else s)"
  define s2 where "s2 = (if reported \<and> single_shot (mFixCriteria s1)
     then setInSession False (if st = LOC_SESS_INTERMEDIATE then call ApiStopFix s1 else s1) else s1)"
  define s3 where "s3 = (if generateNmea s2 \<and> mNavigating s2
     then callback (NmeaGeneratePos (reported \<and> st \<noteq> LOC_SESS_FAILURE)) s2 else s2)"
  have r: "report_position f st s = free_rawData f s3"
    using assms unfolding report_position_def Let_def s3_def s2_def s1_def reported_def by simp
  have c1: "cbs s1 = cbs s @ (if st = LOC_SESS_FAILURE then [LocationNull]
      else if position_wanted s f st then [LocationCb f] else [])" by (simp add: s1_def)
  have c2: "cbs s2 = cbs s1" by (simp add: s2_def)
  have "\<exists>n. cbs s3 = cbs s2 @ n \<and> filter is_location n = []" by (simp add: s3_def)
  then show ?thesis unfolding r by (simp add: c1 c2)
qed

definition fix0 :: gps_fix where
  "fix0 = \<lparr>has_accuracy = False, accuracy = 0, tech_mask = 1, rawData = None\<rparr>"

definition hal_env0 :: hal_env where
  "hal_env0 = \<lparr>he_eng = eng_env0, he_platform = msm8916, he_fopen = (\<lambda>_. None), gps_disable = [], baseband = ''msm'',
     gss_open = 3, geofence_lib = False, geofence_getter = False, geofence_object = False, agps_extended = False,
     cpi_extended = False, iface_name = (\<lambda>_. []), GPS_CAPABILITY_GEOFENCING = 0x20\<rparr>"

definition all_fw :: gps_callbacks where
  "all_fw = \<lparr>fw_location_cb = True, fw_status_cb = True, fw_sv_status_cb = True, fw_nmea_cb = True,
     fw_set_capabilities_cb = True, fw_request_utc_time_cb = True\<rparr>"

definition up_hal :: hal where
  "up_hal = (boot_hal boot_conf)\<lparr>loc_afw_data := up_eng, gps_loc_cb := True, gps_sv_cb := True\<rparr>"

lemma hal_fix:
  assumes "eng_queue (loc_afw_data h) = MsgReportPosition f st # ms" and "location_cb (loc_afw_data h)"
  shows "\<exists>h'. hal_turn env h = Some h' \<and>
    filter is_location (framework h') = filter is_location (framework h) @
      (if gps_loc_cb h \<and> \<not> muted (loc_afw_data h) \<and> st \<noteq> LOC_SESS_FAILURE \<and> fix_wanted (loc_afw_data h) f st
       then [LocationCb f] else [])"
proof -
  let ?e = "(loc_afw_data h)\<lparr>eng_queue := ms\<rparr>"
  have f: "muted ?e = muted (loc_afw_data h)" "fix_wanted ?e f st = fix_wanted (loc_afw_data h) f st"
    by (simp_all add: muted_def fix_wanted_def)
  have d: "eng_deliver (he_eng env) (loc_afw_data h) = Some (report_position f st ?e)"
    using assms(1) by (simp add: eng_deliver_def)
  have n: "filter is_location (concat (map (forward h) (new_cbs (loc_afw_data h) (report_position f st ?e)))) =
      (if gps_loc_cb h \<and> \<not> muted (loc_afw_data h) \<and> st \<noteq> LOC_SESS_FAILURE \<and> fix_wanted (loc_afw_data h) f st
       then [LocationCb f] else [])"
  proof (cases "muted ?e")
    case True
    then show ?thesis using f by (simp add: report_position_def new_cbs_def)
  next
    case False
    then obtain n where n: "cbs (report_position f st ?e) = cbs ?e @ (if st = LOC_SESS_FAILURE then [LocationNull]
        else if position_wanted ?e f st then [LocationCb f] else []) @ n" "filter is_location n = []"
      using report_position_cbs [of ?e f st] assms(2) by auto
    then show ?thesis using False f
      by (simp add: new_cbs_def forward_locations position_wanted_fix forward_def [of _ "LocationCb _"]
          forward_def [of _ LocationNull] local_loc_cb_def)
  qed
  show ?thesis using n by (simp add: hal_turn_def d)
qed

text \<open>A report of the modem that is at the head of the queue becomes one location for the
  framework exactly when the framework has given a callback, no session is muted, the report
  is not a failure and the fix is wanted; otherwise the framework hears of no location at all.
  In particular the NULL by which the engine reports a failed session ends in the HAL.\<close>

theorem hal_fix_delivered:
  assumes "eng_queue (loc_afw_data h) = MsgReportPosition f st # ms" and "location_cb (loc_afw_data h)"
  shows "\<exists>h'. hal_turn env h = Some h' \<and>
    filter is_location (framework h') = filter is_location (framework h) @
      (if gps_loc_cb h \<and> \<not> muted (loc_afw_data h) \<and> st \<noteq> LOC_SESS_FAILURE \<and> fix_wanted (loc_afw_data h) f st
       then [LocationCb f] else [])"
  using assms by (rule hal_fix)

theorem hal_fix_delivered_witness:
  "\<exists>h'. hal_turn hal_env0 (up_hal\<lparr>loc_afw_data := post (MsgReportPosition fix0 LOC_SESS_SUCCESS) up_eng\<rparr>) = Some h' \<and>
     filter is_location (framework h') = [LocationCb fix0]"
proof -
  have "eng_queue up_eng = []" "\<not> muted up_eng" "location_cb up_eng" "fix_wanted up_eng fix0 LOC_SESS_SUCCESS"
    by (simp_all add: up_eng_def boot_eng_def muted_def ni_boot_def fix_wanted_def fix0_def)
  then show ?thesis
    using hal_fix_delivered [of "up_hal\<lparr>loc_afw_data := post (MsgReportPosition fix0 LOC_SESS_SUCCESS) up_eng\<rparr>"
        fix0 LOC_SESS_SUCCESS "[]" hal_env0]
    by (auto simp: up_hal_def boot_hal_def post_def muted_def fix_wanted_def)
qed

section \<open>Phones without the assisted modes\<close>

definition assisted :: "pos_mode \<Rightarrow> bool" where
  "assisted m \<longleftrightarrow> m = LOC_POSITION_MODE_MS_BASED \<or> m = LOC_POSITION_MODE_MS_ASSISTED"

definition assisted_caps :: uint32 where
  "assisted_caps = GPS_CAPABILITY_MSA OR GPS_CAPABILITY_MSB"

text \<open>Calls to the modem, messages and callbacks that ask for no assisted mode and promise none.\<close>

fun plain_mode_call :: "api_call \<Rightarrow> bool" where
  "plain_mode_call (ApiStartFix m) = (\<not> assisted (lp_mode m))"
| "plain_mode_call (ApiSetPositionMode m) = (\<not> assisted (lp_mode m))"
| "plain_mode_call _ = True"

fun plain_mode_msg :: "eng_msg \<Rightarrow> bool" where
  "plain_mode_msg (MsgPositionMode m) = (\<not> assisted (lp_mode m))"
| "plain_mode_msg _ = True"

fun plain_mode_cb :: "callback \<Rightarrow> bool" where
  "plain_mode_cb (SetCapabilitiesCb w) = (w AND assisted_caps = 0)"
| "plain_mode_cb _ = True"

definition caps :: "conf_mem \<Rightarrow> uint32" where
  "caps c = num_at c CAPABILITIES"

definition standalone :: "loc_eng \<Rightarrow> bool" where
  "standalone e \<longleftrightarrow> caps (conf e) AND assisted_caps = 0 \<and> \<not> assisted (lp_mode (mFixCriteria e)) \<and>
     list_all plain_mode_msg (eng_queue e) \<and> list_all plain_mode_call (api_calls e) \<and> list_all plain_mode_cb (cbs e)"

lemma standalone_prim [simp]:
  "standalone (call c s) \<longleftrightarrow> standalone s \<and> plain_mode_call c"
  "standalone (post m s) \<longleftrightarrow> standalone s \<and> plain_mode_msg m"
  "standalone (callback b s) \<longleftrightarrow> standalone s \<and> plain_mode_cb b"
  by (auto simp: standalone_def eng_prim)

lemma standalone_core: "core s' = core s \<Longrightarrow> standalone s' = standalone s"
proof -
  assume "core s' = core s"
  moreover from this have "conf s' = conf s" by (auto simp: core_def dest: arg_cong [where f = conf])
  ultimately show ?thesis using core_eq [of s' s] by (simp add: standalone_def)
qed

lemma standalone_fields [simp]:
  "standalone (s\<lparr>ni_data := n\<rparr>) = standalone s" "standalone (s\<lparr>engine_status := st\<rparr>) = standalone s"
  "standalone (s\<lparr>fix_session_status := st\<rparr>) = standalone s" "standalone (s\<lparr>aiding_data_for_deletion := a\<rparr>) = standalone s"
  "standalone (s\<lparr>mSupportsTimeInjection := b\<rparr>) = standalone s" "standalone (s\<lparr>freed_raw := r\<rparr>) = standalone s"
  "standalone (s\<lparr>mNavigating := b\<rparr>) = standalone s" "standalone (s\<lparr>ds_nif := d\<rparr>) = standalone s"
  "standalone (s\<lparr>agnss_nif := d, internet_nif := d'\<rparr>) = standalone s" "standalone (s\<lparr>null_deref := b\<rparr>) = standalone s"
  "standalone (s\<lparr>mPowerVote := w\<rparr>) = standalone s" "standalone (s\<lparr>ulpFixSet := b\<rparr>) = standalone s"
  "standalone (s\<lparr>ulpPosMode := m\<rparr>) = standalone s" "standalone (s\<lparr>supl_host := x\<rparr>) = standalone s"
  "standalone (s\<lparr>c2k_host := x\<rparr>) = standalone s" "standalone (s\<lparr>agpsStatus := w\<rparr>) = standalone s"
  "standalone (s\<lparr>gps_measurement_cb := b\<rparr>) = standalone s"
  "standalone (s\<lparr>download_request_cb := b, report_xtra_server_cb := b'\<rparr>) = standalone s"
  by (simp_all add: standalone_def)

lemma standalone_ulp [simp]: "standalone (setUlpProxy b s) = standalone s"
  by (simp add: setUlpProxy_def Let_def)

lemma standalone_answers: "answers s s' \<Longrightarrow> standalone s \<Longrightarrow> standalone s'"
proof -
  assume "answers s s'" "standalone s"
  moreover have "plain_mode_call c" if "atl_answer c" for c using that by (cases c) simp_all
  ultimately show ?thesis
    unfolding answers_def using standalone_core [of s' s] standalone_core [of s' "call _ s"] standalone_prim(1) by metis
qed

lemma standalone_session [simp]: "standalone s \<Longrightarrow> standalone (setInSession v s)"
  by (simp add: setInSession_def Let_def) (simp add: standalone_def assisted_def call_def)

lemma standalone_sets [simp]:
  "standalone (loc_eng_reinit s) = standalone s" "standalone (snd (loc_eng_set_server env ty h p s)) = standalone s"
  "standalone (requestPowerVote s) = standalone s"
  by (simp_all add: loc_eng_reinit_def loc_eng_xtra_version_check_def loc_eng_set_server_def requestPowerVote_def Let_def
      split: option.split)

lemma standalone_agps_reinit [simp]: "standalone (loc_eng_agps_reinit env s) = standalone s"
proof -
  define s1 where "s1 = (case supl_host s of None \<Rightarrow> s
          | Some (h, p) \<Rightarrow> snd (loc_eng_set_server env LOC_AGPS_SUPL_SERVER (Some h) p s))"
  have "standalone s1 = standalone s" by (simp add: s1_def split: option.split)
  moreover have "standalone (loc_eng_agps_reinit env s) = standalone s1"
    by (simp add: loc_eng_agps_reinit_def s1_def [symmetric] split: option.split)
  ultimately show ?thesis by simp
qed

lemma standalone_criteria:
  "standalone s \<Longrightarrow> \<not> assisted (lp_mode (mFixCriteria s))"
  "standalone s \<Longrightarrow> \<not> assisted (lp_mode m) \<Longrightarrow> standalone (s\<lparr>mFixCriteria := m\<rparr>)"
  by (simp_all add: standalone_def)

lemma num_at_put [simp]: "num_at (put_vals [(a, Num w)] c) a = w"
  by (simp add: num_at_def put_vals_def)

lemma standalone_report_position: "standalone s \<Longrightarrow> standalone (report_position f st s)"
proof -
  assume s: "standalone s"
  have 1: "standalone (free_rawData f x) = standalone x" for x by (simp add: free_rawData_def split: option.split)
  have 2: "standalone (if b then setInSession False (if c then call ApiStopFix x else x) else x)" if "standalone x" for b c x
    using that by simp
  have 3: "standalone (if b then callback (NmeaGeneratePos g) x else x) = standalone x" for b g x by simp
  show ?thesis using s by (simp add: report_position_def 1 2 3 Let_def)
qed

lemma standalone_delete [simp]: "standalone s \<Longrightarrow> standalone (update_aiding_data_for_deletion s)"
  by (simp add: update_aiding_data_for_deletion_def)

lemma standalone_report_status [simp]: "standalone s \<Longrightarrow> standalone (loc_eng_report_status st s)"
  by (simp add: loc_eng_report_status_def loc_inform_gps_status_def set_mute_def Let_def)

lemma standalone_start [simp]: "standalone s \<Longrightarrow> standalone (snd (loc_eng_start_handler env s))"
  by (auto simp: loc_eng_start_handler_def Let_def standalone_criteria(1) intro!: standalone_session)

lemma standalone_engine_up: "standalone s \<Longrightarrow> standalone (loc_eng_handle_engine_up env s)"
  by (simp add: loc_eng_handle_engine_up_def Let_def)

lemma standalone_capabilities:
  "standalone s \<Longrightarrow> num_at (conf s) CAPABILITIES AND assisted_caps = 0"
  "standalone s \<Longrightarrow> standalone (s\<lparr>conf := put_vals [(CAPABILITIES, Num (num_at (conf s) CAPABILITIES OR GPS_CAPABILITY_MEASUREMENTS))] (conf s)\<rparr>)"
proof -
  assume "standalone s"
  then show 1: "num_at (conf s) CAPABILITIES AND assisted_caps = 0" by (simp add: standalone_def caps_def)
  have "(w OR GPS_CAPABILITY_MEASUREMENTS) AND assisted_caps = w AND assisted_caps" for w :: uint32
    by (simp add: bit.conj_disj_distrib2 GPS_CAPABILITY_MEASUREMENTS_def assisted_caps_def GPS_CAPABILITY_MSA_def
        GPS_CAPABILITY_MSB_def)
  then show "standalone (s\<lparr>conf := put_vals [(CAPABILITIES, Num (num_at (conf s) CAPABILITIES OR GPS_CAPABILITY_MEASUREMENTS))] (conf s)\<rparr>)"
    using \<open>standalone s\<close> 1 by (simp add: standalone_def caps_def)
qed

lemma standalone_proc:
  assumes "standalone s" and "plain_mode_msg m"
  shows "standalone (eng_proc env m s)"
proof (cases "drives_nif m")
  case True
  then show ?thesis using answers_drives standalone_answers assms(1) by blast
next
  case False
  then show ?thesis using assms standalone_capabilities standalone_criteria
    by (cases m) (simp_all add: drives_nif_def eng_ops(5-) loc_eng_stop_handler_def loc_eng_handle_engine_down_def
        report_sv_def standalone_report_position standalone_engine_up Let_def split: option.split)
qed

definition hal_standalone :: "hal \<Rightarrow> bool" where
  "hal_standalone h \<longleftrightarrow> standalone (loc_afw_data h) \<and> configAlreadyRead h \<and> gTarget h \<noteq> no_target \<and>
     sGnssType h = getTargetGnssType (gTarget h) \<and> getTargetGnssType (gTarget h) \<in> {GNSS_GSS, GNSS_AUTO, GNSS_QCA1530} \<and>
     list_all plain_mode_cb (framework h)"

lemma no_caps:
  "standalone e \<Longrightarrow> num_at (conf e) CAPABILITIES AND GPS_CAPABILITY_MSA = 0 \<and> num_at (conf e) CAPABILITIES AND GPS_CAPABILITY_MSB = 0"
  using standalone_capabilities(1) [of e] by (simp add: assisted_caps_def bit.conj_disj_distrib or_eq_0_iff)

lemma standalone_more_fields [simp]:
  "standalone (s\<lparr>mSupportsAgpsRequests := b, mSupportsPositionInjection := b'\<rparr>) = standalone s"
  "standalone (s\<lparr>agps_status_cb := b, internet_nif := x, wifi_nif := y\<rparr>) = standalone s"
  by (simp_all add: standalone_def)

lemma standalone_power [simp]:
  "standalone (setPowerVote b s) = standalone s" "standalone (setPowerVoteRight b s) = standalone s"
  by (simp_all add: setPowerVote_def setPowerVoteRight_def)

lemma standalone_init: "standalone s \<Longrightarrow> standalone (snd (loc_eng_init cb ev s))"
  by (auto simp: loc_eng_init_def memset_eng_def boot_eng_def invalid_mode_def assisted_def standalone_def post_def Let_def
      split: option.split)

lemma standalone_interface [simp]:
  "standalone s \<Longrightarrow> standalone (snd (loc_eng_start s))" "standalone s \<Longrightarrow> standalone (snd (loc_eng_stop s))"
  "standalone s \<Longrightarrow> standalone (snd (loc_eng_inject_time t r u s))"
  "standalone s \<Longrightarrow> standalone (snd (loc_eng_inject_location la lo a s))"
  "standalone s \<Longrightarrow> standalone (loc_eng_delete_aiding_data f s)" "standalone s \<Longrightarrow> standalone (loc_eng_cleanup s)"
  "standalone s \<Longrightarrow> standalone (snd (loc_eng_agps_open ty apn be s))"
  "standalone s \<Longrightarrow> standalone (snd (loc_eng_agps_closed ty s))"
  "standalone s \<Longrightarrow> standalone (snd (loc_eng_agps_open_failed ty s))"
  "standalone s \<Longrightarrow> standalone (snd (loc_eng_xtra_init x s))"
  "standalone s \<Longrightarrow> standalone (snd (loc_eng_xtra_inject_data d s))"
  "standalone s \<Longrightarrow> standalone (snd (loc_eng_gps_measurement_init m s))"
  "standalone s \<Longrightarrow> standalone (loc_eng_gps_measurement_close s)"
  "standalone s \<Longrightarrow> standalone (loc_eng_agps_ril_update_network_availability w apn s)"
  "standalone s \<Longrightarrow> standalone (snd (loc_eng_agps_install_certificates cs s))"
  by (simp_all add: loc_eng_start_def loc_eng_stop_def loc_eng_inject_time_def loc_eng_inject_location_def
      loc_eng_delete_aiding_data_def loc_eng_cleanup_def loc_eng_agps_open_def loc_eng_agps_closed_def
      loc_eng_agps_open_failed_def loc_eng_xtra_init_def loc_eng_xtra_inject_data_def loc_eng_gps_measurement_init_def
      loc_eng_gps_measurement_close_def loc_eng_agps_ril_update_network_availability_def
      loc_eng_agps_install_certificates_def Let_def split: option.split)

lemma standalone_mode: "standalone s \<Longrightarrow> standalone (snd (loc_eng_set_position_mode p s))"
  using no_caps [of s] by (auto simp: loc_eng_set_position_mode_def Let_def assisted_def)

lemma standalone_server: "standalone s \<Longrightarrow> standalone (snd (loc_eng_set_server_proxy env ty n p s))"
  by (simp add: loc_eng_set_server_proxy_def Let_def split: server_type.split)

lemma standalone_agps_init: "standalone s \<Longrightarrow> standalone (loc_eng_agps_init env cb s)"
  using no_caps [of s] by (simp add: loc_eng_agps_init_def Let_def split: option.split)

lemma standalone_config: "standalone s \<Longrightarrow> standalone (loc_eng_configuration_update env d n s)"
proof -
  assume s: "standalone s"
  have k: "caps (keep_gps_conf tmp new) = caps tmp" for tmp new
    by (simp add: caps_def keep_gps_conf_def num_at_def is_gps_field_def CAPABILITIES_def SUPL_VER_def LPP_PROFILE_def
        A_GLONASS_POS_PROTOCOL_SELECT_def GPS_LOCK_def)
  have p: "standalone ((if b then post m x else x)\<lparr>conf := c\<rparr>) = standalone (x\<lparr>conf := c\<rparr>)" if "plain_mode_msg m" for b m x c
    using that by (simp add: standalone_def post_def)
  show ?thesis using s
    by (simp add: loc_eng_configuration_update_def Let_def p) (simp add: standalone_def k)
qed

lemma standalone_report [simp]: "standalone s \<Longrightarrow> standalone (adapter_report u s)"
  by (cases u) simp_all

lemma standalone_request [simp]: "standalone s \<Longrightarrow> standalone (snd (adapter_request r s))"
  by (cases r) (simp_all add: adapter_request_def)

lemma mask_off: "(w AND NOT a AND NOT b) AND (a OR b) = (0 :: uint32)"
  by (rule bit_eqI) (auto simp: bit_and_iff bit_or_iff bit_not_iff)

lemma no_assisted_eng [simp]:
  "caps (conf (loc_afw_data (no_assisted_modes h))) AND assisted_caps = 0"
  "standalone (loc_afw_data h) \<Longrightarrow> standalone (loc_afw_data (no_assisted_modes h))"
  by (simp_all add: no_assisted_modes_def on_eng_def standalone_def caps_def assisted_caps_def mask_off)

lemma no_assisted_fields [simp]:
  "configAlreadyRead (no_assisted_modes h) = configAlreadyRead h" "gTarget (no_assisted_modes h) = gTarget h"
  "sGnssType (no_assisted_modes h) = sGnssType h" "framework (no_assisted_modes h) = framework h"
  by (simp_all add: no_assisted_modes_def on_eng_def)

lemma read_config_again: "configAlreadyRead h \<Longrightarrow> read_config env h = h"
  by (simp add: read_config_def loc_eng_read_config_def on_eng_def)

lemma target_again: "t \<noteq> no_target \<Longrightarrow> loc_get_target p t = t"
  by (simp add: loc_get_target_def)

text \<open>A turn of the task: what is new is fine if the whole is.\<close>

lemma standalone_turn:
  assumes "hal_standalone h" and "hal_turn env h = Some h'"
  shows "hal_standalone h'"
proof -
  obtain m ms where q: "eng_queue (loc_afw_data h) = m # ms"
    using assms(2) by (cases "eng_queue (loc_afw_data h)") (simp_all add: hal_turn_def eng_deliver_def)
  let ?e = "eng_proc (he_eng env) m ((loc_afw_data h)\<lparr>eng_queue := ms\<rparr>)"
  have h': "h' = h\<lparr>loc_afw_data := ?e, framework := framework h @ concat (map (forward h) (new_cbs (loc_afw_data h) ?e))\<rparr>"
    using assms(2) q by (simp add: hal_turn_def eng_deliver_def)
  have "standalone ((loc_afw_data h)\<lparr>eng_queue := ms\<rparr>)" "plain_mode_msg m"
    using assms(1) q by (simp_all add: hal_standalone_def standalone_def)
  then have e: "standalone ?e" by (rule standalone_proc)
  then have "list_all plain_mode_cb (new_cbs (loc_afw_data h) ?e)"
    by (auto simp: standalone_def new_cbs_def list_all_iff dest: in_set_dropD)
  moreover have "list_all plain_mode_cb (forward h c)" if "plain_mode_cb c" for c
    using that by (cases c) (simp_all add: forward_def local_loc_cb_def local_sv_cb_def)
  ultimately have "list_all plain_mode_cb (concat (map (forward h) (new_cbs (loc_afw_data h) ?e)))"
    by (auto simp: list_all_iff)
  then show ?thesis using assms(1) e by (simp add: h' hal_standalone_def)
qed

lemma standalone_hal_init:
  assumes "hal_standalone h"
  shows "hal_standalone (snd (loc_init env cb h))"
proof (cases cb)
  case (Some c)
  obtain r e where i: "loc_eng_init (Some \<lparr>cb_location = True, cb_status = fw_status_cb c, cb_sv_status = True,
      cb_nmea = fw_nmea_cb c, cb_set_capabilities = fw_set_capabilities_cb c,
      cb_request_utc_time = fw_request_utc_time_cb c\<rparr>) loc_event_mask (loc_afw_data h) = (r, e)" by fastforce
  have "standalone e" using standalone_init [of "loc_afw_data h" "Some _" loc_event_mask] assms i
    by (metis hal_standalone_def snd_conv)
  then show ?thesis using assms target_again [of "gTarget h"]
    by (simp add: loc_init_def Some i Let_def hal_standalone_def setGpsLockMsg_def)
qed (use assms in \<open>simp add: loc_init_def\<close>)

lemma standalone_do:
  assumes "hal_standalone h"
  shows "hal_standalone (hal_do env op h)"
proof (cases op)
  case OpTurn
  then show ?thesis using assms standalone_turn by (auto split: option.split)
next
  case (OpInit cb)
  then show ?thesis using standalone_hal_init [OF assms] by simp
next
  case (OpConfig d n)
  then show ?thesis using assms standalone_config
    by (auto simp: loc_configuration_update_def Let_def hal_standalone_def on_eng_def)
next
  case OpCleanup
  then show ?thesis using assms by (simp add: loc_cleanup_def Let_def hal_standalone_def setGpsLockMsg_def)
next
  case OpInterface
  then show ?thesis using assms
    by (auto simp: get_gps_interface_def Let_def hal_standalone_def read_config_again target_again gnss_defs)
next
  case OpHwInterface
  then show ?thesis using assms by (simp add: gps_get_hardware_interface_def hal_standalone_def read_config_again Let_def)
next
  case (OpExtension x)
  then show ?thesis using assms
    by (simp add: loc_get_extension_def get_geofence_interface_def Let_def hal_standalone_def)
next
  case (OpXtraInject d n)
  then show ?thesis using assms
    by (simp add: loc_xtra_inject_data_def ret_eng_def case_prod_beta hal_standalone_def split: option.split)
next
  case (OpMode m b)
  then show ?thesis using assms standalone_mode by (simp add: hal_ops hal_standalone_def)
next
  case (OpAgpsServer ty x n)
  then show ?thesis using assms standalone_server by (simp add: hal_ops hal_standalone_def Let_def)
next
  case (OpAgpsInit x)
  then show ?thesis using assms standalone_agps_init by (simp add: hal_ops hal_standalone_def)
qed (use assms in \<open>simp_all add: hal_ops hal_standalone_def\<close>)

lemma standalone_run: "hal_standalone h \<Longrightarrow> hal_standalone (hal_run ops h)"
  by (induction ops h rule: hal_run.induct) (simp_all add: standalone_do)

text \<open>C10: A phone without the assisted modes never asks for them: once the interface has been
  handed out on a target with its own GPS chip, whatever the framework calls, the modem reports
  and the configuration says, no fix is started and no criteria are set with one of the
  network-assisted modes, and the framework is never told a capability for them.\<close>

theorem standalone_target_never_assisted:
  assumes "get_gps_interface env (boot_hal c) = (Some i, h)" and "sGnssType h \<in> {GNSS_GSS, GNSS_AUTO, GNSS_QCA1530}"
  shows "(\<forall>m. ApiStartFix m \<in> set (api_calls (loc_afw_data (hal_run ops h))) \<or>
        ApiSetPositionMode m \<in> set (api_calls (loc_afw_data (hal_run ops h))) \<longrightarrow>
        lp_mode m \<in> {LOC_POSITION_MODE_INVALID, LOC_POSITION_MODE_STANDALONE}) \<and>
    (\<forall>w. SetCapabilitiesCb w \<in> set (framework (hal_run ops h)) \<longrightarrow>
        w AND GPS_CAPABILITY_MSA = 0 \<and> w AND GPS_CAPABILITY_MSB = 0)"
proof -
  have "hal_standalone h"
  proof -
    let ?h = "read_config env (boot_hal c)"
    have r: "framework ?h = []" "configAlreadyRead ?h" "eng_queue (loc_afw_data ?h) = []" "cbs (loc_afw_data ?h) = []"
      "api_calls (loc_afw_data ?h) = []" "mFixCriteria (loc_afw_data ?h) = invalid_mode" "gTarget ?h = no_target"
      by (simp_all add: read_config_def boot_hal_def boot_eng_def loc_eng_read_config_def on_eng_def Let_def)
    let ?h1 = "?h\<lparr>gTarget := loc_get_target (he_platform env) no_target,
      sGnssType := getTargetGnssType (loc_get_target (he_platform env) no_target)\<rparr>"
    have t: "loc_get_target (he_platform env) no_target \<noteq> no_target" if "sGnssType ?h1 \<in> {GNSS_GSS, GNSS_AUTO, GNSS_QCA1530}"
    proof -
      have "getTargetGnssType no_target \<notin> {GNSS_GSS, GNSS_AUTO, GNSS_QCA1530}" by code_simp
      then show ?thesis using that by force
    qed
    have m: "hal_standalone (no_assisted_modes ?h1)" "hal_standalone ((no_assisted_modes ?h1)\<lparr>gss_fd := n\<rparr>)"
      if "sGnssType ?h1 \<in> {GNSS_GSS, GNSS_AUTO, GNSS_QCA1530}" for n
      using that t [OF that] r
      by (simp_all add: hal_standalone_def standalone_def no_assisted_modes_def on_eng_def caps_def assisted_caps_def mask_off
          invalid_mode_def assisted_def)
    show ?thesis using assms m
      by (auto simp: get_gps_interface_def Let_def r split: if_splits)
  qed
  then have s: "hal_standalone (hal_run ops h)" by (rule standalone_run)
  have c: "w AND assisted_caps = 0 \<Longrightarrow> w AND GPS_CAPABILITY_MSA = 0 \<and> w AND GPS_CAPABILITY_MSB = 0" for w
    by (simp add: assisted_caps_def bit.conj_disj_distrib or_eq_0_iff)
  have a: "\<not> assisted p \<Longrightarrow> p \<in> {LOC_POSITION_MODE_INVALID, LOC_POSITION_MODE_STANDALONE}" for p
    by (cases p) (simp_all add: assisted_def)
  show ?thesis using s c a by (fastforce simp: hal_standalone_def standalone_def list_all_iff)
qed

definition apq_env :: hal_env where
  "apq_env = hal_env0\<lparr>he_platform := msm8916\<lparr>baseband_prop := ''apq''\<rparr>\<rparr>"

theorem standalone_target_never_assisted_witness:
  "ApiStartFix \<lparr>lp_mode = LOC_POSITION_MODE_MS_BASED, single_shot = False\<rparr> \<notin>
     set (api_calls (loc_afw_data (hal_run [(apq_env, OpInit (Some all_fw)), (apq_env, OpMode GPS_POSITION_MODE_MS_BASED False),
       (apq_env, OpStart), (apq_env, OpTurn), (apq_env, OpTurn)] (snd (get_gps_interface apq_env (boot_hal boot_conf))))))"
proof -
  have t: "loc_get_target (he_platform apq_env) no_target = TARGET_APQ_SA" by code_simp
  have c: "gTarget (read_config apq_env (boot_hal boot_conf)) = no_target"
    by (simp add: read_config_def boot_hal_def on_eng_def case_prod_beta)
  have g: "getTargetGnssType TARGET_APQ_SA = GNSS_GSS" by code_simp
  obtain h where h: "get_gps_interface apq_env (boot_hal boot_conf) = (Some LocEngInterface, h)" "sGnssType h = GNSS_GSS"
    by (simp add: get_gps_interface_def Let_def c t g)
  then have "sGnssType h \<in> {GNSS_GSS, GNSS_AUTO, GNSS_QCA1530}" by simp
  from standalone_target_never_assisted [OF h(1) this] show ?thesis unfolding h(1) snd_conv by fastforce
qed

section \<open>Cleanup\<close>

text \<open>What a cleanup is to end: locations and satellites.\<close>

fun is_report :: "callback \<Rightarrow> bool" where
  "is_report (LocationCb _) = True"
| "is_report LocationNull = True"
| "is_report SvStatusCb = True"
| "is_report _ = False"

definition reports :: "hal \<Rightarrow> callback list" where
  "reports h = filter is_report (framework h)"

lemma quiet_forward: "\<not> gps_loc_cb h \<Longrightarrow> \<not> gps_sv_cb h \<Longrightarrow> filter is_report (forward h c) = []"
  by (cases c) (simp_all add: forward_def local_loc_cb_def local_sv_cb_def)

lemma quiet_forwards: "\<not> gps_loc_cb h \<Longrightarrow> \<not> gps_sv_cb h \<Longrightarrow> filter is_report (concat (map (forward h) cs)) = []"
  by (induction cs) (simp_all add: quiet_forward)

lemma no_assisted_cbs [simp]:
  "gps_loc_cb (no_assisted_modes h) = gps_loc_cb h" "gps_sv_cb (no_assisted_modes h) = gps_sv_cb h"
  by (simp_all add: no_assisted_modes_def on_eng_def)

lemma read_config_fields [simp]:
  "gps_loc_cb (read_config env h) = gps_loc_cb h" "gps_sv_cb (read_config env h) = gps_sv_cb h"
  "framework (read_config env h) = framework h"
  by (simp_all add: read_config_def on_eng_def case_prod_beta)

lemma quiet_do:
  assumes "\<not> gps_loc_cb h" and "\<not> gps_sv_cb h" and "\<And>c. op \<noteq> OpInit (Some c)"
  shows "\<not> gps_loc_cb (hal_do env op h) \<and> \<not> gps_sv_cb (hal_do env op h) \<and> reports (hal_do env op h) = reports h"
proof (cases op)
  case OpTurn
  then show ?thesis using assms quiet_forwards [OF assms(1,2)]
    by (auto simp: hal_turn_def reports_def split: option.split)
next
  case (OpInit c)
  then show ?thesis using assms by (cases c) (simp_all add: loc_init_def)
qed (use assms in \<open>simp_all add: hal_ops loc_configuration_update_def loc_cleanup_def loc_get_extension_def
      get_geofence_interface_def loc_xtra_inject_data_def reports_def Let_def split: option.split\<close>)

text \<open>C13: A cleanup is the end of reports: the vote for the power of the modem is withdrawn, a
  running session is asked to stop, and until the next initialisation the framework gets no
  location and no satellites, whatever it calls and the modem reports.\<close>

theorem cleanup_ends_reports:
  assumes "has_adapter (loc_afw_data h)" and "\<forall>(env, op) \<in> set ops. \<forall>c. op \<noteq> OpInit (Some c)"
  shows "reports (hal_run ops (loc_cleanup h)) = reports h \<and>
    last (api_calls (loc_afw_data (loc_cleanup h))) = CtxPowerVote False \<and>
    (mNavigating (loc_afw_data h) \<longrightarrow> last (eng_queue (loc_afw_data (loc_cleanup h))) = MsgStopFix)"
proof -
  have run: "reports (hal_run ops h') = reports h'" if "\<not> gps_loc_cb h'" "\<not> gps_sv_cb h'" for h'
    using that assms(2)
  proof (induction ops h' rule: hal_run.induct)
    case (2 env op ops h')
    have "op \<noteq> OpInit (Some c)" for c using "2.prems"(3) by auto
    then show ?case using "2.IH" quiet_do [OF "2.prems"(1,2), of op env] "2.prems"(3) by simp
  qed simp
  have "reports (loc_cleanup h) = reports h" "\<not> gps_loc_cb (loc_cleanup h)" "\<not> gps_sv_cb (loc_cleanup h)"
    using assms(1) by (simp_all add: loc_cleanup_def Let_def reports_def)
  moreover have "last (api_calls (loc_afw_data (loc_cleanup h))) = CtxPowerVote False"
    "mNavigating (loc_afw_data h) \<longrightarrow> last (eng_queue (loc_afw_data (loc_cleanup h))) = MsgStopFix"
    using assms(1)
    by (simp_all add: loc_cleanup_def loc_eng_cleanup_def loc_eng_stop_def setGpsLockMsg_def setPowerVote_def
        requestPowerVote_def eng_prim Let_def)
  ultimately show ?thesis using run by simp
qed

theorem cleanup_ends_reports_witness:
  "reports (hal_run [(hal_env0, OpReport UpSv), (hal_env0, OpTurn)] (loc_cleanup up_hal)) = []"
  using cleanup_ends_reports [of up_hal "[(hal_env0, OpReport UpSv), (hal_env0, OpTurn)]"]
  by (simp add: up_hal_def up_eng_def reports_def boot_hal_def)

text \<open>The other callbacks stay: the engine still holds the framework's own functions.\<close>

lemma status_after_cleanup:
  "framework (hal_run [(hal_env0, OpReport (UpStatus GPS_STATUS_ENGINE_ON)), (hal_env0, OpTurn)]
     (up_hal\<lparr>gps_loc_cb := False, gps_sv_cb := False\<rparr>)) = [StatusCb GPS_STATUS_ENGINE_ON]"
  by (simp add: up_hal_def up_eng_def boot_hal_def boot_eng_def ni_boot_def hal_turn_def eng_deliver_def on_eng_def post_def
      loc_eng_report_status_def loc_inform_gps_status_def update_aiding_data_for_deletion_def callback_def new_cbs_def
      forward_def Let_def set_mute_def)

lemma power_fields [simp]:
  "eng_queue (setPowerVote b s) = eng_queue s" "eng_queue (setPowerVoteRight b s) = eng_queue s"
  "status_cb (setPowerVote b s) = status_cb s" "status_cb (setPowerVoteRight b s) = status_cb s"
  by (simp_all add: setPowerVote_def setPowerVoteRight_def requestPowerVote_def eng_prim)

text \<open>A second initialisation leaves the engine with the callbacks of the first and does not
  report the capabilities again.\<close>

lemma second_init_keeps_callbacks:
  assumes "has_adapter (loc_afw_data h)"
  shows "fst (loc_init env (Some c) h) = 0"
    and "status_cb (loc_afw_data (snd (loc_init env (Some c) h))) = status_cb (loc_afw_data h)"
    and "MsgInit \<in> set (eng_queue (loc_afw_data (snd (loc_init env (Some c) h)))) \<Longrightarrow>
      MsgInit \<in> set (eng_queue (loc_afw_data h))"
  using assms by (auto simp: loc_init_def loc_eng_init_def setGpsLockMsg_def eng_prim loc_event_mask_def Let_def)

section \<open>Extensions\<close>

text \<open>Asked for an interface by its name, the HAL gives that interface: always, but for the
  RIL interface, which only phones with circuit-switched fallback have, and the geofence
  interface, which takes the capability and the library. Another name gives nothing.\<close>

theorem extension_by_name:
  assumes "inj_on (iface_name env) (UNIV - {LocEngInterface})"
  shows "(i \<noteq> LocEngInterface \<longrightarrow> fst (loc_get_extension env (iface_name env i) h) =
      (if (i = AGpsRilInterface \<longrightarrow> baseband env = ''csfb'') \<and>
          (i = GeofenceInterface \<longrightarrow> num_at (conf (loc_afw_data h)) CAPABILITIES OR GPS_CAPABILITY_GEOFENCING env =
               num_at (conf (loc_afw_data h)) CAPABILITIES \<and> fst (get_geofence_interface env h) \<noteq> None)
       then Some i else None)) \<and>
    ((\<forall>k. k \<noteq> LocEngInterface \<longrightarrow> n \<noteq> iface_name env k) \<longrightarrow> fst (loc_get_extension env n h) = None)"
proof -
  have e: "iface_name env a = iface_name env b \<longleftrightarrow> a = b" if "a \<noteq> LocEngInterface" "b \<noteq> LocEngInterface" for a b
    using assms that by (auto simp: inj_on_def)
  have "fst (loc_get_extension env (iface_name env i) h) =
      (if (i = AGpsRilInterface \<longrightarrow> baseband env = ''csfb'') \<and>
          (i = GeofenceInterface \<longrightarrow> num_at (conf (loc_afw_data h)) CAPABILITIES OR GPS_CAPABILITY_GEOFENCING env =
               num_at (conf (loc_afw_data h)) CAPABILITIES \<and> fst (get_geofence_interface env h) \<noteq> None)
       then Some i else None)" if "i \<noteq> LocEngInterface"
    using that by (cases i) (simp_all add: loc_get_extension_def e Let_def get_geofence_interface_def)
  moreover have "fst (loc_get_extension env n h) = None" if "\<forall>k. k \<noteq> LocEngInterface \<longrightarrow> n \<noteq> iface_name env k"
    using that by (simp add: loc_get_extension_def Let_def)
  ultimately show ?thesis by blast
qed

definition named_env :: hal_env where
  "named_env = hal_env0\<lparr>iface_name := (\<lambda>i. case i of LocEngInterface \<Rightarrow> [] | XTRAInterface \<Rightarrow> ''gps-xtra''
     | AGpsInterface \<Rightarrow> ''agps'' | NiInterface \<Rightarrow> ''gps-ni'' | AGpsRilInterface \<Rightarrow> ''agps_ril''
     | GeofenceInterface \<Rightarrow> ''gps_geofencing'' | AGpsCertInterface \<Rightarrow> ''supl-certificate''
     | ConfigInterface \<Rightarrow> ''gnss_configuration'' | GpsMeasurementInterface \<Rightarrow> ''gps_measurement'')\<rparr>"

theorem extension_by_name_witness:
  "fst (loc_get_extension named_env ''gps-ni'' up_hal) = Some NiInterface"
proof -
  have "inj_on (iface_name named_env) (UNIV - {LocEngInterface})"
  proof (rule inj_onI)
    fix x y :: hal_interface
    assume "iface_name named_env x = iface_name named_env y"
    then show "x = y" by (cases x; cases y) (simp_all add: named_env_def)
  qed
  moreover have "iface_name named_env NiInterface = ''gps-ni''" by (simp add: named_env_def)
  ultimately show ?thesis using extension_by_name [of named_env NiInterface up_hal "[]"] by auto
qed

end
