(* ===== verification/LocThread.thy ===== *)
theory LocThread
  imports Prelude
begin

text \<open>
  Threads, \<open>src/gps/utils/LocThread.cpp\<close>, and the message task on top,
  \<open>src/gps/utils/MsgTask.cpp\<close>. The object \<open>LocThreadDelegate\<close> is shared by the client and the
  thread it spawned and counts the two as its owners. Both run their functions step by step, a
  step being one access to the shared object or one call of the runnable; the section under
  the mutex is one step. The shared lock of \<open>LocSharedLock.h\<close> is at the end.
\<close>

section \<open>State\<close>

text \<open>Inside \<open>destroy()\<close>: before the first test, before the critical section, and behind it with
  the flag that is on the stack.\<close>

datatype destroy_pc = DTest | DDec | DDelete bool

text \<open>\<open>threadMain\<close>: reading the runnable; the tests around \<open>prerun\<close> and \<open>postrun\<close>; the loop.\<close>

datatype main_pc =
    NotCreated | Enter | PreTest | PreRun | LoopTest | Running | PostTest | PostRun | Clear | DeleteRunnable
  | MDestroy destroy_pc | MDone

text \<open>The client: in \<open>create\<close>, with the handle, in \<open>stop\<close>, and in \<open>MsgTask::destroy\<close>.\<close>

datatype client_pc =
    Created | CFail destroy_pc | Has | TaskUnblock | TaskRead | TaskNull | Bye | Stop1 | Stop2 | Join
  | CDestroy destroy_pc | CDone

record thread_sys =
  mRunnable :: bool
  mJoinable :: bool
  mRefCount :: int
  main :: main_pc
  client :: client_pc
  started :: "bool option"
  entered :: bool
  delegates_deleted :: nat
  runnables_deleted :: nat
  runs :: nat
  is_task :: bool
  mQ_unblocked :: bool
  stale_delegate :: bool
  stale_task :: bool

text \<open>The constructor of the delegate; \<open>thandle\<close>: the thread could be created.\<close>

definition LocThreadDelegate :: "bool \<Rightarrow> bool \<Rightarrow> bool \<Rightarrow> thread_sys" where
  "LocThreadDelegate thandle joinable task =
     \<lparr>mRunnable = thandle, mJoinable = (thandle \<and> joinable), mRefCount = (if thandle then 2 else 1),
      main = (if thandle then Enter else NotCreated), client = Created, started = None, entered = False,
      delegates_deleted = 0, runnables_deleted = 0, runs = 0, is_task = task, mQ_unblocked = False,
      stale_delegate = False, stale_task = False\<rparr>"

text \<open>An access to the delegate, and one to the runnable as the client's object.\<close>

definition touch :: "thread_sys \<Rightarrow> thread_sys" where
  "touch s = s\<lparr>stale_delegate := (stale_delegate s \<or> delegates_deleted s > 0)\<rparr>"

definition touch_task :: "thread_sys \<Rightarrow> thread_sys" where
  "touch_task s = s\<lparr>stale_task := (stale_task s \<or> runnables_deleted s > 0)\<rparr>"

section \<open>Steps\<close>

text \<open>A step of \<open>destroy()\<close>: where it goes on, or \<open>None\<close> when it is over.\<close>

fun destroy_step :: "destroy_pc \<Rightarrow> thread_sys \<Rightarrow> destroy_pc option \<times> thread_sys" where
  "destroy_step DTest s = (if mRefCount s > 0 then Some DDec else None, touch s)"
| "destroy_step DDec s = (Some (DDelete (mRefCount s = 1)), touch (s\<lparr>mRefCount := mRefCount s - 1\<rparr>))"
| "destroy_step (DDelete callDelete) s =
     (None, if callDelete then (touch s)\<lparr>delegates_deleted := Suc (delegates_deleted s)\<rparr> else s)"

text \<open>A step of the thread; \<open>again\<close> is what \<open>run()\<close> returns. The runnable of a message task returns
  false only when its queue has been unblocked.\<close>

fun main_step :: "bool \<Rightarrow> thread_sys \<Rightarrow> thread_sys option" where
  "main_step again s = (case main s of
      NotCreated \<Rightarrow> None
    | Enter \<Rightarrow> Some ((touch s)\<lparr>main := (if mRunnable s then PreTest else MDestroy DTest), entered := mRunnable s\<rparr>)
    | PreTest \<Rightarrow> Some ((touch s)\<lparr>main := (if mRunnable s then PreRun else LoopTest)\<rparr>)
    | PreRun \<Rightarrow> Some (s\<lparr>main := LoopTest\<rparr>)
    | LoopTest \<Rightarrow> Some ((touch s)\<lparr>main := (if mRunnable s then Running else PostTest)\<rparr>)
    | Running \<Rightarrow> (if \<not> again \<and> is_task s \<and> \<not> mQ_unblocked s then None
        else Some (s\<lparr>main := (if again then LoopTest else PostTest), runs := Suc (runs s)\<rparr>))
    | PostTest \<Rightarrow> Some ((touch s)\<lparr>main := (if mRunnable s then PostRun else Clear)\<rparr>)
    | PostRun \<Rightarrow> Some (s\<lparr>main := Clear\<rparr>)
    | Clear \<Rightarrow> Some ((touch s)\<lparr>mRunnable := False, main := DeleteRunnable\<rparr>)
    | DeleteRunnable \<Rightarrow> Some (s\<lparr>runnables_deleted := Suc (runnables_deleted s), main := MDestroy DTest\<rparr>)
    | MDestroy d \<Rightarrow> (case destroy_step d s of (next, s') \<Rightarrow>
        Some (s'\<lparr>main := (case next of None \<Rightarrow> MDone | Some d \<Rightarrow> MDestroy d)\<rparr>))
    | MDone \<Rightarrow> None)"

datatype client_op = CallStop | CallBye | CallTaskDestroy

text \<open>A step of the client; the operation is what it does with a handle it has:
  \<open>LocThread::stop\<close>, the destructor of \<open>LocThread\<close>, or \<open>MsgTask::destroy\<close>, the only one on the
  thread of a message task, whose handle is private. \<open>pthread_join\<close>
  waits for the thread.\<close>

fun client_step :: "client_op \<Rightarrow> thread_sys \<Rightarrow> thread_sys option" where
  "client_step op s = (case client s of
      Created \<Rightarrow>
        if mRunnable s then Some ((touch s)\<lparr>client := Has, started := Some True\<rparr>)
        else Some ((touch s)\<lparr>client := CFail DTest\<rparr>)
    | CFail d \<Rightarrow> (case destroy_step d s of (next, s') \<Rightarrow>
        (case next of None \<Rightarrow> Some (s'\<lparr>client := CDone, started := Some False\<rparr>) | Some d \<Rightarrow> Some (s'\<lparr>client := CFail d\<rparr>)))
    | Has \<Rightarrow> if is_task s \<noteq> (op = CallTaskDestroy) then None else Some (s\<lparr>client := (case op of CallStop \<Rightarrow> Stop1 | CallBye \<Rightarrow> Bye | CallTaskDestroy \<Rightarrow> TaskUnblock)\<rparr>)
    | TaskUnblock \<Rightarrow> Some ((touch_task s)\<lparr>mQ_unblocked := True, client := TaskRead\<rparr>)
    | TaskRead \<Rightarrow> Some ((touch_task s)\<lparr>client := TaskNull\<rparr>)
    | TaskNull \<Rightarrow> Some ((touch_task s)\<lparr>client := Bye\<rparr>)
    | Bye \<Rightarrow> Some ((touch s)\<lparr>client := (if mJoinable s then Stop1 else CDestroy DTest)\<rparr>)
    | Stop1 \<Rightarrow> Some ((touch s)\<lparr>mRunnable := False, client := Stop2\<rparr>)
    | Stop2 \<Rightarrow> Some ((touch s)\<lparr>mJoinable := False, client := (if mJoinable s then Join else CDestroy DTest)\<rparr>)
    | Join \<Rightarrow> if main s = MDone then Some ((touch s)\<lparr>client := CDestroy DTest\<rparr>) else None
    | CDestroy d \<Rightarrow> (case destroy_step d s of (next, s') \<Rightarrow>
        Some (s'\<lparr>client := (case next of None \<Rightarrow> CDone | Some d \<Rightarrow> CDestroy d)\<rparr>))
    | CDone \<Rightarrow> None)"

declare main_step.simps [simp del] client_step.simps [simp del]

inductive thread_step :: "thread_sys \<Rightarrow> thread_sys \<Rightarrow> bool" where
  main: "main_step again s = Some s' \<Longrightarrow> thread_step s s'"
| client: "client_step op s = Some s' \<Longrightarrow> thread_step s s'"

inductive thread_reachable :: "bool \<Rightarrow> bool \<Rightarrow> bool \<Rightarrow> thread_sys \<Rightarrow> bool" for ok joinable task where
  init: "thread_reachable ok joinable task (LocThreadDelegate ok joinable task)"
| step: "thread_reachable ok joinable task s \<Longrightarrow> thread_step s s' \<Longrightarrow> thread_reachable ok joinable task s'"

section \<open>The owners\<close>

fun holds_d :: "destroy_pc \<Rightarrow> bool" where
  "holds_d (DDelete _) = False"
| "holds_d _ = True"

fun main_owns :: "main_pc \<Rightarrow> bool" where
  "main_owns NotCreated = False"
| "main_owns MDone = False"
| "main_owns (MDestroy d) = holds_d d"
| "main_owns _ = True"

fun client_owns :: "client_pc \<Rightarrow> bool" where
  "client_owns CDone = False"
| "client_owns (CFail d) = holds_d d"
| "client_owns (CDestroy d) = holds_d d"
| "client_owns _ = True"

fun main_deletes :: "main_pc \<Rightarrow> bool" where
  "main_deletes (MDestroy (DDelete b)) = b"
| "main_deletes _ = False"

fun client_deletes :: "client_pc \<Rightarrow> bool" where
  "client_deletes (CFail (DDelete b)) = b"
| "client_deletes (CDestroy (DDelete b)) = b"
| "client_deletes _ = False"

text \<open>The count is that of the owners, exactly one of them deletes, and nobody has used the object
  after that.\<close>

definition owners_inv :: "thread_sys \<Rightarrow> bool" where
  "owners_inv s \<longleftrightarrow> mRefCount s = of_bool (main_owns (main s)) + of_bool (client_owns (client s)) \<and>
     delegates_deleted s + of_bool (main_deletes (main s)) + of_bool (client_deletes (client s)) =
       of_bool (\<not> main_owns (main s) \<and> \<not> client_owns (client s)) \<and> \<not> stale_delegate s"

lemma deletes_not_owns [simp]:
  "main_deletes m \<Longrightarrow> \<not> main_owns m" "client_deletes c \<Longrightarrow> \<not> client_owns c"
  by (cases m rule: main_deletes.cases; simp) (cases c rule: client_deletes.cases; simp)

lemma owners_init: "owners_inv (LocThreadDelegate ok joinable task)"
  by (simp add: owners_inv_def LocThreadDelegate_def)

text \<open>While somebody owns the object, an access to it is not stale.\<close>

lemma touch_owned:
  "owners_inv s \<Longrightarrow> main_owns (main s) \<or> client_owns (client s) \<Longrightarrow> touch s = s"
  by (auto simp: owners_inv_def touch_def)

lemma owners_main:
  assumes inv: "owners_inv s" and st: "main_step again s = Some s'"
  shows "owners_inv s'"
proof -
  have c: "client_deletes (client s) \<Longrightarrow> \<not> client_owns (client s)" by simp
  show ?thesis
  proof (cases "main s")
    case (MDestroy d)
    then show ?thesis
      using inv st c
      by (cases d; cases "client_owns (client s)"; cases "client_deletes (client s)")
        (auto simp: main_step.simps owners_inv_def touch_def split: if_splits)
  qed (use inv st c in \<open>auto simp: main_step.simps owners_inv_def touch_def split: if_splits\<close>)
qed

lemma owners_client:
  assumes inv: "owners_inv s" and st: "client_step op s = Some s'"
  shows "owners_inv s'"
proof -
  have m: "main_deletes (main s) \<Longrightarrow> \<not> main_owns (main s)" by simp
  show ?thesis
  proof (cases "client s")
    case (CDestroy d)
    then show ?thesis
      using inv st m
      by (cases d; cases "main_owns (main s)"; cases "main_deletes (main s)")
        (auto simp: client_step.simps owners_inv_def touch_def split: if_splits)
  next
    case (CFail d)
    then show ?thesis
      using inv st m
      by (cases d; cases "main_owns (main s)"; cases "main_deletes (main s)")
        (auto simp: client_step.simps owners_inv_def touch_def split: if_splits)
  qed (use inv st m in \<open>auto simp: client_step.simps owners_inv_def touch_def touch_task_def split: if_splits client_op.splits\<close>)
qed

lemma owners_step: "thread_step s s' \<Longrightarrow> owners_inv s \<Longrightarrow> owners_inv s'"
  by (cases rule: thread_step.cases) (auto intro: owners_main owners_client)

lemma owners_reachable: "thread_reachable ok joinable task s \<Longrightarrow> owners_inv s"
  by (induction rule: thread_reachable.induct) (auto intro: owners_init owners_step)

section \<open>The runnable\<close>

text \<open>The thread deletes the runnable it has read, and only that.\<close>

definition runnable_inv :: "thread_sys \<Rightarrow> bool" where
  "runnable_inv s \<longleftrightarrow> (case main s of
      NotCreated \<Rightarrow> \<not> entered s \<and> runnables_deleted s = 0
    | Enter \<Rightarrow> \<not> entered s \<and> runnables_deleted s = 0
    | MDestroy _ \<Rightarrow> runnables_deleted s = of_bool (entered s)
    | MDone \<Rightarrow> runnables_deleted s = of_bool (entered s)
    | _ \<Rightarrow> entered s \<and> runnables_deleted s = 0)"

lemma touch_fields [simp]:
  "main (touch s) = main s" "entered (touch s) = entered s" "runnables_deleted (touch s) = runnables_deleted s"
  "entered (touch_task s) = entered s" "runnables_deleted (touch_task s) = runnables_deleted s"
  "client (touch s) = client s" "mRunnable (touch s) = mRunnable s"
  "is_task (touch s) = is_task s" "mQ_unblocked (touch s) = mQ_unblocked s"
  "main (touch_task s) = main s" "client (touch_task s) = client s" "mRunnable (touch_task s) = mRunnable s"
  "is_task (touch_task s) = is_task s" "mQ_unblocked (touch_task s) = mQ_unblocked s"
  by (simp_all add: touch_def touch_task_def)

lemma destroy_step_frame [simp]:
  "runnables_deleted (snd (destroy_step d s)) = runnables_deleted s"
  "entered (snd (destroy_step d s)) = entered s" "main (snd (destroy_step d s)) = main s"
  "client (snd (destroy_step d s)) = client s" "mRunnable (snd (destroy_step d s)) = mRunnable s"
  "is_task (snd (destroy_step d s)) = is_task s" "mQ_unblocked (snd (destroy_step d s)) = mQ_unblocked s"
  by (induction d s rule: destroy_step.induct) (simp_all add: touch_def)

lemma client_step_frame:
  "client_step op s = Some s' \<Longrightarrow>
   main s' = main s \<and> entered s' = entered s \<and> runnables_deleted s' = runnables_deleted s"
  by (cases "client s")
    (auto simp: client_step.simps case_prod_beta split: if_splits option.splits)

lemma runnable_client: "client_step op s = Some s' \<Longrightarrow> runnable_inv s' = runnable_inv s"
  by (cases "main s") (auto dest!: client_step_frame simp: runnable_inv_def)

lemma runnable_main: "runnable_inv s \<Longrightarrow> main_step again s = Some s' \<Longrightarrow> runnable_inv s'"
  by (cases "main s")
    (auto simp: main_step.simps runnable_inv_def case_prod_beta split: if_splits option.splits)

lemma runnable_reachable: "thread_reachable ok joinable task s \<Longrightarrow> runnable_inv s"
proof (induction rule: thread_reachable.induct)
  case init
  then show ?case by (simp add: runnable_inv_def LocThreadDelegate_def)
next
  case (step s s')
  from step.hyps(2) step.IH show ?case
    by (cases rule: thread_step.cases) (auto dest: runnable_client intro: runnable_main)
qed

section \<open>Winding down\<close>

text \<open>A bound on the steps that are left once \<open>mRunnable\<close> has been cleared.\<close>

fun destroy_left :: "destroy_pc \<Rightarrow> nat" where
  "destroy_left DTest = 3"
| "destroy_left DDec = 2"
| "destroy_left (DDelete _) = 1"

fun main_left :: "main_pc \<Rightarrow> nat" where
  "main_left NotCreated = 0"
| "main_left Enter = 11"
| "main_left PreTest = 10"
| "main_left PreRun = 9"
| "main_left LoopTest = 8"
| "main_left Running = 9"
| "main_left PostTest = 7"
| "main_left PostRun = 6"
| "main_left Clear = 5"
| "main_left DeleteRunnable = 4"
| "main_left (MDestroy d) = destroy_left d"
| "main_left MDone = 0"

fun client_left :: "client_pc \<Rightarrow> nat" where
  "client_left Created = 12"
| "client_left (CFail d) = destroy_left d"
| "client_left Has = 11"
| "client_left TaskUnblock = 10"
| "client_left TaskRead = 9"
| "client_left TaskNull = 8"
| "client_left Bye = 7"
| "client_left Stop1 = 6"
| "client_left Stop2 = 5"
| "client_left Join = 4"
| "client_left (CDestroy d) = destroy_left d"
| "client_left CDone = 0"

definition steps_left :: "thread_sys \<Rightarrow> nat" where
  "steps_left s = main_left (main s) + client_left (client s)"

lemma destroy_step_left: "destroy_step d s = (Some d', s') \<Longrightarrow> destroy_left d' < destroy_left d"
  by (cases d) (auto split: if_splits)

lemma destroy_left_pos [simp]: "0 < destroy_left d"
  by (cases d) simp_all

lemma destroy_step_split:
  "P (destroy_step d s) \<longleftrightarrow> (\<forall>next s'. destroy_step d s = (next, s') \<longrightarrow> P (next, s'))"
  by (cases "destroy_step d s") simp

lemma destroy_next_left:
  "fst (destroy_step d s) = Some d' \<Longrightarrow> destroy_left d' < destroy_left d"
  using destroy_step_left [of d s d' "snd (destroy_step d s)"] by (cases "destroy_step d s") auto

lemma main_step_left:
  "\<not> mRunnable s \<Longrightarrow> main_step again s = Some s' \<Longrightarrow>
   \<not> mRunnable s' \<and> main_left (main s') < main_left (main s) \<and> client s' = client s"
  by (cases "main s")
    (auto simp: main_step.simps case_prod_beta destroy_next_left split: if_splits option.splits)

lemma client_step_left:
  "\<not> mRunnable s \<Longrightarrow> client_step op s = Some s' \<Longrightarrow>
   \<not> mRunnable s' \<and> client_left (client s') < client_left (client s) \<and> main s' = main s"
  by (cases "client s")
    (auto simp: client_step.simps case_prod_beta destroy_next_left split: if_splits option.splits client_op.splits)

lemma step_left:
  "thread_step s s' \<Longrightarrow> \<not> mRunnable s \<Longrightarrow> \<not> mRunnable s' \<and> steps_left s' < steps_left s"
  by (cases rule: thread_step.cases)
    (auto simp: steps_left_def dest: main_step_left client_step_left)

lemma steps_left_run:
  "(thread_step ^^ n) s s' \<Longrightarrow> \<not> mRunnable s \<Longrightarrow> n + steps_left s' \<le> steps_left s"
proof (induction n arbitrary: s')
  case (Suc n)
  then obtain m where m: "(thread_step ^^ n) s m" "thread_step m s'" by auto
  have "\<not> mRunnable m"
    using m(1) Suc.prems(2)
  proof (induction n arbitrary: m)
    case (Suc k)
    then show ?case using step_left by (auto elim!: relpowp_Suc_E)
  qed simp
  with Suc.IH [OF m(1) Suc.prems(2)] step_left [OF m(2)] show ?case by simp
qed simp

section \<open>Going on\<close>

text \<open>A step that waits for nothing from outside: the runnable may have nothing more to do, and no
  message arrives any more.\<close>

inductive quiet_step :: "thread_sys \<Rightarrow> thread_sys \<Rightarrow> bool" where
  main: "main_step False s = Some s' \<Longrightarrow> quiet_step s s'"
| client: "client_step op s = Some s' \<Longrightarrow> quiet_step s s'"

text \<open>The thread does not call its runnable any more.\<close>

fun main_past :: "main_pc \<Rightarrow> bool" where
  "main_past NotCreated = True"
| "main_past DeleteRunnable = True"
| "main_past (MDestroy _) = True"
| "main_past MDone = True"
| "main_past _ = False"

definition can_end :: "thread_sys \<Rightarrow> bool" where
  "can_end s \<longleftrightarrow> (is_task s \<longrightarrow> mQ_unblocked s)"

text \<open>\<open>create\<close> reports a failure only on a thread that is past its runnable, and \<open>MsgTask::destroy\<close>
  has unblocked the queue before it lets the thread go.\<close>

fun going_on :: "client_pc \<Rightarrow> thread_sys \<Rightarrow> bool" where
  "going_on Created s = (mRunnable s \<or> main_past (main s))"
| "going_on (CFail _) s = main_past (main s)"
| "going_on Has s = True"
| "going_on TaskUnblock s = True"
| "going_on CDone s = (main_past (main s) \<or> can_end s)"
| "going_on _ s = can_end s"

lemma main_step_past: "main_step again s = Some s' \<Longrightarrow> main_past (main s) \<Longrightarrow> main_past (main s')"
  by (cases "main s") (auto simp: main_step.simps case_prod_beta split: option.splits)

lemma main_step_client:
  "main_step again s = Some s' \<Longrightarrow> client s' = client s \<and> is_task s' = is_task s \<and> mQ_unblocked s' = mQ_unblocked s"
  by (cases "main s") (auto simp: main_step.simps case_prod_beta split: if_splits)

lemma main_step_runnable:
  "main_step again s = Some s' \<Longrightarrow> mRunnable s \<Longrightarrow> mRunnable s' \<or> main_past (main s')"
  by (cases "main s") (auto simp: main_step.simps case_prod_beta split: if_splits)

lemma main_going_on:
  assumes "going_on (client s) s" "main_step again s = Some s'"
  shows "going_on (client s') s'"
  using assms main_step_past [OF assms(2)] main_step_client [OF assms(2)] main_step_runnable [OF assms(2)]
  by (cases "client s") (auto simp: can_end_def)

lemma client_going_on:
  "going_on (client s) s \<Longrightarrow> client_step op s = Some s' \<Longrightarrow> going_on (client s') s'"
  by (cases "client s")
    (auto simp: client_step.simps can_end_def case_prod_beta split: if_splits option.splits client_op.splits)

lemma going_on_reachable: "thread_reachable ok joinable task s \<Longrightarrow> going_on (client s) s"
proof (induction rule: thread_reachable.induct)
  case init
  then show ?case by (simp add: LocThreadDelegate_def)
next
  case (step s s')
  from step.hyps(2) step.IH show ?case
    by (cases rule: thread_step.cases) (auto intro: main_going_on client_going_on)
qed

lemma client_moves:
  assumes "client s \<noteq> CDone" "client s = Join \<Longrightarrow> main s = MDone"
  shows "\<exists>op s'. client_step op s = Some s'"
proof -
  have "client_step (if is_task s then CallTaskDestroy else CallStop) s \<noteq> None"
    using assms by (cases "client s") (auto simp: client_step.simps case_prod_beta split: option.splits)
  then show ?thesis by blast
qed

lemma main_moves:
  assumes "main s \<noteq> NotCreated" "main s \<noteq> MDone" "main_past (main s) \<or> can_end s"
  shows "\<exists>s'. main_step False s = Some s'"
  using assms by (cases "main s") (auto simp: main_step.simps can_end_def case_prod_beta)

text \<open>A thread that was never created has nobody who waits for it.\<close>

lemma main_step_created: "main_step again s = Some s' \<Longrightarrow> main s \<noteq> NotCreated \<and> main s' \<noteq> NotCreated"
  by (cases "main s") (auto simp: main_step.simps case_prod_beta split: if_splits option.splits)

definition join_inv :: "thread_sys \<Rightarrow> bool" where
  "join_inv s \<longleftrightarrow> (mJoinable s \<or> client s = Join \<longrightarrow> main s \<noteq> NotCreated)"

lemma destroy_step_joinable [simp]: "mJoinable (snd (destroy_step d s)) = mJoinable s"
  by (induction d s rule: destroy_step.induct) (simp_all add: touch_def)

lemma touch_joinable [simp]: "mJoinable (touch s) = mJoinable s" "mJoinable (touch_task s) = mJoinable s"
  by (simp_all add: touch_def touch_task_def)

lemma client_join_inv: "client_step op s = Some s' \<Longrightarrow> join_inv s \<Longrightarrow> join_inv s'"
  by (cases "client s")
    (auto simp: client_step.simps join_inv_def case_prod_beta split: if_splits option.splits client_op.splits)

lemma main_join_inv: "main_step again s = Some s' \<Longrightarrow> join_inv s \<Longrightarrow> join_inv s'"
  by (auto simp: join_inv_def dest: main_step_created)

lemma join_inv_reachable: "thread_reachable ok joinable task s \<Longrightarrow> join_inv s"
proof (induction rule: thread_reachable.induct)
  case init
  then show ?case by (simp add: LocThreadDelegate_def join_inv_def)
next
  case (step s s')
  from step.hyps(2) step.IH show ?case
    by (cases rule: thread_step.cases) (auto intro: client_join_inv main_join_inv)
qed

section \<open>Schedules\<close>

datatype move = ThreadMoves bool | ClientMoves client_op

fun run_moves :: "move list \<Rightarrow> thread_sys \<Rightarrow> thread_sys option" where
  "run_moves [] s = Some s"
| "run_moves (ThreadMoves again # ms) s = Option.bind (main_step again s) (run_moves ms)"
| "run_moves (ClientMoves op # ms) s = Option.bind (client_step op s) (run_moves ms)"

lemma run_moves_reachable:
  "run_moves ms s = Some s' \<Longrightarrow> thread_reachable ok joinable task s \<Longrightarrow> thread_reachable ok joinable task s'"
proof (induction ms s rule: run_moves.induct)
  case (2 again ms s)
  then show ?case by (auto simp: bind_eq_Some_conv dest: thread_reachable.step [OF _ thread_step.main])
next
  case (3 op ms s)
  then show ?case by (auto simp: bind_eq_Some_conv dest: thread_reachable.step [OF _ thread_step.client])
qed simp

section \<open>What the threads promise\<close>

text \<open>C19: In every interleaving of the client with the thread the shared object is deleted at most
  once, exactly when both have let it go and the last of them is out of its critical section, and
  nobody accesses it after that.\<close>

theorem thread_object_freed_once:
  assumes "thread_reachable ok joinable task s"
  shows "\<not> stale_delegate s \<and>
    delegates_deleted s = of_bool (\<not> main_owns (main s) \<and> \<not> client_owns (client s) \<and>
      \<not> main_deletes (main s) \<and> \<not> client_deletes (client s))"
proof -
  have "owners_inv s" using assms by (rule owners_reachable)
  moreover have "main_deletes (main s) \<Longrightarrow> \<not> main_owns (main s)" "client_deletes (client s) \<Longrightarrow> \<not> client_owns (client s)"
    by simp_all
  ultimately show ?thesis
    by (cases "main_deletes (main s)"; cases "client_deletes (client s)";
        cases "main_owns (main s)"; cases "client_owns (client s)") (simp_all add: owners_inv_def)
qed

definition joined_run :: "move list" where
  "joined_run = [ThreadMoves True, ClientMoves CallStop, ThreadMoves True, ThreadMoves True, ThreadMoves True,
     ThreadMoves True, ClientMoves CallStop, ClientMoves CallStop, ThreadMoves True, ThreadMoves True,
     ThreadMoves True, ThreadMoves True, ClientMoves CallStop, ThreadMoves True, ThreadMoves True, ThreadMoves True,
     ClientMoves CallStop, ClientMoves CallStop, ClientMoves CallStop, ClientMoves CallStop]"

lemma joined_run_result:
  "run_moves joined_run (LocThreadDelegate True True False) =
   Some (LocThreadDelegate True True False\<lparr>mRunnable := False, mJoinable := False, mRefCount := 0, main := MDone,
     client := CDone, started := Some True, entered := True, delegates_deleted := 1, runnables_deleted := 1, runs := 1\<rparr>)"
  by code_simp

lemmas joined_run_reachable = run_moves_reachable [OF joined_run_result thread_reachable.init]

lemma thread_object_freed_once_witness:
  "\<exists>s. run_moves joined_run (LocThreadDelegate True True False) = Some s \<and> delegates_deleted s = 1"
  using thread_object_freed_once [OF joined_run_reachable] joined_run_result by simp

text \<open>The runnable is deleted by the thread that read it and by no other: once when the thread that
  has called it ends, never when the thread found it cleared already.\<close>

theorem thread_deletes_runnable:
  assumes "thread_reachable ok joinable task s" "main s = MDone"
  shows "runnables_deleted s = of_bool (entered s)"
  using runnable_reachable [OF assms(1)] assms(2) by (simp add: runnable_inv_def)

lemma thread_deletes_runnable_witness:
  "\<exists>s. run_moves joined_run (LocThreadDelegate True True False) = Some s \<and> runnables_deleted s = of_bool (entered s)"
  using thread_deletes_runnable [OF joined_run_reachable] joined_run_result by simp

text \<open>C38: Once \<open>mRunnable\<close> has been cleared, by the client's \<open>stop\<close> or by the thread on its way out,
  client and thread take at most 23 more steps together, whatever the runnable returns.\<close>

theorem thread_stop_bounded:
  assumes "\<not> mRunnable s" "(thread_step ^^ n) s s'"
  shows "n \<le> 23"
proof -
  have "main_left (main s) \<le> 11" "client_left (client s) \<le> 12"
  proof -
    have d: "destroy_left d \<le> 3" for d by (cases d) simp_all
    show "main_left (main s) \<le> 11" by (cases "main s") (auto intro: order.trans [OF d])
    show "client_left (client s) \<le> 12" by (cases "client s") (auto intro: order.trans [OF d])
  qed
  with steps_left_run [OF assms(2,1)] show ?thesis by (simp add: steps_left_def)
qed

text \<open>C23: No interleaving gets stuck: as long as the client or the thread is not through, one of them
  can take a step that waits for no message, so \<open>pthread_join\<close> always returns in the end; and when
  both are through the shared object has been freed.\<close>

theorem thread_never_stuck:
  assumes "thread_reachable ok joinable task s"
  shows "(\<exists>s'. quiet_step s s') \<or>
    client s = CDone \<and> (main s = NotCreated \<or> main s = MDone) \<and> delegates_deleted s = 1"
proof (cases "client s = CDone \<or> client s = Join \<and> main s \<noteq> MDone")
  case False
  then show ?thesis using client_moves [of s] quiet_step.client by blast
next
  case True
  have g: "main_past (main s) \<or> can_end s" using going_on_reachable [OF assms] True by auto
  show ?thesis
  proof (cases "main s = NotCreated \<or> main s = MDone")
    case False
    then show ?thesis using main_moves [OF _ _ g] quiet_step.main by blast
  next
    case over: True
    then have "client s = CDone" using True join_inv_reachable [OF assms] by (auto simp: join_inv_def)
    then show ?thesis using over owners_reachable [OF assms] by (auto simp: owners_inv_def)
  qed
qed

text \<open>One run in which the thread is stopped and joined: an application that takes 13 steps after
  the clearing.\<close>

lemma run_moves_relpow:
  "run_moves ms s = Some s' \<Longrightarrow> (thread_step ^^ length ms) s s'"
proof (induction ms s rule: run_moves.induct)
  case (2 again ms s)
  then show ?case by (auto simp: bind_eq_Some_conv simp del: relpowp.simps intro!: relpowp_Suc_I2 thread_step.main)
next
  case (3 op ms s)
  then show ?case by (auto simp: bind_eq_Some_conv simp del: relpowp.simps intro!: relpowp_Suc_I2 thread_step.client)
qed simp

definition stopping_run :: "move list" where
  "stopping_run = drop 8 joined_run"

lemma stopping_run_result:
  "\<exists>s s'. run_moves (take 8 joined_run) (LocThreadDelegate True True False) = Some s \<and> \<not> mRunnable s \<and>
     run_moves stopping_run s = Some s'"
proof -
  let ?s = "the (run_moves (take 8 joined_run) (LocThreadDelegate True True False))"
  have "run_moves (take 8 joined_run) (LocThreadDelegate True True False) = Some ?s" by code_simp
  moreover have "\<not> mRunnable ?s" by code_simp
  moreover have "run_moves stopping_run ?s = Some (the (run_moves stopping_run ?s))" by code_simp
  ultimately show ?thesis by blast
qed

lemma thread_stop_bounded_witness:
  "length stopping_run \<le> 23"
  using stopping_run_result thread_stop_bounded [OF _ run_moves_relpow] by blast

lemma thread_never_stuck_witness:
  "\<exists>s. run_moves joined_run (LocThreadDelegate True True False) = Some s \<and>
     ((\<exists>s'. quiet_step s s') \<or> delegates_deleted s = 1)"
  using thread_never_stuck [OF joined_run_reachable] joined_run_result by auto

section \<open>What they do not promise\<close>

text \<open>\<open>LocThread.h\<close>: the runnable is deleted by \<open>LocThread\<close> when \<open>start\<close> returns true. A \<open>stop\<close>
  that comes before the thread has read \<open>mRunnable\<close> leaves it to nobody.\<close>

lemma stopped_early_leaks_runnable:
  "\<exists>s. thread_reachable True True False s \<and> started s = Some True \<and> client s = CDone \<and> main s = MDone \<and>
     runnables_deleted s = 0"
proof -
  let ?ms = "replicate 4 (ClientMoves CallStop) @ replicate 4 (ThreadMoves True) @ replicate 4 (ClientMoves CallStop)"
  let ?s = "the (run_moves ?ms (LocThreadDelegate True True False))"
  have "run_moves ?ms (LocThreadDelegate True True False) = Some ?s" by code_simp
  then have "thread_reachable True True False ?s" by (rule run_moves_reachable) (rule thread_reachable.init)
  moreover have "started ?s = Some True \<and> client ?s = CDone \<and> main ?s = MDone \<and> runnables_deleted ?s = 0" by code_simp
  ultimately show ?thesis by blast
qed

text \<open>\<open>LocThread.h\<close>: when \<open>start\<close> returns false the client deletes the runnable. \<open>create\<close> takes a
  thread that has already come to its end for one that could not be created, and then the runnable
  is gone.\<close>

lemma finished_early_start_fails:
  "\<exists>s. thread_reachable True True False s \<and> started s = Some False \<and> runs s = 1 \<and> runnables_deleted s = 1"
proof -
  let ?ms = "replicate 12 (ThreadMoves False) @ replicate 4 (ClientMoves CallStop)"
  let ?s = "the (run_moves ?ms (LocThreadDelegate True True False))"
  have "run_moves ?ms (LocThreadDelegate True True False) = Some ?s" by code_simp
  then have "thread_reachable True True False ?s" by (rule run_moves_reachable) (rule thread_reachable.init)
  moreover have "started ?s = Some False \<and> runs ?s = 1 \<and> runnables_deleted ?s = 1" by code_simp
  ultimately show ?thesis by blast
qed

text \<open>\<open>MsgTask::destroy\<close> unblocks the queue, which ends \<open>run\<close>, and then goes on with the members
  of the task, which the thread deletes as its runnable.\<close>

lemma task_destroyed_under_destroy:
  "\<exists>s. thread_reachable True False True s \<and> stale_task s"
proof -
  let ?ms = "replicate 5 (ThreadMoves True) @ replicate 3 (ClientMoves CallTaskDestroy) @
    ThreadMoves False # replicate 5 (ThreadMoves False) @ [ClientMoves CallTaskDestroy]"
  let ?s = "the (run_moves ?ms (LocThreadDelegate True False True))"
  have "run_moves ?ms (LocThreadDelegate True False True) = Some ?s" by code_simp
  then have "thread_reachable True False True ?s" by (rule run_moves_reachable) (rule thread_reachable.init)
  moreover have "stale_task ?s" by code_simp
  ultimately show ?thesis by blast
qed

section \<open>The shared lock\<close>

text \<open>\<open>LocSharedLock\<close>: one count for the client that made it and one for each that shares it.\<close>

record shared_lock =
  mRef :: "32 word"
  lock_deleted :: nat

definition LocSharedLock :: shared_lock where
  "LocSharedLock = \<lparr>mRef = 1, lock_deleted = 0\<rparr>"

definition share :: "shared_lock \<Rightarrow> shared_lock" where
  "share l = l\<lparr>mRef := mRef l + 1\<rparr>"

definition drop_lock :: "shared_lock \<Rightarrow> shared_lock" where
  "drop_lock l = l\<lparr>mRef := mRef l - 1, lock_deleted := (if mRef l = 1 then Suc (lock_deleted l) else lock_deleted l)\<rparr>"

text \<open>The clients and the lock: \<open>n\<close> hold it.\<close>

fun lock_clients :: "bool list \<Rightarrow> nat \<Rightarrow> nat option" where
  "lock_clients [] n = Some n"
| "lock_clients (True # ops) n = (if n = 0 then None else lock_clients ops (Suc n))"
| "lock_clients (False # ops) n = (if n = 0 then None else lock_clients ops (n - 1))"

definition lock_op :: "shared_lock \<Rightarrow> bool \<Rightarrow> shared_lock" where
  "lock_op l sharing = (if sharing then share l else drop_lock l)"

lemma lock_step:
  assumes "n \<noteq> 0" "n < 2 ^ 32" "mRef l = of_nat n" "lock_deleted l = 0"
  shows "mRef (share l) = of_nat (Suc n)" "lock_deleted (share l) = 0"
    "mRef (drop_lock l) = of_nat (n - 1)" "lock_deleted (drop_lock l) = of_bool (n = 1)"
proof -
  have "(of_nat n :: 32 word) = 1 \<longleftrightarrow> n = 1"
  proof
    assume "(of_nat n :: 32 word) = 1"
    then have "unat (of_nat n :: 32 word) = 1" by simp
    then show "n = 1" using assms(2) by (simp add: unat_of_nat)
  qed simp
  then show "lock_deleted (drop_lock l) = of_bool (n = 1)" using assms by (simp add: drop_lock_def)
qed (use assms in \<open>simp_all add: share_def drop_lock_def of_nat_diff\<close>)

lemma lock_ops_count:
  "lock_clients ops n = Some m \<Longrightarrow> n + length ops < 2 ^ 32 \<Longrightarrow> mRef l = of_nat n \<Longrightarrow>
   lock_deleted l = of_bool (n = 0) \<Longrightarrow>
   mRef (foldl lock_op l ops) = of_nat m \<and> lock_deleted (foldl lock_op l ops) = of_bool (m = 0)"
proof (induction ops n arbitrary: l rule: lock_clients.induct)
  case (2 ops n)
  then have n: "n \<noteq> 0" "lock_clients ops (Suc n) = Some m" by (simp_all split: if_splits)
  have "n < 2 ^ 32" using "2.prems"(2) by simp
  with n(1) "2.prems" have "mRef (share l) = of_nat (Suc n)" "lock_deleted (share l) = 0"
    using lock_step [of n l] by simp_all
  then show ?case using "2.IH" [OF n(1) n(2)] "2.prems"(2) by (simp add: lock_op_def)
next
  case (3 ops n)
  then have n: "n \<noteq> 0" "lock_clients ops (n - 1) = Some m" by (simp_all split: if_splits)
  have "n < 2 ^ 32" using "3.prems"(2) by simp
  with n(1) "3.prems" have "mRef (drop_lock l) = of_nat (n - 1)" "lock_deleted (drop_lock l) = of_bool (n - 1 = 0)"
    using lock_step [of n l] by simp_all
  then show ?case using "3.IH" [OF n(1) n(2)] "3.prems"(2) by (simp add: lock_op_def)
qed simp

text \<open>However its clients share the lock and drop it, the lock is deleted exactly when the last of
  them has dropped it, and once.\<close>

theorem shared_lock_deleted_last:
  assumes "lock_clients ops 1 = Some m" "length ops < 2 ^ 32 - 1"
  shows "lock_deleted (foldl lock_op LocSharedLock ops) = of_bool (m = 0)"
  using lock_ops_count [OF assms(1), of LocSharedLock] assms(2) by (simp add: LocSharedLock_def)

lemma shared_lock_deleted_last_witness:
  "lock_deleted (foldl lock_op LocSharedLock [True, False, False]) = 1"
  using shared_lock_deleted_last [of "[True, False, False]" 0] by simp

end
