(* ===== verification/DmnMsg.thy ===== *)
theory DmnMsg
  imports Agps
begin

text \<open>
  The messages exchanged with the daemons of the location service,
  \<open>src/gps/loc_api/libloc_api_50001\<close>: the pipes (\<open>loc_eng_dmn_conn_glue_pipe.c\<close>) and the
  messages with their size in front (\<open>loc_eng_dmn_conn_glue_msg.c\<close>), whose structure is declared
  in \<open>loc_eng_dmn_conn_handler.h\<close>. A structure is the bytes it occupies: the layout is that of the
  ABI, which the daemon shares.
\<close>

section \<open>Bytes\<close>

text \<open>\<open>size_t\<close> and \<open>unsigned long\<close> have the size of a pointer; the phones have both ABIs.\<close>

datatype abi = ABI32 | ABI64

definition long_size :: "abi \<Rightarrow> nat" where
  "long_size abi = (case abi of ABI32 \<Rightarrow> 4 | ABI64 \<Rightarrow> 8)"

fun from_le :: "uint8 list \<Rightarrow> nat" where
  "from_le [] = 0"
| "from_le (b # bs) = unat b + 256 * from_le bs"

fun to_le :: "nat \<Rightarrow> nat \<Rightarrow> uint8 list" where
  "to_le 0 k = []"
| "to_le (Suc n) k = of_nat (k mod 256) # to_le n (k div 256)"

lemma to_le_numeral [simp]:
  "to_le (numeral v) k = of_nat (k mod 256) # to_le (pred_numeral v) (k div 256)"
  by (subst numeral_eq_Suc, subst to_le.simps) (rule refl)

lemma length_to_le [simp]: "length (to_le n k) = n"
  by (induction n arbitrary: k) simp_all

lemma from_to_le: "k < 256 ^ n \<Longrightarrow> from_le (to_le n k) = k"
proof (induction n arbitrary: k)
  case (Suc n)
  then have "k div 256 < 256 ^ n" by (simp add: less_mult_imp_div_less mult.commute)
  with Suc.IH have "from_le (to_le n (k div 256)) = k div 256" by blast
  moreover have "unat (of_nat (k mod 256) :: uint8) = k mod 256" by (simp add: unat_of_nat)
  ultimately show ?case by simp
qed simp

lemma from_le_bound: "from_le bs < 256 ^ length bs"
proof (induction bs)
  case (Cons b bs)
  have "unat b < 2 ^ LENGTH(8)" by (rule unsigned_less)
  with Cons show ?case by simp
qed simp

text \<open>What a pointer of the C code reads and writes inside a block of memory.\<close>

definition bytes_at :: "nat \<Rightarrow> nat \<Rightarrow> uint8 list \<Rightarrow> uint8 list" where
  "bytes_at off n blk = take n (drop off blk)"

definition put_at :: "nat \<Rightarrow> uint8 list \<Rightarrow> uint8 list \<Rightarrow> uint8 list" where
  "put_at off d blk = take off blk @ d @ drop (off + length d) blk"

lemma length_put_at [simp]: "off + length d \<le> length blk \<Longrightarrow> length (put_at off d blk) = length blk"
  by (simp add: put_at_def)

lemma bytes_put_same [simp]:
  "length d = n \<Longrightarrow> off + n \<le> length blk \<Longrightarrow> bytes_at off n (put_at off d blk) = d"
  by (simp add: bytes_at_def put_at_def)

lemma bytes_put_before [simp]:
  "o' + n \<le> off \<Longrightarrow> off + length d \<le> length blk \<Longrightarrow> bytes_at o' n (put_at off d blk) = bytes_at o' n blk"
  by (auto simp: bytes_at_def put_at_def drop_take min_def)

lemma bytes_put_after [simp]:
  "off + length d \<le> o' \<Longrightarrow> off + length d \<le> length blk \<Longrightarrow> bytes_at o' n (put_at off d blk) = bytes_at o' n blk"
  by (simp add: bytes_at_def put_at_def)

section \<open>The structure of a message\<close>

definition align :: "nat \<Rightarrow> nat \<Rightarrow> nat" where
  "align a n = (n + a - 1) div a * a"

text \<open>\<open>struct ctrl_msgbuf\<close>: a \<open>size_t\<close>, a 16-bit and a 32-bit number reserved, the type in one byte,
  and a union aligned for the \<open>unsigned long\<close> in it.\<close>

definition off_reserved1 :: "abi \<Rightarrow> nat" where "off_reserved1 abi = long_size abi"
definition off_reserved2 :: "abi \<Rightarrow> nat" where "off_reserved2 abi = align 4 (off_reserved1 abi + 2)"
definition off_ctrl_type :: "abi \<Rightarrow> nat" where "off_ctrl_type abi = off_reserved2 abi + 4"
definition off_cmsg :: "abi \<Rightarrow> nat" where "off_cmsg abi = align (long_size abi) (off_ctrl_type abi + 1)"

text \<open>\<open>struct ctrl_msg_if_request\<close> in the union.\<close>

definition off_type :: "abi \<Rightarrow> nat" where "off_type abi = off_cmsg abi"
definition off_sender :: "abi \<Rightarrow> nat" where "off_sender abi = off_type abi + 4"
definition off_ipv4 :: "abi \<Rightarrow> nat" where "off_ipv4 abi = align (long_size abi) (off_sender abi + 4)"
definition off_ipv6 :: "abi \<Rightarrow> nat" where "off_ipv6 abi = off_ipv4 abi + long_size abi"
definition off_ssid :: "abi \<Rightarrow> nat" where "off_ssid abi = off_ipv6 abi + 16"
definition off_password :: "abi \<Rightarrow> nat" where "off_password abi = off_ssid abi + SSID_BUF_SIZE"
definition msgbuf_size :: "abi \<Rightarrow> nat" where
  "msgbuf_size abi = align (long_size abi) (off_password abi + SSID_BUF_SIZE)"

lemmas layout_defs = off_reserved1_def off_reserved2_def off_ctrl_type_def off_cmsg_def off_type_def
  off_sender_def off_ipv4_def off_ipv6_def off_ssid_def off_password_def msgbuf_size_def align_def
  SSID_BUF_SIZE_def long_size_def

lemma layout32:
  "long_size ABI32 = 4" "off_ctrl_type ABI32 = 12" "off_cmsg ABI32 = 16" "off_type ABI32 = 16" "off_sender ABI32 = 20"
  "off_ipv4 ABI32 = 24" "off_ipv6 ABI32 = 28" "off_ssid ABI32 = 44" "off_password ABI32 = 77" "msgbuf_size ABI32 = 112"
  by (simp_all add: layout_defs)

lemma layout64:
  "long_size ABI64 = 8" "off_ctrl_type ABI64 = 16" "off_cmsg ABI64 = 24" "off_type ABI64 = 24" "off_sender ABI64 = 28"
  "off_ipv4 ABI64 = 32" "off_ipv6 ABI64 = 40" "off_ssid ABI64 = 56" "off_password ABI64 = 89" "msgbuf_size ABI64 = 128"
  by (simp_all add: layout_defs)

section \<open>Pipes\<close>

text \<open>A named pipe opened for reading and writing, so that it never comes to an end: its bytes, its
  capacity, and whether the descriptor is valid.\<close>

record pipe =
  pbytes :: "uint8 list"
  capacity :: nat
  broken :: bool

text \<open>\<open>mkfifo\<close>, with \<open>errno\<close> being \<open>EEXIST\<close> or not, and \<open>open\<close>.\<close>

definition pipeget :: "int \<Rightarrow> bool \<Rightarrow> int \<Rightarrow> int" where
  "pipeget mkfifo_result eexist open_result =
     (if mkfifo_result = -1 \<and> \<not> eexist then mkfifo_result else open_result)"

definition piperemove :: "pipe \<Rightarrow> int \<times> pipe" where
  "piperemove p = (0, p\<lparr>pbytes := [], broken := True\<rparr>)"

text \<open>\<open>write\<close> of no more than \<open>PIPE_BUF\<close> bytes: all of them or nothing, and it waits for room.
  \<open>None\<close>: the call does not return in this state of the pipe.\<close>

definition pipewrite :: "uint8 list \<Rightarrow> pipe \<Rightarrow> (int \<times> pipe) option" where
  "pipewrite buf p =
     (if broken p then Some (-1, p)
      else if length (pbytes p) + length buf \<le> capacity p
           then Some (int (length buf), p\<lparr>pbytes := pbytes p @ buf\<rparr>)
      else None)"

text \<open>\<open>read\<close>: what there is, at most \<open>sz\<close> bytes; it waits for the first one. Linux refuses a size
  that is negative as a \<open>ssize_t\<close>.\<close>

definition piperead :: "abi \<Rightarrow> nat \<Rightarrow> pipe \<Rightarrow> (int \<times> uint8 list \<times> pipe) option" where
  "piperead abi sz p =
     (if broken p \<or> sz \<ge> 2 ^ (8 * long_size abi - 1) then Some (-1, [], p)
      else if sz = 0 then Some (0, [], p)
      else if pbytes p = [] then None
      else let d = take sz (pbytes p) in Some (int (length d), d, p\<lparr>pbytes := drop sz (pbytes p)\<rparr>))"

section \<open>Messages\<close>

text \<open>A value of type \<open>size_t\<close> converted to \<open>int\<close>.\<close>

definition to_int :: "nat \<Rightarrow> int" where
  "to_int k = sint (word_of_nat k :: 32 word)"

definition msgsnd :: "abi \<Rightarrow> uint8 list \<Rightarrow> pipe \<Rightarrow> (int \<times> pipe) option" where
  "msgsnd abi msgp p =
     do {
       let msg = put_at 0 (to_le (long_size abi) (length msgp)) msgp;
       (result, p) \<leftarrow> pipewrite msg p;
       Some (if result \<noteq> to_int (length msgp) then -1 else result, p)
     }"

text \<open>The buffer of the receiver keeps what it held where nothing is read into it.\<close>

definition msgrcv :: "abi \<Rightarrow> uint8 list \<Rightarrow> pipe \<Rightarrow> (int \<times> uint8 list \<times> pipe) option" where
  "msgrcv abi buf p =
     do {
       (result, d, p) \<leftarrow> piperead abi (long_size abi) p;
       let buf = put_at 0 d buf;
       let msgsz = from_le (bytes_at 0 (long_size abi) buf);
       if result \<noteq> int (long_size abi) then Some (-1, buf, p)
       else if length buf < msgsz then Some (-1, buf, p)
       else do {
         let rest = (msgsz + 2 ^ (8 * long_size abi) - long_size abi) mod 2 ^ (8 * long_size abi);
         (result, d, p) \<leftarrow> piperead abi rest p;
         let buf = put_at (long_size abi) d buf;
         Some (if result \<noteq> to_int rest then -1 else to_int msgsz, buf, p)
       }
     }"

text \<open>The loop of \<open>msgflush\<close> ends when a read returns 0; \<open>None\<close> when it does not end within the
  given number of reads.\<close>

fun msgflush :: "nat \<Rightarrow> abi \<Rightarrow> pipe \<Rightarrow> (int \<times> pipe) option" where
  "msgflush 0 abi p = None"
| "msgflush (Suc n) abi p =
     do {
       (length', d, p) \<leftarrow> piperead abi 128 p;
       if length' \<noteq> 0 then msgflush n abi p else Some (length', p)
     }"

lemma long_size_pos [simp]: "0 < long_size abi" "long_size abi \<noteq> 0" "4 \<le> long_size abi" "long_size abi \<le> 8"
  by (simp_all add: long_size_def split: abi.splits)

lemma to_int_small [simp]: "k < 2 ^ 31 \<Longrightarrow> to_int k = int k"
  using sint32_of_int [of "int k"] by (simp add: to_int_def)

lemma long_bound: "(k :: nat) < 2 ^ 31 \<Longrightarrow> k < 256 ^ long_size abi" "(k :: nat) < 2 ^ 31 \<Longrightarrow> k < 2 ^ (8 * long_size abi - 1)"
  by (simp_all add: long_size_def split: abi.splits)

section \<open>The pipe carries messages\<close>

text \<open>What is sent for a message, and for a sequence of them.\<close>

definition frame :: "abi \<Rightarrow> uint8 list \<Rightarrow> uint8 list" where
  "frame abi m = put_at 0 (to_le (long_size abi) (length m)) m"

definition frames :: "abi \<Rightarrow> uint8 list list \<Rightarrow> uint8 list" where
  "frames abi ms = concat (map (frame abi) ms)"

lemma length_frame [simp]: "long_size abi \<le> length m \<Longrightarrow> length (frame abi m) = length m"
  by (simp add: frame_def)

text \<open>A message that the receiver takes: its size and the size of the buffer are right.\<close>

definition fits :: "abi \<Rightarrow> nat \<Rightarrow> uint8 list \<Rightarrow> bool" where
  "fits abi bufsz m \<longleftrightarrow> long_size abi < length m \<and> length m \<le> bufsz \<and> bufsz < 2 ^ 31"

lemma msgsnd_frame:
  "fits abi bufsz m \<Longrightarrow> \<not> broken p \<Longrightarrow> length (pbytes p) + length m \<le> capacity p \<Longrightarrow>
   msgsnd abi m p = Some (int (length m), p\<lparr>pbytes := pbytes p @ frame abi m\<rparr>)"
  by (simp add: fits_def msgsnd_def pipewrite_def Let_def frame_def)

lemma msgsnd_frames:
  assumes "fits abi bufsz m" "\<not> broken p" "pbytes p = frames abi ms" "msgsnd abi m p = Some (r, p')"
  shows "r = int (length m)" "pbytes p' = frames abi (ms @ [m])" "\<not> broken p'"
proof -
  have "length (put_at 0 (to_le (long_size abi) (length m)) m) = length m" "to_int (length m) = int (length m)"
    using assms(1) by (simp_all add: fits_def)
  with assms show "r = int (length m)" "pbytes p' = frames abi (ms @ [m])" "\<not> broken p'"
    by (auto simp: msgsnd_def pipewrite_def Let_def frames_def frame_def split: if_splits)
qed

lemma frame_split:
  assumes "long_size abi \<le> length m"
  shows "take (long_size abi) (frame abi m @ bs) = to_le (long_size abi) (length m)"
    "drop (long_size abi) (frame abi m @ bs) = drop (long_size abi) m @ bs"
  using assms by (simp_all add: frame_def put_at_def)

text \<open>The receiver gets the first message, in front of what its buffer held behind it.\<close>

lemma msgrcv_frame:
  assumes fit: "fits abi (length buf) m" and p: "\<not> broken p" "pbytes p = frame abi m @ bs"
  shows "msgrcv abi buf p = Some (int (length m), frame abi m @ drop (length m) buf, p\<lparr>pbytes := bs\<rparr>)"
proof -
  let ?w = "long_size abi" and ?n = "length m"
  have n: "?w < ?n" "?n \<le> length buf" "?n < 2 ^ 31" using fit by (auto simp: fits_def)
  have big: "?n < 256 ^ ?w" "?n - ?w < 2 ^ (8 * ?w - 1)" "?w < 2 ^ (8 * ?w - 1)"
    using n long_bound [of ?n abi] long_bound [of ?w abi] by (auto simp: less_imp_diff_less le_less_trans [OF long_size_pos(4)])
  have ne: "pbytes p \<noteq> []" using n p(2) by (auto simp: frame_def put_at_def)
  have len: "?w \<le> length (pbytes p)" using n p(2) by simp
  have "piperead abi ?w p = Some (int ?w, to_le ?w ?n, p\<lparr>pbytes := drop ?w m @ bs\<rparr>)"
    using p big(3) ne len n frame_split [of abi m bs] by (simp add: piperead_def Let_def)
  moreover have "from_le (bytes_at 0 ?w (put_at 0 (to_le ?w ?n) buf)) = ?n"
    using n big(1) by (simp add: from_to_le)
  moreover have "(?n + 2 ^ (8 * ?w) - ?w) mod 2 ^ (8 * ?w) = ?n - ?w"
  proof -
    have "?n + 2 ^ (8 * ?w) - ?w = ?n - ?w + 2 ^ (8 * ?w)" using n by simp
    moreover have "?n - ?w < 2 ^ (8 * ?w)" using big(2) by (rule less_le_trans) (simp add: power_increasing)
    ultimately show ?thesis by (simp only: mod_add_self2 mod_less)
  qed
  moreover have "piperead abi (?n - ?w) (p\<lparr>pbytes := drop ?w m @ bs\<rparr>) =
      Some (int (?n - ?w), drop ?w m, p\<lparr>pbytes := bs\<rparr>)"
    using p big(2) n by (simp add: piperead_def Let_def)
  moreover have "put_at ?w (drop ?w m) (put_at 0 (to_le ?w ?n) buf) = frame abi m @ drop ?n buf"
    using n by (simp add: put_at_def frame_def)
  moreover have "to_int (?n - ?w) = int (?n - ?w)" "to_int ?n = int ?n" using n by simp_all
  ultimately show ?thesis using n by (simp add: msgrcv_def Let_def)
qed

section \<open>The queue the pipe implements\<close>

datatype glue_op = SendMsg "uint8 list" | RcvMsg

text \<open>Both ends of a pipe: each operation with the buffer of the receiver for every one it takes, and
  the messages received so far.\<close>

fun glue_run :: "abi \<Rightarrow> uint8 list \<Rightarrow> glue_op list \<Rightarrow> pipe \<Rightarrow> (uint8 list list \<times> pipe) option" where
  "glue_run abi buf [] p = Some ([], p)"
| "glue_run abi buf (SendMsg m # ops) p =
     do {
       (r, p) \<leftarrow> msgsnd abi m p;
       glue_run abi buf ops p
     }"
| "glue_run abi buf (RcvMsg # ops) p =
     do {
       (r, m, p) \<leftarrow> msgrcv abi buf p;
       (ms, p) \<leftarrow> glue_run abi buf ops p;
       Some (take (nat r) m # ms, p)
     }"

fun sent :: "glue_op list \<Rightarrow> uint8 list list" where
  "sent [] = []"
| "sent (SendMsg m # ops) = m # sent ops"
| "sent (RcvMsg # ops) = sent ops"

lemma frames_Cons [simp]: "frames abi (m # ms) = frame abi m @ frames abi ms"
  by (simp add: frames_def)

lemma msgrcv_blocks: "\<not> broken p \<Longrightarrow> pbytes p = [] \<Longrightarrow> msgrcv abi buf p = None"
  using long_bound [of "long_size abi" abi] le_less_trans [OF long_size_pos(4), of "2 ^ 31" abi]
  by (simp add: msgrcv_def piperead_def)

lemma glue_run_fifo:
  "glue_run abi buf ops p = Some (out, p') \<Longrightarrow> \<not> broken p \<Longrightarrow> pbytes p = frames abi ms \<Longrightarrow>
   \<forall>m \<in> set (ms @ sent ops). fits abi (length buf) m \<Longrightarrow>
   \<exists>rest. ms @ sent ops = take (length out) (ms @ sent ops) @ rest \<and>
     out = map (frame abi) (take (length out) (ms @ sent ops)) \<and> pbytes p' = frames abi rest \<and> \<not> broken p'"
proof (induction abi buf ops p arbitrary: out p' ms rule: glue_run.induct)
  case (1 abi buf p)
  then show ?case by auto
next
  case (2 abi buf m ops p)
  then obtain r p1 where s: "msgsnd abi m p = Some (r, p1)" "glue_run abi buf ops p1 = Some (out, p')"
    by (auto simp: bind_eq_Some_conv)
  have "fits abi (length buf) m" using "2.prems"(4) by simp
  note q = msgsnd_frames [OF this "2.prems"(2,3) s(1)]
  from "2.IH" [OF s(1) refl s(2) q(3,2)] "2.prems"(4) show ?case by simp
next
  case (3 abi buf ops p)
  show ?case
  proof (cases ms)
    case Nil
    then show ?thesis using 3 msgrcv_blocks [of p abi buf] by (simp add: frames_def)
  next
    case (Cons m ms')
    have fit: "fits abi (length buf) m" using "3.prems"(4) Cons by simp
    then have w: "long_size abi \<le> length m" by (simp add: fits_def)
    let ?p = "p\<lparr>pbytes := frames abi ms'\<rparr>"
    have r: "msgrcv abi buf p = Some (int (length m), frame abi m @ drop (length m) buf, ?p)"
      using msgrcv_frame [OF fit "3.prems"(2)] "3.prems"(3) Cons by simp
    then obtain out' where o: "glue_run abi buf ops ?p = Some (out', p')" "out = frame abi m # out'"
      using "3.prems"(1) w by (auto simp: bind_eq_Some_conv)
    from "3.IH" [OF r refl refl o(1)] "3.prems" Cons o(2) show ?thesis by simp
  qed
qed

text \<open>C22: The pipe is a first-in first-out queue of messages, for messages that are larger than the
  field of their size and at most as large as the receiver's buffer, which is below two gigabytes:
  whatever interleaving of sends and receives of such messages runs on an empty pipe that is open at
  both ends, and does not wait for ever, the messages received are the first of those sent, each
  whole and with its size in front, and the pipe holds the frames of the others. (One larger message
  is enough to end this: \<open>large_message_desynchronises\<close>.)\<close>

theorem daemon_messages_fifo:
  assumes "glue_run abi buf ops p = Some (out, p')" "\<not> broken p" "pbytes p = []"
    "\<forall>m \<in> set (sent ops). fits abi (length buf) m"
  shows "out = map (frame abi) (take (length out) (sent ops)) \<and>
    pbytes p' = frames abi (drop (length out) (sent ops))"
proof -
  obtain rest where r: "sent ops = take (length out) (sent ops) @ rest"
    "out = map (frame abi) (take (length out) (sent ops))" "pbytes p' = frames abi rest"
    using glue_run_fifo [OF assms(1,2), of "[]"] assms(3,4) by (auto simp: frames_def)
  from r(1) have "rest = drop (length out) (sent ops)" by (metis append_take_drop_id same_append_eq)
  with r show ?thesis by simp
qed

definition two_messages :: "glue_op list" where
  "two_messages = [SendMsg [0, 0, 0, 0, 1, 2], SendMsg [0, 0, 0, 0, 3], RcvMsg, RcvMsg]"

lemma two_messages_run:
  "glue_run ABI32 (replicate 20 7) two_messages \<lparr>pbytes = [], capacity = 64, broken = False\<rparr> =
   Some ([[6, 0, 0, 0, 1, 2], [5, 0, 0, 0, 3]], \<lparr>pbytes = [], capacity = 64, broken = False\<rparr>)"
proof -
  have f: "fits ABI32 (length (replicate 20 (7 :: uint8))) [0, 0, 0, 0, 1, 2]"
    "fits ABI32 (length (replicate 20 (7 :: uint8))) [0, 0, 0, 0, 3]"
    by (simp_all add: fits_def long_size_def)
  have e: "frame ABI32 [0, 0, 0, 0, 1, 2] = [6, 0, 0, 0, 1, 2]" "frame ABI32 [0, 0, 0, 0, 3] = [5, 0, 0, 0, 3]"
    by (simp_all add: frame_def put_at_def long_size_def)
  show ?thesis
    using msgrcv_frame [OF f(1)] msgrcv_frame [OF f(2), of _ "[]"] f
    by (simp add: two_messages_def msgsnd_frame e)
qed

lemma daemon_messages_fifo_witness:
  "take 2 (sent two_messages) = sent two_messages \<and>
   [[6, 0, 0, 0, 1, 2], [5, 0, 0, 0, 3]] = map (frame ABI32) (sent two_messages)"
proof -
  have "\<forall>m \<in> set (sent two_messages). fits ABI32 (length (replicate 20 (7 :: uint8))) m"
    by (simp add: fits_def long_size_def two_messages_def)
  with daemon_messages_fifo [OF two_messages_run] show ?thesis by (simp add: two_messages_def)
qed

section \<open>The size of a message\<close>

lemma piperead_length:
  "piperead abi sz p = Some (r, d, p') \<Longrightarrow> length d \<le> sz \<and> r = (if d = [] then r else int (length d)) \<and> (sz \<ge> 2 ^ (8 * long_size abi - 1) \<longrightarrow> d = [])"
  by (auto simp: piperead_def Let_def split: if_splits)

text \<open>C33: However wrong the size in front of a message is, the receiver, whose buffer has room for the
  size and is below two gigabytes, never writes past the end of
  its buffer, and the length it returns is not larger than the buffer.\<close>

theorem msgrcv_in_bounds:
  assumes "msgrcv abi buf p = Some (r, buf', p')" "long_size abi \<le> length buf" "length buf < 2 ^ 31"
  shows "length buf' = length buf \<and> r \<le> int (length buf)"
proof -
  let ?w = "long_size abi"
  obtain r1 d1 p1 where 1: "piperead abi ?w p = Some (r1, d1, p1)"
    using assms(1) by (auto simp: msgrcv_def bind_eq_Some_conv)
  define b1 where "b1 = put_at 0 d1 buf"
  have b1: "length b1 = length buf" using piperead_length [OF 1] assms(2) by (simp add: b1_def)
  define sz where "sz = from_le (bytes_at 0 ?w b1)"
  define rest where "rest = (sz + 2 ^ (8 * ?w) - ?w) mod 2 ^ (8 * ?w)"
  have wide: "(2 :: nat) ^ (8 * ?w) = 256 ^ ?w" by (simp add: power_mult)
  show ?thesis
  proof (cases "r1 \<noteq> int ?w \<or> length b1 < sz")
    case True
    then have "buf' = b1" "r = -1"
      using assms(1) 1 by (auto simp: msgrcv_def b1_def sz_def Let_def split: if_splits)
    then show ?thesis using b1 by simp
  next
    case False
    then obtain r2 d2 p2 where 2: "piperead abi rest p1 = Some (r2, d2, p2)"
      "buf' = put_at ?w d2 b1" "r = (if r2 \<noteq> to_int rest then -1 else to_int sz)"
      using assms(1) 1 unfolding b1_def sz_def rest_def
      by (auto simp: msgrcv_def Let_def bind_eq_Some_conv)
    have sz: "sz \<le> length buf" using False b1 by simp
    have "?w + length d2 \<le> length buf"
    proof (cases "?w \<le> sz")
      case True
      have "sz - ?w < 2 ^ (8 * ?w)"
        using sz assms(3) long_bound(1) [of "sz - ?w" abi] wide by simp
      moreover have "sz + 2 ^ (8 * ?w) - ?w = sz - ?w + 2 ^ (8 * ?w)" using True by simp
      ultimately have "rest = sz - ?w" unfolding rest_def by (simp only: mod_add_self2 mod_less)
      then have "length d2 \<le> sz - ?w" using piperead_length [OF 2(1)] by blast
      then show ?thesis using sz True by linarith
    next
      case False
      have h: "(2 :: nat) ^ (8 * ?w) = 2 * 2 ^ (8 * ?w - 1)" "?w < 2 ^ (8 * ?w - 1)"
        using long_bound(2) [of ?w abi] le_less_trans [OF long_size_pos(4), of "2 ^ 31" abi]
        by (simp_all flip: power_Suc)
      then have "rest = sz + 2 ^ (8 * ?w) - ?w" unfolding rest_def using False by simp
      then have "2 ^ (8 * ?w - 1) \<le> rest" using h False by linarith
      then show ?thesis using piperead_length [OF 2(1)] assms(2) by simp
    qed
    then show ?thesis using 2(2,3) b1 sz assms(3) by simp
  qed
qed

lemma msgrcv_in_bounds_witness:
  "length [6, 0, 0, 0, 1, 2, 7, 7, 7, 7 :: uint8] = 10 \<and> (6 :: int) \<le> 10"
proof -
  have "msgrcv ABI32 [7, 7, 7, 7, 7, 7, 7, 7, 7, 7] \<lparr>pbytes = frame ABI32 [0, 0, 0, 0, 1, 2] @ [], capacity = 64, broken = False\<rparr> =
      Some (6, [6, 0, 0, 0, 1, 2, 7, 7, 7, 7], \<lparr>pbytes = [], capacity = 64, broken = False\<rparr>)"
    by (subst msgrcv_frame [where m = "[0, 0, 0, 0, 1, 2]" and bs = "[]"])
      (simp_all add: fits_def long_size_def frame_def put_at_def)
  from msgrcv_in_bounds [OF this] show ?thesis by (simp add: long_size_def)
qed

text \<open>A size one byte short of the size field itself passes every test: the subtraction wraps to
  the largest \<open>size_t\<close>, whose \<open>int\<close> is the \<open>-1\<close> the refused read returns. The handlers then
  run on what the allocated memory held before.\<close>

lemma size_wraps_to_success:
  assumes "long_size abi \<le> length buf" "\<not> broken p" "pbytes p = to_le (long_size abi) (long_size abi - 1) @ bs"
  shows "msgrcv abi buf p = Some (int (long_size abi - 1),
    to_le (long_size abi) (long_size abi - 1) @ drop (long_size abi) buf, p\<lparr>pbytes := bs\<rparr>)"
proof (cases abi)
  case ABI32
  have four: "drop (Suc (Suc (Suc (Suc 0)))) buf = drop 4 buf" by (simp add: numeral_eq_Suc)
  have "to_int 4294967295 = -1" "to_int 3 = 3" by (simp_all add: to_int_def)
  then show ?thesis
    using assms ABI32 by (simp add: msgrcv_def piperead_def long_size_def put_at_def bytes_at_def four)
next
  case ABI64
  have eight: "drop (Suc (Suc (Suc (Suc (Suc (Suc (Suc (Suc 0)))))))) buf = drop 8 buf" by (simp add: numeral_eq_Suc)
  have "to_int 18446744073709551615 = -1" "to_int 7 = 7" by (simp_all add: to_int_def)
  then show ?thesis
    using assms ABI64 by (simp add: msgrcv_def piperead_def long_size_def put_at_def bytes_at_def eight)
qed

text \<open>A message larger than the buffer is refused behind its size, and the rest of it stays in the
  pipe as the beginning of the next one.\<close>

lemma large_message_desynchronises:
  assumes "length buf < length m" "length m < 2 ^ 31" "long_size abi \<le> length buf" "\<not> broken p"
    "pbytes p = frame abi m @ bs"
  shows "\<exists>buf'. msgrcv abi buf p = Some (-1, buf', p\<lparr>pbytes := drop (long_size abi) m @ bs\<rparr>)"
proof -
  let ?w = "long_size abi"
  have b: "?w < 2 ^ (8 * ?w - 1)" "length m < 256 ^ ?w"
    using long_bound [of ?w abi] long_bound [of "length m" abi] assms(2) le_less_trans [OF long_size_pos(4), of "2 ^ 31" abi]
    by simp_all
  have "piperead abi ?w p = Some (int ?w, to_le ?w (length m), p\<lparr>pbytes := drop ?w m @ bs\<rparr>)"
    using assms b(1) frame_split [of abi m bs] by (auto simp: piperead_def Let_def frame_def put_at_def)
  moreover have "from_le (bytes_at 0 ?w (put_at 0 (to_le ?w (length m)) buf)) = length m"
    using b assms(3) by (simp add: from_to_le)
  ultimately show ?thesis using assms by (simp add: msgrcv_def Let_def)
qed

text \<open>\<open>msgflush\<close> waits for a read of nothing, which neither a pipe open for writing nor a broken
  one gives: it blocks on the empty pipe, or goes round for ever.\<close>

lemma msgflush_never_returns: "msgflush n abi p = None"
proof (induction n arbitrary: p)
  case (Suc n)
  have "r \<noteq> 0" if "piperead abi 128 p = Some (r, d, p')" for r d p'
    using that by (auto simp: piperead_def Let_def min_def split: if_splits)
  with Suc show ?case by (cases "piperead abi 128 p") auto
qed simp

end
