(* ===== verification/DmnConn.thy ===== *)
theory DmnConn
  imports DmnMsg EngFacts
begin

text \<open>
  The server for the daemons of the location service, \<open>loc_eng_dmn_conn.cpp\<close> and
  \<open>loc_eng_dmn_conn_handler.cpp\<close> under \<open>src/gps/loc_api/libloc_api_50001\<close>: it takes messages from a
  pipe, turns them into messages of the engine, and writes the answers of the connection
  machines to the pipe of the daemon that asked. \<open>DmnMsg\<close> has the pipes and the layout, \<open>EngProc\<close>
  the engine.
\<close>

section \<open>State\<close>

text \<open>The five pipes, and whether the engine has handed its structure over.\<close>

datatype dmn_pipe = LocApiQ | LocApiRespQ | QuipcQ | MsapmQ | MsapuQ

record dmn =
  loc_api_handle :: bool
  pipes :: "dmn_pipe \<Rightarrow> pipe"

definition GPSONE_LOC_API_IF_REQUEST :: nat where "GPSONE_LOC_API_IF_REQUEST = 0xF0"
definition GPSONE_LOC_API_IF_RELEASE :: nat where "GPSONE_LOC_API_IF_RELEASE = 0xF1"
definition GPSONE_LOC_API_RESPONSE :: nat where "GPSONE_LOC_API_RESPONSE = 0xF2"
definition GPSONE_UNBLOCK :: nat where "GPSONE_UNBLOCK = 0xF3"

lemmas ctrl_types = GPSONE_LOC_API_IF_REQUEST_def GPSONE_LOC_API_IF_RELEASE_def GPSONE_LOC_API_RESPONSE_def
  GPSONE_UNBLOCK_def

definition status_num :: "conn_status \<Rightarrow> int" where
  "status_num st = (case st of GPSONE_LOC_API_IF_REQUEST_SUCCESS \<Rightarrow> 0xF0
     | GPSONE_LOC_API_IF_RELEASE_SUCCESS \<Rightarrow> 0xF1 | GPSONE_LOC_API_IF_FAILURE \<Rightarrow> 0xF2)"

section \<open>The handlers\<close>

definition text_of :: "uint8 list \<Rightarrow> string" where
  "text_of bs = map (\<lambda>b. char_of (unat b)) bs"

definition if_type :: "nat \<Rightarrow> AGpsExtType option" where
  "if_type n = (if n = 0 then Some AGPS_TYPE_SUPL else if n = 1 then Some AGPS_TYPE_WIFI
     else if n = 2 then Some AGPS_TYPE_ANY else None)"

text \<open>The constructors of the two messages: \<open>strlcpy\<close> into buffers of their own, an address of 16
  bytes, an \<open>int\<close> from the \<open>unsigned long\<close>.\<close>

definition LocEngReqRelWifi :: "AGpsExtType \<Rightarrow> sender_id \<Rightarrow> string \<Rightarrow> string \<Rightarrow> bool \<Rightarrow> eng_msg" where
  "LocEngReqRelWifi ty sender s p isReq =
     MsgReqRelWifi ty sender (Some (strlcpy SSID_BUF_SIZE s)) (Some (strlcpy SSID_BUF_SIZE p)) isReq"

definition LocEngReqRelBIT :: "AGpsExtType \<Rightarrow> nat \<Rightarrow> uint8 list \<Rightarrow> bool \<Rightarrow> eng_msg" where
  "LocEngReqRelBIT ty ipv4 ipv6 isReq = MsgReqRelBIT ty (of_nat ipv4) (Some (take 16 ipv6)) isReq"

text \<open>The two switches the handlers share: \<open>None\<close> for a type or a sender they do not know. The
  strings reach to the first NUL, in the buffer at most.\<close>

definition if_message :: "abi \<Rightarrow> uint8 list \<Rightarrow> bool \<Rightarrow> eng_msg option" where
  "if_message abi msg isReq =
     (case if_type (from_le (bytes_at (off_type abi) 4 msg)) of
        None \<Rightarrow> None
      | Some ty \<Rightarrow>
          let sender_id = from_le (bytes_at (off_sender abi) 4 msg);
              ssid = text_of (drop (off_ssid abi) msg);
              password = text_of (drop (off_password abi) msg)
          in if sender_id = 0 then Some (LocEngReqRelWifi ty SENDER_ID_QUIPC ssid password isReq)
             else if sender_id = 1 then Some (LocEngReqRelWifi ty SENDER_ID_MSAPM ssid password isReq)
             else if sender_id = 2 then Some (LocEngReqRelWifi ty SENDER_ID_MSAPU ssid password isReq)
             else if sender_id = 3 then
               Some (LocEngReqRelBIT ty (from_le (bytes_at (off_ipv4 abi) (long_size abi) msg))
                 (drop (off_ipv6 abi) msg) isReq)
             else None)"

text \<open>Without a handle the request is refused, and the release follows the NULL pointer.\<close>

definition if_request_handler :: "abi \<Rightarrow> bool \<Rightarrow> uint8 list \<Rightarrow> loc_eng \<Rightarrow> int \<times> loc_eng" where
  "if_request_handler abi handle pmsg e =
     (if \<not> handle then (1, e)
      else case if_message abi pmsg True of None \<Rightarrow> (-1, e) | Some m \<Rightarrow> (0, post m e))"

definition if_release_handler :: "abi \<Rightarrow> bool \<Rightarrow> uint8 list \<Rightarrow> loc_eng \<Rightarrow> int \<times> loc_eng" where
  "if_release_handler abi handle pmsg e =
     (case if_message abi pmsg False of
        None \<Rightarrow> (-1, e)
      | Some m \<Rightarrow> (0, if handle then post m e else e\<lparr>null_deref := True\<rparr>))"

section \<open>The server\<close>

definition dmn_on :: "dmn_pipe \<Rightarrow> (int \<times> pipe) option \<Rightarrow> dmn \<Rightarrow> (int \<times> dmn) option" where
  "dmn_on q r d = map_option (\<lambda>(result, p). (result, d\<lparr>pipes := (pipes d)(q := p)\<rparr>)) r"

text \<open>\<open>opens\<close>: for each pipe the results of \<open>mkfifo\<close> and \<open>open\<close>.\<close>

definition loc_api_server_proc_init :: "(dmn_pipe \<Rightarrow> int \<times> bool \<times> int) \<Rightarrow> dmn \<Rightarrow> int \<times> dmn" where
  "loc_api_server_proc_init opens d =
     (0, d\<lparr>pipes := \<lambda>q. case opens q of (mkfifo_result, eexist, open_result) \<Rightarrow>
        (pipes d q)\<lparr>broken := pipeget mkfifo_result eexist open_result < 0\<rparr>\<rparr>)"

definition loc_api_server_proc_pre :: "int" where
  "loc_api_server_proc_pre = 0"

text \<open>One turn: \<open>malloc_result\<close> is the memory that was allocated, with what it held. \<open>None\<close>: it waits
  for a message.\<close>

definition loc_api_server_proc :: "abi \<Rightarrow> uint8 list option \<Rightarrow> dmn \<Rightarrow> loc_eng \<Rightarrow> (int \<times> dmn \<times> loc_eng) option" where
  "loc_api_server_proc abi malloc_result d e =
     (case malloc_result of
        None \<Rightarrow> Some (-1, d, e)
      | Some cmsgbuf \<Rightarrow> do {
          (len, msg, p) \<leftarrow> msgrcv abi cmsgbuf (pipes d LocApiQ);
          let d = d\<lparr>pipes := (pipes d)(LocApiQ := p)\<rparr>;
          if len \<le> 0 then Some (-1, d, e)
          else
            let ctrl_type = from_le (bytes_at (off_ctrl_type abi) 1 msg);
                e = (if ctrl_type = GPSONE_LOC_API_IF_REQUEST then snd (if_request_handler abi (loc_api_handle d) msg e)
                     else if ctrl_type = GPSONE_LOC_API_IF_RELEASE then snd (if_release_handler abi (loc_api_handle d) msg e)
                     else e)
            in Some (0, d, e)
        })"

definition server_buffer_size :: "abi \<Rightarrow> nat" where
  "server_buffer_size abi = msgbuf_size abi + 256"

definition loc_api_server_proc_post :: "dmn \<Rightarrow> int \<times> dmn" where
  "loc_api_server_proc_post d = (0, d\<lparr>pipes := \<lambda>q. snd (piperemove (pipes d q))\<rparr>)"

text \<open>The messages the service writes are built on the stack, whose bytes they carry along.\<close>

definition unblock_msg :: "abi \<Rightarrow> uint8 list \<Rightarrow> uint8 list" where
  "unblock_msg abi stack = put_at (off_ctrl_type abi) (to_le 1 GPSONE_UNBLOCK) stack"

definition loc_eng_dmn_conn_unblock_proc :: "abi \<Rightarrow> uint8 list \<Rightarrow> dmn \<Rightarrow> (int \<times> dmn) option" where
  "loc_eng_dmn_conn_unblock_proc abi stack d =
     map_option (\<lambda>(_, d). (0, d)) (dmn_on LocApiQ (msgsnd abi (unblock_msg abi stack) (pipes d LocApiQ)) d)"

definition response_msg :: "abi \<Rightarrow> uint8 list \<Rightarrow> conn_status \<Rightarrow> uint8 list" where
  "response_msg abi stack status =
     put_at (off_cmsg abi) (to_le 4 (unat (word_of_int (status_num status) :: uint32)))
       (put_at (off_ctrl_type abi) (to_le 1 GPSONE_LOC_API_RESPONSE) stack)"

definition pipe_of :: "sender_id \<Rightarrow> dmn_pipe option" where
  "pipe_of sender = (case sender of
       SENDER_ID_QUIPC \<Rightarrow> Some QuipcQ | SENDER_ID_MSAPM \<Rightarrow> Some MsapmQ | SENDER_ID_MSAPU \<Rightarrow> Some MsapuQ
     | SENDER_ID_GPSONE_DAEMON \<Rightarrow> Some LocApiRespQ | _ \<Rightarrow> None)"

definition loc_api_server_data_conn :: "abi \<Rightarrow> uint8 list \<Rightarrow> sender_id \<Rightarrow> conn_status \<Rightarrow> dmn \<Rightarrow> (int \<times> dmn) option" where
  "loc_api_server_data_conn abi stack sender status d =
     (case pipe_of sender of
        None \<Rightarrow> Some (0, d)
      | Some q \<Rightarrow> map_option (\<lambda>(r, d). (if r < 0 then -1 else 0, d))
          (dmn_on q (msgsnd abi (response_msg abi stack status) (pipes d q)) d))"

text \<open>The calls a connection machine has recorded, carried out in order.\<close>

fun answer_all :: "abi \<Rightarrow> uint8 list \<Rightarrow> action list \<Rightarrow> dmn \<Rightarrow> dmn option" where
  "answer_all abi stack [] d = Some d"
| "answer_all abi stack (ServerDataConn sender status # acts) d =
     do {
       (r, d) \<leftarrow> loc_api_server_data_conn abi stack sender status d;
       answer_all abi stack acts d
     }"
| "answer_all abi stack (_ # acts) d = answer_all abi stack acts d"

section \<open>Requests\<close>

text \<open>The layout leaves room between the fields in the same order under both ABIs.\<close>

lemma layout_order:
  "long_size abi \<le> off_ctrl_type abi" "off_ctrl_type abi + 1 \<le> off_cmsg abi" "off_type abi = off_cmsg abi"
  "off_type abi + 4 = off_sender abi" "off_sender abi + 4 \<le> off_ipv4 abi" "off_ipv4 abi + long_size abi = off_ipv6 abi"
  "off_ipv6 abi + 16 = off_ssid abi" "off_ssid abi + 33 = off_password abi" "off_password abi + 33 \<le> msgbuf_size abi"
  "msgbuf_size abi \<le> 128"
  by (cases abi; simp add: layout_defs)+

text \<open>The structure as a daemon fills it in.\<close>

definition put_request ::
  "abi \<Rightarrow> uint8 list \<Rightarrow> nat \<Rightarrow> nat \<Rightarrow> nat \<Rightarrow> nat \<Rightarrow> uint8 list \<Rightarrow> uint8 list \<Rightarrow> uint8 list \<Rightarrow> uint8 list" where
  "put_request abi stack ctrl ty sender ipv4 ipv6 ssid password =
     put_at (off_password abi) password (put_at (off_ssid abi) ssid (put_at (off_ipv6 abi) ipv6
       (put_at (off_ipv4 abi) (to_le (long_size abi) ipv4) (put_at (off_sender abi) (to_le 4 sender)
       (put_at (off_type abi) (to_le 4 ty) (put_at (off_ctrl_type abi) (to_le 1 ctrl) stack))))))"

lemma length_put_request [simp]:
  "length stack = msgbuf_size abi \<Longrightarrow> length ipv6 = 16 \<Longrightarrow> length ssid = 33 \<Longrightarrow> length password = 33 \<Longrightarrow>
   length (put_request abi stack ctrl ty sender ipv4 ipv6 ssid password) = msgbuf_size abi"
  by (cases abi) (simp_all add: put_request_def layout32 layout64)

lemma request_fields:
  assumes "length stack = msgbuf_size abi" "length ipv6 = 16" "length ssid = 33" "length password = 33"
    "m = put_request abi stack ctrl ty sender ipv4 ipv6 ssid password"
  shows "bytes_at (off_ctrl_type abi) 1 m = to_le 1 ctrl" "bytes_at (off_type abi) 4 m = to_le 4 ty"
    "bytes_at (off_sender abi) 4 m = to_le 4 sender"
    "bytes_at (off_ipv4 abi) (long_size abi) m = to_le (long_size abi) ipv4"
    "bytes_at (off_ipv6 abi) 16 m = ipv6" "bytes_at (off_ssid abi) 33 m = ssid"
    "bytes_at (off_password abi) 33 m = password"
  using assms(1-4) unfolding assms(5)
  by (cases abi; simp add: put_request_def layout32 layout64 del: to_le_numeral)+

text \<open>The receiver's buffer: the size is written over the first word, the rest of the buffer follows.\<close>

lemma bytes_received:
  assumes "long_size abi \<le> off" "off + n \<le> length m"
  shows "bytes_at off n (frame abi m @ bs) = bytes_at off n m"
proof -
  have "frame abi m = to_le (long_size abi) (length m) @ drop (long_size abi) m"
    by (simp add: frame_def put_at_def)
  moreover have "drop (off - long_size abi) (drop (long_size abi) m) = drop off m" using assms by simp
  ultimately show ?thesis using assms by (simp add: bytes_at_def)
qed

text \<open>A string that ends within its field is the same in every buffer that has the field.\<close>

lemma cstr_field:
  assumes "0 \<in> set (bytes_at off n m)"
  shows "cstr (text_of (drop off m)) = cstr (text_of (bytes_at off n m))"
proof -
  have z: "CHR 0x00 \<in> set (text_of (bytes_at off n m))"
    using imageI [OF assms, of "\<lambda>b. char_of (unat b)"] by (simp add: text_of_def char_of_def)
  have "text_of (drop off m) = text_of (bytes_at off n m) @ text_of (drop n (drop off m))"
    unfolding bytes_at_def text_of_def map_append [symmetric] append_take_drop_id ..
  with z show ?thesis by (simp add: cstr_def takeWhile_append1)
qed

lemma strlcpy_field:
  "0 \<in> set (bytes_at off n m) \<Longrightarrow> strlcpy k (text_of (drop off m)) = strlcpy k (text_of (bytes_at off n m))"
  by (simp add: strlcpy_def cstr_field)

text \<open>The message of the engine a request stands for.\<close>

definition request_stands_for :: "nat \<Rightarrow> nat \<Rightarrow> nat \<Rightarrow> uint8 list \<Rightarrow> uint8 list \<Rightarrow> uint8 list \<Rightarrow> bool \<Rightarrow> eng_msg option" where
  "request_stands_for ty sender ipv4 ipv6 ssid password isReq =
     (if ty \<ge> 3 \<or> sender \<ge> 4 then None
      else let t = [AGPS_TYPE_SUPL, AGPS_TYPE_WIFI, AGPS_TYPE_ANY] ! ty
           in Some (if sender = 3 then MsgReqRelBIT t (of_nat ipv4) (Some ipv6) isReq
                    else MsgReqRelWifi t ([SENDER_ID_QUIPC, SENDER_ID_MSAPM, SENDER_ID_MSAPU] ! sender)
                      (Some (strlcpy SSID_BUF_SIZE (text_of ssid))) (Some (strlcpy SSID_BUF_SIZE (text_of password))) isReq))"

lemma if_message_request:
  assumes "length stack = msgbuf_size abi" "length ipv6 = 16" "length ssid = 33" "length password = 33"
    "0 \<in> set ssid" "0 \<in> set password" "ty < 2 ^ 32" "sender < 2 ^ 32" "ipv4 < 2 ^ (8 * long_size abi)"
  shows "if_message abi (frame abi (put_request abi stack ctrl ty sender ipv4 ipv6 ssid password) @ bs) isReq =
    request_stands_for ty sender ipv4 ipv6 ssid password isReq"
proof -
  define m where "m = put_request abi stack ctrl ty sender ipv4 ipv6 ssid password"
  note flds = request_fields [OF assms(1-4) m_def]
  note o = layout_order [of abi]
  have len: "length m = msgbuf_size abi" using assms(1-4) by (simp add: m_def)
  let ?r = "frame abi m @ bs"
  have r: "bytes_at (off_type abi) 4 ?r = to_le 4 ty" "bytes_at (off_sender abi) 4 ?r = to_le 4 sender"
    "bytes_at (off_ipv4 abi) (long_size abi) ?r = to_le (long_size abi) ipv4"
    "bytes_at (off_ipv6 abi) 16 ?r = ipv6" "bytes_at (off_ssid abi) 33 ?r = ssid" "bytes_at (off_password abi) 33 ?r = password"
    unfolding flds [symmetric] by (rule bytes_received; use o len in linarith)+
  have s: "strlcpy k (text_of (drop (off_ssid abi) ?r)) = strlcpy k (text_of ssid)"
    "strlcpy k (text_of (drop (off_password abi) ?r)) = strlcpy k (text_of password)" for k
    using strlcpy_field [of "off_ssid abi" 33 ?r k] strlcpy_field [of "off_password abi" 33 ?r k] r(5,6) assms(5,6)
    by simp_all
  have t6: "take 16 (drop (off_ipv6 abi) ?r) = ipv6" using r(4) by (simp add: bytes_at_def)
  have n: "from_le (to_le 4 ty) = ty" "from_le (to_le 4 sender) = sender" "from_le (to_le (long_size abi) ipv4) = ipv4"
    using assms(7-9) by (simp_all add: from_to_le power_mult del: to_le_numeral)
  have ty: "ty = 0 \<or> ty = 1 \<or> ty = 2 \<or> ty \<ge> 3" and se: "sender = 0 \<or> sender = 1 \<or> sender = 2 \<or> sender = 3 \<or> sender \<ge> 4"
    by auto
  show ?thesis
    unfolding m_def [symmetric] if_message_def LocEngReqRelWifi_def LocEngReqRelBIT_def r n s t6 Let_def
    using ty se by (auto simp: request_stands_for_def if_type_def)
qed

lemma fits_server:
  "length buf = server_buffer_size abi \<Longrightarrow> long_size abi < length m \<Longrightarrow> length m \<le> length buf \<Longrightarrow> fits abi (length buf) m"
  using layout_order(10) [of abi] by (simp add: fits_def server_buffer_size_def)

lemma msgbuf_in_buffer: "length buf = server_buffer_size abi \<Longrightarrow> msgbuf_size abi \<le> length buf"
  by (simp add: server_buffer_size_def)

lemma long_in_msgbuf: "long_size abi < msgbuf_size abi" "off_ctrl_type abi + 1 \<le> msgbuf_size abi"
  using layout_order [of abi] by linarith+

text \<open>A turn of the server on a message that is in its pipe.\<close>

lemma server_turn:
  assumes "length buf = server_buffer_size abi" "length m = msgbuf_size abi" "\<not> broken (pipes d LocApiQ)"
    "pbytes (pipes d LocApiQ) = frame abi m @ bs"
  shows "loc_api_server_proc abi (Some buf) d e =
    (let d' = d\<lparr>pipes := (pipes d)(LocApiQ := pipes d LocApiQ\<lparr>pbytes := bs\<rparr>)\<rparr>;
         msg = frame abi m @ drop (length m) buf;
         ctrl_type = from_le (bytes_at (off_ctrl_type abi) 1 m)
     in Some (0, d',
       if ctrl_type = GPSONE_LOC_API_IF_REQUEST then snd (if_request_handler abi (loc_api_handle d) msg e)
       else if ctrl_type = GPSONE_LOC_API_IF_RELEASE then snd (if_release_handler abi (loc_api_handle d) msg e)
       else e))"
proof -
  note l = long_in_msgbuf [of abi]
  have f: "fits abi (length buf) m"
    using fits_server [OF assms(1)] assms(2) l(1) msgbuf_in_buffer [OF assms(1)] by simp
  have "bytes_at (off_ctrl_type abi) 1 (frame abi m @ drop (length m) buf) = bytes_at (off_ctrl_type abi) 1 m"
    by (rule bytes_received) (use l layout_order(1) [of abi] assms(2) in simp_all)
  then show ?thesis
    using msgrcv_frame [OF f assms(3,4)] l assms(2) by (simp add: loc_api_server_proc_def Let_def)
qed

lemma request_decoded:
  assumes "length stack = msgbuf_size abi" "length ipv6 = 16" "length ssid = 33" "length password = 33"
    "0 \<in> set ssid" "0 \<in> set password" "ty < 2 ^ 32" "sender < 2 ^ 32" "ipv4 < 2 ^ (8 * long_size abi)"
    "length buf = server_buffer_size abi" "loc_api_handle d" "\<not> broken (pipes d LocApiQ)"
    "pbytes (pipes d LocApiQ) = frame abi (put_request abi stack (if isReq then GPSONE_LOC_API_IF_REQUEST
       else GPSONE_LOC_API_IF_RELEASE) ty sender ipv4 ipv6 ssid password) @ bs"
  shows "loc_api_server_proc abi (Some buf) d e =
    Some (0, d\<lparr>pipes := (pipes d)(LocApiQ := pipes d LocApiQ\<lparr>pbytes := bs\<rparr>)\<rparr>,
      case request_stands_for ty sender ipv4 ipv6 ssid password isReq of None \<Rightarrow> e | Some m \<Rightarrow> post m e)"
proof -
  let ?ctrl = "if isReq then GPSONE_LOC_API_IF_REQUEST else GPSONE_LOC_API_IF_RELEASE"
  let ?m = "put_request abi stack ?ctrl ty sender ipv4 ipv6 ssid password"
  have len: "length ?m = msgbuf_size abi" using assms(1-4) by simp
  have "?ctrl < 256 ^ 1" by (simp add: ctrl_types)
  then have c: "from_le (bytes_at (off_ctrl_type abi) 1 ?m) = ?ctrl"
    using request_fields(1) [OF assms(1-4) refl] from_to_le by metis
  note msg = if_message_request [OF assms(1-9)]
  show ?thesis
    unfolding server_turn [OF assms(10) len assms(12,13)] Let_def c
    using assms(11) by (auto simp: if_request_handler_def if_release_handler_def msg ctrl_types split: option.splits)
qed

text \<open>C29: A request or a release that a daemon has written with the layout they share, its strings ended
  in their fields, and that is next in the open pipe of an initialised server, arrives as the
  message of the engine it stands for: the type, the sender, the two addresses and both strings
  are those the daemon put in, whatever the memory of either side held before, and a type or a
  sender that does not exist posts nothing.\<close>

theorem daemon_request_decoded:
  assumes "length stack = msgbuf_size abi" "length ipv6 = 16" "length ssid = 33" "length password = 33"
    "0 \<in> set ssid" "0 \<in> set password" "ty < 2 ^ 32" "sender < 2 ^ 32" "ipv4 < 2 ^ (8 * long_size abi)"
    "length buf = server_buffer_size abi" "loc_api_handle d" "\<not> broken (pipes d LocApiQ)"
    "pbytes (pipes d LocApiQ) = frame abi (put_request abi stack (if isReq then GPSONE_LOC_API_IF_REQUEST
       else GPSONE_LOC_API_IF_RELEASE) ty sender ipv4 ipv6 ssid password) @ bs"
  shows "loc_api_server_proc abi (Some buf) d e =
    Some (0, d\<lparr>pipes := (pipes d)(LocApiQ := pipes d LocApiQ\<lparr>pbytes := bs\<rparr>)\<rparr>,
      case request_stands_for ty sender ipv4 ipv6 ssid password isReq of None \<Rightarrow> e | Some m \<Rightarrow> post m e)"
  using assms by (rule request_decoded)

text \<open>A whole message of any other type leaves the engine as it is and takes exactly its bytes
  from the pipe; a request that comes before the engine has handed its structure over is refused
  in the same way.\<close>

theorem daemon_message_ignored:
  assumes "length buf = server_buffer_size abi" "length m = msgbuf_size abi" "\<not> broken (pipes d LocApiQ)"
    "pbytes (pipes d LocApiQ) = frame abi m @ bs"
    "from_le (bytes_at (off_ctrl_type abi) 1 m) \<notin> {GPSONE_LOC_API_IF_REQUEST, GPSONE_LOC_API_IF_RELEASE} \<or>
     from_le (bytes_at (off_ctrl_type abi) 1 m) = GPSONE_LOC_API_IF_REQUEST \<and> \<not> loc_api_handle d"
  shows "loc_api_server_proc abi (Some buf) d e =
    Some (0, d\<lparr>pipes := (pipes d)(LocApiQ := pipes d LocApiQ\<lparr>pbytes := bs\<rparr>)\<rparr>, e)"
  unfolding server_turn [OF assms(1-4)] Let_def
  using assms(5) by (auto simp: if_request_handler_def)

text \<open>A release follows the pointer without the test the request makes.\<close>

lemma release_null_handle:
  assumes "if_message abi msg False = Some m"
  shows "null_deref (snd (if_release_handler abi False msg e))" "snd (if_request_handler abi False msg e) = e"
  using assms by (simp_all add: if_release_handler_def if_request_handler_def)

section \<open>Answers\<close>

text \<open>The answers to the daemon behind a pipe among the calls of the machines.\<close>

definition behind :: "dmn_pipe \<Rightarrow> sender_id option" where
  "behind q = (case q of LocApiQ \<Rightarrow> None | LocApiRespQ \<Rightarrow> Some SENDER_ID_GPSONE_DAEMON | QuipcQ \<Rightarrow> Some SENDER_ID_QUIPC
     | MsapmQ \<Rightarrow> Some SENDER_ID_MSAPM | MsapuQ \<Rightarrow> Some SENDER_ID_MSAPU)"

lemma pipe_behind: "pipe_of sender = Some q \<longleftrightarrow> behind q = Some sender"
  by (cases sender; cases q; simp add: pipe_of_def behind_def)

fun answers_to :: "dmn_pipe \<Rightarrow> action list \<Rightarrow> conn_status list" where
  "answers_to q [] = []"
| "answers_to q (ServerDataConn sender status # acts) =
     (if behind q = Some sender then status # answers_to q acts else answers_to q acts)"
| "answers_to q (_ # acts) = answers_to q acts"

lemma length_response [simp]:
  "length stack = msgbuf_size abi \<Longrightarrow> length (response_msg abi stack status) = msgbuf_size abi"
  by (cases abi) (simp_all add: response_msg_def layout32 layout64)

lemma fits_msgbuf: "length m = msgbuf_size abi \<Longrightarrow> fits abi 128 m"
  using long_in_msgbuf [of abi] layout_order(10) [of abi] by (simp add: fits_def)

lemma data_conn_some:
  assumes "loc_api_server_data_conn abi stack sender status d = Some (r, d')" "length stack = msgbuf_size abi"
    "\<forall>q. \<not> broken (pipes d q)"
  shows "(\<forall>q. \<not> broken (pipes d' q)) \<and> (\<forall>q. pbytes (pipes d' q) = pbytes (pipes d q) @
    (if pipe_of sender = Some q then frame abi (response_msg abi stack status) else []))"
proof (cases "pipe_of sender")
  case None
  then show ?thesis using assms by (simp add: loc_api_server_data_conn_def)
next
  case (Some q)
  then obtain r' p where s: "msgsnd abi (response_msg abi stack status) (pipes d q) = Some (r', p)"
    "d' = d\<lparr>pipes := (pipes d)(q := p)\<rparr>"
    using assms(1) by (auto simp: loc_api_server_data_conn_def dmn_on_def)
  then have "p = pipes d q\<lparr>pbytes := pbytes (pipes d q) @ frame abi (response_msg abi stack status)\<rparr>"
    using assms(3) by (auto simp: msgsnd_def pipewrite_def frame_def Let_def split: if_splits)
  then show ?thesis using s(2) Some assms(3) by auto
qed

lemma answers_in_order:
  assumes "answer_all abi stack acts d = Some d'" "length stack = msgbuf_size abi" "\<forall>q. \<not> broken (pipes d q)"
  shows "pbytes (pipes d' q) =
    pbytes (pipes d q) @ frames abi (map (response_msg abi stack) (answers_to q acts))"
  using assms
proof (induction abi stack acts d rule: answer_all.induct)
  case (2 abi stack sender status acts d)
  then obtain r d1 where c: "loc_api_server_data_conn abi stack sender status d = Some (r, d1)"
    "answer_all abi stack acts d1 = Some d'"
    by (auto simp: bind_eq_Some_conv)
  note s = data_conn_some [OF c(1) "2.prems"(2,3)]
  from "2.IH" [OF c(1) refl c(2) "2.prems"(2)] s show ?case by (simp add: pipe_behind)
qed (simp_all add: frames_def)

text \<open>The answers of the connection machines reach the daemons: when the calls the machines made
  have been carried out, each pipe has got the answers for the sender behind it and no
  other, in the order of the calls, each of them one whole message.\<close>

theorem daemon_answers_in_order:
  assumes "answer_all abi stack acts d = Some d'" "length stack = msgbuf_size abi" "\<forall>q. \<not> broken (pipes d q)"
  shows "pbytes (pipes d' q) =
    pbytes (pipes d q) @ frames abi (map (response_msg abi stack) (answers_to q acts))"
  using assms by (rule answers_in_order)


text \<open>What the daemon reads out of an answer.\<close>

lemma response_fields:
  assumes "length stack = msgbuf_size abi"
  shows "from_le (bytes_at (off_ctrl_type abi) 1 (response_msg abi stack status)) = GPSONE_LOC_API_RESPONSE"
    "int (from_le (bytes_at (off_cmsg abi) 4 (response_msg abi stack status))) = status_num status"
proof -
  have n: "(unat (word_of_int (status_num status) :: uint32)) = nat (status_num status)"
    "nat (status_num status) < 256 ^ 4" "0 \<le> status_num status"
    by (cases status; simp add: status_num_def)+
  have "bytes_at (off_ctrl_type abi) 1 (response_msg abi stack status) = to_le 1 GPSONE_LOC_API_RESPONSE"
    "bytes_at (off_cmsg abi) 4 (response_msg abi stack status) = to_le 4 (nat (status_num status))"
    using assms by (cases abi; simp add: response_msg_def n(1) layout32 layout64 del: to_le_numeral)+
  then show "from_le (bytes_at (off_ctrl_type abi) 1 (response_msg abi stack status)) = GPSONE_LOC_API_RESPONSE"
    "int (from_le (bytes_at (off_cmsg abi) 4 (response_msg abi stack status))) = status_num status"
    using n(2,3) from_to_le [of GPSONE_LOC_API_RESPONSE 1] by (simp_all add: from_to_le ctrl_types del: to_le_numeral)
qed

section \<open>A request from end to end\<close>

definition bit_sub :: "nat \<Rightarrow> uint8 list \<Rightarrow> subscriber" where
  "bit_sub ipv4 ipv6 = newBITSubscriber (of_nat ipv4) (Some ipv6)"

lemma bit_granted:
  assumes "mState m = Released" "mSubscribers m = []" "\<not> isDS m" "mServicer m = servicerTypeAgps"
  shows "onRsrcEvent env RSRC_GRANTED (setAPN (Some apn) n (setBearer bearer (subscribeRsrc env (bit_sub ipv4 ipv6) m))) =
    (let m' = setAPN (Some apn) n (setBearer bearer m)
     in m'\<lparr>mSubscribers := [next_obj m], mem := (mem m)(next_obj m := bit_sub ipv4 ipv6), next_obj := Suc (next_obj m),
       mState := Acquired, actions := actions m @ [NifRequest (mType m) GPS_REQUEST_AGPS_DATA_CONN None ([], []),
         ServerDataConn SENDER_ID_GPSONE_DAEMON GPSONE_LOC_API_IF_REQUEST_SUCCESS]\<rparr>)"
  using assms by (simp add: bit_sub_def newBITSubscriber_def agps_run_simps setAPN_def setBearer_def)

text \<open>C14: On open pipes, with strings that end in their fields, a free machine for the SUPL connection
  and an initialised engine with an empty queue: the daemon asks for the connection, the engine's task takes the message, the framework
  opens the connection, the task takes that message: then the machine of the connection holds
  it for the daemon, and when its calls are carried out the answer that is added to the
  daemon's pipe is one message that says the request succeeded.\<close>

theorem daemon_request_served:
  assumes "length stack = msgbuf_size abi" "length ipv6 = 16" "length ssid = 33" "length password = 33"
    "0 \<in> set ssid" "0 \<in> set password" "ipv4 < 2 ^ (8 * long_size abi)"
    "length buf = server_buffer_size abi" "loc_api_handle d" "\<forall>q. \<not> broken (pipes d q)"
    "pbytes (pipes d LocApiQ) =
       frame abi (put_request abi stack GPSONE_LOC_API_IF_REQUEST 0 3 ipv4 ipv6 ssid password) @ bs"
    "has_adapter e" "agps_status_cb e" "eng_queue e = []" "agnss_nif e = Some m" "mState m = Released"
    "mSubscribers m = []" "\<not> isDS m" "mServicer m = servicerTypeAgps"
  shows "\<exists>d1 e1 e2 e3 m3. loc_api_server_proc abi (Some buf) d e = Some (0, d1, e1) \<and> eng_deliver env e1 = Some e2 \<and>
    eng_deliver env (snd (loc_eng_agps_open AGPS_TYPE_SUPL (Some apn) bearer e2)) = Some e3 \<and>
    agnss_nif e3 = Some m3 \<and> mState m3 = Acquired \<and> map (mem m3) (mSubscribers m3) = [bit_sub ipv4 ipv6] \<and>
    (\<forall>d2. answer_all abi stack (drop (length (actions m)) (actions m3)) d1 = Some d2 \<longrightarrow>
       pbytes (pipes d2 LocApiRespQ) =
       pbytes (pipes d LocApiRespQ) @ frame abi (response_msg abi stack GPSONE_LOC_API_IF_REQUEST_SUCCESS))"
proof -
  let ?d1 = "d\<lparr>pipes := (pipes d)(LocApiQ := pipes d LocApiQ\<lparr>pbytes := bs\<rparr>)\<rparr>"
  let ?m1 = "subscribeRsrc (env_agps env) (bit_sub ipv4 ipv6) m"
  let ?n = "min (length apn) MAX_APN_LEN"
  let ?m3 = "onRsrcEvent (env_agps env) RSRC_GRANTED (setAPN (Some (take ?n apn)) (length (take ?n apn)) (setBearer bearer ?m1))"
  have "pbytes (pipes d LocApiQ) = frame abi (put_request abi stack (if True then GPSONE_LOC_API_IF_REQUEST
      else GPSONE_LOC_API_IF_RELEASE) 0 3 ipv4 ipv6 ssid password) @ bs" using assms(11) by simp
  from request_decoded [OF assms(1-6) _ _ assms(7-9) _ this, of e] assms(10)
  have 1: "loc_api_server_proc abi (Some buf) d e =
      Some (0, ?d1, post (MsgReqRelBIT AGPS_TYPE_SUPL (of_nat ipv4) (Some ipv6) True) e)"
    by (simp add: request_stands_for_def)
  have 2: "eng_deliver env (post (MsgReqRelBIT AGPS_TYPE_SUPL (of_nat ipv4) (Some ipv6) True) e) =
      Some (e\<lparr>agnss_nif := Some ?m1\<rparr>)"
    using assms(14,15) by (simp add: eng_deliver_def post_def req_rel_BIT_def getAgpsStateMachine_def on_nif_def
        get_nif_def set_nif_def bit_sub_def)
  have 3: "eng_deliver env (snd (loc_eng_agps_open AGPS_TYPE_SUPL (Some apn) bearer (e\<lparr>agnss_nif := Some ?m1\<rparr>))) =
      Some (e\<lparr>agnss_nif := Some ?m3\<rparr>)"
    using assms(12-14) by (simp add: eng_deliver_def post_def loc_eng_agps_open_def getAgpsStateMachine_def
        atl_open_success_def on_nif_def get_nif_def set_nif_def)
  note g = bit_granted [OF assms(16-19), of "env_agps env" "take ?n apn" "length (take ?n apn)" bearer ipv4 ipv6]
  have a: "answers_to LocApiRespQ (drop (length (actions m)) (actions ?m3)) = [GPSONE_LOC_API_IF_REQUEST_SUCCESS]"
    unfolding g by (simp add: Let_def behind_def)
  have "pbytes (pipes d2 LocApiRespQ) =
      pbytes (pipes d LocApiRespQ) @ frame abi (response_msg abi stack GPSONE_LOC_API_IF_REQUEST_SUCCESS)"
    if "answer_all abi stack (drop (length (actions m)) (actions ?m3)) ?d1 = Some d2" for d2
    using answers_in_order [OF that assms(1), of LocApiRespQ] assms(10) a by (simp add: frames_def)
  moreover have "mState ?m3 = Acquired" "map (mem ?m3) (mSubscribers ?m3) = [bit_sub ipv4 ipv6]"
    unfolding g by (simp_all add: Let_def)
  ultimately show ?thesis using 1 2 3 by fastforce
qed

section \<open>Applications\<close>

definition zeros :: "nat \<Rightarrow> uint8 list" where
  "zeros n = replicate n 0"

definition demo_dmn :: "abi \<Rightarrow> uint8 list \<Rightarrow> dmn" where
  "demo_dmn abi m = \<lparr>loc_api_handle = True, pipes = (\<lambda>q. \<lparr>pbytes = (if q = LocApiQ then frame abi m @ [] else []),
     capacity = 65536, broken = False\<rparr>)\<rparr>"

definition demo_request :: "abi \<Rightarrow> nat \<Rightarrow> nat \<Rightarrow> uint8 list" where
  "demo_request abi ty sender = put_request abi (zeros (msgbuf_size abi)) GPSONE_LOC_API_IF_REQUEST ty sender 7
     (replicate 16 9) (98 # zeros 32) (99 # zeros 32)"

lemma zeros_simps [simp]: "length (zeros n) = n" "0 < n \<Longrightarrow> 0 \<in> set (zeros n)"
  by (simp_all add: zeros_def)

lemma demo_ipv4 [simp]: "7 < (2 :: nat) ^ (8 * long_size abi)"
  by (cases abi) (simp_all add: long_size_def)

lemma demo_strlcpy:
  "strlcpy 33 (text_of (98 # zeros 32)) = ''b''" "strlcpy 33 (text_of (99 # zeros 32)) = ''c''"
  by (simp_all add: strlcpy_def text_of_def cstr_def zeros_def char_of_def bit_0)

lemma daemon_request_decoded_witness:
  "\<exists>d'. loc_api_server_proc ABI64 (Some (zeros (server_buffer_size ABI64))) (demo_dmn ABI64 (demo_request ABI64 1 2)) up_eng =
     Some (0, d', post (MsgReqRelWifi AGPS_TYPE_WIFI SENDER_ID_MSAPU (Some ''b'') (Some ''c'') True) up_eng)"
proof -
  have "request_stands_for 1 2 7 (replicate 16 9) (98 # zeros 32) (99 # zeros 32) True =
      Some (MsgReqRelWifi AGPS_TYPE_WIFI SENDER_ID_MSAPU (Some ''b'') (Some ''c'') True)"
    using demo_strlcpy by (simp add: request_stands_for_def SSID_BUF_SIZE_def)
  then show ?thesis
    using daemon_request_decoded [of "zeros (msgbuf_size ABI64)" ABI64 "replicate 16 9" "98 # zeros 32" "99 # zeros 32" 1 2 7
        "zeros (server_buffer_size ABI64)" "demo_dmn ABI64 (demo_request ABI64 1 2)" True "[]" up_eng]
    by (simp add: demo_dmn_def demo_request_def)
qed

lemma daemon_message_ignored_witness:
  "\<exists>d'. loc_api_server_proc ABI32 (Some (zeros (server_buffer_size ABI32)))
     (demo_dmn ABI32 (zeros (msgbuf_size ABI32))) up_eng = Some (0, d', up_eng)"
  using daemon_message_ignored [of "zeros (server_buffer_size ABI32)" ABI32 "zeros (msgbuf_size ABI32)"
      "demo_dmn ABI32 (zeros (msgbuf_size ABI32))" "[]" up_eng]
  by (simp add: demo_dmn_def ctrl_types layout32 bytes_at_def zeros_def)

lemma daemon_answers_in_order_witness:
  "\<exists>d'. answer_all ABI32 (zeros (msgbuf_size ABI32)) [ServerDataConn SENDER_ID_MSAPM GPSONE_LOC_API_IF_FAILURE, CloseDataCall]
      (demo_dmn ABI32 []) = Some d' \<and>
     pbytes (pipes d' MsapmQ) = frame ABI32 (response_msg ABI32 (zeros (msgbuf_size ABI32)) GPSONE_LOC_API_IF_FAILURE)"
proof -
  let ?stack = "zeros (msgbuf_size ABI32)"
  let ?acts = "[ServerDataConn SENDER_ID_MSAPM GPSONE_LOC_API_IF_FAILURE, CloseDataCall]"
  have "fits ABI32 128 (response_msg ABI32 ?stack GPSONE_LOC_API_IF_FAILURE)" by (rule fits_msgbuf) simp
  from msgsnd_frame [OF this, of "pipes (demo_dmn ABI32 []) MsapmQ"]
  obtain r p where "msgsnd ABI32 (response_msg ABI32 ?stack GPSONE_LOC_API_IF_FAILURE) (pipes (demo_dmn ABI32 []) MsapmQ) = Some (r, p)"
    by (auto simp: demo_dmn_def layout32)
  then obtain d' where d: "answer_all ABI32 ?stack ?acts (demo_dmn ABI32 []) = Some d'"
    by (auto simp: loc_api_server_data_conn_def pipe_of_def dmn_on_def)
  from daemon_answers_in_order [OF d, of MsapmQ] d show ?thesis
    by (simp add: demo_dmn_def behind_def frames_def)
qed

lemma daemon_request_served_witness:
  "\<exists>d1 e1 e2. loc_api_server_proc ABI32 (Some (zeros (server_buffer_size ABI32))) (demo_dmn ABI32 (demo_request ABI32 0 3))
      (up_eng\<lparr>agps_status_cb := True, agnss_nif := Some (new_sm servicerTypeAgps AGPS_TYPE_SUPL False)\<rparr>) = Some (0, d1, e1) \<and>
     eng_deliver eng_env0 e1 = Some e2"
proof -
  let ?e = "up_eng\<lparr>agps_status_cb := True, agnss_nif := Some (new_sm servicerTypeAgps AGPS_TYPE_SUPL False)\<rparr>"
  have e: "has_adapter ?e" "agps_status_cb ?e" "eng_queue ?e = []"
    "agnss_nif ?e = Some (new_sm servicerTypeAgps AGPS_TYPE_SUPL False)"
    by (simp_all add: up_eng_def boot_eng_def)
  show ?thesis
    using daemon_request_served [of "zeros (msgbuf_size ABI32)" ABI32 "replicate 16 9" "98 # zeros 32" "99 # zeros 32" 7
        "zeros (server_buffer_size ABI32)" "demo_dmn ABI32 (demo_request ABI32 0 3)" "[]" ?e
        "new_sm servicerTypeAgps AGPS_TYPE_SUPL False" eng_env0 "''a''" AGPS_APN_BEARER_IPV4] e
    by (auto simp: demo_dmn_def demo_request_def new_sm_def)
qed

end
