(* ===== verification/DmnThread.thy ===== *)
theory DmnThread
  imports DmnConn
begin

text \<open>
  The thread of the daemons' server, \<open>loc_eng_dmn_conn_thread_helper.c\<close> under
  \<open>src/gps/loc_api/libloc_api_50001\<close>: the launch waits on a condition variable until the new
  thread has run its initialisation, the thread calls its procedure until the exit flag is set.
  Launcher and thread run step by step; a section under the mutex is one step. At the end the
  helper runs the server of \<open>DmnConn\<close>.
\<close>

section \<open>State\<close>

text \<open>The thread: in front of the calls of its procedures, of \<open>thelper_signal_ready\<close> and of the test
  of the loop.\<close>

datatype thelper_pc = TNone | TInit | TFailReady | TReady | TPre | TProc | TTest | TPost | TDone

text \<open>The launcher: in front of the creation, of the test in \<open>thelper_signal_wait\<close>, waiting, woken,
  and back with a result.\<close>

datatype launch_pc = LCreate | LTest | LWaiting | LWoken | LBack int

text \<open>The function pointers are kept as whether they are given; \<open>inited\<close> and \<open>posted\<close> record what has
  been called, and \<open>proc_calls\<close> how often.\<close>

record thelper =
  thread_exit :: bool
  thread_ready :: bool
  thread_proc_init :: bool
  thread_proc_pre :: bool
  thread_proc :: bool
  thread_proc_post :: bool
  thread_pc :: thelper_pc
  launch_pc :: launch_pc
  inited :: bool
  proc_calls :: nat
  posted :: nat

definition new_thelper :: "bool \<Rightarrow> bool \<Rightarrow> bool \<Rightarrow> bool \<Rightarrow> thelper" where
  "new_thelper has_init has_pre has_proc has_post =
     \<lparr>thread_exit = False, thread_ready = False, thread_proc_init = has_init, thread_proc_pre = has_pre,
      thread_proc = has_proc, thread_proc_post = has_post, thread_pc = TNone, launch_pc = LCreate,
      inited = False, proc_calls = 0, posted = 0\<rparr>"

section \<open>Steps\<close>

text \<open>\<open>pthread_cond_signal\<close> wakes the launcher if it waits.\<close>

definition thelper_signal_ready :: "thelper \<Rightarrow> thelper" where
  "thelper_signal_ready t = t\<lparr>thread_ready := True,
     launch_pc := (if launch_pc t = LWaiting then LWoken else launch_pc t)\<rparr>"

text \<open>A step of the thread; \<open>r\<close> is what the procedure returns that the step calls.\<close>

definition thelper_main :: "int \<Rightarrow> thelper \<Rightarrow> thelper option" where
  "thelper_main r t = (case thread_pc t of
      TNone \<Rightarrow> None
    | TInit \<Rightarrow> Some (if thread_proc_init t \<and> r < 0 then t\<lparr>thread_exit := True, thread_pc := TFailReady\<rparr>
                     else t\<lparr>inited := True, thread_pc := TReady\<rparr>)
    | TFailReady \<Rightarrow> Some ((thelper_signal_ready t)\<lparr>thread_pc := TDone\<rparr>)
    | TReady \<Rightarrow> Some ((thelper_signal_ready t)\<lparr>thread_pc := TPre\<rparr>)
    | TPre \<Rightarrow> Some (if thread_proc_pre t \<and> r < 0 then t\<lparr>thread_exit := True, thread_pc := TDone\<rparr>
                    else t\<lparr>thread_pc := TProc\<rparr>)
    | TProc \<Rightarrow> Some (if thread_proc t
                     then t\<lparr>thread_exit := (thread_exit t \<or> r < 0), proc_calls := Suc (proc_calls t), thread_pc := TTest\<rparr>
                     else t\<lparr>thread_pc := TTest\<rparr>)
    | TTest \<Rightarrow> Some (t\<lparr>thread_pc := (if \<not> thread_exit t then TProc else TPost)\<rparr>)
    | TPost \<Rightarrow> Some (t\<lparr>posted := (if thread_proc_post t then Suc (posted t) else posted t), thread_pc := TDone\<rparr>)
    | TDone \<Rightarrow> None)"

text \<open>A step of \<open>loc_eng_dmn_conn_launch_thelper\<close>. With a callback that creates threads the result of
  the creation is not looked at.\<close>

definition launch_thelper :: "bool \<Rightarrow> bool \<Rightarrow> thelper \<Rightarrow> thelper option" where
  "launch_thelper by_cb created t = (case launch_pc t of
      LCreate \<Rightarrow>
        (let t = t\<lparr>thread_exit := False, thread_ready := False, thread_pc := (if created then TInit else TNone)\<rparr>
         in Some (t\<lparr>launch_pc := (if \<not> by_cb \<and> \<not> created then LBack (-1) else LTest)\<rparr>))
    | LTest \<Rightarrow> Some (t\<lparr>launch_pc := (if \<not> thread_ready t \<and> \<not> thread_exit t then LWaiting else LWoken)\<rparr>)
    | LWaiting \<Rightarrow> None
    | LWoken \<Rightarrow> Some (t\<lparr>launch_pc := LBack (if thread_exit t then 1 else 0)\<rparr>)
    | LBack _ \<Rightarrow> None)"

definition unblock_thelper :: "thelper \<Rightarrow> thelper" where
  "unblock_thelper t = t\<lparr>thread_exit := True\<rparr>"

text \<open>The flag can be taken back for a wait to come, and the helper joined: \<open>pthread_join\<close> waits for
  the thread. Nothing in the repository blocks a helper.\<close>

definition thelper_signal_block :: "thelper \<Rightarrow> bool \<times> thelper" where
  "thelper_signal_block t = (thread_ready t, t\<lparr>thread_ready := False\<rparr>)"

definition join_thelper :: "thelper \<Rightarrow> int option" where
  "join_thelper t = (if thread_pc t = TDone then Some 0 else None)"

text \<open>POSIX lets a wait on a condition end without a signal; the \<open>if\<close> around the wait does not test
  again.\<close>

definition wake_spuriously :: "thelper \<Rightarrow> thelper option" where
  "wake_spuriously t = (if launch_pc t = LWaiting then Some (t\<lparr>launch_pc := LWoken\<rparr>) else None)"

text \<open>The client can unblock the helper once the launch is back.\<close>

inductive thelper_step :: "bool \<Rightarrow> bool \<Rightarrow> thelper \<Rightarrow> thelper \<Rightarrow> bool" for spurious by_cb where
  main: "thelper_main r t = Some t' \<Longrightarrow> thelper_step spurious by_cb t t'"
| launch: "launch_thelper by_cb created t = Some t' \<Longrightarrow> thelper_step spurious by_cb t t'"
| unblock: "launch_pc t = LBack n \<Longrightarrow> thelper_step spurious by_cb t (unblock_thelper t)"
| spurious: "spurious \<Longrightarrow> wake_spuriously t = Some t' \<Longrightarrow> thelper_step spurious by_cb t t'"

inductive thelper_reachable :: "bool \<Rightarrow> bool \<Rightarrow> thelper \<Rightarrow> bool" for spurious by_cb where
  init: "thelper_reachable spurious by_cb (new_thelper i p q z)"
| step: "thelper_reachable spurious by_cb t \<Longrightarrow> thelper_step spurious by_cb t t' \<Longrightarrow>
    thelper_reachable spurious by_cb t'"

inductive_cases thelper_stepE: "thelper_step spurious by_cb t t'"

section \<open>The launch\<close>

text \<open>How the flags stand at each place of the thread, and what a waiting launcher can rely on.\<close>

fun thread_ok :: "thelper_pc \<Rightarrow> thelper \<Rightarrow> bool" where
  "thread_ok TNone t = (\<not> thread_ready t \<and> \<not> inited t)"
| "thread_ok TInit t = (\<not> thread_ready t \<and> \<not> inited t)"
| "thread_ok TFailReady t = (\<not> thread_ready t \<and> thread_exit t)"
| "thread_ok TReady t = (\<not> thread_ready t \<and> inited t)"
| "thread_ok TDone t = (thread_ready t \<and> (inited t \<or> thread_exit t))"
| "thread_ok _ t = (thread_ready t \<and> inited t)"

fun launch_ok :: "launch_pc \<Rightarrow> thelper \<Rightarrow> bool" where
  "launch_ok LCreate t = (thread_pc t = TNone)"
| "launch_ok LTest t = True"
| "launch_ok LWaiting t = (\<not> thread_ready t)"
| "launch_ok LWoken t = (thread_ready t \<or> thread_exit t)"
| "launch_ok (LBack n) t = (n = 0 \<longrightarrow> inited t)"

definition thelper_inv :: "thelper \<Rightarrow> bool" where
  "thelper_inv t \<longleftrightarrow> thread_ok (thread_pc t) t \<and> launch_ok (launch_pc t) t"

lemma thread_ok_ready: "thread_ok (thread_pc t) t \<Longrightarrow> thread_ready t \<Longrightarrow> inited t \<or> thread_exit t"
  by (cases "thread_pc t") auto

lemma main_inv:
  assumes "thelper_inv t" "thelper_main r t = Some t'"
  shows "thelper_inv t'"
  using assms
  by (cases "thread_pc t"; cases "launch_pc t")
    (auto simp: thelper_inv_def thelper_main_def thelper_signal_ready_def split: if_splits)

lemma launch_inv:
  assumes "thelper_inv t" "launch_thelper by_cb created t = Some t'"
  shows "thelper_inv t'"
proof (cases "launch_pc t")
  case LWoken
  then show ?thesis
    using assms thread_ok_ready [of t]
    by (cases "thread_pc t") (auto simp: thelper_inv_def launch_thelper_def split: if_splits)
next
  case LCreate
  then show ?thesis
    using assms by (auto simp: thelper_inv_def launch_thelper_def Let_def split: if_splits)
next
  case LTest
  then show ?thesis
    using assms by (cases "thread_pc t") (auto simp: thelper_inv_def launch_thelper_def split: if_splits)
qed (use assms in \<open>auto simp: launch_thelper_def\<close>)

lemma unblock_inv:
  "thelper_inv t \<Longrightarrow> launch_pc t = LBack n \<Longrightarrow> thelper_inv (unblock_thelper t)"
  by (cases "thread_pc t") (auto simp: thelper_inv_def unblock_thelper_def)

lemma thelper_inv_reachable: "thelper_reachable False by_cb t \<Longrightarrow> thelper_inv t"
proof (induction rule: thelper_reachable.induct)
  case (init i p q z)
  then show ?case by (simp add: thelper_inv_def new_thelper_def)
next
  case (step t t')
  from step.hyps(2) step.IH show ?case
    by (auto elim!: thelper_stepE intro: main_inv launch_inv unblock_inv)
qed

text \<open>The launch reports success only behind the initialisation: unless the wait on the condition
  ends by itself, a launch that has returned 0 has a thread whose initialisation succeeded.\<close>

theorem launch_waits_for_init:
  assumes "thelper_reachable False by_cb t" "launch_pc t = LBack 0"
  shows "inited t \<and> thread_ready t"
proof -
  have i: "thelper_inv t" by (rule thelper_inv_reachable [OF assms(1)])
  with assms(2) have "inited t" by (simp add: thelper_inv_def)
  have "launch_pc t = LBack 0 \<longrightarrow> thread_ready t"
    using assms(1)
  proof (induction rule: thelper_reachable.induct)
    case (init i p q z)
    then show ?case by (simp add: new_thelper_def)
  next
    case (step t t')
    have "thelper_inv t" by (rule thelper_inv_reachable [OF step.hyps(1)])
    with step.hyps(2) step.IH show ?case
      by (cases "thread_pc t")
        (auto elim!: thelper_stepE simp: thelper_main_def thelper_signal_ready_def launch_thelper_def unblock_thelper_def
          thelper_inv_def Let_def split: launch_pc.splits if_splits)
  qed
  with assms(2) \<open>inited t\<close> show ?thesis by simp
qed

text \<open>Steps of the thread alone, with what its procedures return.\<close>

fun thread_run :: "int list \<Rightarrow> thelper \<Rightarrow> thelper option" where
  "thread_run [] t = Some t"
| "thread_run (r # rs) t = Option.bind (thelper_main r t) (thread_run rs)"

text \<open>No wakeup is lost: a launcher that waits for a thread that was created is woken by one of the
  next two steps of the thread, whatever its procedures return.\<close>

theorem launch_woken:
  assumes "thelper_reachable False by_cb t" "launch_pc t = LWaiting" "thread_pc t \<noteq> TNone"
  shows "\<exists>k t'. k \<le> 2 \<and> thread_run (take k [r, r']) t = Some t' \<and> launch_pc t' = LWoken"
proof -
  have "thelper_inv t" by (rule thelper_inv_reachable [OF assms(1)])
  then consider "thread_pc t = TInit" | "thread_pc t = TFailReady" | "thread_pc t = TReady"
    using assms(2,3) by (cases "thread_pc t") (auto simp: thelper_inv_def)
  then show ?thesis
  proof cases
    case 1
    then show ?thesis using assms(2)
      by (intro exI [of _ 2]) (simp add: thelper_main_def thelper_signal_ready_def)
  next
    case 2
    then show ?thesis using assms(2)
      by (intro exI [of _ 1]) (simp add: thelper_main_def thelper_signal_ready_def)
  next
    case 3
    then show ?thesis using assms(2)
      by (intro exI [of _ 1]) (simp add: thelper_main_def thelper_signal_ready_def)
  qed
qed

text \<open>The steps the thread has left once the exit flag is set.\<close>

fun pc_left :: "thelper_pc \<Rightarrow> nat" where
  "pc_left TNone = 0"
| "pc_left TInit = 6"
| "pc_left TFailReady = 1"
| "pc_left TReady = 5"
| "pc_left TPre = 4"
| "pc_left TProc = 3"
| "pc_left TTest = 2"
| "pc_left TPost = 1"
| "pc_left TDone = 0"

lemma main_exit:
  "thelper_main r t = Some t' \<Longrightarrow> thread_exit t \<Longrightarrow>
   thread_exit t' \<and> pc_left (thread_pc t') < pc_left (thread_pc t) \<and>
   proc_calls t' + of_bool (pc_left (thread_pc t') \<ge> 3) \<le> proc_calls t + of_bool (pc_left (thread_pc t) \<ge> 3)"
  by (cases "thread_pc t") (auto simp: thelper_main_def thelper_signal_ready_def split: if_splits)

lemma run_exit:
  "thread_run rs t = Some t' \<Longrightarrow> thread_exit t \<Longrightarrow>
   length rs + pc_left (thread_pc t') \<le> pc_left (thread_pc t) \<and>
   proc_calls t' + of_bool (pc_left (thread_pc t') \<ge> 3) \<le> proc_calls t + of_bool (pc_left (thread_pc t) \<ge> 3)"
proof (induction rs t rule: thread_run.induct)
  case (2 r rs t)
  then obtain t1 where t1: "thelper_main r t = Some t1" "thread_run rs t1 = Some t'"
    by (auto simp: bind_eq_Some_conv)
  from main_exit [OF t1(1) "2.prems"(2)] "2.IH" [OF t1(1) t1(2)] show ?case by auto
qed simp

lemma helper_main_moves: "thread_pc t \<noteq> TNone \<Longrightarrow> thread_pc t \<noteq> TDone \<Longrightarrow> \<exists>t'. thelper_main r t = Some t'"
  by (cases "thread_pc t") (simp_all add: thelper_main_def)

text \<open>Once the exit flag is set the thread ends: it takes at most six more steps, whatever its
  procedures return, and calls the procedure of the loop at most once more.\<close>

theorem helper_winds_down:
  assumes "thread_run rs t = Some t'" "thread_exit t"
  shows "length rs \<le> 6 \<and> proc_calls t' \<le> Suc (proc_calls t)"
proof -
  have "pc_left (thread_pc t) \<le> 6" by (cases "thread_pc t") simp_all
  with run_exit [OF assms] show ?thesis by (auto simp: of_bool_def split: if_splits)
qed

section \<open>The server on the helper\<close>

text \<open>Thread and server together: the procedure of the loop is a turn of the server on the memory it
  gets, and \<open>proc_post\<close> closes the pipes. The initialisation has been called with \<open>opens\<close>.\<close>

definition server_step ::
  "abi \<Rightarrow> (dmn_pipe \<Rightarrow> int \<times> bool \<times> int) \<Rightarrow> uint8 list option \<Rightarrow> thelper \<times> dmn \<times> loc_eng \<Rightarrow> (thelper \<times> dmn \<times> loc_eng) option" where
  "server_step abi opens malloc_result s = (case s of (t, d, e) \<Rightarrow>
     (case thread_pc t of
        TInit \<Rightarrow> (case loc_api_server_proc_init opens d of (r, d') \<Rightarrow>
          map_option (\<lambda>t'. (t', d', e)) (thelper_main r t))
      | TPre \<Rightarrow> map_option (\<lambda>t'. (t', d, e)) (thelper_main loc_api_server_proc_pre t)
      | TProc \<Rightarrow> do {
          (r, d', e') \<leftarrow> loc_api_server_proc abi malloc_result d e;
          t' \<leftarrow> thelper_main r t;
          Some (t', d', e')
        }
      | TPost \<Rightarrow> (case loc_api_server_proc_post d of (r, d') \<Rightarrow> map_option (\<lambda>t'. (t', d', e)) (thelper_main r t))
      | _ \<Rightarrow> map_option (\<lambda>t'. (t', d, e)) (thelper_main 0 t)))"

fun server_run ::
  "abi \<Rightarrow> (dmn_pipe \<Rightarrow> int \<times> bool \<times> int) \<Rightarrow> uint8 list option list \<Rightarrow> thelper \<times> dmn \<times> loc_eng \<Rightarrow> (thelper \<times> dmn \<times> loc_eng) option" where
  "server_run abi opens [] s = Some s"
| "server_run abi opens (m # ms) s = Option.bind (server_step abi opens m s) (server_run abi opens ms)"

text \<open>The launch hands the engine over and starts the helper with the four procedures.\<close>

definition server_launch :: "thelper \<times> dmn \<times> loc_eng \<Rightarrow> thelper \<times> dmn \<times> loc_eng" where
  "server_launch s = (case s of (t, d, e) \<Rightarrow>
     (new_thelper True True True True, d\<lparr>loc_api_handle := True\<rparr>, e))"

definition server_unblock :: "abi \<Rightarrow> uint8 list \<Rightarrow> thelper \<times> dmn \<times> loc_eng \<Rightarrow> (int \<times> thelper \<times> dmn \<times> loc_eng) option" where
  "server_unblock abi stack s = (case s of (t, d, e) \<Rightarrow>
     do {
       let t = unblock_thelper t;
       (r, d) \<leftarrow> loc_eng_dmn_conn_unblock_proc abi stack d;
       Some (0, t, d, e)
     })"

lemma unblock_msg_facts:
  assumes "length stack = msgbuf_size abi"
  shows "length (unblock_msg abi stack) = msgbuf_size abi"
    "from_le (bytes_at (off_ctrl_type abi) 1 (unblock_msg abi stack)) = GPSONE_UNBLOCK"
proof -
  have "off_ctrl_type abi + 1 \<le> length stack" using assms long_in_msgbuf(2) by simp
  then show "length (unblock_msg abi stack) = msgbuf_size abi"
    "from_le (bytes_at (off_ctrl_type abi) 1 (unblock_msg abi stack)) = GPSONE_UNBLOCK"
    using assms from_to_le [of GPSONE_UNBLOCK 1] by (simp_all add: unblock_msg_def ctrl_types del: to_le_numeral)
qed

text \<open>C32: The unblock reaches a server that waits for a message, on open pipes, its own empty and with
  room for a message: the message that is written wakes it,
  the flag that was set before ends its loop, and after three steps the thread can be joined, with
  the pipes closed and the engine as it was.\<close>

theorem unblock_ends_server:
  assumes "thread_pc t = TProc" "thread_proc t" "thread_proc_post t" "length stack = msgbuf_size abi"
    "\<forall>q. \<not> broken (pipes d q)" "pbytes (pipes d LocApiQ) = []" "msgbuf_size abi \<le> capacity (pipes d LocApiQ)"
    "length buf = server_buffer_size abi"
  shows "server_step abi opens (Some buf) (t, d, e) = None \<and>
    (\<exists>t1 d1 t2 d2. server_unblock abi stack (t, d, e) = Some (0, t1, d1, e) \<and>
      server_run abi opens [Some buf, None, None] (t1, d1, e) = Some (t2, d2, e) \<and>
      join_thelper t2 = Some 0 \<and> posted t2 = Suc (posted t) \<and> (\<forall>q. broken (pipes d2 q)))"
proof -
  have w: "server_step abi opens (Some buf) (t, d, e) = None"
    using assms(1,5,6) msgrcv_blocks [of "pipes d LocApiQ" abi buf] by (simp add: server_step_def loc_api_server_proc_def)
  let ?m = "unblock_msg abi stack"
  let ?d1 = "d\<lparr>pipes := (pipes d)(LocApiQ := pipes d LocApiQ\<lparr>pbytes := frame abi ?m\<rparr>)\<rparr>"
  let ?d2 = "d\<lparr>pipes := (pipes d)(LocApiQ := pipes d LocApiQ\<lparr>pbytes := []\<rparr>)\<rparr>"
  note um = unblock_msg_facts [OF assms(4)]
  have u: "server_unblock abi stack (t, d, e) = Some (0, unblock_thelper t, ?d1, e)"
    using msgsnd_frame [OF fits_msgbuf [OF um(1)], of "pipes d LocApiQ"] assms(5-7) um(1)
    by (simp add: server_unblock_def loc_eng_dmn_conn_unblock_proc_def dmn_on_def)
  have s: "loc_api_server_proc abi (Some buf) ?d1 e = Some (0, ?d2, e)"
    using server_turn [OF assms(8) um(1), of ?d1 "[]" e] assms(5) um(2) by (simp add: Let_def ctrl_types)
  let ?t2 = "(unblock_thelper t)\<lparr>proc_calls := Suc (proc_calls t), posted := Suc (posted t), thread_pc := TDone\<rparr>"
  have "server_run abi opens [Some buf, None, None] (unblock_thelper t, ?d1, e) =
      Some (?t2, snd (loc_api_server_proc_post ?d2), e)"
    using s assms(1-3)
    by (simp add: server_step_def thelper_main_def unblock_thelper_def loc_api_server_proc_post_def)
  moreover have "\<forall>q. broken (pipes (snd (loc_api_server_proc_post ?d2)) q)"
    by (simp add: loc_api_server_proc_post_def piperemove_def)
  ultimately show ?thesis using w u by (auto simp: unblock_thelper_def join_thelper_def)
qed

text \<open>\<open>loc_api_server_proc\<close> says it will retry when a message could not be received; the helper takes
  the negative result for the end, closes the pipes, and nobody serves the daemons any more.\<close>

lemma failed_receive_ends_server:
  assumes "thread_pc t = TProc" "thread_proc t" "thread_proc_post t"
    "loc_api_server_proc abi m d e = Some (-1, d1, e1)"
  shows "\<exists>t2 d2. server_run abi opens [m, None, None] (t, d, e) = Some (t2, d2, e1) \<and> thread_pc t2 = TDone \<and>
    (\<forall>q. broken (pipes d2 q))"
  using assms by (simp add: server_step_def thelper_main_def loc_api_server_proc_post_def piperemove_def)

text \<open>A wait that ends by itself lets the launch return success in front of the initialisation.\<close>

lemma spurious_wakeup_launches_early:
  "\<exists>t. thelper_reachable True False t \<and> launch_pc t = LBack 0 \<and> thread_pc t = TInit"
proof -
  let ?t0 = "new_thelper True True True True"
  let ?t1 = "?t0\<lparr>thread_pc := TInit, launch_pc := LTest\<rparr>"
  let ?t2 = "?t1\<lparr>launch_pc := LWaiting\<rparr>"
  let ?t3 = "?t1\<lparr>launch_pc := LWoken\<rparr>"
  let ?t4 = "?t1\<lparr>launch_pc := LBack 0\<rparr>"
  have "thelper_step True False ?t0 ?t1" "thelper_step True False ?t1 ?t2" "thelper_step True False ?t3 ?t4"
    by (rule thelper_step.launch [where created = True]; simp add: launch_thelper_def new_thelper_def)+
  moreover have "thelper_step True False ?t2 ?t3"
    by (rule thelper_step.spurious) (simp_all add: wake_spuriously_def)
  ultimately have "thelper_reachable True False ?t4"
    by (meson thelper_reachable.init thelper_reachable.step)
  then show ?thesis by (intro exI [of _ ?t4]) simp
qed

text \<open>A callback that fails to create the thread is not noticed, and the launch waits for good.\<close>

lemma callback_failure_waits:
  "\<exists>t. thelper_reachable False True t \<and> launch_pc t = LWaiting \<and> thread_pc t = TNone \<and>
     (\<forall>r. thelper_main r t = None) \<and> (\<forall>c. launch_thelper True c t = None)"
proof -
  let ?t0 = "new_thelper True True True True"
  let ?t1 = "?t0\<lparr>launch_pc := LTest\<rparr>"
  let ?t2 = "?t0\<lparr>launch_pc := LWaiting\<rparr>"
  have "thelper_step False True ?t0 ?t1" "thelper_step False True ?t1 ?t2"
    by (rule thelper_step.launch [where created = False]; simp add: launch_thelper_def new_thelper_def)+
  then have "thelper_reachable False True ?t2"
    by (meson thelper_reachable.init thelper_reachable.step)
  then show ?thesis by (intro exI [of _ ?t2]) (simp add: thelper_main_def launch_thelper_def new_thelper_def)
qed

section \<open>Applications\<close>

definition waiting_thelper :: thelper where
  "waiting_thelper = (new_thelper True True True True)\<lparr>thread_pc := TInit, launch_pc := LWaiting\<rparr>"

lemma waiting_reachable: "thelper_reachable False by_cb waiting_thelper"
proof -
  let ?t0 = "new_thelper True True True True"
  let ?t1 = "?t0\<lparr>thread_pc := TInit, launch_pc := LTest\<rparr>"
  have "thelper_step False by_cb ?t0 ?t1" "thelper_step False by_cb ?t1 waiting_thelper"
    by (rule thelper_step.launch [where created = True]; simp add: launch_thelper_def new_thelper_def waiting_thelper_def)+
  then show ?thesis by (meson thelper_reachable.init thelper_reachable.step)
qed

lemma run_reachable:
  "thread_run rs t = Some t' \<Longrightarrow> thelper_reachable sp by_cb t \<Longrightarrow> thelper_reachable sp by_cb t'"
  by (induction rs t rule: thread_run.induct)
    (auto simp: bind_eq_Some_conv dest: thelper_reachable.step [OF _ thelper_step.main])

definition launched_thelper :: thelper where
  "launched_thelper = waiting_thelper\<lparr>inited := True, thread_ready := True, thread_pc := TPre, launch_pc := LBack 0\<rparr>"

lemma launched_reachable: "thelper_reachable False by_cb launched_thelper"
proof -
  have "thread_run [0, 0] waiting_thelper =
      Some (waiting_thelper\<lparr>inited := True, thread_ready := True, thread_pc := TPre, launch_pc := LWoken\<rparr>)"
    by (simp add: waiting_thelper_def new_thelper_def thelper_main_def thelper_signal_ready_def)
  from thelper_reachable.step [OF run_reachable [OF this waiting_reachable] thelper_step.launch [where created = True]]
  show ?thesis by (simp add: launch_thelper_def launched_thelper_def waiting_thelper_def new_thelper_def)
qed

lemma launch_waits_for_init_witness: "inited launched_thelper \<and> thread_ready launched_thelper"
  using launch_waits_for_init [OF launched_reachable [of False]] by (simp add: launched_thelper_def)

lemma launch_woken_witness:
  "\<exists>k t'. k \<le> 2 \<and> thread_run (take k [- 1, 0]) waiting_thelper = Some t' \<and> launch_pc t' = LWoken"
  using launch_woken [OF waiting_reachable [of False], of "- 1" 0]
  by (simp add: waiting_thelper_def)

lemma helper_winds_down_witness:
  "\<exists>t'. thread_run [0, 0, 0, 0] (unblock_thelper launched_thelper) = Some t' \<and>
     proc_calls t' \<le> Suc (proc_calls (unblock_thelper launched_thelper))"
proof -
  obtain t' where t: "thread_run [0, 0, 0, 0] (unblock_thelper launched_thelper) = Some t'"
    by (auto simp: thelper_main_def unblock_thelper_def launched_thelper_def waiting_thelper_def new_thelper_def)
  with helper_winds_down [OF t] show ?thesis by (simp add: unblock_thelper_def)
qed

lemma unblock_ends_server_witness:
  "\<exists>t1 d1 t2 d2. server_unblock ABI32 (zeros (msgbuf_size ABI32)) (launched_thelper\<lparr>thread_pc := TProc\<rparr>,
      \<lparr>loc_api_handle = True, pipes = (\<lambda>q. \<lparr>pbytes = [], capacity = 65536, broken = False\<rparr>)\<rparr>, up_eng) = Some (0, t1, d1, up_eng) \<and>
    server_run ABI32 (\<lambda>q. (0, False, 3)) [Some (zeros (server_buffer_size ABI32)), None, None] (t1, d1, up_eng) =
      Some (t2, d2, up_eng) \<and> join_thelper t2 = Some 0"
proof -
  let ?t = "launched_thelper\<lparr>thread_pc := TProc\<rparr>"
  let ?d = "\<lparr>loc_api_handle = True, pipes = (\<lambda>q. \<lparr>pbytes = [], capacity = 65536, broken = False\<rparr>)\<rparr>"
  have "thread_pc ?t = TProc" "thread_proc ?t" "thread_proc_post ?t"
    by (simp_all add: launched_thelper_def waiting_thelper_def new_thelper_def)
  from unblock_ends_server [OF this, of "zeros (msgbuf_size ABI32)" ABI32 ?d "zeros (server_buffer_size ABI32)"
      "\<lambda>q. (0, False, 3)" up_eng]
  show ?thesis by (simp add: layout32) blast
qed

end
