(* ===== verification/Recovery.thy ===== *)
theory Recovery
  imports Prelude "HOL-Library.Sublist"
begin

text \<open>
  The command of the recovery that compares the version of the trust zone,
  \<open>src/recovery/recovery_updater.cpp\<close>: a Boyer-Moore search in the partition, the version behind
  the marker it finds, the comparison with the arguments. The loops over \<open>int\<close> indices are loops
  over \<open>int\<close> here; the loop of the search is a partial function, which is shown to return.
\<close>

section \<open>The tables\<close>

text \<open>\<open>strncmp\<close> being zero: the strings agree up to \<open>n\<close> characters or to a common NUL.\<close>

fun strncmp_zero :: "nat \<Rightarrow> string \<Rightarrow> string \<Rightarrow> bool" where
  "strncmp_zero 0 a b = True"
| "strncmp_zero (Suc n) (x # a) (y # b) = (x = y \<and> (x = CHR 0x00 \<or> strncmp_zero n a b))"
| "strncmp_zero (Suc n) a b = (a = [] \<and> b = [])"

text \<open>The length of the longest suffix of the string that ends at position \<open>p\<close>: the loop from \<open>i\<close>.\<close>

function suffix_loop :: "string \<Rightarrow> nat \<Rightarrow> nat \<Rightarrow> nat \<Rightarrow> nat" where
  "suffix_loop str str_len p i =
     (if str ! (p - i) = str ! (str_len - 1 - i) \<and> i < p then suffix_loop str str_len p (i + 1) else i)"
  by pat_completeness auto
termination by (relation "measure (\<lambda>(str, str_len, p, i). p - i)") auto

declare suffix_loop.simps [simp del]

definition max_suffix_len :: "string \<Rightarrow> nat \<Rightarrow> nat \<Rightarrow> nat" where
  "max_suffix_len str str_len p = suffix_loop str str_len p 0"

text \<open>The first table is indexed by every value of a character.\<close>

definition bm_make_delta1 :: "string \<Rightarrow> char \<Rightarrow> int" where
  "bm_make_delta1 pat =
     fold (\<lambda>i delta1. delta1(pat ! i := int (length pat) - 1 - int i)) [0 ..< length pat - 1] (\<lambda>_. int (length pat))"

text \<open>The second one: its first loop goes down and keeps the end of the last prefix found.\<close>

definition prefix_turn :: "string \<Rightarrow> nat \<Rightarrow> nat \<times> int list \<Rightarrow> nat \<times> int list" where
  "prefix_turn pat p s = (case s of (last_prefix, delta2) \<Rightarrow>
     (let last_prefix = (if strncmp_zero (length pat - p) (drop p pat) pat then p + 1 else last_prefix)
      in (last_prefix, delta2[p := int last_prefix + (int (length pat) - 1 - int p)])))"

definition suffix_turn :: "string \<Rightarrow> nat \<Rightarrow> int list \<Rightarrow> int list" where
  "suffix_turn pat p delta2 =
     (let suf_len = max_suffix_len pat (length pat) p
      in if pat ! (p - suf_len) \<noteq> pat ! (length pat - 1 - suf_len)
         then delta2[length pat - 1 - suf_len := int (length pat) - 1 - int p + int suf_len] else delta2)"

definition bm_make_delta2 :: "string \<Rightarrow> int list" where
  "bm_make_delta2 pat =
     (let delta2 = snd (fold (prefix_turn pat) (rev [0 ..< length pat]) (length pat - 1, replicate (length pat) 0))
      in fold (suffix_turn pat) [0 ..< length pat - 1] delta2)"

section \<open>The search\<close>

text \<open>The inner loop goes back over the characters that agree.\<close>

function go_back :: "string \<Rightarrow> string \<Rightarrow> int \<Rightarrow> int \<Rightarrow> int \<times> int" where
  "go_back str pat i j = (if j \<ge> 0 \<and> str ! nat i = pat ! nat j then go_back str pat (i - 1) (j - 1) else (i, j))"
  by pat_completeness auto
termination by (relation "measure (\<lambda>(str, pat, i, j). nat (j + 1))") auto

declare go_back.simps [simp del]

partial_function (option) bm_loop ::
  "string \<Rightarrow> string \<Rightarrow> (char \<Rightarrow> int) \<Rightarrow> int list \<Rightarrow> int \<Rightarrow> int option option" where
  "bm_loop str pat delta1 delta2 i =
     (if i < int (length str) then
        (case go_back str pat i (int (length pat) - 1) of (i, j) \<Rightarrow>
           if j < 0 then Some (Some (i + 1))
           else bm_loop str pat delta1 delta2 (i + max (delta1 (str ! nat i)) (delta2 ! nat j)))
      else Some None)"

declare bm_loop.simps [code]

text \<open>The result is the offset of the occurrence; the outer option is that of the loops. The index, an
  \<open>int\<close> compared with \<open>(int) str_len\<close>, is unbounded here: the only caller searches the bytes of one
  partition, \<open>TZ_SZ\<close>, half a megabyte. The tables of
  an empty pattern are built, by loops whose bound wraps, before the pattern is tested: they do
  not come to an end inside the arrays.\<close>

definition bm_search :: "string \<Rightarrow> string \<Rightarrow> int option option" where
  "bm_search str pat =
     (let delta1 = bm_make_delta1 pat; delta2 = bm_make_delta2 pat
      in if pat = [] then None
         else bm_loop str pat delta1 delta2 (int (length pat) - 1))"

section \<open>What the tables hold\<close>

lemma delta1_upto:
  assumes "n \<le> length pat - 1"
  defines "d \<equiv> fold (\<lambda>i delta1. delta1(pat ! i := int (length pat) - 1 - int i)) [0 ..< n] (\<lambda>_. int (length pat))"
  shows "(\<forall>k<n. d (pat ! k) \<le> int (length pat) - 1 - int k) \<and> (\<forall>c. d c \<le> int (length pat))"
  using assms(1) unfolding d_def
proof (induction n)
  case (Suc n)
  then show ?case by (auto simp: less_Suc_eq)
qed simp

lemma delta1_bounds:
  "k < length pat - 1 \<Longrightarrow> bm_make_delta1 pat (pat ! k) \<le> int (length pat) - 1 - int k"
  "bm_make_delta1 pat c \<le> int (length pat)"
  using delta1_upto [of "length pat - 1" pat] by (simp_all add: bm_make_delta1_def)

lemma suffix_loop_spec:
  "i \<le> p \<Longrightarrow> suffix_loop str n p i = r \<Longrightarrow> i \<le> r \<and> r \<le> p \<and>
   (\<forall>t. i \<le> t \<longrightarrow> t < r \<longrightarrow> str ! (p - t) = str ! (n - 1 - t)) \<and> (r = p \<or> str ! (p - r) \<noteq> str ! (n - 1 - r))"
proof (induction str n p i rule: suffix_loop.induct)
  case (1 str n p i)
  show ?case
  proof (cases "str ! (p - i) = str ! (n - 1 - i) \<and> i < p")
    case True
    then have "suffix_loop str n p (i + 1) = r" using "1.prems" suffix_loop.simps [of str n p i] by simp
    with "1.IH" True have h: "i + 1 \<le> r \<and> r \<le> p \<and> (\<forall>t. i + 1 \<le> t \<longrightarrow> t < r \<longrightarrow> str ! (p - t) = str ! (n - 1 - t)) \<and>
      (r = p \<or> str ! (p - r) \<noteq> str ! (n - 1 - r))" by simp
    moreover have "str ! (p - t) = str ! (n - 1 - t)" if "i \<le> t" "t < r" for t
      using h True that by (cases "t = i") auto
    ultimately show ?thesis by auto
  next
    case False
    then have "r = i" using "1.prems" suffix_loop.simps [of str n p i] by auto
    then show ?thesis using False "1.prems" by auto
  qed
qed

lemma max_suffix_len_le: "max_suffix_len str n p \<le> p"
  using suffix_loop_spec [of 0 p str n] by (simp add: max_suffix_len_def)

lemma max_suffix_len_eq:
  assumes "L \<le> p" "\<forall>t<L. str ! (p - t) = str ! (n - 1 - t)" "str ! (p - L) \<noteq> str ! (n - 1 - L)"
  shows "max_suffix_len str n p = L"
proof -
  define r where "r = max_suffix_len str n p"
  then have r: "r \<le> p" "\<forall>t<r. str ! (p - t) = str ! (n - 1 - t)" "r = p \<or> str ! (p - r) \<noteq> str ! (n - 1 - r)"
    using suffix_loop_spec [of 0 p str n r] by (simp_all add: max_suffix_len_def)
  have "\<not> r < L" using r assms(1,2) by auto
  moreover have "\<not> L < r" using r(2) assms(3) by auto
  ultimately show ?thesis by (simp add: r_def)
qed

text \<open>Every entry of the second table shifts by one at least, and past the pattern at most.\<close>

definition table_ok :: "string \<Rightarrow> nat set \<Rightarrow> int list \<Rightarrow> bool" where
  "table_ok pat js d \<longleftrightarrow> length d = length pat \<and>
     (\<forall>j \<in> js. int (length pat) - int j \<le> d ! j \<and> d ! j \<le> 2 * int (length pat) - 1 - int j)"

lemma prefix_turns:
  assumes "q \<le> length pat"
  shows "case fold (prefix_turn pat) (rev [q ..< length pat]) (length pat - 1, replicate (length pat) 0) of (lp, d) \<Rightarrow>
    table_ok pat {q ..< length pat} d \<and> lp \<le> length pat \<and> (lp = 0 \<longrightarrow> q = length pat \<and> length pat \<le> 1)"
  using assms
proof (induction "length pat - q" arbitrary: q)
  case 0
  then show ?case by (auto simp: table_ok_def)
next
  case (Suc x)
  then have q: "q < length pat" "x = length pat - Suc q" by auto
  obtain lp d where f: "fold (prefix_turn pat) (rev [Suc q ..< length pat]) (length pat - 1, replicate (length pat) 0) = (lp, d)"
    by force
  with Suc.hyps(1) [OF q(2)] q(1) have h: "table_ok pat {Suc q ..< length pat} d" "lp \<le> length pat"
    "lp = 0 \<longrightarrow> Suc q = length pat \<and> length pat \<le> 1" by auto
  define lp' where "lp' = (if strncmp_zero (length pat - q) (drop q pat) pat then q + 1 else lp)"
  have st: "fold (prefix_turn pat) (rev [q ..< length pat]) (length pat - 1, replicate (length pat) 0) =
      (lp', d[q := int lp' + (int (length pat) - 1 - int q)])"
    using q(1) f by (simp add: upt_rec [of q] prefix_turn_def lp'_def Let_def)
  have refl: "strncmp_zero n a a" for n a by (induction n arbitrary: a; case_tac a) auto
  have pos: "lp' \<noteq> 0"
  proof
    assume "lp' = 0"
    then have "lp = 0" "\<not> strncmp_zero (length pat - q) (drop q pat) pat" by (auto simp: lp'_def split: if_splits)
    with h(3) q(1) have "q = 0" by auto
    with \<open>\<not> strncmp_zero _ _ _\<close> refl show False by simp
  qed
  have le: "lp' \<le> length pat" using h(2) q(1) by (auto simp: lp'_def)
  have "table_ok pat {q ..< length pat} (d[q := int lp' + (int (length pat) - 1 - int q)])"
    using h(1) pos le q(1) by (auto simp: table_ok_def nth_list_update)
  then show ?case unfolding st using pos le by simp
qed

text \<open>The second loop leaves at every place the smallest of the shifts that put a different
  character before the suffix found again.\<close>

definition found_again :: "string \<Rightarrow> nat \<Rightarrow> nat \<Rightarrow> bool" where
  "found_again pat p L \<longleftrightarrow> max_suffix_len pat (length pat) p = L \<and> pat ! (p - L) \<noteq> pat ! (length pat - 1 - L)"

lemma suffix_turns:
  assumes "q \<le> length pat - 1" "table_ok pat {0 ..< length pat} d"
  shows "table_ok pat {0 ..< length pat} (fold (suffix_turn pat) [0 ..< q] d) \<and>
    (\<forall>p<q. \<forall>L. found_again pat p L \<longrightarrow>
       fold (suffix_turn pat) [0 ..< q] d ! (length pat - 1 - L) \<le> int (length pat) - 1 - int p + int L)"
  using assms(1)
proof (induction q)
  case 0
  then show ?case using assms(2) by simp
next
  case (Suc q)
  let ?m = "length pat"
  define e where "e = fold (suffix_turn pat) [0 ..< q] d"
  from Suc have ok: "table_ok pat {0 ..< ?m} e"
    and low: "\<And>p L. p < q \<Longrightarrow> found_again pat p L \<Longrightarrow> e ! (?m - 1 - L) \<le> int ?m - 1 - int p + int L"
    by (auto simp: e_def)
  define S where "S = max_suffix_len pat ?m q"
  have S: "S \<le> q" "q < ?m - 1" using max_suffix_len_le Suc.prems by (simp_all add: S_def)
  have turn: "fold (suffix_turn pat) [0 ..< Suc q] d =
      (if found_again pat q S then e[?m - 1 - S := int ?m - 1 - int q + int S] else e)"
    by (simp add: e_def suffix_turn_def found_again_def S_def Let_def)
  have len: "length e = ?m" using ok by (simp add: table_ok_def)
  show ?case
  proof (cases "found_again pat q S")
    case False
    have "\<not> found_again pat q L" for L using False by (auto simp: found_again_def S_def)
    then show ?thesis unfolding turn using False ok low by (auto simp: less_Suc_eq)
  next
    case True
    let ?e = "e[?m - 1 - S := int ?m - 1 - int q + int S]"
    have "table_ok pat {0 ..< ?m} ?e"
      using ok S by (auto simp: table_ok_def nth_list_update of_nat_diff)
    moreover have "?e ! (?m - 1 - L) \<le> int ?m - 1 - int p + int L" if "p < Suc q" "found_again pat p L" for p L
    proof (cases "p = q")
      case True
      then have "L = S" using that(2) by (simp add: found_again_def S_def)
      then show ?thesis using True S len by simp
    next
      case False
      have L: "L \<le> p" using that(2) max_suffix_len_le [of pat ?m p] by (simp add: found_again_def)
      have "e ! (?m - 1 - L) \<le> int ?m - 1 - int p + int L" using low that False by simp
      moreover have "?m - 1 - L = ?m - 1 - S \<longleftrightarrow> L = S" using L S that(1) by auto
      ultimately show ?thesis using that(1) False len S by (auto simp: nth_list_update)
    qed
    ultimately show ?thesis unfolding turn using True by auto
  qed
qed

lemma delta2_table:
  assumes "pat \<noteq> []"
  shows "table_ok pat {0 ..< length pat} (bm_make_delta2 pat)"
    "p < length pat - 1 \<Longrightarrow> found_again pat p L \<Longrightarrow>
     bm_make_delta2 pat ! (length pat - 1 - L) \<le> int (length pat) - 1 - int p + int L"
proof -
  have "table_ok pat {0 ..< length pat}
      (snd (fold (prefix_turn pat) (rev [0 ..< length pat]) (length pat - 1, replicate (length pat) 0)))"
    using prefix_turns [of 0 pat] by (auto split: prod.splits)
  from suffix_turns [OF order.refl this]
  show "table_ok pat {0 ..< length pat} (bm_make_delta2 pat)"
    "p < length pat - 1 \<Longrightarrow> found_again pat p L \<Longrightarrow>
     bm_make_delta2 pat ! (length pat - 1 - L) \<le> int (length pat) - 1 - int p + int L"
    by (simp_all add: bm_make_delta2_def Let_def)
qed

section \<open>The shifts skip nothing\<close>

definition occurs_at :: "string \<Rightarrow> string \<Rightarrow> nat \<Rightarrow> bool" where
  "occurs_at str pat a \<longleftrightarrow> take (length pat) (drop a str) = pat"

lemma occurs_at_nth:
  "occurs_at str pat a \<longleftrightarrow> (pat = [] \<or> a + length pat \<le> length str) \<and> (\<forall>k < length pat. str ! (a + k) = pat ! k)"
proof
  assume h: "occurs_at str pat a"
  then have "length (take (length pat) (drop a str)) = length pat" by (simp add: occurs_at_def)
  then have "min (length str - a) (length pat) = length pat" by simp
  moreover have "pat = [] \<or> 0 < length pat" by simp
  ultimately have len: "pat = [] \<or> a + length pat \<le> length str" by linarith
  have "str ! (a + k) = pat ! k" if "k < length pat" for k
  proof -
    have "take (length pat) (drop a str) ! k = str ! (a + k)" using that len by auto
    then show ?thesis using h by (simp add: occurs_at_def)
  qed
  with len show "(pat = [] \<or> a + length pat \<le> length str) \<and> (\<forall>k < length pat. str ! (a + k) = pat ! k)" by blast
next
  assume h: "(pat = [] \<or> a + length pat \<le> length str) \<and> (\<forall>k < length pat. str ! (a + k) = pat ! k)"
  show "occurs_at str pat a"
    unfolding occurs_at_def
  proof (rule nth_equalityI)
    show "length (take (length pat) (drop a str)) = length pat" using h by auto
    fix k assume "k < length (take (length pat) (drop a str))"
    then show "take (length pat) (drop a str) ! k = pat ! k" using h by auto
  qed
qed

definition first_occurrence :: "string \<Rightarrow> string \<Rightarrow> int option" where
  "first_occurrence str pat = map_option int (find (occurs_at str pat) [0 ..< length str])"

text \<open>No proper suffix of the pattern is also the beginning of it.\<close>

definition border_free :: "string \<Rightarrow> bool" where
  "border_free pat \<longleftrightarrow> list_all (\<lambda>s. drop s pat \<noteq> take (length pat - s) pat) [1 ..< length pat]"

lemma go_back_spec:
  "go_back str pat i j = (i', j') \<Longrightarrow> - 1 \<le> j \<Longrightarrow>
   i - i' = j - j' \<and> - 1 \<le> j' \<and> j' \<le> j \<and> (0 \<le> j' \<longrightarrow> str ! nat i' \<noteq> pat ! nat j') \<and>
   (\<forall>k. j' < k \<longrightarrow> k \<le> j \<longrightarrow> str ! nat (i - j + k) = pat ! nat k)"
proof (induction str pat i j rule: go_back.induct)
  case (1 str pat i j)
  show ?case
  proof (cases "j \<ge> 0 \<and> str ! nat i = pat ! nat j")
    case True
    then have "go_back str pat (i - 1) (j - 1) = (i', j')" using "1.prems" go_back.simps [of str pat i j] by simp
    with "1.IH" [OF True] True have h: "i - i' = j - j'" "- 1 \<le> j'" "j' \<le> j - 1" "0 \<le> j' \<longrightarrow> str ! nat i' \<noteq> pat ! nat j'"
      "\<forall>k. j' < k \<longrightarrow> k \<le> j - 1 \<longrightarrow> str ! nat (i - j + k) = pat ! nat k"
      by auto
    have "str ! nat (i - j + k) = pat ! nat k" if "j' < k" "k \<le> j" for k
      using h(5) True that by (cases "k = j") auto
    with h show ?thesis by auto
  next
    case False
    then have "i' = i" "j' = j" using "1.prems" go_back.simps [of str pat i j] by auto
    then show ?thesis using False "1.prems" by auto
  qed
qed

text \<open>An occurrence the window has not reached yet is at least as far away as either table says.\<close>

lemma shift_safe:
  assumes "border_free pat" "j < length pat" "str ! (a + j) \<noteq> pat ! j"
    "\<forall>k. j < k \<longrightarrow> k < length pat \<longrightarrow> str ! (a + k) = pat ! k" "occurs_at str pat (a + s)"
  shows "bm_make_delta1 pat (str ! (a + j)) - int (length pat - 1 - j) \<le> int s"
    "bm_make_delta2 pat ! j - int (length pat - 1 - j) \<le> int s"
proof -
  let ?m = "length pat"
  have ne: "pat \<noteq> []" using assms(2) by auto
  have occ: "str ! (a + s + k) = pat ! k" if "k < ?m" for k
    using assms(5) that by (auto simp: occurs_at_nth add.assoc)
  have s0: "0 < s" using occ [OF assms(2)] assms(3) by (cases s) auto
  have again: "pat ! (k - s) = pat ! k" if "j < k" "k < ?m" "s \<le> k" for k
    using occ [of "k - s"] assms(4) that by auto
  show "bm_make_delta1 pat (str ! (a + j)) - int (?m - 1 - j) \<le> int s"
  proof (cases "s \<le> j")
    case True
    then have "str ! (a + j) = pat ! (j - s)" using occ [of "j - s"] assms(2) by simp
    moreover have "j - s < ?m - 1" using True s0 assms(2) by linarith
    ultimately show ?thesis using delta1_bounds(1) [of "j - s" pat] True assms(2) by (simp add: of_nat_diff)
  next
    case False
    then show ?thesis using delta1_bounds(2) [of pat "str ! (a + j)"] assms(2) by (simp add: of_nat_diff)
  qed
  have ok: "bm_make_delta2 pat ! j \<le> 2 * int ?m - 1 - int j"
    using delta2_table(1) [OF ne] assms(2) by (simp add: table_ok_def)
  show "bm_make_delta2 pat ! j - int (?m - 1 - j) \<le> int s"
  proof (cases "s \<le> j")
    case True
    define L where "L = ?m - 1 - j"
    define p where "p = ?m - 1 - s"
    have Lp: "L \<le> p" "p < ?m - 1" using True s0 assms(2) by (simp_all add: L_def p_def)
    have eq: "pat ! (p - t) = pat ! (?m - 1 - t)" if "t < L" for t
    proof -
      have "p - t = (?m - 1 - t) - s" "j < ?m - 1 - t" "s \<le> ?m - 1 - t" using that True by (auto simp: L_def p_def)
      then show ?thesis using again [of "?m - 1 - t"] assms(2) by simp
    qed
    have "p - L = j - s" "?m - 1 - L = j" using True assms(2) by (auto simp: L_def p_def)
    moreover have "pat ! (j - s) \<noteq> pat ! j" using occ [of "j - s"] True assms(2,3) by auto
    ultimately have "found_again pat p L"
      using max_suffix_len_eq [OF Lp(1), of pat ?m] eq by (simp add: found_again_def)
    from delta2_table(2) [OF ne Lp(2) this] show ?thesis
      using True assms(2) by (simp add: L_def p_def of_nat_diff)
  next
    case False
    have "?m \<le> s"
    proof (rule ccontr)
      assume "\<not> ?m \<le> s"
      then have "drop s pat \<noteq> take (?m - s) pat" using assms(1) s0 by (simp add: border_free_def list_all_iff)
      moreover have "drop s pat = take (?m - s) pat"
      proof (rule nth_equalityI)
        fix k assume "k < length (drop s pat)"
        then show "drop s pat ! k = take (?m - s) pat ! k"
          using again [of "s + k"] False by (simp add: add.commute)
      qed simp
      ultimately show False by contradiction
    qed
    then show ?thesis using ok assms(2) by (simp add: of_nat_diff)
  qed
qed

lemma find_first:
  assumes "P a" "\<forall>b<a. \<not> P b" "a < n"
  shows "find P [0 ..< n] = Some a"
  using assms by (auto simp: find_Some_iff intro!: exI [of _ a])

lemma bm_loop_finds:
  assumes "pat \<noteq> []" "border_free pat" "\<forall>b<a. \<not> occurs_at str pat b"
  shows "bm_loop str pat (bm_make_delta1 pat) (bm_make_delta2 pat) (int a + int (length pat) - 1) =
    Some (first_occurrence str pat)"
  using assms(3)
proof (induction "length str + length pat - a" arbitrary: a rule: less_induct)
  case less
  let ?m = "length pat" and ?n = "length str"
  define i where "i = int a + int ?m - 1"
  have m: "0 < ?m" using assms(1) by simp
  show ?case
  proof (cases "i < int ?n")
    case False
    then have "\<not> occurs_at str pat b" for b
      using less.prems m assms(1) by (cases "b < a") (auto simp: occurs_at_nth i_def)
    then have "find (occurs_at str pat) [0 ..< ?n] = None" by (simp add: find_None_iff)
    then show ?thesis using False by (simp add: bm_loop.simps i_def first_occurrence_def)
  next
    case True
    obtain i' j where g: "go_back str pat i (int ?m - 1) = (i', j)" by force
    from go_back_spec [OF this] have sp: "i - i' = int ?m - 1 - j" "- 1 \<le> j" "j \<le> int ?m - 1"
      "0 \<le> j \<Longrightarrow> str ! nat i' \<noteq> pat ! nat j"
      "\<forall>k. j < k \<longrightarrow> k \<le> int ?m - 1 \<longrightarrow> str ! nat (int a + k) = pat ! nat k" by (auto simp: i_def)
    show ?thesis
    proof (cases "j < 0")
      case True
      have "str ! (a + k) = pat ! k" if "k < ?m" for k
        using sp(2,5) True that by (auto dest: spec [of _ "int k"] simp: nat_int_add)
      then have "occurs_at str pat a" using \<open>i < int ?n\<close> by (auto simp: occurs_at_nth i_def)
      moreover have "a < ?n" using \<open>i < int ?n\<close> m unfolding i_def by linarith
      ultimately have "first_occurrence str pat = Some (int a)"
        using find_first [of "occurs_at str pat" a ?n] less.prems by (simp add: first_occurrence_def)
      moreover have "i' + 1 = int a" using sp(1,2) True by (simp add: i_def)
      ultimately show ?thesis using \<open>i < int ?n\<close> g True by (simp add: bm_loop.simps flip: i_def)
    next
      case False
      define q where "q = nat j"
      have q: "j = int q" "q < ?m" "i' = int (a + q)" using False sp(1,3) by (auto simp: q_def i_def)
      have mis: "str ! (a + q) \<noteq> pat ! q" using sp(4) q by (simp add: nat_int_add)
      have suf: "\<forall>k. q < k \<longrightarrow> k < ?m \<longrightarrow> str ! (a + k) = pat ! k"
      proof (intro allI impI)
        fix k assume "q < k" "k < ?m"
        then show "str ! (a + k) = pat ! k" using spec [OF sp(5), of "int k"] q(1) by (simp add: nat_int_add)
      qed
      define sh where "sh = max (bm_make_delta1 pat (str ! (a + q))) (bm_make_delta2 pat ! q)"
      define b where "b = nat (sh - int (?m - 1 - q)) + a"
      have "int ?m - int q \<le> bm_make_delta2 pat ! q"
        using delta2_table(1) [OF assms(1)] q(2) by (simp add: table_ok_def)
      then have pos: "sh - int (?m - 1 - q) \<ge> 1" using q(2) by (simp add: sh_def of_nat_diff)
      have "\<not> occurs_at str pat c" if "c < b" for c
      proof
        assume o: "occurs_at str pat c"
        then have "a \<le> c" using less.prems by (meson not_le)
        then obtain t where t: "c = a + t" using le_iff_add by blast
        from shift_safe [OF assms(2) q(2) mis suf, of t] o t have "sh - int (?m - 1 - q) \<le> int t"
          by (simp add: sh_def)
        then show False using that t pos by (simp add: b_def)
      qed
      moreover have far: "?n + ?m - b < ?n + ?m - a"
      proof -
        have "a < b" using pos by (simp add: b_def)
        moreover have "a < ?n + ?m" using \<open>i < int ?n\<close> m unfolding i_def by linarith
        ultimately show ?thesis by linarith
      qed
      ultimately have "bm_loop str pat (bm_make_delta1 pat) (bm_make_delta2 pat) (int b + int ?m - 1) =
          Some (first_occurrence str pat)"
        using less.hyps [of b] far by blast
      moreover have "int b + int ?m - 1 = i' + sh"
        using pos q by (simp add: b_def of_nat_diff)
      moreover have "nat i' = a + q" "nat j = q" using q by (simp_all add: nat_int_add)
      ultimately show ?thesis
        using \<open>i < int ?n\<close> g False by (simp add: bm_loop.simps sh_def flip: i_def)
    qed
  qed
qed

lemma bm_search_first:
  "pat \<noteq> [] \<Longrightarrow> border_free pat \<Longrightarrow> bm_search str pat = Some (first_occurrence str pat)"
  using bm_loop_finds [of pat 0 str] by (simp add: bm_search_def Let_def)

text \<open>C21: For a pattern that is not empty and none of whose proper suffixes is also its beginning the
  search returns, and returns what the simple search does: the offset of the first occurrence, or
  that there is none. The offsets are those of a text shorter than two gigabytes.\<close>

theorem bm_search_first_occurrence:
  assumes "pat \<noteq> []" "border_free pat"
  shows "bm_search str pat = Some (first_occurrence str pat)"
  using assms by (rule bm_search_first)

lemma bm_search_first_occurrence_witness:
  "bm_search ''xxabab'' ''ab'' = Some (Some 2)"
proof -
  have "border_free ''ab''" "first_occurrence ''xxabab'' ''ab'' = Some 2" by code_simp+
  with bm_search_first_occurrence [of "''ab''" "''xxabab''"] show ?thesis by simp
qed

text \<open>With a border the entries for a mismatch in front of it are one too large: the comparison for
  the table of prefixes begins at the character of the mismatch in place of the one behind it.\<close>

lemma bm_search_misses_with_border:
  "bm_search ''?xaba'' ''aba'' = Some None" "first_occurrence ''?xaba'' ''aba'' = Some 2"
  by code_simp+

section \<open>The command\<close>

definition TZ_VER_STR :: string where "TZ_VER_STR = ''QC_IMAGE_VERSION_STRING=''"
definition TZ_VER_BUF_LEN :: nat where "TZ_VER_BUF_LEN = 255"
definition ENOENT :: int where "ENOENT = 2"

text \<open>The partition: the error of \<open>open\<close> or of \<open>mmap\<close>, or the bytes that are mapped and what is
  behind them in memory.\<close>

datatype tz_part = OpenFails int | MmapFails int | Mapped string string

text \<open>\<open>strncpy\<close>: up to the NUL, filled up with NULs, and without one when the source is too long.\<close>

definition strncpy :: "nat \<Rightarrow> string \<Rightarrow> string" where
  "strncpy n s = take n (cstr s @ replicate n (CHR 0x00))"

text \<open>The buffer of the version stays as it is when the function fails; \<open>None\<close>: it does not return.\<close>

definition get_tz_version :: "tz_part \<Rightarrow> string \<Rightarrow> (int \<times> string) option" where
  "get_tz_version part ver_str =
     (case part of
        OpenFails errno \<Rightarrow> Some (errno, ver_str)
      | MmapFails errno \<Rightarrow> Some (errno, ver_str)
      | Mapped tz_data behind \<Rightarrow>
          (case bm_search tz_data TZ_VER_STR of
             None \<Rightarrow> None
           | Some (Some offset) \<Rightarrow>
               Some (0, strncpy TZ_VER_BUF_LEN (drop (nat offset + length TZ_VER_STR) tz_data @ behind))
           | Some None \<Rightarrow> Some (- ENOENT, ver_str)))"

text \<open>\<open>Undefined\<close>: a pointer is used that was never set, or was never passed.\<close>

datatype fn_result = ErrorAbort string int | StringValue string | Undefined

text \<open>\<open>ReadArgs\<close> of the updater is not part of the repository: for each count it gives its result and
  the strings it stores, each through a pointer of its own. The command passes one pointer, to
  \<open>tz_version\<close>, whatever the count. The version is compared in the buffer and what follows it on
  the stack.\<close>

fun compare_args :: "(nat \<Rightarrow> int \<times> string list) \<Rightarrow> string \<Rightarrow> string option \<Rightarrow> nat list \<Rightarrow> fn_result" where
  "compare_args ReadArgs current tz_version [] = StringValue ''0''"
| "compare_args ReadArgs current tz_version (i # is) =
     (case ReadArgs i of (ret, stored) \<Rightarrow>
        if length stored > 1 then Undefined
        else if ret < 0 then ErrorAbort ''kArgsParsingFailure'' ret
        else (let tz_version = (if stored = [] then tz_version else Some (hd stored))
              in case tz_version of
                   None \<Rightarrow> Undefined
                 | Some v \<Rightarrow>
                     if strncmp_zero (length (cstr v)) v current then StringValue ''1''
                     else compare_args ReadArgs current tz_version is))"

definition VerifyTrustZoneFn ::
  "tz_part \<Rightarrow> string \<Rightarrow> string \<Rightarrow> (nat \<Rightarrow> int \<times> string list) \<Rightarrow> nat \<Rightarrow> fn_result option" where
  "VerifyTrustZoneFn part buffer stack ReadArgs argc =
     do {
       (ret, current_tz_version) \<leftarrow> get_tz_version part buffer;
       Some (if ret \<noteq> 0 then ErrorAbort ''kVendorFailure'' ret
             else compare_args ReadArgs (current_tz_version @ stack) None [1 ..< argc + 1])
     }"

text \<open>What the updater documents of \<open>ReadArgs\<close>: it evaluates the first arguments, as many as the count
  says, and stores each string through its pointer; when one cannot be evaluated (\<open>None\<close>) it stops
  there and returns -1.\<close>

definition reads_args :: "(nat \<Rightarrow> int \<times> string list) \<Rightarrow> string option list \<Rightarrow> bool" where
  "reads_args ReadArgs vals \<longleftrightarrow>
     (\<forall>i \<in> {1 .. length vals}. ReadArgs i =
        (if None \<in> set (take i vals) then -1 else 0, map the (takeWhile (\<lambda>v. v \<noteq> None) (take i vals))))"

lemma TZ_VER_STR_facts: "TZ_VER_STR \<noteq> []" "border_free TZ_VER_STR"
  by (simp add: TZ_VER_STR_def) code_simp

text \<open>A comparison with a string that ends in a NUL ends there, whatever is behind.\<close>

lemma strncmp_zero_prefix:
  "CHR 0x00 \<notin> set p \<Longrightarrow> strncmp_zero (length p) (p @ x) (v @ CHR 0x00 # z) \<longleftrightarrow> prefix p v"
proof (induction p arbitrary: v)
  case (Cons c p)
  then show ?case by (cases v) auto
qed simp

lemma cstr_split: "\<exists>x. s = cstr s @ x" "CHR 0x00 \<notin> set (cstr s)"
proof -
  have "s = cstr s @ dropWhile (\<lambda>c. c \<noteq> CHR 0x00) s" unfolding cstr_def by simp
  then show "\<exists>x. s = cstr s @ x" by blast
  show "CHR 0x00 \<notin> set (cstr s)" unfolding cstr_def using set_takeWhileD by fastforce
qed

lemma strncpy_short:
  "length (cstr s) < n \<Longrightarrow> strncpy n s = cstr s @ CHR 0x00 # replicate (n - 1 - length (cstr s)) (CHR 0x00)"
  by (cases n) (auto simp: strncpy_def min_def Suc_diff_le simp flip: replicate_Suc)

lemma version_read:
  assumes "first_occurrence tz TZ_VER_STR = Some off" "version = cstr (drop (nat off + length TZ_VER_STR) tz @ behind)"
    "length version < TZ_VER_BUF_LEN"
  shows "\<exists>z. get_tz_version (Mapped tz behind) buffer = Some (0, version @ CHR 0x00 # z)"
  using bm_search_first [OF TZ_VER_STR_facts, of tz] assms(1) strncpy_short [OF assms(3)[unfolded assms(2)]]
  by (simp add: get_tz_version_def assms(2))

lemma argument_matches: "strncmp_zero (length (cstr v)) v (version @ CHR 0x00 # z) \<longleftrightarrow> prefix (cstr v) version"
  using strncmp_zero_prefix [OF cstr_split(2) [of v]] cstr_split(1) [of v] by metis

text \<open>What the command answers for arguments with these values.\<close>

definition verdict :: "string \<Rightarrow> string option list \<Rightarrow> fn_result" where
  "verdict version vals = (case vals of
     [] \<Rightarrow> StringValue ''0''
   | None # _ \<Rightarrow> ErrorAbort ''kArgsParsingFailure'' (-1)
   | Some v # rest \<Rightarrow>
       if prefix (cstr v) version then StringValue ''1''
       else (case rest of
               [] \<Rightarrow> StringValue ''0''
             | None # _ \<Rightarrow> ErrorAbort ''kArgsParsingFailure'' (-1)
             | Some _ # _ \<Rightarrow> Undefined))"

text \<open>C39: On a partition that holds the marker, with a version of at most 254 characters behind its
  first occurrence, the command answers 1 when its first argument is a beginning of that version,
  and 0 when it has no argument, or a single one that is no such beginning. When the first, or after a first
  that does not match the second, cannot be evaluated, it is an error. A second argument is never
  compared: when there is one to be read, \<open>ReadArgs\<close> stores it through a pointer that was not passed.
  This holds for any \<open>ReadArgs\<close> that does what the updater documents.\<close>

theorem trustzone_verified_iff:
  assumes "first_occurrence tz TZ_VER_STR = Some off" "version = cstr (drop (nat off + length TZ_VER_STR) tz @ behind)"
    "length version < TZ_VER_BUF_LEN" "reads_args ReadArgs vals"
  shows "VerifyTrustZoneFn (Mapped tz behind) buffer stack ReadArgs (length vals) = Some (verdict version vals)"
proof -
  obtain z where g: "get_tz_version (Mapped tz behind) buffer = Some (0, version @ CHR 0x00 # z)"
    using version_read [OF assms(1-3)] by blast
  have r: "ReadArgs i = (if None \<in> set (take i vals) then -1 else 0, map the (takeWhile (\<lambda>v. v \<noteq> None) (take i vals)))"
    if "1 \<le> i" "i \<le> length vals" for i
    using assms(4) that by (simp add: reads_args_def)
  have "compare_args ReadArgs (version @ CHR 0x00 # z @ stack) None [1 ..< length vals + 1] = verdict version vals"
  proof (cases vals)
    case Nil
    then show ?thesis by (simp add: verdict_def)
  next
    case (Cons a rest)
    have one: "[1 ..< length vals + 1] = 1 # [2 ..< length vals + 1]" using Cons upt_conv_Cons [of 1 "length vals + 1"] by (simp add: numeral_2_eq_2)
    note r1 = r [of 1]
    show ?thesis
    proof (cases rest)
      case Nil
      then show ?thesis using Cons one r1
        by (cases a) (simp_all add: verdict_def argument_matches Let_def)
    next
      case (Cons b rest')
      have two: "[2 ..< length vals + 1] = 2 # [3 ..< length vals + 1]"
        using \<open>vals = a # rest\<close> Cons upt_conv_Cons [of 2 "length vals + 1"] by (simp add: numeral_3_eq_3 numeral_2_eq_2)
      show ?thesis using \<open>vals = a # rest\<close> Cons one two r1 r [of 2]
        by (cases a; cases b) (simp_all add: verdict_def argument_matches Let_def numeral_2_eq_2)
    qed
  qed
  then show ?thesis using g by (simp add: VerifyTrustZoneFn_def)
qed

definition demo_tz :: string where
  "demo_tz = ''junkQC_IMAGE_VERSION_STRING=TZ.BF.3.0'' @ [CHR 0x00, CHR ''z'']"

definition stored_args :: "string option list \<Rightarrow> nat \<Rightarrow> int \<times> string list" where
  "stored_args vals i =
     (if None \<in> set (take i vals) then -1 else 0, map the (takeWhile (\<lambda>v. v \<noteq> None) (take i vals)))"

lemma stored_args_reads: "reads_args (stored_args vals) vals"
  by (simp add: reads_args_def stored_args_def)

lemma trustzone_verified_iff_witness:
  "VerifyTrustZoneFn (Mapped demo_tz []) [] [] (stored_args [Some ''TZ.BF.3'', None]) 2 = Some (StringValue ''1'') \<and>
   VerifyTrustZoneFn (Mapped demo_tz []) [] [] (stored_args [Some ''TZ.BF.2'']) 1 = Some (StringValue ''0'') \<and>
   VerifyTrustZoneFn (Mapped demo_tz []) [] [] (stored_args [Some ''TZ.BF.2'', Some ''TZ.BF.3'']) 2 = Some Undefined"
proof -
  have m: "first_occurrence demo_tz TZ_VER_STR = Some 4" by code_simp
  have v: "''TZ.BF.3.0'' = cstr (drop (nat 4 + length TZ_VER_STR) demo_tz @ [])" by code_simp
  have l: "length ''TZ.BF.3.0'' < TZ_VER_BUF_LEN" by (simp add: TZ_VER_BUF_LEN_def)
  note t = trustzone_verified_iff [OF m v l stored_args_reads, of "[]" "[]"]
  show ?thesis
    using t [of "[Some ''TZ.BF.3'', None]"] t [of "[Some ''TZ.BF.2'']"] t [of "[Some ''TZ.BF.2'', Some ''TZ.BF.3'']"]
    by (simp add: verdict_def cstr_def numeral_2_eq_2)
qed

text \<open>An argument of no characters is a beginning of every version.\<close>

lemma empty_version_verifies:
  "VerifyTrustZoneFn (Mapped demo_tz []) [] [] (\<lambda>i. (0, [[]])) 1 = Some (StringValue ''1'')"
  by code_simp

end
