(* ===== verification/Lights.thy ===== *)
theory Lights
  imports Prelude "HOL-Library.Signed_Division"
begin

text \<open>
  The lights of the phone, \<open>src/liblight/lights.c\<close>: the two light states the module keeps, and the
  values it writes to the files of the LEDs. A write that fails changes nothing but the result.
\<close>

unbundle bit_operations_syntax

section \<open>States\<close>

datatype flash_mode = LIGHT_FLASH_NONE | LIGHT_FLASH_TIMED | LIGHT_FLASH_HARDWARE

record light_state =
  color :: uint32
  flashMode :: flash_mode
  flashOnMS :: int
  flashOffMS :: int

datatype led_file = LCD_FILE | GREEN_LED_FILE | RED_LED_FILE | GREEN_PWM_FILE | RED_PWM_FILE

text \<open>\<open>g_lights\<close> without the entry of the battery, which is never used, and the values written.\<close>

record lights =
  g_attention :: light_state
  g_notification :: light_state
  writes :: "(led_file \<times> int) list"

definition dark :: light_state where
  "dark = \<lparr>color = 0, flashMode = LIGHT_FLASH_NONE, flashOnMS = 0, flashOffMS = 0\<rparr>"

definition init_lights :: lights where
  "init_lights = \<lparr>g_attention = dark, g_notification = dark, writes = []\<rparr>"

text \<open>\<open>errno\<close> gives for each file the error of opening or writing it, or 0.\<close>

definition write_int :: "(led_file \<Rightarrow> int) \<Rightarrow> led_file \<Rightarrow> int \<Rightarrow> lights \<Rightarrow> int \<times> lights" where
  "write_int errno path value l =
     (if errno path \<noteq> 0 then (- errno path, l) else (0, l\<lparr>writes := writes l @ [(path, value)]\<rparr>))"

section \<open>Colours\<close>

definition is_lit :: "light_state \<Rightarrow> bool" where
  "is_lit s \<longleftrightarrow> color s AND 0x00ffffff \<noteq> 0"

definition rgb_to_brightness :: "light_state \<Rightarrow> int" where
  "rgb_to_brightness s =
     (let color = sint (color s AND 0x00ffffff)
      in drop_bit 8 (77 * (drop_bit 16 color AND 0x00ff) + 150 * (drop_bit 8 color AND 0x00ff) + 29 * (color AND 0x00ff)))"

definition LED_LIGHT_OFF :: int where "LED_LIGHT_OFF = 0"
definition LED_LIGHT_ON :: int where "LED_LIGHT_ON = 255"

text \<open>An \<open>int\<close> that overflows wraps.\<close>

definition wrap32 :: "int \<Rightarrow> int" where
  "wrap32 i = sint (word_of_int i :: 32 word)"

definition alpha :: "light_state \<Rightarrow> int" where
  "alpha s = uint (drop_bit 24 (color s AND 0xff000000))"

lemma wrap32_fits: "- (2 ^ 31) \<le> i \<Longrightarrow> i < 2 ^ 31 \<Longrightarrow> wrap32 i = i"
  unfolding wrap32_def by (rule sint32_of_int)

section \<open>The module\<close>

definition set_light_backlight :: "(led_file \<Rightarrow> int) \<Rightarrow> light_state \<Rightarrow> lights \<Rightarrow> int \<times> lights" where
  "set_light_backlight errno state l = write_int errno LCD_FILE (rgb_to_brightness state) l"

text \<open>What \<open>set_light_locked\<close> works out first: whether to blink, with which brightness and pause, and
  the brightness of a steady light.\<close>

definition blink_of :: "light_state \<Rightarrow> (int \<times> int) option" where
  "blink_of state =
     (let onMS = (if flashMode state = LIGHT_FLASH_NONE then 0 else flashOnMS state);
          offMS = (if flashMode state = LIGHT_FLASH_NONE then 0 else flashOffMS state)
      in if onMS > 0 \<and> offMS > 0 then
           let totalMS = wrap32 (onMS + offMS);
               fake_pwm = wrap32 (onMS * 255) sdiv totalMS;
               fake_pwm = (if fake_pwm > 0 \<and> fake_pwm < 16 then 16 else fake_pwm)
           in Some (fake_pwm, wrap32 (offMS * 1000))
         else None)"

definition brightness_level :: "light_state \<Rightarrow> int" where
  "brightness_level state =
     (if is_lit state then (if color state AND 0xff000000 \<noteq> 0 then alpha state else LED_LIGHT_ON)
      else LED_LIGHT_OFF)"

definition set_light_locked :: "(led_file \<Rightarrow> int) \<Rightarrow> light_state \<Rightarrow> lights \<Rightarrow> int \<times> lights" where
  "set_light_locked errno state l =
     (let l = snd (write_int errno GREEN_LED_FILE LED_LIGHT_OFF l);
          l = snd (write_int errno RED_LED_FILE LED_LIGHT_OFF l);
          l = (case blink_of state of
                 Some (fake_pwm, pwm) \<Rightarrow>
                   snd (write_int errno GREEN_PWM_FILE pwm (snd (write_int errno GREEN_LED_FILE fake_pwm l)))
               | None \<Rightarrow>
                   snd (write_int errno GREEN_PWM_FILE 100 (snd (write_int errno GREEN_LED_FILE (brightness_level state) l))))
      in (0, l))"

definition handle_led_prioritized_locked :: "(led_file \<Rightarrow> int) \<Rightarrow> light_state \<Rightarrow> lights \<Rightarrow> int \<times> lights" where
  "handle_led_prioritized_locked errno state l =
     (if is_lit (g_attention l) then set_light_locked errno (g_attention l) l
      else if is_lit (g_notification l) then set_light_locked errno (g_notification l) l
      else set_light_locked errno state l)"

definition set_light_notifications :: "(led_file \<Rightarrow> int) \<Rightarrow> light_state \<Rightarrow> lights \<Rightarrow> int \<times> lights" where
  "set_light_notifications errno state l =
     handle_led_prioritized_locked errno state (l\<lparr>g_notification := state\<rparr>)"

definition set_light_attention :: "(led_file \<Rightarrow> int) \<Rightarrow> light_state \<Rightarrow> lights \<Rightarrow> int \<times> lights" where
  "set_light_attention errno state l =
     handle_led_prioritized_locked errno state (l\<lparr>g_attention := state\<rparr>)"

definition set_light_battery :: "(led_file \<Rightarrow> int) \<Rightarrow> bool \<Rightarrow> light_state \<Rightarrow> lights \<Rightarrow> int \<times> lights" where
  "set_light_battery errno dev state l =
     (if \<not> dev then (-1, l)
      else
        let level = alpha state;
            level = (if level < 0 then 0 else if level > 100 then 100 else level);
            l = snd (write_int errno GREEN_LED_FILE LED_LIGHT_OFF l);
            l = snd (write_int errno RED_LED_FILE LED_LIGHT_OFF l);
            green = (\<lambda>l. snd (write_int errno GREEN_PWM_FILE 100 (snd (write_int errno GREEN_LED_FILE 255 l))));
            red = (\<lambda>l. snd (write_int errno RED_PWM_FILE 100 (snd (write_int errno RED_LED_FILE 255 l))))
        in (0, if is_lit state then (if level \<le> 15 then red l else if level \<le> 99 then red (green l) else green l) else l))"

text \<open>\<open>open_lights\<close> chooses the function by the name; the names are the framework's.\<close>

datatype light_id = LIGHT_ID_BACKLIGHT | LIGHT_ID_NOTIFICATIONS | LIGHT_ID_ATTENTION | LIGHT_ID_BATTERY

definition EINVAL :: int where "EINVAL = 22"

definition open_lights :: "(light_id \<Rightarrow> string) \<Rightarrow> string \<Rightarrow> int + light_id" where
  "open_lights names name =
     (if name = names LIGHT_ID_BACKLIGHT then Inr LIGHT_ID_BACKLIGHT
      else if name = names LIGHT_ID_NOTIFICATIONS then Inr LIGHT_ID_NOTIFICATIONS
      else if name = names LIGHT_ID_ATTENTION then Inr LIGHT_ID_ATTENTION
      else if name = names LIGHT_ID_BATTERY then Inr LIGHT_ID_BATTERY
      else Inl (- EINVAL))"

fun set_light :: "(led_file \<Rightarrow> int) \<Rightarrow> light_id \<Rightarrow> light_state \<Rightarrow> lights \<Rightarrow> int \<times> lights" where
  "set_light errno LIGHT_ID_BACKLIGHT s l = set_light_backlight errno s l"
| "set_light errno LIGHT_ID_NOTIFICATIONS s l = set_light_notifications errno s l"
| "set_light errno LIGHT_ID_ATTENTION s l = set_light_attention errno s l"
| "set_light errno LIGHT_ID_BATTERY s l = set_light_battery errno True s l"

section \<open>Brightness\<close>

lemma byte_of_bound: "0 \<le> (k :: int) AND 255" "(k :: int) AND 255 \<le> 255"
proof -
  have "k AND 255 = take_bit 8 k" by (simp add: take_bit_eq_mask mask_eq_exp_minus_1)
  moreover have "take_bit 8 k < 2 ^ 8" by (rule take_bit_int_less_exp)
  ultimately show "0 \<le> k AND 255" "k AND 255 \<le> 255" by simp_all
qed

text \<open>The brightness of the display is a byte for every colour the framework can pass, and full
  white is the full brightness.\<close>

theorem backlight_in_range:
  "0 \<le> rgb_to_brightness s \<and> rgb_to_brightness s \<le> 255 \<and>
   rgb_to_brightness (s\<lparr>color := color s OR 0x00ffffff\<rparr>) = 255"
proof -
  define c where "c = sint (color s AND 0x00ffffff)"
  define x where "x = 77 * (drop_bit 16 c AND 0x00ff) + 150 * (drop_bit 8 c AND 0x00ff) + 29 * (c AND 0x00ff)"
  have "0 \<le> x" "x \<le> 65280"
    unfolding x_def
    using byte_of_bound [of "drop_bit 16 c"] byte_of_bound [of "drop_bit 8 c"] byte_of_bound [of c] by linarith+
  moreover have "rgb_to_brightness s = x div 256"
    by (simp add: rgb_to_brightness_def Let_def x_def c_def drop_bit_eq_div)
  moreover have "(color s OR 0x00ffffff) AND 0x00ffffff = 0x00ffffff"
    by (rule bit_eqI) (auto simp: bit_simps)
  then have w: "color (s\<lparr>color := color s OR 0x00ffffff\<rparr>) AND 0x00ffffff = 0x00ffffff" by simp
  have "rgb_to_brightness (s\<lparr>color := color s OR 0x00ffffff\<rparr>) = 255"
    unfolding rgb_to_brightness_def Let_def w by code_simp
  ultimately show ?thesis by auto
qed

section \<open>Which light is shown\<close>

text \<open>The value a file holds, and the state set last for a light.\<close>

fun held :: "led_file \<Rightarrow> (led_file \<times> int) list \<Rightarrow> int option" where
  "held f [] = None"
| "held f ((g, v) # ws) = (case held f ws of Some u \<Rightarrow> Some u | None \<Rightarrow> if f = g then Some v else None)"

definition lights_run :: "(led_file \<Rightarrow> int) \<Rightarrow> (light_id \<times> light_state) list \<Rightarrow> lights \<Rightarrow> lights" where
  "lights_run errno ops l = fold (\<lambda>(i, s) l. snd (set_light errno i s l)) ops l"

fun last_state :: "light_id \<Rightarrow> (light_id \<times> light_state) list \<Rightarrow> light_state" where
  "last_state i [] = dark"
| "last_state i (x # ops) =
     (if \<exists>s. (i, s) \<in> set ops then last_state i ops else if fst x = i then snd x else dark)"

definition shown :: "light_state \<Rightarrow> int" where
  "shown s = (case blink_of s of Some (fake_pwm, _) \<Rightarrow> fake_pwm | None \<Rightarrow> brightness_level s)"

lemma held_append: "held f (xs @ ys) = (case held f ys of Some u \<Rightarrow> Some u | None \<Rightarrow> held f xs)"
  by (induction xs rule: held.induct) (auto split: option.splits)

lemma write_simps [simp]:
  "g_attention (snd (write_int errno f v l)) = g_attention l"
  "g_notification (snd (write_int errno f v l)) = g_notification l"
  by (simp_all add: write_int_def)

lemma write_held [simp]:
  "held f (writes (snd (write_int (\<lambda>_. 0) g v l))) = (if f = g then Some v else held f (writes l))"
  by (simp add: write_int_def held_append)

lemma locked_states [simp]:
  "g_attention (snd (set_light_locked errno s l)) = g_attention l"
  "g_notification (snd (set_light_locked errno s l)) = g_notification l"
  by (simp_all add: set_light_locked_def Let_def split: option.splits)

lemma locked_shows:
  "held GREEN_LED_FILE (writes (snd (set_light_locked (\<lambda>_. 0) s l))) = Some (shown s)"
  "held RED_LED_FILE (writes (snd (set_light_locked (\<lambda>_. 0) s l))) = Some 0"
  by (simp_all add: set_light_locked_def Let_def shown_def LED_LIGHT_OFF_def split: option.splits)

lemma set_light_states:
  "g_attention (snd (set_light errno i s l)) = (if i = LIGHT_ID_ATTENTION then s else g_attention l)"
  "g_notification (snd (set_light errno i s l)) = (if i = LIGHT_ID_NOTIFICATIONS then s else g_notification l)"
  by (cases i; simp add: set_light_backlight_def set_light_notifications_def set_light_attention_def
      set_light_battery_def handle_led_prioritized_locked_def Let_def)+

lemma last_state_snoc: "last_state i (ops @ [(k, s)]) = (if k = i then s else last_state i ops)"
  by (induction ops) auto

lemma run_states:
  "g_attention (lights_run errno ops init_lights) = last_state LIGHT_ID_ATTENTION ops \<and>
   g_notification (lights_run errno ops init_lights) = last_state LIGHT_ID_NOTIFICATIONS ops"
proof (induction ops rule: rev_induct)
  case Nil
  then show ?case by (simp add: lights_run_def init_lights_def)
next
  case (snoc x ops)
  obtain i s where x: "x = (i, s)" by force
  have "lights_run errno (ops @ [x]) init_lights = snd (set_light errno i s (lights_run errno ops init_lights))"
    by (simp add: lights_run_def x)
  then show ?case using snoc by (auto simp: set_light_states last_state_snoc x)
qed

text \<open>C31: After any calls of the framework, in any order and for all four lights, a call for the
  attention or the notification light leaves the green LED with the light of the highest
  priority: attention if it is lit, notification otherwise, and dark if neither is; the red LED
  is off. States without colour are taken not to flash, and the files of the LEDs to be writable.\<close>

theorem led_shows_priority:
  assumes "\<forall>(i, s) \<in> set (ops @ [(i, s)]). is_lit s \<or> blink_of s = None"
    "i = LIGHT_ID_ATTENTION \<or> i = LIGHT_ID_NOTIFICATIONS"
  shows "let a = last_state LIGHT_ID_ATTENTION (ops @ [(i, s)]);
             n = last_state LIGHT_ID_NOTIFICATIONS (ops @ [(i, s)]);
             l = lights_run (\<lambda>_. 0) (ops @ [(i, s)]) init_lights
         in held GREEN_LED_FILE (writes l) = Some (if is_lit a then shown a else if is_lit n then shown n else 0) \<and>
            held RED_LED_FILE (writes l) = Some 0"
proof -
  let ?l = "lights_run (\<lambda>_. 0) ops init_lights"
  have run: "lights_run (\<lambda>_. 0) (ops @ [(i, s)]) init_lights = snd (set_light (\<lambda>_. 0) i s ?l)"
    by (simp add: lights_run_def)
  have st: "g_attention ?l = last_state LIGHT_ID_ATTENTION ops" "g_notification ?l = last_state LIGHT_ID_NOTIFICATIONS ops"
    using run_states [of "\<lambda>_. 0" ops] by simp_all
  have dark: "shown s = 0" if "\<not> is_lit s"
    using assms(1) that by (auto simp: shown_def brightness_level_def LED_LIGHT_OFF_def)
  show ?thesis
    using assms(2) dark unfolding run Let_def last_state_snoc
    by (auto simp: set_light_attention_def set_light_notifications_def handle_led_prioritized_locked_def st locked_shows)
qed

lemma led_shows_priority_witness:
  "held GREEN_LED_FILE (writes (lights_run (\<lambda>_. 0) [(LIGHT_ID_ATTENTION, dark\<lparr>color := 0x0500ff00\<rparr>),
      (LIGHT_ID_NOTIFICATIONS, dark\<lparr>color := 0x0900ff00\<rparr>)] init_lights)) = Some 5"
proof -
  have "is_lit (dark\<lparr>color := 0x0500ff00\<rparr>)" "is_lit (dark\<lparr>color := 0x0900ff00\<rparr>)" "shown (dark\<lparr>color := 0x0500ff00\<rparr>) = 5"
    by code_simp+
  then show ?thesis
    using led_shows_priority [of "[(LIGHT_ID_ATTENTION, dark\<lparr>color := 0x0500ff00\<rparr>)]" LIGHT_ID_NOTIFICATIONS
        "dark\<lparr>color := 0x0900ff00\<rparr>"] by (simp add: Let_def)
qed

text \<open>A state without colour that flashes lights the LED.\<close>

lemma dark_flash_lights:
  "\<not> is_lit (dark\<lparr>flashMode := LIGHT_FLASH_TIMED, flashOnMS := 500, flashOffMS := 500\<rparr>) \<and>
   held GREEN_LED_FILE (writes (lights_run (\<lambda>_. 0) [(LIGHT_ID_NOTIFICATIONS,
     dark\<lparr>flashMode := LIGHT_FLASH_TIMED, flashOnMS := 500, flashOffMS := 500\<rparr>)] init_lights)) = Some 127"
  by code_simp

text \<open>The light of the battery is not kept: a notification that ends turns it off.\<close>

lemma battery_light_lost:
  "held RED_LED_FILE (writes (lights_run (\<lambda>_. 0) [(LIGHT_ID_BATTERY, dark\<lparr>color := 0x0aff0000\<rparr>)] init_lights)) = Some 255 \<and>
   held RED_LED_FILE (writes (lights_run (\<lambda>_. 0) [(LIGHT_ID_BATTERY, dark\<lparr>color := 0x0aff0000\<rparr>),
     (LIGHT_ID_NOTIFICATIONS, dark)] init_lights)) = Some 0"
  by code_simp

text \<open>A flashing light blinks with a brightness of at most a byte, as long as the times are so
  short that the products fit an \<open>int\<close>: up to 8421504 ms of light.\<close>

theorem blink_in_range:
  assumes "blink_of s = Some (fake_pwm, pwm)" "flashOnMS s \<le> 8421504" "flashOffMS s \<le> 2147483"
  shows "0 \<le> fake_pwm \<and> fake_pwm \<le> 255 \<and> pwm = flashOffMS s * 1000"
proof -
  have on: "0 < flashOnMS s" "0 < flashOffMS s" using assms(1) by (auto simp: blink_of_def Let_def split: if_splits)
  have w: "wrap32 (flashOnMS s + flashOffMS s) = flashOnMS s + flashOffMS s" "wrap32 (flashOnMS s * 255) = flashOnMS s * 255"
    "wrap32 (flashOffMS s * 1000) = flashOffMS s * 1000"
    using on assms(2,3) by (auto intro!: wrap32_fits)
  let ?q = "flashOnMS s * 255 div (flashOnMS s + flashOffMS s)"
  have q: "flashOnMS s * 255 sdiv (flashOnMS s + flashOffMS s) = ?q"
    using on by (simp add: signed_divide_int_def sgn_mult)
  have "flashOnMS s * 255 \<le> 255 * (flashOnMS s + flashOffMS s)" using on by (simp add: algebra_simps)
  from zdiv_mono1 [OF this, of "flashOnMS s + flashOffMS s"] have "?q \<le> 255"
    using on by (simp del: distrib_left_numeral)
  moreover have "0 \<le> ?q" using on by (simp add: pos_imp_zdiv_nonneg_iff)
  moreover have "fake_pwm = (if ?q > 0 \<and> ?q < 16 then 16 else ?q)" "pwm = flashOffMS s * 1000"
    using assms(1) on by (auto simp: blink_of_def Let_def w q split: if_splits)
  ultimately show ?thesis by auto
qed

lemma blink_in_range_witness:
  "blink_of (dark\<lparr>flashMode := LIGHT_FLASH_TIMED, flashOnMS := 500, flashOffMS := 2000\<rparr>) = Some (51, 2000000) \<and>
   (51 :: int) \<le> 255"
proof -
  have b: "blink_of (dark\<lparr>flashMode := LIGHT_FLASH_TIMED, flashOnMS := 500, flashOffMS := 2000\<rparr>) = Some (51, 2000000)"
    by code_simp
  show ?thesis using blink_in_range [OF b] b by (simp add: dark_def)
qed

end
