(* ===== verification/DeviceInit.thy ===== *)
theory DeviceInit
  imports Prelude
begin

text \<open>
  The properties the init process sets for the model of the phone,
  \<open>src/init/init_msm8916.cpp\<close>: the numbers of the board that the kernel shows under \<open>/proc\<close> and the
  size of the memory decide the names and the sizes of the heap.
\<close>

record board =
  PRJ_ID :: int
  PRJ_SKU :: int
  PRJ_HD :: int
  totalram :: nat
  boot_reason :: int

text \<open>The globals, \<open>None\<close> while they are NULL.\<close>

record init_globals =
  device :: "string option"
  family :: "string option"
  heapstartsize :: "string option"
  heapgrowthlimit :: "string option"
  heapsize :: "string option"
  heapminfree :: "string option"

definition no_globals :: init_globals where
  "no_globals = \<lparr>device = None, family = None, heapstartsize = None, heapgrowthlimit = None, heapsize = None,
     heapminfree = None\<rparr>"

definition set_heap :: "string \<Rightarrow> string \<Rightarrow> string \<Rightarrow> string \<Rightarrow> init_globals \<Rightarrow> init_globals" where
  "set_heap start growth sz free g =
     g\<lparr>heapstartsize := Some start, heapgrowthlimit := Some growth, heapsize := Some sz, heapminfree := Some free\<rparr>"

definition check_device :: "board \<Rightarrow> init_globals \<Rightarrow> init_globals" where
  "check_device b g =
     (if PRJ_HD b = 1 then
        let g = g\<lparr>family := Some ''Z00L''\<rparr>;
            g = (if PRJ_ID b = 0 then
                   (if PRJ_SKU b = 3 then g\<lparr>device := Some ''Z00W''\<rparr> else g\<lparr>device := Some ''Z00L''\<rparr>)
                 else if PRJ_ID b = 1 then g\<lparr>device := Some ''Z00M''\<rparr> else g)
        in set_heap ''8m'' ''192m'' ''512m'' ''512k'' g
      else if PRJ_HD b = 0 then
        let g = g\<lparr>family := Some ''Z00T''\<rparr>;
            g = (if PRJ_ID b = 0 then g\<lparr>device := Some ''Z00T''\<rparr>
                 else if PRJ_ID b = 1 then g\<lparr>device := Some ''Z011''\<rparr>
                 else if PRJ_ID b = 2 then g\<lparr>device := Some ''Z00C''\<rparr>
                 else if PRJ_ID b = 3 then g\<lparr>device := Some ''Z00U''\<rparr> else g)
        in if totalram b > 2048 * 1024 * 1024 then set_heap ''8m'' ''288m'' ''768m'' ''512k'' g
           else set_heap ''16m'' ''192m'' ''512m'' ''2m'' g
      else g)"

definition init_alarm_boot_properties :: "board \<Rightarrow> (string \<times> string) list" where
  "init_alarm_boot_properties b =
     (if boot_reason b = 3 then [(''ro.alarm_boot'', ''true'')] else [(''ro.alarm_boot'', ''false'')])"

text \<open>The properties in the order they are set; \<open>None\<close>: a NULL pointer is used as a string.\<close>

definition vendor_load_properties :: "bool \<Rightarrow> board \<Rightarrow> (string \<times> string) list option" where
  "vendor_load_properties our_platform b =
     (if \<not> our_platform then Some []
      else
        let g = check_device b no_globals
        in do {
          family \<leftarrow> family g;
          device \<leftarrow> device g;
          heapstartsize \<leftarrow> heapstartsize g;
          heapgrowthlimit \<leftarrow> heapgrowthlimit g;
          heapsize \<leftarrow> heapsize g;
          heapminfree \<leftarrow> heapminfree g;
          Some (init_alarm_boot_properties b @
            [(''ro.build.product'', family),
             (''ro.build.description'', family @ ''-user 6.0.1 MMB29P WW_user_21.40.1220.1902_20160927 release-keys''),
             (''ro.build.fingerprint'', ''asus/WW_'' @ device @ ''/ASUS_'' @ device @
                '':6.0.1/MMB29P/WW_user_21.40.1220.1902_20160927:user/release-keys''),
             (''ro.product.carrier'', ''US-ASUS_'' @ device @ ''-WW_'' @ device),
             (''ro.product.device'', ''ASUS_'' @ device),
             (''ro.product.model'', ''ASUS_'' @ device @ ''D''),
             (''dalvik.vm.heapstartsize'', heapstartsize),
             (''dalvik.vm.heapgrowthlimit'', heapgrowthlimit),
             (''dalvik.vm.heapsize'', heapsize),
             (''dalvik.vm.heaptargetutilization'', ''0.75''),
             (''dalvik.vm.heapminfree'', heapminfree),
             (''dalvik.vm.heapmaxfree'', ''8m'')])
        })"

definition PROP_VALUE_MAX :: nat where "PROP_VALUE_MAX = 92"

text \<open>The boards the code has a name for.\<close>

definition known_board :: "board \<Rightarrow> bool" where
  "known_board b \<longleftrightarrow> PRJ_HD b = 1 \<and> PRJ_ID b \<in> {0, 1} \<or> PRJ_HD b = 0 \<and> PRJ_ID b \<in> {0, 1, 2, 3}"

lemma check_device_known:
  "known_board b \<longleftrightarrow> (\<exists>f d s w h m. check_device b no_globals = \<lparr>device = Some d, family = Some f, heapstartsize = Some s,
     heapgrowthlimit = Some w, heapsize = Some h, heapminfree = Some m\<rparr> \<and>
     length f = 4 \<and> length d = 4 \<and> s \<in> {''8m'', ''16m''} \<and> w \<in> {''192m'', ''288m''} \<and> h \<in> {''512m'', ''768m''} \<and> m \<in> {''512k'', ''2m''})"
  by (auto simp: known_board_def check_device_def no_globals_def set_heap_def Let_def)

text \<open>Exactly for the boards the code has a name for every property gets a value, and then each value
  fits the buffers, of 92 bytes with the NUL, that the texts are put together in.\<close>

theorem device_properties_set:
  "(vendor_load_properties True b \<noteq> None \<longleftrightarrow> known_board b) \<and>
   (case vendor_load_properties True b of None \<Rightarrow> True
    | Some ps \<Rightarrow> length ps = 13 \<and> list_all (\<lambda>(k, v). v \<noteq> [] \<and> length v < PROP_VALUE_MAX) ps)"
proof (cases "known_board b")
  case True
  then obtain f d s w h m where "check_device b no_globals = \<lparr>device = Some d, family = Some f, heapstartsize = Some s,
     heapgrowthlimit = Some w, heapsize = Some h, heapminfree = Some m\<rparr>" "length f = 4" "length d = 4"
     "s \<in> {''8m'', ''16m''}" "w \<in> {''192m'', ''288m''}" "h \<in> {''512m'', ''768m''}" "m \<in> {''512k'', ''2m''}"
    unfolding check_device_known by blast
  with True show ?thesis
    by (auto simp: vendor_load_properties_def init_alarm_boot_properties_def PROP_VALUE_MAX_def)
next
  case False
  then have "device (check_device b no_globals) = None"
    by (auto simp: known_board_def check_device_def no_globals_def set_heap_def Let_def)
  with False show ?thesis by (cases "family (check_device b no_globals)") (simp_all add: vendor_load_properties_def Let_def)
qed

end
