(* ===== verification/WlanAddr.thy ===== *)
theory WlanAddr
  imports Prelude LocCfg
begin

text \<open>
  The address of the WLAN device, \<open>src/wcnss_asus/wcnss_asus_client.c\<close>: from the file of the factory,
  else from the file an earlier call has stored, else made up and stored.
\<close>

definition SUCCESS :: int where "SUCCESS = 0"
definition MAC_ADDR_SIZE :: nat where "MAC_ADDR_SIZE = 12"
definition MAX_WAIT_COUNT :: nat where "MAX_WAIT_COUNT = 10"

definition asus_mac_prefix :: "uint8 list" where
  "asus_mac_prefix = [0x2c, 0x56, 0xdc]"

section \<open>What the service finds\<close>

datatype mac_file = OpenFailure | ReadFailure | FileText string

text \<open>\<open>mac_stat k\<close>: the call number \<open>k\<close> of \<open>stat\<close> finds the file of the factory. \<open>garbage\<close> is what the
  buffer on the stack holds behind the bytes that were read, and what is behind the buffer.
  \<open>genmac_opens\<close>: the file of the generated address can be opened.\<close>

record nv =
  mac_stat :: "nat \<Rightarrow> bool"
  mac_text :: mac_file
  garbage :: string
  genmac :: "uint8 list option"
  genmac_opens :: bool

text \<open>The condition asks for the file before it looks at the counter.\<close>

function wait_mac :: "(nat \<Rightarrow> bool) \<Rightarrow> nat \<Rightarrow> nat" where
  "wait_mac found i = (if \<not> found i \<and> i < MAX_WAIT_COUNT then wait_mac found (Suc i) else i)"
  by pat_completeness auto
termination by (relation "measure (\<lambda>(found, i). MAX_WAIT_COUNT - i)") auto

declare wait_mac.simps [simp del]

section \<open>Scanning\<close>

text \<open>\<open>%02hhx\<close>: leading white space, then at most two characters: a sign and hexadecimal digits. A
  prefix \<open>0x\<close> has no room for a digit behind it and counts as the digit 0.\<close>

definition hex_digit_value :: "char \<Rightarrow> nat option" where
  "hex_digit_value c = (case digit_value c of None \<Rightarrow> None | Some d \<Rightarrow> if d < 16 then Some d else None)"

definition hex_field :: "string \<Rightarrow> nat \<Rightarrow> (nat \<times> string) option" where
  "hex_field s width = (case s of
     [] \<Rightarrow> None
   | c # t \<Rightarrow>
       (case hex_digit_value c of
          None \<Rightarrow> None
        | Some d \<Rightarrow>
            if width < 2 then Some (d, t)
            else (case t of
                    [] \<Rightarrow> Some (d, t)
                  | c' # t' \<Rightarrow> (case hex_digit_value c' of None \<Rightarrow> Some (d, t) | Some e \<Rightarrow> Some (16 * d + e, t')))))"

definition scan_hhx :: "string \<Rightarrow> (uint8 \<times> string) option" where
  "scan_hhx s =
     (case dropWhile isspace s of
        [] \<Rightarrow> None
      | c # t \<Rightarrow>
          if c = CHR ''-'' then (case hex_field t 1 of None \<Rightarrow> None | Some (v, t) \<Rightarrow> Some (- of_nat v, t))
          else if c = CHR ''+'' then (case hex_field t 1 of None \<Rightarrow> None | Some (v, t) \<Rightarrow> Some (of_nat v, t))
          else (case hex_field (c # t) 2 of None \<Rightarrow> None | Some (v, t) \<Rightarrow> Some (of_nat v, t)))"

text \<open>\<open>sscanf\<close> with \<open>n\<close> such conversions stops at the first that fails.\<close>

fun sscanf_hhx :: "nat \<Rightarrow> string \<Rightarrow> uint8 list" where
  "sscanf_hhx 0 s = []"
| "sscanf_hhx (Suc n) s = (case scan_hhx s of None \<Rightarrow> [] | Some (b, t) \<Rightarrow> b # sscanf_hhx n t)"

section \<open>The call\<close>

text \<open>The bytes go to the beginning of the buffer of the caller; \<open>None\<close>: a store behind its end.\<close>

definition put_bytes :: "uint8 list \<Rightarrow> uint8 list \<Rightarrow> uint8 list option" where
  "put_bytes bs buf = (if length bs \<le> length buf then Some (bs @ drop (length bs) buf) else None)"

text \<open>The first part: whether it was a success, and the buffer.\<close>

definition read_factory_mac :: "nv \<Rightarrow> uint8 list \<Rightarrow> (bool \<times> uint8 list) option" where
  "read_factory_mac w pBdAddr =
     (if wait_mac (mac_stat w) 0 = MAX_WAIT_COUNT then Some (False, pBdAddr)
      else (case mac_text w of
              OpenFailure \<Rightarrow> Some (False, pBdAddr)
            | ReadFailure \<Rightarrow> Some (False, pBdAddr)
            | FileText t \<Rightarrow>
                do { buf \<leftarrow> put_bytes (sscanf_hhx 6 (cstr (take 12 t @ garbage w))) pBdAddr; Some (True, buf) }))"

definition read_stored_mac :: "nv \<Rightarrow> uint8 list \<Rightarrow> (bool \<times> uint8 list) option" where
  "read_stored_mac w pBdAddr =
     (case genmac w of
        None \<Rightarrow> Some (False, pBdAddr)
      | Some bs \<Rightarrow>
          if \<not> genmac_opens w then None
          else do { buf \<leftarrow> put_bytes (take 6 bs) pBdAddr; Some (length bs \<ge> 6, buf) })"

definition make_mac :: "(nat \<Rightarrow> nat) \<Rightarrow> nv \<Rightarrow> uint8 list \<Rightarrow> (uint8 list \<times> nv) option" where
  "make_mac rnd w pBdAddr =
     do {
       let mac = asus_mac_prefix @ map (\<lambda>i. of_nat (rnd i mod 255)) [length asus_mac_prefix ..< MAC_ADDR_SIZE];
       buf \<leftarrow> put_bytes mac pBdAddr;
       if \<not> genmac_opens w then None
       else Some (buf, w\<lparr>genmac := Some (take MAC_ADDR_SIZE buf)\<rparr>)
     }"

definition wcnss_qmi_get_wlan_address :: "(nat \<Rightarrow> nat) \<Rightarrow> nv \<Rightarrow> uint8 list \<Rightarrow> (int \<times> uint8 list \<times> nv) option" where
  "wcnss_qmi_get_wlan_address rnd w pBdAddr =
     do {
       (success, buf) \<leftarrow> read_factory_mac w pBdAddr;
       (success, buf) \<leftarrow> (if \<not> success then read_stored_mac w buf else Some (success, buf));
       (buf, w) \<leftarrow> (if \<not> success then make_mac rnd w buf else Some (buf, w));
       Some (SUCCESS, buf, w)
     }"

section \<open>The address of the factory\<close>

definition hex_char :: "nat \<Rightarrow> char" where
  "hex_char d = char_of (if d < 10 then 48 + d else 87 + d)"

definition mac_text_of :: "uint8 list \<Rightarrow> string" where
  "mac_text_of mac = concat (map (\<lambda>b. [hex_char (unat b div 16), hex_char (unat b mod 16)]) mac)"

lemma of_hex_char: "d < 16 \<Longrightarrow> (of_char (hex_char d) :: nat) = (if d < 10 then 48 + d else 87 + d)"
  by (simp add: hex_char_def)

lemma hex_char_facts:
  assumes "d < 16"
  shows "hex_digit_value (hex_char d) = Some d" "\<not> isspace (hex_char d)"
    "hex_char d \<noteq> CHR ''-''" "hex_char d \<noteq> CHR ''+''" "hex_char d \<noteq> CHR 0x00"
proof -
  note c = of_hex_char [OF assms]
  show "hex_digit_value (hex_char d) = Some d" using assms by (simp add: hex_digit_value_def digit_value_def Let_def c)
  have n: "hex_char d \<noteq> x" if "(of_char x :: nat) < 48" for x
  proof
    assume "hex_char d = x"
    with c that show False by (simp split: if_splits)
  qed
  show "\<not> isspace (hex_char d)" using n [of "CHR 0x20"] by (simp add: isspace_def c)
  show "hex_char d \<noteq> CHR ''-''" "hex_char d \<noteq> CHR ''+''" "hex_char d \<noteq> CHR 0x00"
    by (rule n; simp)+
qed

lemma byte_nibbles: "unat (b :: uint8) div 16 < 16" "unat b mod 16 < 16"
proof -
  have "unat b < 2 ^ LENGTH(8)" by (rule unsigned_less)
  then show "unat b div 16 < 16" by (simp add: less_mult_imp_div_less)
qed simp

lemma scan_byte: "scan_hhx (hex_char (unat b div 16) # hex_char (unat b mod 16) # s) = Some (b, s)"
  by (simp add: scan_hhx_def hex_field_def hex_char_facts [OF byte_nibbles(1)] hex_char_facts [OF byte_nibbles(2)])

lemma sscanf_mac: "sscanf_hhx (length mac) (mac_text_of mac @ s) = mac"
  by (induction mac) (simp_all add: mac_text_of_def scan_byte)

lemma mac_text_no_NUL: "CHR 0x00 \<notin> set (mac_text_of mac)"
  using hex_char_facts(5) [OF byte_nibbles(1)] hex_char_facts(5) [OF byte_nibbles(2)] by (force simp: mac_text_of_def)

lemma length_mac_text: "length (mac_text_of mac) = 2 * length mac"
  by (induction mac) (simp_all add: mac_text_of_def)

lemma wait_mac_found: "i \<le> k \<Longrightarrow> k < MAX_WAIT_COUNT \<Longrightarrow> found k \<Longrightarrow> wait_mac found i \<le> k"
proof (induction found i rule: wait_mac.induct)
  case (1 found i)
  show ?case
  proof (cases "found i")
    case True
    then show ?thesis using 1 by (subst wait_mac.simps) simp
  next
    case False
    then have "Suc i \<le> k" using 1 by (metis le_neq_implies_less Suc_leI)
    then show ?thesis using 1 False by (subst wait_mac.simps) simp
  qed
qed

text \<open>Once the file of the factory is there, before the tenth wait is over, and holds twelve
  hexadecimal digits, the address is the one they write, whatever else is in memory and whatever
  was stored before; nothing behind the sixth byte of the buffer is touched.\<close>

theorem factory_address_roundtrip:
  assumes "mac_stat w k" "k < MAX_WAIT_COUNT" "length mac = 6" "mac_text w = FileText (mac_text_of mac @ rest)"
    "length buf \<ge> 6"
  shows "wcnss_qmi_get_wlan_address rnd w buf = Some (SUCCESS, mac @ drop 6 buf, w)"
proof -
  have n: "wait_mac (mac_stat w) 0 \<noteq> MAX_WAIT_COUNT"
    using wait_mac_found [of 0 k "mac_stat w"] assms(1,2) by simp
  have "take 12 (mac_text_of mac @ rest) = mac_text_of mac" using assms(3) by (simp add: length_mac_text)
  moreover have "cstr (mac_text_of mac @ garbage w) = mac_text_of mac @ cstr (garbage w)"
    unfolding cstr_def using mac_text_no_NUL [of mac] by (intro takeWhile_append2) auto
  ultimately have "sscanf_hhx 6 (cstr (take 12 (mac_text_of mac @ rest) @ garbage w)) = mac"
    using sscanf_mac [of mac] assms(3) by simp
  with n assms show ?thesis
    by (simp add: wcnss_qmi_get_wlan_address_def read_factory_mac_def put_bytes_def)
qed

lemma factory_address_roundtrip_witness:
  "wcnss_qmi_get_wlan_address (\<lambda>_. 0) \<lparr>mac_stat = (\<lambda>k. 2 \<le> k), mac_text = FileText ''2c56dc0a1bff'', garbage = ''77'',
      genmac = None, genmac_opens = False\<rparr> (replicate 6 0) =
     Some (SUCCESS, [0x2c, 0x56, 0xdc, 0x0a, 0x1b, 0xff], \<lparr>mac_stat = (\<lambda>k. 2 \<le> k), mac_text = FileText ''2c56dc0a1bff'',
      garbage = ''77'', genmac = None, genmac_opens = False\<rparr>)"
proof -
  have "mac_text_of [0x2c, 0x56, 0xdc, 0x0a, 0x1b, 0xff] = ''2c56dc0a1bff''" by code_simp
  then show ?thesis
    using factory_address_roundtrip [of "\<lparr>mac_stat = (\<lambda>k. 2 \<le> k), mac_text = FileText ''2c56dc0a1bff'', garbage = ''77'',
      genmac = None, genmac_opens = False\<rparr>" 2 "[0x2c, 0x56, 0xdc, 0x0a, 0x1b, 0xff]" "[]" "replicate 6 0" "\<lambda>_. 0"]
    by (simp add: MAX_WAIT_COUNT_def)
qed

section \<open>A generated address is kept\<close>

lemma not_found_waits: "\<forall>k < MAX_WAIT_COUNT. \<not> found k \<Longrightarrow> i \<le> MAX_WAIT_COUNT \<Longrightarrow> wait_mac found i = MAX_WAIT_COUNT"
proof (induction found i rule: wait_mac.induct)
  case (1 found i)
  then show ?case by (subst wait_mac.simps) (cases "i = MAX_WAIT_COUNT"; simp)
qed

lemma length_generated:
  "length (asus_mac_prefix @ map f [length asus_mac_prefix ..< MAC_ADDR_SIZE]) = 12"
  by (simp add: asus_mac_prefix_def MAC_ADDR_SIZE_def)

lemma make_first:
  assumes "\<forall>k < MAX_WAIT_COUNT. \<not> mac_stat w k" "genmac w = None" "genmac_opens w"
  shows "wcnss_qmi_get_wlan_address rnd w buf =
    (let mac = asus_mac_prefix @ map (\<lambda>i. of_nat (rnd i mod 255)) [length asus_mac_prefix ..< MAC_ADDR_SIZE]
     in if length buf < MAC_ADDR_SIZE then None
        else Some (SUCCESS, mac @ drop MAC_ADDR_SIZE buf, w\<lparr>genmac := Some mac\<rparr>))"
  using assms length_generated [of "\<lambda>i. of_nat (rnd i mod 255)"] not_found_waits [OF assms(1), of 0]
  by (simp add: wcnss_qmi_get_wlan_address_def read_factory_mac_def read_stored_mac_def make_mac_def put_bytes_def
      Let_def del: map_append) (simp add: MAC_ADDR_SIZE_def asus_mac_prefix_def)

text \<open>C34: A phone without the file of the factory and without a stored address makes one up; the file
  for it can be opened. In a buffer of fewer than twelve bytes, six for an address among them, the
  call then stores behind the end of the buffer. With a buffer of at least twelve bytes it returns
  an address that begins with the prefix of the manufacturer and is kept: a later call, with other
  random numbers and another buffer, of at least six bytes, finds the file and answers with the same
  first six bytes.\<close>

theorem generated_address_kept:
  assumes "\<forall>k < MAX_WAIT_COUNT. \<not> mac_stat w k" "genmac w = None" "genmac_opens w" "length buf' \<ge> 6"
  shows "if length buf < 12 then wcnss_qmi_get_wlan_address rnd w buf = None
    else \<exists>mac w'. wcnss_qmi_get_wlan_address rnd w buf = Some (SUCCESS, mac, w') \<and> take 3 mac = asus_mac_prefix \<and>
      wcnss_qmi_get_wlan_address rnd' w' buf' = Some (SUCCESS, take 6 mac @ drop 6 buf', w')"
proof (cases "length buf < 12")
  case True
  then show ?thesis using make_first [OF assms(1-3), of rnd buf] by (simp add: Let_def MAC_ADDR_SIZE_def)
next
  case False
  let ?mac = "asus_mac_prefix @ map (\<lambda>i. of_nat (rnd i mod 255)) [length asus_mac_prefix ..< MAC_ADDR_SIZE]"
  let ?w = "w\<lparr>genmac := Some ?mac\<rparr>"
  note l = length_generated [of "\<lambda>i. of_nat (rnd i mod 255)"]
  have "wcnss_qmi_get_wlan_address rnd w buf = Some (SUCCESS, ?mac @ drop 12 buf, ?w)"
    using False make_first [OF assms(1-3), of rnd buf] by (simp add: Let_def MAC_ADDR_SIZE_def)
  moreover have "wcnss_qmi_get_wlan_address rnd' ?w buf' = Some (SUCCESS, take 6 ?mac @ drop 6 buf', ?w)"
    using assms(1,3,4) length_take [of 6 ?mac] l not_found_waits [OF assms(1), of 0]
    by (simp add: wcnss_qmi_get_wlan_address_def read_factory_mac_def read_stored_mac_def put_bytes_def
        del: take_append length_append length_take)
  moreover have "take 3 (?mac @ drop 12 buf) = asus_mac_prefix" by (simp add: asus_mac_prefix_def)
  moreover have "take 6 (?mac @ drop 12 buf) = take 6 ?mac" using l by simp
  ultimately show ?thesis using False by metis
qed

definition no_factory :: nv where
  "no_factory = \<lparr>mac_stat = (\<lambda>k. False), mac_text = OpenFailure, garbage = [], genmac = None, genmac_opens = True\<rparr>"

lemma generated_address_kept_witness:
  "wcnss_qmi_get_wlan_address (\<lambda>_. 7) no_factory (replicate 6 0) = None \<and>
   (\<exists>mac w'. wcnss_qmi_get_wlan_address (\<lambda>_. 7) no_factory (replicate 12 0) = Some (SUCCESS, mac, w') \<and>
    take 3 mac = asus_mac_prefix \<and>
    wcnss_qmi_get_wlan_address (\<lambda>_. 9) w' (replicate 6 0) = Some (SUCCESS, take 6 mac @ drop 6 (replicate 6 0), w'))"
proof -
  have n: "\<forall>k < MAX_WAIT_COUNT. \<not> mac_stat no_factory k" "genmac no_factory = None" "genmac_opens no_factory"
    "6 \<le> length (replicate 6 (0 :: uint8))" by (simp_all add: no_factory_def)
  show ?thesis
    using generated_address_kept [OF n, of "replicate 6 0" "\<lambda>_. 7" "\<lambda>_. 9"]
      generated_address_kept [OF n, of "replicate 12 0" "\<lambda>_. 7" "\<lambda>_. 9"] by simp
qed

section \<open>What goes wrong\<close>

text \<open>An address has six bytes, \<open>MAC_ADDR_SIZE\<close> is the twelve of its text: making one up stores behind
  the end of a buffer for an address.\<close>

lemma generated_address_overruns:
  "wcnss_qmi_get_wlan_address (\<lambda>_. 7) no_factory (replicate 6 0) = None"
  by code_simp

text \<open>The file that shows up during the last wait is not read: the counter is compared, not the file.\<close>

lemma last_wait_in_vain:
  "mac_stat w = (\<lambda>k. k \<ge> 10) \<Longrightarrow> read_factory_mac w buf = Some (False, buf)"
proof -
  assume a: "mac_stat w = (\<lambda>k. k \<ge> 10)"
  have "wait_mac (mac_stat w) 0 = MAX_WAIT_COUNT" by (rule not_found_waits) (simp_all add: a MAX_WAIT_COUNT_def)
  then show ?thesis by (simp add: read_factory_mac_def)
qed

text \<open>A file that holds no address is a success all the same, with the buffer as it was.\<close>

lemma empty_file_succeeds:
  "wcnss_qmi_get_wlan_address (\<lambda>_. 7) (no_factory\<lparr>mac_stat := (\<lambda>k. True), mac_text := FileText ''unset''\<rparr>) [1, 2, 3, 4, 5, 6] =
   Some (SUCCESS, [1, 2, 3, 4, 5, 6], no_factory\<lparr>mac_stat := (\<lambda>k. True), mac_text := FileText ''unset''\<rparr>)"
proof -
  have "sscanf_hhx 6 (cstr (take 12 ''unset'' @ [])) = []" by code_simp
  moreover have "wait_mac (\<lambda>k. True) 0 = 0" by (subst wait_mac.simps) simp
  ultimately show ?thesis
    by (simp add: wcnss_qmi_get_wlan_address_def read_factory_mac_def no_factory_def put_bytes_def MAX_WAIT_COUNT_def)
qed

end
