(* ===== verification/CameraParams.thy ===== *)
theory CameraParams
  imports Prelude LocCfg "HOL-Library.List_Lexorder" "HOL-Library.Char_ord"
begin

text \<open>
  The parameters of a camera, \<open>src/libshims/camera/CameraParameters.cpp\<close>: a sorted map from keys to
  values, written as one string and read back from it, and the sizes that are written into values.
  The platform's \<open>KeyedVector\<close> is the list of its pairs in the order of the keys, its \<open>String8\<close>
  a string without NUL.
\<close>

section \<open>The map\<close>

type_synonym params = "(string \<times> string) list"

text \<open>\<open>add\<close> and \<open>replaceValueFor\<close> leave one pair for the key, at its place.\<close>

fun kv_put :: "string \<Rightarrow> string \<Rightarrow> params \<Rightarrow> params" where
  "kv_put k v [] = [(k, v)]"
| "kv_put k v ((a, b) # m) =
     (if k = a then (k, v) # m else if k < a then (k, v) # (a, b) # m else (a, b) # kv_put k v m)"

definition kv_remove :: "string \<Rightarrow> params \<Rightarrow> params" where
  "kv_remove k m = filter (\<lambda>x. fst x \<noteq> k) m"

section \<open>Flat form\<close>

fun flatten :: "params \<Rightarrow> string" where
  "flatten [] = []"
| "flatten [(k, v)] = k @ ''='' @ v"
| "flatten ((k, v) # m) = k @ ''='' @ v @ '';'' @ flatten m"

text \<open>\<open>strchr\<close>: what is in front of the first occurrence and what is behind it.\<close>

definition strchr :: "char \<Rightarrow> string \<Rightarrow> (string \<times> string) option" where
  "strchr c s = (if c \<in> set s then Some (takeWhile (\<lambda>x. x \<noteq> c) s, tl (dropWhile (\<lambda>x. x \<noteq> c) s)) else None)"

lemma strchr_length: "strchr c s = Some (x, y) \<Longrightarrow> length y < length s"
proof -
  assume a: "strchr c s = Some (x, y)"
  have "length s = length (takeWhile (\<lambda>x. x \<noteq> c) s) + length (dropWhile (\<lambda>x. x \<noteq> c) s)"
    by (metis length_append takeWhile_dropWhile_id)
  moreover have "dropWhile (\<lambda>x. x \<noteq> c) s \<noteq> []" using a by (auto simp: strchr_def split: if_splits)
  ultimately show ?thesis using a by (cases "dropWhile (\<lambda>x. x \<noteq> c) s") (auto simp: strchr_def split: if_splits)
qed

function unflatten_loop :: "string \<Rightarrow> params \<Rightarrow> params" where
  "unflatten_loop a m =
     (case strchr CHR ''='' a of
        None \<Rightarrow> m
      | Some (k, a) \<Rightarrow>
          (case strchr CHR '';'' a of
             None \<Rightarrow> kv_put k a m
           | Some (v, a) \<Rightarrow> unflatten_loop a (kv_put k v m)))"
  by pat_completeness auto
termination by (relation "measure (\<lambda>(a, m). length a)") (auto dest!: strchr_length)

declare unflatten_loop.simps [simp del]

definition unflatten :: "string \<Rightarrow> params" where
  "unflatten params = unflatten_loop params []"

section \<open>Access\<close>

text \<open>A build for the chip's camera adds a default with every \<open>set\<close>; NULL pointers are \<open>None\<close>.\<close>

definition kv_get :: "string \<Rightarrow> params \<Rightarrow> string option" where
  "kv_get key m = (case map_of m key of None \<Rightarrow> None | Some v \<Rightarrow> if length v = 0 then None else Some v)"

definition kv_set :: "bool \<Rightarrow> string option \<Rightarrow> string option \<Rightarrow> params \<Rightarrow> params" where
  "kv_set QCOM_HARDWARE key value m =
     (case (key, value) of
        (Some k, Some v) \<Rightarrow>
          if CHR ''='' \<in> set k \<or> CHR '';'' \<in> set k then m
          else if CHR ''='' \<in> set v \<or> CHR '';'' \<in> set v then m
          else
            let m = (if QCOM_HARDWARE \<and> kv_get ''hdr-need-1x'' m = None
                     then kv_put ''hdr-need-1x'' ''false'' m else m)
            in kv_put k v m
      | _ \<Rightarrow> m)"

section \<open>The map is sorted\<close>

text \<open>Every map the functions make is sorted by distinct keys; no key has the sign that ends a key, and
  no value the one that ends a value.\<close>

definition params_ok :: "params \<Rightarrow> bool" where
  "params_ok m \<longleftrightarrow> sorted_wrt (<) (map fst m) \<and> (\<forall>(k, v) \<in> set m. CHR ''='' \<notin> set k \<and> CHR '';'' \<notin> set v)"

lemma set_kv_put: "fst ` set (kv_put k v m) = insert k (fst ` set m)"
  by (induction k v m rule: kv_put.induct) auto

lemma kv_put_sub: "set (kv_put k v m) \<subseteq> insert (k, v) (set m)"
  by (induction k v m rule: kv_put.induct) auto

lemma kv_put_sorted: "sorted_wrt (<) (map fst m) \<Longrightarrow> sorted_wrt (<) (map fst (kv_put k v m))"
proof (induction k v m rule: kv_put.induct)
  case (2 k v a b m)
  have s: "set (map fst (kv_put k v m)) = insert k (set (map fst m))" using set_kv_put [of k v m] by simp
  show ?case using 2 s by (auto intro: less_trans)
qed simp

lemma kv_put_ok [simp]:
  "params_ok m \<Longrightarrow> CHR ''='' \<notin> set k \<Longrightarrow> CHR '';'' \<notin> set v \<Longrightarrow> params_ok (kv_put k v m)"
  using kv_put_sorted [of m k v] kv_put_sub [of k v m] by (fastforce simp: params_ok_def)

lemma kv_put_map_of: "sorted_wrt (<) (map fst m) \<Longrightarrow> map_of (kv_put k v m) = (map_of m)(k \<mapsto> v)"
proof (induction k v m rule: kv_put.induct)
  case (2 k v a b m)
  have "map_of m k = None" if "k < a" using "2.prems" that by (auto simp: map_of_eq_None_iff)
  with 2 show ?case by (auto simp: fun_upd_twist)
qed simp

lemma map_of_kv_put [simp]: "params_ok m \<Longrightarrow> map_of (kv_put k v m) = (map_of m)(k \<mapsto> v)"
  by (simp add: kv_put_map_of params_ok_def)

lemma kv_put_last: "\<forall>x \<in> set m. fst x < k \<Longrightarrow> kv_put k v m = m @ [(k, v)]"
  by (induction k v m rule: kv_put.induct) auto

lemma kv_remove_ok [simp]: "params_ok m \<Longrightarrow> params_ok (kv_remove k m)"
  by (auto simp: params_ok_def kv_remove_def sorted_wrt_map sorted_wrt_filter)

lemma map_of_kv_remove [simp]: "map_of (kv_remove k m) = (map_of m)(k := None)"
  by (induction m) (auto simp: kv_remove_def)

lemma kv_set_ok [simp]: "params_ok m \<Longrightarrow> params_ok (kv_set q k v m)"
  by (auto simp: kv_set_def Let_def split: option.splits)

lemma params_ok_Nil [simp]: "params_ok []"
  by (simp add: params_ok_def)

lemma strchr_parts:
  "strchr c s = Some (x, y) \<Longrightarrow> c \<notin> set x \<and> s = x @ c # y"
  "strchr c s = None \<longleftrightarrow> c \<notin> set s"
proof -
  assume a: "strchr c s = Some (x, y)"
  then have "x = takeWhile (\<lambda>x. x \<noteq> c) s" "y = tl (dropWhile (\<lambda>x. x \<noteq> c) s)" "c \<in> set s"
    by (auto simp: strchr_def split: if_splits)
  moreover have "dropWhile (\<lambda>x. x \<noteq> c) s = c # tl (dropWhile (\<lambda>x. x \<noteq> c) s)"
    using \<open>c \<in> set s\<close> by (induction s) auto
  ultimately show "c \<notin> set x \<and> s = x @ c # y"
    by (metis (mono_tags) set_takeWhileD takeWhile_dropWhile_id)
qed (simp add: strchr_def)

lemma strchr_append: "c \<notin> set x \<Longrightarrow> strchr c (x @ c # y) = Some (x, y)"
proof -
  assume "c \<notin> set x"
  then have "\<And>z. z \<in> set x \<Longrightarrow> z \<noteq> c" by auto
  then show ?thesis by (simp add: strchr_def takeWhile_append2 dropWhile_append2)
qed

lemma unflatten_loop_ok: "params_ok m \<Longrightarrow> params_ok (unflatten_loop a m)"
proof (induction a m rule: unflatten_loop.induct)
  case (1 a m)
  show ?case
  proof (cases "strchr CHR ''='' a")
    case None
    then show ?thesis using 1 by (subst unflatten_loop.simps) simp
  next
    case (Some x)
    obtain k a' where x: "x = (k, a')" by force
    with Some have k: "CHR ''='' \<notin> set k" using strchr_parts(1) by blast
    show ?thesis
    proof (cases "strchr CHR '';'' a'")
      case None
      with \<open>strchr CHR ''='' a = Some x\<close> x k "1.prems" show ?thesis
        by (subst unflatten_loop.simps) (auto simp: strchr_parts(2) [symmetric])
    next
      case (Some y)
      obtain v a'' where y: "y = (v, a'')" by force
      with Some have "CHR '';'' \<notin> set v" using strchr_parts(1) by blast
      then show ?thesis
        using "1.IH" [OF \<open>strchr CHR ''='' a = Some x\<close> x [symmetric] Some y [symmetric]] "1.prems" k
          \<open>strchr CHR ''='' a = Some x\<close> x Some y
        by (subst unflatten_loop.simps) simp
    qed
  qed
qed

lemma unflatten_ok [simp]: "params_ok (unflatten s)"
  by (simp add: unflatten_def unflatten_loop_ok)

section \<open>Writing and reading back\<close>

lemma unflatten_flatten_loop:
  "params_ok (front @ m) \<Longrightarrow> unflatten_loop (flatten m) front = front @ m"
proof (induction m arbitrary: front rule: flatten.induct)
  case 1
  then show ?case by (subst unflatten_loop.simps) (simp add: strchr_def)
next
  case (2 k v)
  then have "CHR ''='' \<notin> set k" "CHR '';'' \<notin> set v" "\<forall>x \<in> set front. fst x < k"
    by (auto simp: params_ok_def sorted_wrt_append)
  then show ?case
    by (subst unflatten_loop.simps) (simp add: strchr_append strchr_parts(2) [THEN iffD2] kv_put_last)
next
  case (3 k v p m)
  then have h: "CHR ''='' \<notin> set k" "CHR '';'' \<notin> set v" "\<forall>x \<in> set front. fst x < k"
    by (auto simp: params_ok_def sorted_wrt_append)
  have "params_ok ((front @ [(k, v)]) @ p # m)" using 3 by simp
  from "3.IH" [OF this] h show ?case
    by (subst unflatten_loop.simps) (simp add: strchr_append kv_put_last)
qed

lemma unflatten_flatten: "params_ok m \<Longrightarrow> unflatten (flatten m) = m"
  using unflatten_flatten_loop [of "[]" m] by (simp add: unflatten_def)

text \<open>Parameters survive the way through one string: whatever map the functions of the class have
  made, reading back its flat form gives the same map.\<close>

theorem params_roundtrip: "params_ok m \<Longrightarrow> unflatten (flatten m) = m"
  by (rule unflatten_flatten)

lemma params_roundtrip_witness:
  "unflatten (flatten [(''picture-size'', ''640x480''), (''scene-mode'', ''a=b'')]) =
   [(''picture-size'', ''640x480''), (''scene-mode'', ''a=b'')]"
  by (rule params_roundtrip) code_simp

section \<open>Numbers in text\<close>

text \<open>\<open>%d\<close>, and \<open>strtol\<close> with the place it stops at; without a digit it stops where it began. \<open>lb\<close> is the
  width of a \<open>long\<close>.\<close>

definition show_int :: "int \<Rightarrow> string" where
  "show_int i = (if i < 0 then ''-'' @ dec_digits (nat (- i)) else dec_digits (nat i))"

definition isdigit :: "char \<Rightarrow> bool" where
  "isdigit c \<longleftrightarrow> 48 \<le> (of_char c :: nat) \<and> (of_char c :: nat) \<le> 57"

definition strtol10 :: "nat \<Rightarrow> string \<Rightarrow> int \<times> string" where
  "strtol10 lb s =
     (let t = snd (sign (dropWhile isspace s))
      in if takeWhile isdigit t = [] then (0, s) else (strtol lb s 10, dropWhile isdigit t))"

text \<open>With base 0 the text chooses the base.\<close>

definition text_base :: "string \<Rightarrow> nat" where
  "text_base t = (if skip_0x t \<noteq> t then 16 else if t \<noteq> [] \<and> hd t = CHR ''0'' then 8 else 10)"

definition strtol0 :: "nat \<Rightarrow> string \<Rightarrow> int" where
  "strtol0 lb s = strtol lb s (text_base (snd (sign (dropWhile isspace s))))"

definition to_int :: "int \<Rightarrow> int" where
  "to_int v = sint (word_of_int v :: 32 word)"

text \<open>Two numbers with a delimiter between them, and the rest of the text.\<close>

definition parse_pair :: "nat \<Rightarrow> string \<Rightarrow> char \<Rightarrow> (int \<times> int \<times> string) option" where
  "parse_pair lb str delim =
     (case strtol10 lb str of (w, end1) \<Rightarrow>
        if end1 = [] \<or> hd end1 \<noteq> delim then None
        else (case strtol10 lb (tl end1) of (h, end2) \<Rightarrow> Some (to_int w, to_int h, end2)))"

lemma strtol10_shorter: "length (snd (strtol10 lb s)) \<le> length s"
proof -
  have "length (snd (sign t)) \<le> length t" for t by (cases t) auto
  then have "length (snd (sign (dropWhile isspace s))) \<le> length s" using length_dropWhile_le le_trans by blast
  moreover have "length (dropWhile isdigit (snd (sign (dropWhile isspace s)))) \<le> length (snd (sign (dropWhile isspace s)))"
    by (rule length_dropWhile_le)
  ultimately show ?thesis by (simp add: strtol10_def Let_def)
qed

lemma parse_pair_shorter: "parse_pair lb s d = Some (w, h, e) \<Longrightarrow> length e < length s"
proof -
  assume a: "parse_pair lb s d = Some (w, h, e)"
  obtain v end1 where v: "strtol10 lb s = (v, end1)" by force
  with a obtain c t where c: "end1 = c # t" by (cases end1) (auto simp: parse_pair_def)
  with a v have "e = snd (strtol10 lb t)" by (auto simp: parse_pair_def split: if_splits prod.splits)
  then have "length e \<le> length t" using strtol10_shorter by simp
  moreover have "length end1 \<le> length s" using strtol10_shorter [of lb s] v by simp
  ultimately show ?thesis using c by simp
qed

function parse_sizes :: "nat \<Rightarrow> string \<Rightarrow> (int \<times> int) list" where
  "parse_sizes lb s =
     (case parse_pair lb s CHR ''x'' of
        None \<Rightarrow> []
      | Some (width, height, end2) \<Rightarrow>
          (case end2 of
             [] \<Rightarrow> [(width, height)]
           | c # t \<Rightarrow> if c \<noteq> CHR '','' then [] else (width, height) # parse_sizes lb t))"
  by pat_completeness auto
termination by (relation "measure (\<lambda>(lb, s). length s)") (auto dest!: parse_pair_shorter)

declare parse_sizes.simps [simp del]

definition parseSizesList :: "nat \<Rightarrow> string option \<Rightarrow> (int \<times> int) list \<Rightarrow> (int \<times> int) list" where
  "parseSizesList lb sizesStr sizes = (case sizesStr of None \<Rightarrow> sizes | Some s \<Rightarrow> sizes @ parse_sizes lb s)"

section \<open>Sizes and numbers as values\<close>

definition size_text :: "char \<Rightarrow> int \<Rightarrow> int \<Rightarrow> string" where
  "size_text delim w h = show_int w @ delim # show_int h"

text \<open>What the getters of a size have in common: \<open>(-1, -1)\<close> is left when there is no value or no size.\<close>

definition get_pair :: "nat \<Rightarrow> string option \<Rightarrow> char \<Rightarrow> int \<times> int" where
  "get_pair lb p delim =
     (case p of None \<Rightarrow> (-1, -1)
      | Some s \<Rightarrow> (case parse_pair lb s delim of None \<Rightarrow> (-1, -1) | Some (w, h, _) \<Rightarrow> (w, h)))"

definition getInt :: "nat \<Rightarrow> string option \<Rightarrow> int" where
  "getInt lb v = (case v of None \<Rightarrow> -1 | Some s \<Rightarrow> to_int (strtol0 lb s))"


subsection \<open>Printing and reading are inverse\<close>

declare dec_digits.simps [simp del]

lemma digit_char: "d < 10 \<Longrightarrow> digit_value (char_of (48 + d)) = Some d \<and> isdigit (char_of (48 + d))"
  by (simp add: digit_value_def isdigit_def Let_def)

lemma dec_digits_isdigit: "c \<in> set (dec_digits n) \<Longrightarrow> isdigit c"
proof (induction n rule: dec_digits.induct)
  case (1 n)
  show ?case
  proof (cases "n < 10")
    case True
    then have "dec_digits n = [char_of (48 + n)]" by (subst dec_digits.simps) simp
    with "1.prems" True digit_char [of n] show ?thesis by simp
  next
    case False
    then have "dec_digits n = dec_digits (n div 10) @ [char_of (48 + n mod 10)]" by (subst dec_digits.simps) simp
    with 1 False digit_char [of "n mod 10"] show ?thesis by auto
  qed
qed

lemma dec_digits_nonempty [simp]: "dec_digits n \<noteq> []"
  by (subst dec_digits.simps) simp

lemma digits_dec: "digits 10 a (dec_digits n @ r) = digits 10 (a * 10 ^ length (dec_digits n) + n) r"
proof (induction n arbitrary: r rule: dec_digits.induct)
  case (1 n)
  show ?case
  proof (cases "n < 10")
    case True
    then have "dec_digits n = [char_of (48 + n)]" by (subst dec_digits.simps) simp
    with True digit_char [of n] show ?thesis by simp
  next
    case False
    then have "dec_digits n = dec_digits (n div 10) @ [char_of (48 + n mod 10)]" by (subst dec_digits.simps) simp
    moreover have "(a * 10 ^ length (dec_digits (n div 10)) + n div 10) * 10 + n mod 10 =
        a * (10 * 10 ^ length (dec_digits (n div 10))) + n"
      by (simp add: algebra_simps)
    ultimately show ?thesis
      using "1.IH" [OF False, of "char_of (48 + n mod 10) # r"] digit_char [of "n mod 10"] by (simp add: ac_simps)
  qed
qed

lemma char_of_zero [simp]: "char_of (48 :: nat) = CHR ''0''"
proof -
  have "char_of (of_char CHR ''0'' :: nat) = CHR ''0''" by (rule char_of_char)
  then show ?thesis by simp
qed

lemma dec_digits_head: "hd (dec_digits n) = CHR ''0'' \<longleftrightarrow> n = 0"
proof (induction n rule: dec_digits.induct)
  case (1 n)
  show ?case
  proof (cases "n < 10")
    case True
    have "char_of (48 + n) = CHR ''0'' \<longleftrightarrow> n = 0"
    proof
      assume "char_of (48 + n) = CHR ''0''"
      then have "(of_char (char_of (48 + n)) :: nat) = of_char CHR ''0''" by simp
      with True show "n = 0" by simp
    qed simp
    with True show ?thesis by (subst dec_digits.simps) simp
  next
    case False
    then show ?thesis using 1 by (subst dec_digits.simps) simp
  qed
qed

text \<open>What follows a number ends it.\<close>

definition ends_number :: "string \<Rightarrow> bool" where
  "ends_number r \<longleftrightarrow> r = [] \<or> \<not> isdigit (hd r) \<and> (case digit_value (hd r) of None \<Rightarrow> True | Some d \<Rightarrow> \<not> d < 10)"

lemma digits_ends: "ends_number r \<Longrightarrow> digits 10 a r = a"
  by (cases r) (auto simp: ends_number_def split: option.splits)

lemma isdigit_not: "isdigit c \<Longrightarrow> \<not> isspace c \<and> c \<noteq> CHR ''-'' \<and> c \<noteq> CHR ''+'' \<and> c \<noteq> CHR ''='' \<and> c \<noteq> CHR '';''"
  by (auto simp: isdigit_def isspace_def)

lemma dec_digits_start: obtains c t where "dec_digits n = c # t" "isdigit c"
  using dec_digits_isdigit [of "hd (dec_digits n)" n] dec_digits_nonempty [of n] by (cases "dec_digits n") auto

lemma sign_show_int:
  "dropWhile isspace (show_int i @ r) = show_int i @ r" "sign (show_int i @ r) = (i < 0, dec_digits (nat \<bar>i\<bar>) @ r)"
proof -
  obtain c t where c: "dec_digits (nat \<bar>i\<bar>) = c # t" "isdigit c" by (rule dec_digits_start)
  have m: "\<not> isspace CHR ''-''" by (simp add: isspace_def)
  show "dropWhile isspace (show_int i @ r) = show_int i @ r" "sign (show_int i @ r) = (i < 0, dec_digits (nat \<bar>i\<bar>) @ r)"
    using c isdigit_not [OF c(2)] m by (auto simp: show_int_def)
qed

lemma strtol_show_int:
  assumes "- (2 ^ 31) \<le> i" "i < 2 ^ 31" "32 \<le> lb" "n = nat \<bar>i\<bar>"
  shows "max (- (2 ^ (lb - 1))) (min (2 ^ (lb - 1) - 1) (if i < 0 then - int n else int n)) = i"
proof -
  have "(2 :: int) ^ 31 \<le> 2 ^ (lb - 1)" using assms(3) by (intro power_increasing) auto
  with assms(1,2,4) show ?thesis by auto
qed

lemma to_int_id: "- (2 ^ 31) \<le> i \<Longrightarrow> i < 2 ^ 31 \<Longrightarrow> to_int i = i"
  by (simp add: to_int_def sint32_of_int)

lemma strtol10_show_int:
  assumes "- (2 ^ 31) \<le> i" "i < 2 ^ 31" "32 \<le> lb" "ends_number r"
  shows "strtol10 lb (show_int i @ r) = (i, r)"
proof -
  obtain n where n: "n = nat \<bar>i\<bar>" by blast
  have d: "\<And>c. c \<in> set (dec_digits n) \<Longrightarrow> isdigit c" by (rule dec_digits_isdigit)
  have "dropWhile isdigit r = r" "takeWhile isdigit r = []" using assms(4) by (cases r; simp add: ends_number_def)+
  then have "dropWhile isdigit (dec_digits n @ r) = r" "takeWhile isdigit (dec_digits n @ r) \<noteq> []"
    using d by (simp_all add: dropWhile_append2 takeWhile_append2)
  moreover have "digits 10 0 (dec_digits n @ r) = n"
    using digits_dec [of 0 n r] digits_ends [OF assms(4), of n] by simp
  ultimately show ?thesis
    using strtol_show_int [OF assms(1-3) n] by (simp add: strtol10_def sign_show_int n [symmetric] strtol_def)
qed

lemma strtol0_show_int:
  assumes "- (2 ^ 31) \<le> i" "i < 2 ^ 31" "32 \<le> lb"
  shows "strtol0 lb (show_int i) = i"
proof -
  obtain n where n: "n = nat \<bar>i\<bar>" by blast
  note s = sign_show_int [of i "[]", simplified, folded n]
  have head: "hd (dec_digits n) = CHR ''0'' \<longleftrightarrow> i = 0" using n by (simp add: dec_digits_head)
  show ?thesis
  proof (cases "i = 0")
    case True
    then have "dec_digits n = [CHR ''0'']" using n by (subst dec_digits.simps) simp
    with s True show ?thesis by (simp add: strtol0_def text_base_def strtol_def digit_value_def)
  next
    case False
    obtain c t where c: "dec_digits n = c # t" by (meson dec_digits_start)
    with False head have "c \<noteq> CHR ''0''" by simp
    with c have "skip_0x (dec_digits n) = dec_digits n" by (cases "dec_digits n" rule: skip_0x.cases) auto
    with False head have "text_base (dec_digits n) = 10" by (simp add: text_base_def)
    moreover have "digits 10 0 (dec_digits n) = n" using digits_dec [of 0 n "[]"] by simp
    ultimately show ?thesis using strtol_show_int [OF assms n] by (simp add: strtol0_def s strtol_def)
  qed
qed

text \<open>The text of a size has none of the signs of the flat form, is read back, and fits its buffer.\<close>

lemma show_int_clean: "CHR ''='' \<notin> set (show_int i)" "CHR '';'' \<notin> set (show_int i)" "show_int i \<noteq> []"
proof -
  have "\<And>c. c \<in> set (show_int i) \<Longrightarrow> c = CHR ''-'' \<or> isdigit c" using dec_digits_isdigit by (auto simp: show_int_def split: if_splits)
  then show "CHR ''='' \<notin> set (show_int i)" "CHR '';'' \<notin> set (show_int i)" using isdigit_not by fastforce+
qed (simp add: show_int_def)

lemma parse_size_text:
  assumes "- (2 ^ 31) \<le> w" "w < 2 ^ 31" "- (2 ^ 31) \<le> h" "h < 2 ^ 31" "32 \<le> lb"
    "ends_number [delim]" "ends_number r"
  shows "parse_pair lb (size_text delim w h @ r) delim = Some (w, h, r)"
proof -
  have "ends_number (delim # show_int h @ r)" using assms(6) by (simp add: ends_number_def)
  from strtol10_show_int [OF assms(1,2,5) this] strtol10_show_int [OF assms(3-5,7)]
  show ?thesis using assms by (simp add: parse_pair_def size_text_def to_int_id)
qed

text \<open>The text of a size has at most 23 characters, the buffer 32.\<close>

lemma dec_digits_length: "n < 10 ^ k \<Longrightarrow> 0 < k \<Longrightarrow> length (dec_digits n) \<le> k"
proof (induction n arbitrary: k rule: dec_digits.induct)
  case (1 n)
  show ?case
  proof (cases "n < 10")
    case True
    with "1.prems" show ?thesis by (subst dec_digits.simps) simp
  next
    case False
    with "1.prems" have "k \<noteq> 1" by auto
    with "1.prems"(2) obtain j where j: "k = Suc j" "0 < j" by (cases k) auto
    with "1.prems" have "n div 10 < 10 ^ j" by (simp add: less_mult_imp_div_less mult.commute)
    with False j "1.IH" [OF False this j(2)] show ?thesis by (subst dec_digits.simps) simp
  qed
qed

lemma show_int_length: "- (2 ^ 31) \<le> i \<Longrightarrow> i < 2 ^ 31 \<Longrightarrow> length (show_int i) \<le> 11"
proof -
  assume "- (2 ^ 31) \<le> i" "i < 2 ^ 31"
  then have "nat i < 10 ^ 10" "nat (- i) < 10 ^ 10" by simp_all
  then show ?thesis
    using dec_digits_length [of "nat i" 10] dec_digits_length [of "nat (- i)" 10] by (auto simp: show_int_def)
qed

section \<open>What both classes of parameters share\<close>

text \<open>A store of texts: what is put for a key is what is found for it, for the texts \<open>set\<close> accepts.\<close>

definition clean :: "string \<Rightarrow> bool" where
  "clean s \<longleftrightarrow> CHR ''='' \<notin> set s \<and> CHR '';'' \<notin> set s"

definition int_range :: "int \<Rightarrow> bool" where
  "int_range i \<longleftrightarrow> - (2 ^ 31) \<le> i \<and> i < 2 ^ 31"

lemma clean_texts: "clean (show_int i)" "clean [delim] \<Longrightarrow> clean (size_text delim w h)" "size_text delim w h \<noteq> []"
  using show_int_clean by (auto simp: clean_def size_text_def)

locale text_store =
  fixes put :: "string \<Rightarrow> string \<Rightarrow> 's \<Rightarrow> 's"
    and look :: "string \<Rightarrow> 's \<Rightarrow> string option"
    and ok :: "'s \<Rightarrow> bool"
  assumes look_put: "ok s \<Longrightarrow> clean k \<Longrightarrow> clean v \<Longrightarrow> v \<noteq> [] \<Longrightarrow> look k (put k v s) = Some v"
    and put_ok: "ok s \<Longrightarrow> ok (put k v s)"
begin

lemma pair_stored:
  assumes "ok s" "clean k" "int_range w" "int_range h" "32 \<le> lb" "clean [delim]" "ends_number [delim]"
  shows "get_pair lb (look k (put k (size_text delim w h) s)) delim = (w, h)"
  using assms look_put [OF assms(1,2) clean_texts(2) [OF assms(6)] clean_texts(3)]
    parse_size_text [of w h lb delim "[]"]
  by (simp add: get_pair_def int_range_def ends_number_def)

lemma int_stored:
  assumes "ok s" "clean k" "int_range i" "32 \<le> lb"
  shows "getInt lb (look k (put k (show_int i) s)) = i"
  using assms look_put [OF assms(1,2) clean_texts(1) show_int_clean(3)] strtol0_show_int [of i lb]
  by (simp add: getInt_def int_range_def to_int_id)

end

section \<open>The class\<close>

definition kv_set_int :: "bool \<Rightarrow> string option \<Rightarrow> int \<Rightarrow> params \<Rightarrow> params" where
  "kv_set_int q key value m = kv_set q key (Some (show_int value)) m"

definition setPreviewSize :: "bool \<Rightarrow> int \<Rightarrow> int \<Rightarrow> params \<Rightarrow> params" where
  "setPreviewSize q w h m = kv_set q (Some ''preview-size'') (Some (size_text CHR ''x'' w h)) m"

definition getPreviewSize :: "nat \<Rightarrow> params \<Rightarrow> int \<times> int" where
  "getPreviewSize lb m = get_pair lb (kv_get ''preview-size'' m) CHR ''x''"

definition getPreferredPreviewSizeForVideo :: "nat \<Rightarrow> params \<Rightarrow> int \<times> int" where
  "getPreferredPreviewSizeForVideo lb m = get_pair lb (kv_get ''preferred-preview-size-for-video'' m) CHR ''x''"

definition getSupportedPreviewSizes :: "nat \<Rightarrow> params \<Rightarrow> (int \<times> int) list \<Rightarrow> (int \<times> int) list" where
  "getSupportedPreviewSizes lb m sizes = parseSizesList lb (kv_get ''preview-size-values'' m) sizes"

definition setVideoSize :: "bool \<Rightarrow> int \<Rightarrow> int \<Rightarrow> params \<Rightarrow> params" where
  "setVideoSize q w h m = kv_set q (Some ''video-size'') (Some (size_text CHR ''x'' w h)) m"

definition getVideoSize :: "nat \<Rightarrow> params \<Rightarrow> int \<times> int" where
  "getVideoSize lb m = get_pair lb (kv_get ''video-size'' m) CHR ''x''"

definition getSupportedVideoSizes :: "nat \<Rightarrow> params \<Rightarrow> (int \<times> int) list \<Rightarrow> (int \<times> int) list" where
  "getSupportedVideoSizes lb m sizes = parseSizesList lb (kv_get ''video-size-values'' m) sizes"

definition setPreviewFrameRate :: "bool \<Rightarrow> int \<Rightarrow> params \<Rightarrow> params" where
  "setPreviewFrameRate q fps m = kv_set_int q (Some ''preview-frame-rate'') fps m"

definition getPreviewFrameRate :: "nat \<Rightarrow> params \<Rightarrow> int" where
  "getPreviewFrameRate lb m = getInt lb (kv_get ''preview-frame-rate'' m)"

definition getPreviewFpsRange :: "nat \<Rightarrow> params \<Rightarrow> int \<times> int" where
  "getPreviewFpsRange lb m = get_pair lb (kv_get ''preview-fps-range'' m) CHR '',''"

definition setPreviewFormat :: "bool \<Rightarrow> string option \<Rightarrow> params \<Rightarrow> params" where
  "setPreviewFormat q format m = kv_set q (Some ''preview-format'') format m"

definition getPreviewFormat :: "params \<Rightarrow> string option" where
  "getPreviewFormat m = kv_get ''preview-format'' m"

definition setPictureSize :: "bool \<Rightarrow> int \<Rightarrow> int \<Rightarrow> params \<Rightarrow> params" where
  "setPictureSize q w h m = kv_set q (Some ''picture-size'') (Some (size_text CHR ''x'' w h)) m"

definition getPictureSize :: "nat \<Rightarrow> params \<Rightarrow> int \<times> int" where
  "getPictureSize lb m = get_pair lb (kv_get ''picture-size'' m) CHR ''x''"

definition getSupportedPictureSizes :: "nat \<Rightarrow> params \<Rightarrow> (int \<times> int) list \<Rightarrow> (int \<times> int) list" where
  "getSupportedPictureSizes lb m sizes = parseSizesList lb (kv_get ''picture-size-values'' m) sizes"

definition setPictureFormat :: "bool \<Rightarrow> string option \<Rightarrow> params \<Rightarrow> params" where
  "setPictureFormat q format m = kv_set q (Some ''picture-format'') format m"

definition getPictureFormat :: "params \<Rightarrow> string option" where
  "getPictureFormat m = kv_get ''picture-format'' m"

subsection \<open>Formats\<close>

datatype pixel_format =
  YCrCb_420_SP | YCbCr_422_SP | YCbCr_422_I | YV12 | RGB_565 | RGBA_8888 | RAW16

text \<open>\<open>None\<close> stands for the result -1, a NULL format for \<open>None\<close> on the left.\<close>

definition previewFormatToEnum :: "string option \<Rightarrow> pixel_format option" where
  "previewFormatToEnum format =
     (case format of
        None \<Rightarrow> Some YCrCb_420_SP
      | Some f \<Rightarrow>
          if f = ''yuv422sp'' then Some YCbCr_422_SP
          else if f = ''yuv420sp'' then Some YCrCb_420_SP
          else if f = ''yuv422i-yuyv'' then Some YCbCr_422_I
          else if f = ''yuv420p'' then Some YV12
          else if f = ''rgb565'' then Some RGB_565
          else if f = ''rgba8888'' then Some RGBA_8888
          else if f = ''bayer-rggb'' then Some RAW16
          else None)"

function format_loop :: "string \<Rightarrow> pixel_format list \<Rightarrow> pixel_format list" where
  "format_loop s formats =
     (case strtok CHR '','' s of
        None \<Rightarrow> formats
      | Some (fmt, s) \<Rightarrow>
          format_loop s (case previewFormatToEnum (Some fmt) of None \<Rightarrow> formats | Some f \<Rightarrow> formats @ [f]))"
  by pat_completeness auto
termination by (relation "measure (\<lambda>(s, _). length s)") (auto dest: strtok_shorter)

declare format_loop.simps [simp del]

definition getSupportedPreviewFormats :: "params \<Rightarrow> pixel_format list \<Rightarrow> pixel_format list" where
  "getSupportedPreviewFormats m formats =
     (case kv_get ''preview-format-values'' m of None \<Rightarrow> formats | Some s \<Rightarrow> format_loop s formats)"

subsection \<open>Its store\<close>

text \<open>The key the build for the chip adds is never in the way of the key that is set.\<close>

lemma kv_get_set:
  assumes "params_ok m" "clean k" "clean v" "v \<noteq> []"
  shows "kv_get k (kv_set q (Some k) (Some v) m) = Some v"
    "k' \<noteq> k \<Longrightarrow> k' \<noteq> ''hdr-need-1x'' \<Longrightarrow> kv_get k' (kv_set q (Some k) (Some v) m) = kv_get k' m"
proof -
  have h: "params_ok (kv_put ''hdr-need-1x'' ''false'' m)" using assms(1) by simp
  show "kv_get k (kv_set q (Some k) (Some v) m) = Some v"
    using assms h by (auto simp: kv_get_def kv_set_def clean_def Let_def)
  show "kv_get k' (kv_set q (Some k) (Some v) m) = kv_get k' m" if "k' \<noteq> k" "k' \<noteq> ''hdr-need-1x''"
    using assms h that by (auto simp: kv_get_def kv_set_def clean_def Let_def)
qed

interpretation cp: text_store "\<lambda>k v. kv_set q (Some k) (Some v)" kv_get params_ok for q
  by unfold_locales (simp_all add: kv_get_set)

text \<open>Sizes and rates survive: what the setters of the preview, video and picture size and of the
  frame rate were given is what the getters read, also from the map another process reads from the
  flat form.\<close>

theorem camera_sizes_kept:
  assumes "params_ok m" "int_range w" "int_range h" "32 \<le> lb"
  shows "getPreviewSize lb (unflatten (flatten (setPreviewSize q w h m))) = (w, h) \<and>
    getVideoSize lb (unflatten (flatten (setVideoSize q w h m))) = (w, h) \<and>
    getPictureSize lb (unflatten (flatten (setPictureSize q w h m))) = (w, h) \<and>
    getPreviewFrameRate lb (unflatten (flatten (setPreviewFrameRate q w m))) = w"
proof -
  have x: "clean ''x''" "ends_number ''x''" by (simp_all add: clean_def ends_number_def isdigit_def digit_value_def)
  have k: "clean ''preview-size''" "clean ''video-size''" "clean ''picture-size''" "clean ''preview-frame-rate''"
    by (simp_all add: clean_def)
  have r: "unflatten (flatten (kv_set q k v m)) = kv_set q k v m" for k v
    using assms(1) by (simp add: unflatten_flatten)
  note pair = cp.pair_stored [OF assms(1) _ assms(2-4) x]
  from pair [OF k(1), of q] pair [OF k(2), of q] pair [OF k(3), of q] cp.int_stored [OF assms(1) k(4) assms(2,4), of q]
  show ?thesis
    by (simp add: setPreviewSize_def getPreviewSize_def setVideoSize_def getVideoSize_def setPictureSize_def
        getPictureSize_def kv_set_int_def setPreviewFrameRate_def getPreviewFrameRate_def r)
qed

lemma camera_sizes_kept_witness:
  "getPictureSize 32 (unflatten (flatten (setPictureSize True 4160 3120 [(''zoom'', ''0'')]))) = (4160, 3120)"
proof -
  have "params_ok [(''zoom'', ''0'')]" by (simp add: params_ok_def)
  from camera_sizes_kept [OF this, of 4160 3120 32 True] show ?thesis by (simp add: int_range_def)
qed

subsection \<open>Lists of sizes\<close>

fun sizes_text :: "(int \<times> int) list \<Rightarrow> string" where
  "sizes_text [] = []"
| "sizes_text [(w, h)] = size_text CHR ''x'' w h"
| "sizes_text ((w, h) # s) = size_text CHR ''x'' w h @ CHR '','' # sizes_text s"

text \<open>The list of sizes a camera supports is read completely and in order: the text that lists
  them, separated by commas, gives exactly these sizes, behind those that were in the vector before.\<close>

theorem supported_sizes_roundtrip:
  assumes "sizes \<noteq> []" "\<forall>(w, h) \<in> set sizes. int_range w \<and> int_range h" "32 \<le> lb"
  shows "parseSizesList lb (Some (sizes_text sizes)) front = front @ sizes"
proof -
  have x: "ends_number ''x''" "ends_number []" "\<And>s. ends_number (CHR '','' # s)"
    by (simp_all add: ends_number_def isdigit_def digit_value_def)
  have "parse_sizes lb (sizes_text sizes) = sizes"
    using assms
  proof (induction sizes rule: sizes_text.induct)
    case (2 w h)
    then show ?case
      using parse_size_text [of w h lb "CHR ''x''" "[]"] x by (subst parse_sizes.simps) (simp add: int_range_def)
  next
    case (3 w h p s)
    then show ?case
      using parse_size_text [of w h lb "CHR ''x''" "CHR '','' # sizes_text (p # s)"] x
      by (subst parse_sizes.simps) (simp add: int_range_def)
  qed simp
  then show ?thesis by (simp add: parseSizesList_def)
qed

lemma supported_sizes_roundtrip_witness:
  "parseSizesList 32 (Some ''1920x1080,1280x720'') [] = [(1920, 1080), (1280, 720)]"
proof -
  have "sizes_text [(1920, 1080), (1280, 720)] = ''1920x1080,1280x720''" by code_simp
  with supported_sizes_roundtrip [of "[(1920, 1080), (1280, 720)]" 32 "[]"] show ?thesis by (simp add: int_range_def)
qed

text \<open>A sign that is not expected ends the list without an error.\<close>

lemma sizes_stop_at_space:
  "parseSizesList 32 (Some ''640x480, 320x240'') [] = [(640, 480), (320, 240)]"
  "parseSizesList 32 (Some ''640x480 ,320x240'') [] = []"
  by code_simp+

end
