(* ===== verification/CameraParams2.thy ===== *)
theory CameraParams2
  imports CameraParams
begin

text \<open>
  The second class of camera parameters, \<open>src/libshims/camera/CameraParameters2.cpp\<close> with the map of
  \<open>include/camera/CameraParameters2.h\<close>: the pairs in the order in which their keys were set last, so
  that of two parameters that exclude each other the later one can be told.
\<close>

section \<open>The map that keeps the order\<close>

text \<open>The position of the first pair with the key, \<open>None\<close> for \<open>NAME_NOT_FOUND\<close>.\<close>

fun indexOfKey :: "string \<Rightarrow> params \<Rightarrow> nat option" where
  "indexOfKey key [] = None"
| "indexOfKey key ((k, v) # m) = (if k = key then Some 0 else map_option Suc (indexOfKey key m))"

text \<open>The position is stored without its sign, so the test for a key that is not there is never true
  and the vector is asked to remove a position far behind its end, which it refuses.\<close>

definition removeAt :: "nat \<Rightarrow> params \<Rightarrow> params" where
  "removeAt i m = (if i < length m then take i m @ drop (Suc i) m else m)"

definition removeItem :: "string \<Rightarrow> params \<Rightarrow> params" where
  "removeItem key m = (case indexOfKey key m of None \<Rightarrow> m | Some i \<Rightarrow> removeAt i m)"

definition replaceValueFor :: "string \<Rightarrow> string \<Rightarrow> params \<Rightarrow> params" where
  "replaceValueFor key v m = removeItem key m @ [(key, v)]"

section \<open>The class\<close>

definition flatten2 :: "params \<Rightarrow> string" where
  "flatten2 m = flatten m"

function unflatten2_loop :: "string \<Rightarrow> params \<Rightarrow> params" where
  "unflatten2_loop a m =
     (case strchr CHR ''='' a of
        None \<Rightarrow> m
      | Some (k, a) \<Rightarrow>
          (case strchr CHR '';'' a of
             None \<Rightarrow> m @ [(k, a)]
           | Some (v, a) \<Rightarrow> unflatten2_loop a (m @ [(k, v)])))"
  by pat_completeness auto
termination by (relation "measure (\<lambda>(a, m). length a)") (auto dest!: strchr_length)

declare unflatten2_loop.simps [simp del]

definition unflatten2 :: "string \<Rightarrow> params" where
  "unflatten2 params = unflatten2_loop params []"

definition set2 :: "string \<Rightarrow> string \<Rightarrow> params \<Rightarrow> params" where
  "set2 key value m =
     (if CHR ''='' \<in> set key \<or> CHR '';'' \<in> set key then m
      else if CHR ''='' \<in> set value \<or> CHR '';'' \<in> set value then m
      else replaceValueFor key value m)"

definition set2_int :: "string \<Rightarrow> int \<Rightarrow> params \<Rightarrow> params" where
  "set2_int key value m = set2 key (show_int value) m"

definition get2 :: "string \<Rightarrow> params \<Rightarrow> string option" where
  "get2 key m = (case indexOfKey key m of None \<Rightarrow> None | Some i \<Rightarrow> Some (snd (m ! i)))"

definition remove2 :: "string \<Rightarrow> params \<Rightarrow> params" where
  "remove2 key m = removeItem key m"

datatype order_result = BAD_VALUE | NAME_NOT_FOUND | OK int

text \<open>The keys may be NULL, and \<open>has_order\<close> tells whether the pointer for the result is not.\<close>

definition compareSetOrder :: "string option \<Rightarrow> string option \<Rightarrow> bool \<Rightarrow> params \<Rightarrow> order_result" where
  "compareSetOrder key1 key2 has_order m =
     (case key1 of
        None \<Rightarrow> BAD_VALUE
      | Some k1 \<Rightarrow>
          (case key2 of
             None \<Rightarrow> BAD_VALUE
           | Some k2 \<Rightarrow>
               if \<not> has_order then BAD_VALUE
               else (case indexOfKey k1 m of
                       None \<Rightarrow> NAME_NOT_FOUND
                     | Some i1 \<Rightarrow>
                         (case indexOfKey k2 m of
                            None \<Rightarrow> NAME_NOT_FOUND
                          | Some i2 \<Rightarrow> OK (if i1 = i2 then 0 else if i1 < i2 then -1 else 1)))))"

definition setPreviewSize2 :: "int \<Rightarrow> int \<Rightarrow> params \<Rightarrow> params" where
  "setPreviewSize2 w h m = set2 ''preview-size'' (size_text CHR ''x'' w h) m"

definition getPreviewSize2 :: "nat \<Rightarrow> params \<Rightarrow> int \<times> int" where
  "getPreviewSize2 lb m = get_pair lb (get2 ''preview-size'' m) CHR ''x''"

definition getPreferredPreviewSizeForVideo2 :: "nat \<Rightarrow> params \<Rightarrow> int \<times> int" where
  "getPreferredPreviewSizeForVideo2 lb m = get_pair lb (get2 ''preferred-preview-size-for-video'' m) CHR ''x''"

definition getSupportedPreviewSizes2 :: "nat \<Rightarrow> params \<Rightarrow> (int \<times> int) list \<Rightarrow> (int \<times> int) list" where
  "getSupportedPreviewSizes2 lb m sizes = parseSizesList lb (get2 ''preview-size-values'' m) sizes"

definition setVideoSize2 :: "int \<Rightarrow> int \<Rightarrow> params \<Rightarrow> params" where
  "setVideoSize2 w h m = set2 ''video-size'' (size_text CHR ''x'' w h) m"

definition getVideoSize2 :: "nat \<Rightarrow> params \<Rightarrow> int \<times> int" where
  "getVideoSize2 lb m = get_pair lb (get2 ''video-size'' m) CHR ''x''"

definition getSupportedVideoSizes2 :: "nat \<Rightarrow> params \<Rightarrow> (int \<times> int) list \<Rightarrow> (int \<times> int) list" where
  "getSupportedVideoSizes2 lb m sizes = parseSizesList lb (get2 ''video-size-values'' m) sizes"

definition setPreviewFrameRate2 :: "int \<Rightarrow> params \<Rightarrow> params" where
  "setPreviewFrameRate2 fps m = set2_int ''preview-frame-rate'' fps m"

definition getPreviewFrameRate2 :: "nat \<Rightarrow> params \<Rightarrow> int" where
  "getPreviewFrameRate2 lb m = getInt lb (get2 ''preview-frame-rate'' m)"

definition setPreviewFpsRange2 :: "int \<Rightarrow> int \<Rightarrow> params \<Rightarrow> params" where
  "setPreviewFpsRange2 min_fps max_fps m = set2 ''preview-fps-range'' (size_text CHR '','' min_fps max_fps) m"

definition getPreviewFpsRange2 :: "nat \<Rightarrow> params \<Rightarrow> int \<times> int" where
  "getPreviewFpsRange2 lb m = get_pair lb (get2 ''preview-fps-range'' m) CHR '',''"

definition setPreviewFormat2 :: "string \<Rightarrow> params \<Rightarrow> params" where
  "setPreviewFormat2 format m = set2 ''preview-format'' format m"

definition getPreviewFormat2 :: "params \<Rightarrow> string option" where
  "getPreviewFormat2 m = get2 ''preview-format'' m"

definition setPictureSize2 :: "int \<Rightarrow> int \<Rightarrow> params \<Rightarrow> params" where
  "setPictureSize2 w h m = set2 ''picture-size'' (size_text CHR ''x'' w h) m"

definition getPictureSize2 :: "nat \<Rightarrow> params \<Rightarrow> int \<times> int" where
  "getPictureSize2 lb m = get_pair lb (get2 ''picture-size'' m) CHR ''x''"

definition getSupportedPictureSizes2 :: "nat \<Rightarrow> params \<Rightarrow> (int \<times> int) list \<Rightarrow> (int \<times> int) list" where
  "getSupportedPictureSizes2 lb m sizes = parseSizesList lb (get2 ''picture-size-values'' m) sizes"

definition setPictureFormat2 :: "string \<Rightarrow> params \<Rightarrow> params" where
  "setPictureFormat2 format m = set2 ''picture-format'' format m"

definition getPictureFormat2 :: "params \<Rightarrow> string option" where
  "getPictureFormat2 m = get2 ''picture-format'' m"

section \<open>The order\<close>

lemma indexOfKey_None: "indexOfKey k m = None \<longleftrightarrow> k \<notin> fst ` set m"
  by (induction k m rule: indexOfKey.induct) force+

lemma indexOfKey_Some: "indexOfKey k m = Some i \<Longrightarrow> i < length m \<and> fst (m ! i) = k"
  by (induction k m arbitrary: i rule: indexOfKey.induct) (auto split: if_splits)

lemma indexOfKey_append:
  "indexOfKey k (a @ b) = (case indexOfKey k a of None \<Rightarrow> map_option ((+) (length a)) (indexOfKey k b) | Some i \<Rightarrow> Some i)"
proof (induction k a rule: indexOfKey.induct)
  case (1 key)
  then show ?case by (cases "indexOfKey key b") simp_all
next
  case (2 key k v m)
  then show ?case by (cases "indexOfKey key b") (auto split: option.splits)
qed

lemma get2_map_of: "get2 k m = map_of m k"
proof (induction k m rule: indexOfKey.induct)
  case (2 key k v m)
  then show ?case by (auto simp: get2_def split: option.splits)
qed (simp add: get2_def)

lemma removeItem_filter: "distinct (map fst m) \<Longrightarrow> removeItem k m = filter (\<lambda>x. fst x \<noteq> k) m"
proof (induction k m rule: indexOfKey.induct)
  case (2 key k v m)
  show ?case
  proof (cases "k = key")
    case True
    then have "filter (\<lambda>x. fst x \<noteq> key) m = m" using "2.prems" by (force simp: filter_id_conv)
    with True show ?thesis by (simp add: removeItem_def removeAt_def)
  next
    case False
    with 2 show ?thesis by (auto simp: removeItem_def removeAt_def split: option.splits if_splits dest: indexOfKey_Some)
  qed
qed (simp add: removeItem_def)

text \<open>The keys are in the map once each: as it is made by \<open>set\<close>, though not as \<open>unflatten\<close> may leave it.\<close>

definition keys_once :: "params \<Rightarrow> bool" where
  "keys_once m \<longleftrightarrow> distinct (map fst m)"

lemma replace_once:
  assumes "keys_once m"
  shows "replaceValueFor k v m = filter (\<lambda>x. fst x \<noteq> k) m @ [(k, v)]" "keys_once (replaceValueFor k v m)"
proof -
  show r: "replaceValueFor k v m = filter (\<lambda>x. fst x \<noteq> k) m @ [(k, v)]"
    using assms by (simp add: replaceValueFor_def removeItem_filter keys_once_def)
  show "keys_once (replaceValueFor k v m)"
    using assms distinct_map_filter [of fst m "\<lambda>x. fst x \<noteq> k"] by (auto simp: r keys_once_def)
qed

lemma map_of_filter_key: "[k \<mapsto> v] ++ map_of (filter (\<lambda>x. fst x \<noteq> k) m) = (map_of m)(k \<mapsto> v)"
proof (induction m)
  case (Cons x m)
  show ?case
  proof (cases "fst x = k")
    case True
    then show ?thesis using Cons by (cases x) (simp del: fun_upd_apply)
  next
    case False
    then have "[k \<mapsto> v] ++ map_of (filter (\<lambda>x. fst x \<noteq> k) (x # m)) = ((map_of m)(k \<mapsto> v))(fst x \<mapsto> snd x)"
      using Cons by (simp del: fun_upd_apply)
    also have "\<dots> = ((map_of m)(fst x \<mapsto> snd x))(k \<mapsto> v)" using False [symmetric] by (rule fun_upd_twist)
    finally show ?thesis by (simp only: map_of.simps)
  qed
qed simp

lemma set2_once:
  assumes "keys_once m"
  shows "keys_once (set2 k v m)" "clean k \<Longrightarrow> clean v \<Longrightarrow> map_of (set2 k v m) = (map_of m)(k \<mapsto> v)"
    "clean k \<Longrightarrow> clean v \<Longrightarrow> map fst (set2 k v m) = filter (\<lambda>x. x \<noteq> k) (map fst m) @ [k]"
  using assms replace_once [OF assms] by (auto simp: set2_def clean_def map_of_filter_key filter_map comp_def)

interpretation cp2: text_store set2 get2 keys_once
  by unfold_locales (simp_all add: set2_once get2_map_of)

definition set_all :: "(string \<times> string) list \<Rightarrow> params" where
  "set_all ops = fold (\<lambda>(k, v). set2 k v) ops []"

lemma set_all_snoc: "set_all (ops @ [(k, v)]) = set2 k v (set_all ops)"
  by (simp add: set_all_def)

lemma remdups_snoc: "remdups (xs @ [x]) = filter (\<lambda>y. y \<noteq> x) (remdups xs) @ [x]"
  by (induction xs) auto

lemma set_all_spec:
  "\<forall>(k, v) \<in> set ops. clean k \<and> clean v \<Longrightarrow>
   keys_once (set_all ops) \<and> map fst (set_all ops) = remdups (map fst ops) \<and>
   map_of (set_all ops) = map_of (rev ops)"
proof (induction ops rule: rev_induct)
  case (snoc x ops)
  obtain k v where x: "x = (k, v)" by force
  with snoc.prems have c: "clean k" "clean v" by auto
  from snoc have ih: "keys_once (set_all ops)" "map fst (set_all ops) = remdups (map fst ops)"
    "map_of (set_all ops) = map_of (rev ops)" by auto
  show ?case using set2_once(1) [OF ih(1)] set2_once(2,3) [OF ih(1) c] ih
    by (simp add: x set_all_snoc remdups_snoc del: remdups_append)
qed (simp add: set_all_def keys_once_def)

lemma indexOfKey_keys: "indexOfKey k m = indexOfKey k (map (\<lambda>x. (fst x, y)) m)"
  by (induction k m rule: indexOfKey.induct) auto

text \<open>C30: After any accepted calls of \<open>set\<close> the keys are in the map once each and in the order of their
  last calls, every key has the value of its last call, and \<open>compareSetOrder\<close> puts a key that was
  set last behind every other key.\<close>

theorem set_order_kept:
  assumes "\<forall>(k, v) \<in> set (ops @ [(k2, v2)]). clean k \<and> clean v" "k1 \<in> set (map fst ops)" "k1 \<noteq> k2"
  shows "map fst (set_all ops) = remdups (map fst ops) \<and> (\<forall>k. get2 k (set_all ops) = map_of (rev ops) k) \<and>
    compareSetOrder (Some k1) (Some k2) True (set_all (ops @ [(k2, v2)])) = OK (- 1) \<and>
    compareSetOrder (Some k2) (Some k1) True (set_all (ops @ [(k2, v2)])) = OK 1"
proof -
  have c: "\<forall>(k, v) \<in> set ops. clean k \<and> clean v" using assms(1) by auto
  have c2: "clean k2" "clean v2" using assms(1) by auto
  note s = set_all_spec [OF c]
  let ?m = "filter (\<lambda>x. fst x \<noteq> k2) (set_all ops)"
  have m: "set_all (ops @ [(k2, v2)]) = ?m @ [(k2, v2)]"
    using c2 s replace_once(1) [of "set_all ops" k2 v2] by (simp add: set_all_snoc set2_def clean_def)
  have "k1 \<in> set (map fst (set_all ops))" using assms(2) s by simp
  then have "k1 \<in> fst ` set ?m" using assms(3) by auto
  then obtain i where i: "indexOfKey k1 ?m = Some i" by (cases "indexOfKey k1 ?m") (auto simp: indexOfKey_None)
  have "indexOfKey k2 ?m = None" by (auto simp: indexOfKey_None)
  then have "indexOfKey k2 (?m @ [(k2, v2)]) = Some (length ?m)" by (simp add: indexOfKey_append)
  moreover have "indexOfKey k1 (?m @ [(k2, v2)]) = Some i" "i < length ?m"
    using i indexOfKey_Some [OF i] by (simp_all add: indexOfKey_append)
  ultimately show ?thesis using s m by (simp add: compareSetOrder_def get2_map_of)
qed

lemma set_order_kept_witness:
  "compareSetOrder (Some ''preview-fps-range'') (Some ''preview-frame-rate'') True
     (set_all ([(''preview-frame-rate'', ''30''), (''preview-fps-range'', ''15000,30000'')] @ [(''preview-frame-rate'', ''24'')])) =
   OK (- 1)"
proof -
  have "\<forall>(k, v) \<in> set ([(''preview-frame-rate'', ''30''), (''preview-fps-range'', ''15000,30000'')] @
      [(''preview-frame-rate'', ''24'')]). clean k \<and> clean v"
    by (simp add: clean_def)
  moreover have "''preview-fps-range'' \<in> set (map fst [(''preview-frame-rate'', ''30''), (''preview-fps-range'', ''15000,30000'')])"
    "''preview-fps-range'' \<noteq> ''preview-frame-rate''" by simp_all
  ultimately show ?thesis by (rule set_order_kept [THEN conjunct2, THEN conjunct2, THEN conjunct1])
qed

section \<open>Writing and reading back\<close>

lemma unflatten2_flatten_loop:
  "\<forall>(k, v) \<in> set m. CHR ''='' \<notin> set k \<and> CHR '';'' \<notin> set v \<Longrightarrow> unflatten2_loop (flatten m) front = front @ m"
proof (induction m arbitrary: front rule: flatten.induct)
  case 1
  then show ?case by (subst unflatten2_loop.simps) (simp add: strchr_def)
next
  case (2 k v)
  then show ?case by (subst unflatten2_loop.simps) (simp add: strchr_append strchr_parts(2) [THEN iffD2])
next
  case (3 k v p m)
  then have "unflatten2_loop (flatten (p # m)) (front @ [(k, v)]) = (front @ [(k, v)]) @ p # m" by simp
  with 3 show ?case by (subst unflatten2_loop.simps) (simp add: strchr_append)
qed

text \<open>The order survives the way through one string: what accepted calls of \<open>set\<close> have made is read
  back from its flat form pair for pair, and the sizes, the rate and the range of rates that are set on
  top of it are read back as they were given.\<close>

theorem params2_roundtrip:
  assumes "\<forall>(k, v) \<in> set ops. clean k \<and> clean v" "int_range w" "int_range h" "32 \<le> lb"
  shows "unflatten2 (flatten2 (set_all ops)) = set_all ops \<and>
    getPreviewSize2 lb (setPreviewSize2 w h (unflatten2 (flatten2 (set_all ops)))) = (w, h) \<and>
    getPictureSize2 lb (setPictureSize2 w h (unflatten2 (flatten2 (set_all ops)))) = (w, h) \<and>
    getVideoSize2 lb (setVideoSize2 w h (unflatten2 (flatten2 (set_all ops)))) = (w, h) \<and>
    getPreviewFpsRange2 lb (setPreviewFpsRange2 w h (unflatten2 (flatten2 (set_all ops)))) = (w, h) \<and>
    getPreviewFrameRate2 lb (setPreviewFrameRate2 w (unflatten2 (flatten2 (set_all ops)))) = w"
proof -
  note s = set_all_spec [OF assms(1)]
  have "\<forall>(k, v) \<in> set (set_all ops). CHR ''='' \<notin> set k \<and> CHR '';'' \<notin> set v"
  proof (intro ballI)
    fix x assume "x \<in> set (set_all ops)"
    moreover from this s have "map_of (rev ops) (fst x) = Some (snd x)"
      by (metis keys_once_def map_of_is_SomeI prod.collapse)
    then have "x \<in> set ops" using map_of_SomeD by fastforce
    with assms(1) show "case x of (k, v) \<Rightarrow> CHR ''='' \<notin> set k \<and> CHR '';'' \<notin> set v" by (auto simp: clean_def)
  qed
  then have r: "unflatten2 (flatten2 (set_all ops)) = set_all ops"
    by (simp add: unflatten2_def flatten2_def unflatten2_flatten_loop)
  have x: "clean ''x''" "ends_number ''x''" "clean '',''" "ends_number '',''"
    by (simp_all add: clean_def ends_number_def isdigit_def digit_value_def)
  have k: "clean ''preview-size''" "clean ''video-size''" "clean ''picture-size''" "clean ''preview-frame-rate''"
    "clean ''preview-fps-range''"
    by (simp_all add: clean_def)
  have ok: "keys_once (set_all ops)" using s by simp
  note pair = cp2.pair_stored [OF ok _ assms(2-4) x(1,2)]
  from pair [OF k(1)] pair [OF k(2)] pair [OF k(3)] cp2.int_stored [OF ok k(4) assms(2,4)]
    cp2.pair_stored [OF ok k(5) assms(2-4) x(3,4)]
  show ?thesis
    by (simp add: r setPreviewSize2_def getPreviewSize2_def setVideoSize2_def getVideoSize2_def setPictureSize2_def
        getPictureSize2_def set2_int_def setPreviewFrameRate2_def getPreviewFrameRate2_def setPreviewFpsRange2_def getPreviewFpsRange2_def)
qed

lemma params2_roundtrip_witness:
  "getPreviewFpsRange2 64 (setPreviewFpsRange2 15000 30000 (unflatten2 (flatten2 (set_all [(''zoom'', ''3'')])))) = (15000, 30000)"
  by (rule params2_roundtrip [THEN conjunct2, THEN conjunct2, THEN conjunct2, THEN conjunct2, THEN conjunct1])
    (simp_all add: clean_def int_range_def)

section \<open>Keys that come twice\<close>

text \<open>\<open>unflatten\<close> adds every pair it finds. When a key comes twice in the text, \<open>set\<close> replaces the first
  pair only, and \<open>get\<close> goes on to find the other one, with the value the text had for it.\<close>

lemma duplicate_key_is_stale:
  "get2 ''zoom'' (set2 ''zoom'' ''9'' (unflatten2 ''zoom=1;zoom=2'')) = Some ''2''"
  "kv_get ''zoom'' (kv_set False (Some ''zoom'') (Some ''9'') (unflatten ''zoom=1;zoom=2'')) = Some ''9''"
  by code_simp+

text \<open>An empty value is a value for one class and none for the other.\<close>

lemma empty_value_differs:
  "get2 ''flash-mode'' (unflatten2 ''flash-mode='') = Some []"
  "kv_get ''flash-mode'' (unflatten ''flash-mode='') = None"
  by code_simp+

end
