(* ===== verification/CameraWrapper.thy ===== *)
theory CameraWrapper
  imports CameraParams
begin

text \<open>
  The camera module of the device, \<open>src/camera/CameraWrapper.cpp\<close>: it opens the camera of the vendor's
  module, corrects the parameters that go through it in both directions, and passes every other
  call on. The strings it gives to the vendor are kept in one array for all cameras.
\<close>

section \<open>The vendor's module and the wrapper's memory\<close>

datatype camera_call =
  Set_preview_window addr | Set_callbacks "addr list" | Enable_msg_type int | Disable_msg_type int
| Msg_type_enabled int | Start_preview | Stop_preview | Preview_enabled | Store_meta_data_in_buffers int
| Start_recording | Stop_recording | Recording_enabled | Release_recording_frame addr | Auto_focus
| Cancel_auto_focus | Take_picture | Cancel_picture | Set_parameters string | Get_parameters
| Put_parameters string | Send_command int int int | Release | Dump int | Close

text \<open>What the vendor's module answers; \<open>None\<close> is the result of a function without one. The module of
  the vendor is not part of the repository; \<open>qcom_hardware\<close> tells whether \<open>QCOM_HARDWARE\<close> is defined.\<close>

record vendor_env =
  module_rv :: int
  num_cameras :: int
  vendor_open :: "string \<Rightarrow> int \<times> nat"
  vendor_answer :: "nat \<Rightarrow> camera_call \<Rightarrow> int option"
  vendor_params :: "(nat \<times> camera_call) list \<Rightarrow> nat \<Rightarrow> string"
  vendor_info :: "int \<Rightarrow> int"
  long_bits :: nat
  qcom_hardware :: bool

record extra_keys =
  KEY_QC_LONGSHOT_SUPPORTED :: string
  KEY_QC_MANUAL_FOCUS_POSITION :: string
  KEY_QC_MANUAL_FOCUS_POS_TYPE :: string
  KEY_QC_FOCUS_POSITION_SCALE :: string
  KEY_QC_FOCUS_POSITION_DIOPTER :: string
  KEY_QC_HDR_NEED_1X :: string

text \<open>The keys of the chip's camera are those of \<open>src/include/camera/CameraParametersExtra.h\<close>; the
  functions have them as an argument.\<close>

definition camera_parameters_extra :: extra_keys where
  "camera_parameters_extra =
     \<lparr>KEY_QC_LONGSHOT_SUPPORTED = ''longshot-supported'', KEY_QC_MANUAL_FOCUS_POSITION = ''manual-focus-position'',
      KEY_QC_MANUAL_FOCUS_POS_TYPE = ''manual-focus-pos-type'', KEY_QC_FOCUS_POSITION_SCALE = ''cur-focus-scale'',
      KEY_QC_FOCUS_POSITION_DIOPTER = ''cur-focus-diopter'', KEY_QC_HDR_NEED_1X = ''hdr-need-1x''\<rparr>"

record wrapper_camera_device =
  dev_id :: int
  dev_vendor :: nat
  dev_ops :: addr

text \<open>Memory that is free, or was never allocated, is \<open>None\<close>; using it is an error, and the result of
  the whole call \<open>None\<close>.\<close>

record camera_state =
  gVendorModule :: bool
  fixed_set_params :: "addr option"
  arrays :: "addr \<Rightarrow> addr option list option"
  strs :: "addr \<Rightarrow> string option"
  devs :: "addr \<Rightarrow> wrapper_camera_device option"
  ops_tables :: "addr \<Rightarrow> bool"
  next_addr :: addr
  calls :: "(nat \<times> camera_call) list"

definition EINVAL :: int where "EINVAL = 22"
definition ENOMEM :: int where "ENOMEM = 12"

definition check_vendor_module :: "vendor_env \<Rightarrow> camera_state \<Rightarrow> int \<times> camera_state" where
  "check_vendor_module e s =
     (if gVendorModule s then (0, s)
      else if module_rv e \<noteq> 0 then (module_rv e, s) else (0, s\<lparr>gVendorModule := True\<rparr>))"

definition new_str :: "string \<Rightarrow> camera_state \<Rightarrow> addr \<times> camera_state" where
  "new_str t s = (next_addr s, s\<lparr>strs := (strs s)(next_addr s \<mapsto> t), next_addr := Suc (next_addr s)\<rparr>)"

definition free_str :: "addr \<Rightarrow> camera_state \<Rightarrow> camera_state option" where
  "free_str p s = (if strs s p = None then None else Some (s\<lparr>strs := (strs s)(p := None)\<rparr>))"

section \<open>Correcting the parameters\<close>

definition camera_fixup_getparams :: "vendor_env \<Rightarrow> extra_keys \<Rightarrow> string \<Rightarrow> string" where
  "camera_fixup_getparams e k settings =
     (let m = unflatten settings;
          m = kv_remove (KEY_QC_LONGSHOT_SUPPORTED k) m;
          m = kv_remove ''auto-whitebalance-lock-supported'' m;
          m = kv_set (qcom_hardware e) (Some ''scene-mode-values'') (Some ''auto,hdr'') m;
          pos = kv_get (KEY_QC_MANUAL_FOCUS_POSITION k) m;
          ty = kv_get (KEY_QC_MANUAL_FOCUS_POS_TYPE k) m;
          val = (case pos of Some p \<Rightarrow> p | None \<Rightarrow> ''0'');
          m = (case ty of
                 None \<Rightarrow> m
               | Some t \<Rightarrow>
                   if t = ''2'' then kv_set (qcom_hardware e) (Some (KEY_QC_FOCUS_POSITION_SCALE k)) (Some val) m
                   else if t = ''3'' then kv_set (qcom_hardware e) (Some (KEY_QC_FOCUS_POSITION_DIOPTER k)) (Some val) m
                   else m)
      in flatten m)"

definition fixed_settings :: "extra_keys \<Rightarrow> string \<Rightarrow> string" where
  "fixed_settings k settings =
     (let m = unflatten settings
      in flatten (case kv_get ''scene-mode'' m of
                    None \<Rightarrow> m
                  | Some t \<Rightarrow> if t = ''hdr'' then kv_remove (KEY_QC_HDR_NEED_1X k) m else m))"

text \<open>The entry of the camera in the array is read, its string freed, and the new one put there.\<close>

definition camera_fixup_setparams :: "extra_keys \<Rightarrow> int \<Rightarrow> string \<Rightarrow> camera_state \<Rightarrow> (addr \<times> camera_state) option" where
  "camera_fixup_setparams k cid settings s =
     do {
       a \<leftarrow> fixed_set_params s;
       arr \<leftarrow> arrays s a;
       if cid < 0 \<or> cid \<ge> int (length arr) then None
       else do {
         s \<leftarrow> (case arr ! nat cid of None \<Rightarrow> Some s | Some p \<Rightarrow> free_str p s);
         let (p, s) = new_str (fixed_settings k settings) s;
         Some (p, s\<lparr>arrays := (arrays s)(a \<mapsto> arr[nat cid := Some p])\<rparr>)
       }
     }"

section \<open>Calls of a device\<close>

text \<open>\<open>VENDOR_CALL\<close> on a device the wrapper made; a NULL device has the result \<open>failed\<close>.\<close>

definition vendor_call ::
  "vendor_env \<Rightarrow> int option \<Rightarrow> camera_call \<Rightarrow> addr option \<Rightarrow> camera_state \<Rightarrow> (int option \<times> camera_state) option" where
  "vendor_call e failed c device s =
     (case device of
        None \<Rightarrow> Some (failed, s)
      | Some d \<Rightarrow>
          do {
            dev \<leftarrow> devs s d;
            Some (vendor_answer e (dev_vendor dev) c, s\<lparr>calls := calls s @ [(dev_vendor dev, c)]\<rparr>)
          })"

definition camera_set_preview_window where
  "camera_set_preview_window e device window s = vendor_call e (Some (- EINVAL)) (Set_preview_window window) device s"

definition camera_set_callbacks where
  "camera_set_callbacks e device cbs s = vendor_call e None (Set_callbacks cbs) device s"

definition camera_enable_msg_type where
  "camera_enable_msg_type e device msg_type s = vendor_call e None (Enable_msg_type msg_type) device s"

definition camera_disable_msg_type where
  "camera_disable_msg_type e device msg_type s = vendor_call e None (Disable_msg_type msg_type) device s"

definition camera_msg_type_enabled where
  "camera_msg_type_enabled e device msg_type s = vendor_call e (Some 0) (Msg_type_enabled msg_type) device s"

definition camera_start_preview where
  "camera_start_preview e device s = vendor_call e (Some (- EINVAL)) Start_preview device s"

definition camera_stop_preview where
  "camera_stop_preview e device s = vendor_call e None Stop_preview device s"

definition camera_preview_enabled where
  "camera_preview_enabled e device s = vendor_call e (Some (- EINVAL)) Preview_enabled device s"

definition camera_store_meta_data_in_buffers where
  "camera_store_meta_data_in_buffers e device enable s =
     vendor_call e (Some (- EINVAL)) (Store_meta_data_in_buffers enable) device s"

text \<open>The only one whose error has the other sign.\<close>

definition camera_start_recording where
  "camera_start_recording e device s = vendor_call e (Some EINVAL) Start_recording device s"

definition camera_stop_recording where
  "camera_stop_recording e device s = vendor_call e None Stop_recording device s"

definition camera_recording_enabled where
  "camera_recording_enabled e device s = vendor_call e (Some (- EINVAL)) Recording_enabled device s"

definition camera_release_recording_frame where
  "camera_release_recording_frame e device frame s = vendor_call e None (Release_recording_frame frame) device s"

definition camera_auto_focus where
  "camera_auto_focus e device s = vendor_call e (Some (- EINVAL)) Auto_focus device s"

definition camera_cancel_auto_focus where
  "camera_cancel_auto_focus e device s = vendor_call e (Some (- EINVAL)) Cancel_auto_focus device s"

definition camera_take_picture where
  "camera_take_picture e device s = vendor_call e (Some (- EINVAL)) Take_picture device s"

definition camera_cancel_picture where
  "camera_cancel_picture e device s = vendor_call e (Some (- EINVAL)) Cancel_picture device s"

definition camera_send_command where
  "camera_send_command e device cmd arg1 arg2 s = vendor_call e (Some (- EINVAL)) (Send_command cmd arg1 arg2) device s"

definition camera_release where
  "camera_release e device s = vendor_call e None Release device s"

definition camera_dump where
  "camera_dump e device fd s = vendor_call e (Some (- EINVAL)) (Dump fd) device s"

definition camera_set_parameters ::
  "vendor_env \<Rightarrow> extra_keys \<Rightarrow> addr option \<Rightarrow> string \<Rightarrow> camera_state \<Rightarrow> (int option \<times> camera_state) option" where
  "camera_set_parameters e k device params s =
     (case device of
        None \<Rightarrow> Some (Some (- EINVAL), s)
      | Some d \<Rightarrow>
          do {
            dev \<leftarrow> devs s d;
            (tmp, s) \<leftarrow> camera_fixup_setparams k (dev_id dev) params s;
            t \<leftarrow> strs s tmp;
            vendor_call e (Some (- EINVAL)) (Set_parameters t) device s
          })"

definition camera_get_parameters ::
  "vendor_env \<Rightarrow> extra_keys \<Rightarrow> addr option \<Rightarrow> camera_state \<Rightarrow> (addr option \<times> camera_state) option" where
  "camera_get_parameters e k device s =
     (case device of
        None \<Rightarrow> Some (None, s)
      | Some d \<Rightarrow>
          do {
            dev \<leftarrow> devs s d;
            let params = vendor_params e (calls s) (dev_vendor dev);
            (_, s) \<leftarrow> vendor_call e None Get_parameters device s;
            let (tmp, s) = new_str (camera_fixup_getparams e k params) s;
            (_, s) \<leftarrow> vendor_call e None (Put_parameters params) device s;
            Some (Some tmp, s)
          })"

definition camera_put_parameters :: "addr option \<Rightarrow> camera_state \<Rightarrow> camera_state option" where
  "camera_put_parameters params s = (case params of None \<Rightarrow> Some s | Some p \<Rightarrow> free_str p s)"

section \<open>The module\<close>

definition camera_get_number_of_cameras :: "vendor_env \<Rightarrow> camera_state \<Rightarrow> int \<times> camera_state" where
  "camera_get_number_of_cameras e s =
     (case check_vendor_module e s of (rv, s) \<Rightarrow> if rv \<noteq> 0 then (0, s) else (num_cameras e, s))"

text \<open>Without the vendor's module the answer is 0, which is success.\<close>

definition camera_get_camera_info :: "vendor_env \<Rightarrow> int \<Rightarrow> camera_state \<Rightarrow> int \<times> camera_state" where
  "camera_get_camera_info e camera_id s =
     (case check_vendor_module e s of (rv, s) \<Rightarrow> if rv \<noteq> 0 then (0, s) else (vendor_info e camera_id, s))"

text \<open>The loop of the closing frees what is in the array, but leaves the pointers there.\<close>

fun free_entries :: "addr option list \<Rightarrow> nat list \<Rightarrow> camera_state \<Rightarrow> camera_state option" where
  "free_entries arr [] s = Some s"
| "free_entries arr (i # is) s =
     (if i \<ge> length arr then None
      else (case arr ! i of
              None \<Rightarrow> free_entries arr is s
            | Some p \<Rightarrow> (case free_str p s of None \<Rightarrow> None | Some s \<Rightarrow> free_entries arr is s)))"

definition camera_device_close :: "vendor_env \<Rightarrow> addr option \<Rightarrow> camera_state \<Rightarrow> (int \<times> camera_state) option" where
  "camera_device_close e device s =
     (case device of
        None \<Rightarrow> Some (- EINVAL, s)
      | Some d \<Rightarrow>
          do {
            let (n, s) = camera_get_number_of_cameras e s;
            s \<leftarrow> (if n \<le> 0 then Some s
                  else do { a \<leftarrow> fixed_set_params s; arr \<leftarrow> arrays s a; free_entries arr [0 ..< nat n] s });
            dev \<leftarrow> devs s d;
            let s = s\<lparr>calls := calls s @ [(dev_vendor dev, Close)]\<rparr>;
            s \<leftarrow> (if ops_tables s (dev_ops dev) then Some (s\<lparr>ops_tables := (ops_tables s)(dev_ops dev := False)\<rparr>) else None);
            Some (0, s\<lparr>devs := (devs s)(d := None)\<rparr>)
          })"

text \<open>\<open>fits\<close> tells which of the three allocations succeed. The result has what is stored through the
  pointer for the device: \<open>None\<close> if nothing is, \<open>Some None\<close> for NULL.\<close>

definition camera_device_open ::
  "vendor_env \<Rightarrow> bool \<times> bool \<times> bool \<Rightarrow> string option \<Rightarrow> camera_state \<Rightarrow> int \<times> addr option option \<times> camera_state" where
  "camera_device_open e fits name s =
     (case name of
        None \<Rightarrow> (0, None, s)
      | Some name \<Rightarrow>
          (case check_vendor_module e s of (rv, s) \<Rightarrow>
             if rv \<noteq> 0 then (- EINVAL, None, s)
             else
               let cameraid = to_int (strtol (long_bits e) name 10);
                   (fits_array, fits_device, fits_ops) = fits
               in if \<not> fits_array then (- ENOMEM, Some None, s\<lparr>fixed_set_params := None\<rparr>)
                  else
                    let a = next_addr s;
                        s = s\<lparr>fixed_set_params := Some a, arrays := (arrays s)(a \<mapsto> replicate (nat (num_cameras e)) None),
                              next_addr := Suc a\<rparr>
                    in if cameraid > num_cameras e then (- EINVAL, Some None, s)
                       else if \<not> fits_device then (- ENOMEM, Some None, s)
                       else
                         (case vendor_open e name of (rv, v) \<Rightarrow>
                            if rv \<noteq> 0 then (rv, Some None, s)
                            else if \<not> fits_ops then (- ENOMEM, Some None, s)
                            else
                              let d = next_addr s
                              in (0, Some (Some d),
                                  s\<lparr>devs := (devs s)(d \<mapsto> \<lparr>dev_id = cameraid, dev_vendor = v, dev_ops = Suc d\<rparr>),
                                    ops_tables := (ops_tables s)(Suc d := True), next_addr := Suc (Suc d)\<rparr>))))"

section \<open>What the corrections change\<close>

lemma kv_get_remove: "kv_get key (kv_remove k m) = (if key = k then None else kv_get key m)"
  by (simp add: kv_get_def)

text \<open>The keys of the chip's header are different keys; the header has no sign of the flat form in them.\<close>

definition extra_ok :: "extra_keys \<Rightarrow> bool" where
  "extra_ok k \<longleftrightarrow>
     distinct [KEY_QC_LONGSHOT_SUPPORTED k, KEY_QC_MANUAL_FOCUS_POSITION k, KEY_QC_MANUAL_FOCUS_POS_TYPE k,
       KEY_QC_FOCUS_POSITION_SCALE k, KEY_QC_FOCUS_POSITION_DIOPTER k, ''auto-whitebalance-lock-supported'',
       ''scene-mode-values'', ''hdr-need-1x''] \<and>
     clean (KEY_QC_FOCUS_POSITION_SCALE k) \<and> clean (KEY_QC_FOCUS_POSITION_DIOPTER k)"

lemma extra_ok_keys: "extra_ok camera_parameters_extra"
  by (simp add: extra_ok_def camera_parameters_extra_def clean_def)

text \<open>What a build for the chip's camera (\<open>q\<close>) finds under the key of its default after a \<open>set\<close>.\<close>

definition with_default :: "bool \<Rightarrow> params \<Rightarrow> string \<Rightarrow> string option" where
  "with_default q m key =
     (if q \<and> key = ''hdr-need-1x'' \<and> kv_get key m = None then Some ''false'' else kv_get key m)"

text \<open>What is corrected in the parameters of the vendor, key by key.\<close>

definition corrected :: "bool \<Rightarrow> extra_keys \<Rightarrow> params \<Rightarrow> string \<Rightarrow> string option" where
  "corrected q k m key =
     (let val = (case kv_get (KEY_QC_MANUAL_FOCUS_POSITION k) m of Some p \<Rightarrow> p | None \<Rightarrow> ''0'');
          ty = kv_get (KEY_QC_MANUAL_FOCUS_POS_TYPE k) m
      in if key = KEY_QC_LONGSHOT_SUPPORTED k \<or> key = ''auto-whitebalance-lock-supported'' then None
         else if key = ''scene-mode-values'' then Some ''auto,hdr''
         else if key = KEY_QC_FOCUS_POSITION_SCALE k \<and> ty = Some ''2'' \<and> clean val then Some val
         else if key = KEY_QC_FOCUS_POSITION_DIOPTER k \<and> ty = Some ''3'' \<and> clean val then Some val
         else with_default q m key)"

lemma kv_get_set_all:
  assumes "params_ok m" "clean k" "v \<noteq> []" "k \<noteq> ''hdr-need-1x''"
  shows "kv_get x (kv_set q (Some k) (Some v) m) =
    (if \<not> clean v then kv_get x m else if x = k then Some v else with_default q m x)"
proof -
  have h: "params_ok (kv_put ''hdr-need-1x'' ''false'' m)" using assms(1) by simp
  show ?thesis using assms h by (auto simp: kv_get_def kv_set_def clean_def with_default_def Let_def)
qed

lemma scene_modes_set:
  assumes "params_ok m" "key \<noteq> ''hdr-need-1x''"
  shows "kv_get x (kv_set q (Some ''scene-mode-values'') (Some ''auto,hdr'')
      (kv_remove ''auto-whitebalance-lock-supported'' (kv_remove key m))) =
    (if x = ''scene-mode-values'' then Some ''auto,hdr''
     else if x = key \<or> x = ''auto-whitebalance-lock-supported'' then None else with_default q m x)"
proof -
  have c: "clean ''scene-mode-values''" "clean ''auto,hdr''" "''auto,hdr'' \<noteq> []" "''scene-mode-values'' \<noteq> ''hdr-need-1x''"
    by (simp_all add: clean_def)
  have "params_ok (kv_remove ''auto-whitebalance-lock-supported'' (kv_remove key m))" using assms(1) by simp
  from kv_get_set_all [OF this c(1,3,4), where q = q] assms(2) c(2) show ?thesis
    by (auto simp: kv_get_remove with_default_def)
qed

text \<open>The key the position of the focus is written to.\<close>

definition focus_set :: "bool \<Rightarrow> string option \<Rightarrow> string \<Rightarrow> string \<Rightarrow> string \<Rightarrow> params \<Rightarrow> params" where
  "focus_set q ty scale diopter val m =
     (case ty of None \<Rightarrow> m
      | Some t \<Rightarrow> if t = ''2'' then kv_set q (Some scale) (Some val) m
                 else if t = ''3'' then kv_set q (Some diopter) (Some val) m else m)"

lemma focus_set_get:
  assumes "params_ok m" "clean scale" "clean diopter" "val \<noteq> []" "scale \<noteq> diopter"
    "scale \<noteq> ''hdr-need-1x''" "diopter \<noteq> ''hdr-need-1x''" "with_default q m key = kv_get key m"
  shows "kv_get key (focus_set q ty scale diopter val m) =
    (if clean val \<and> (ty = Some ''2'' \<and> key = scale \<or> ty = Some ''3'' \<and> key = diopter) then Some val else kv_get key m)"
proof -
  note s = kv_get_set_all [OF assms(1,2,4,6), where q = q] and d = kv_get_set_all [OF assms(1,3,4,7), where q = q]
  have "focus_set q ty scale diopter val m =
    (if ty = Some ''2'' then kv_set q (Some scale) (Some val) m
     else if ty = Some ''3'' then kv_set q (Some diopter) (Some val) m else m)"
    by (simp add: focus_set_def split: option.split)
  then show ?thesis using assms(5,8) s d by auto
qed

lemma focus_set_ok [simp]: "params_ok m \<Longrightarrow> params_ok (focus_set q ty scale diopter val m)"
  by (simp add: focus_set_def split: option.split)

lemma getparams_corrected:
  assumes "extra_ok k"
  shows "kv_get key (unflatten (camera_fixup_getparams e k settings)) = corrected (qcom_hardware e) k (unflatten settings) key"
proof -
  let ?q = "qcom_hardware e"
  let ?m = "unflatten settings" and ?pos = "KEY_QC_MANUAL_FOCUS_POSITION k" and ?type = "KEY_QC_MANUAL_FOCUS_POS_TYPE k"
  let ?scale = "KEY_QC_FOCUS_POSITION_SCALE k" and ?diopter = "KEY_QC_FOCUS_POSITION_DIOPTER k"
  let ?m3 = "kv_set ?q (Some ''scene-mode-values'') (Some ''auto,hdr'')
    (kv_remove ''auto-whitebalance-lock-supported'' (kv_remove (KEY_QC_LONGSHOT_SUPPORTED k) ?m))"
  obtain val where val: "val = (case kv_get ?pos ?m of Some p \<Rightarrow> p | None \<Rightarrow> ''0'')" by blast
  obtain ty where ty: "ty = kv_get ?type ?m" by blast
  have keys: "?pos \<notin> {''hdr-need-1x'', ''scene-mode-values'', KEY_QC_LONGSHOT_SUPPORTED k, ''auto-whitebalance-lock-supported''}"
    "?type \<notin> {''hdr-need-1x'', ''scene-mode-values'', KEY_QC_LONGSHOT_SUPPORTED k, ''auto-whitebalance-lock-supported''}"
    "?scale \<notin> {KEY_QC_LONGSHOT_SUPPORTED k, ''auto-whitebalance-lock-supported'', ''scene-mode-values''}"
    "?diopter \<notin> {KEY_QC_LONGSHOT_SUPPORTED k, ''auto-whitebalance-lock-supported'', ''scene-mode-values''}"
    "?scale \<noteq> ?diopter" "clean ?scale" "clean ?diopter" "''scene-mode-values'' \<noteq> KEY_QC_LONGSHOT_SUPPORTED k"
    "?scale \<noteq> ''hdr-need-1x''" "?diopter \<noteq> ''hdr-need-1x''" "KEY_QC_LONGSHOT_SUPPORTED k \<noteq> ''hdr-need-1x''"
    using assms(1) by (auto simp: extra_ok_def)
  note m3 = scene_modes_set [OF unflatten_ok keys(11)]
  have read: "kv_get ?pos ?m3 = kv_get ?pos ?m" "kv_get ?type ?m3 = ty"
    using keys(1,2) m3 by (simp_all add: ty with_default_def)
  have v: "val \<noteq> []" by (auto simp: val kv_get_def split: option.splits if_splits)
  have f: "camera_fixup_getparams e k settings = flatten (focus_set ?q ty ?scale ?diopter val ?m3)"
    by (simp only: camera_fixup_getparams_def Let_def read val focus_set_def)
  have "?q \<Longrightarrow> kv_get ''hdr-need-1x'' ?m3 \<noteq> None"
    using m3 [of "''hdr-need-1x''" ?q] keys(11) by (simp add: with_default_def)
  then have "with_default ?q ?m3 key = kv_get key ?m3" by (auto simp: with_default_def)
  note g = focus_set_get [OF _ keys(6,7) v keys(5,9,10) this, where ty = ty]
  have "corrected ?q k ?m key =
    (if clean val \<and> (ty = Some ''2'' \<and> key = ?scale \<or> ty = Some ''3'' \<and> key = ?diopter) then Some val else kv_get key ?m3)"
    unfolding corrected_def Let_def val [symmetric] ty [symmetric] m3
    using keys(3-5,8) by (cases "key = ?scale"; cases "key = ?diopter"; cases "key = ''scene-mode-values''") auto
  then show ?thesis using g by (simp add: f unflatten_flatten)
qed

text \<open>C24: The application sees the vendor's parameters with exactly these corrections of the wrapper,
  whatever string the vendor gives: long shots and the white-balance lock are not offered, the scene
  modes are automatic and HDR, the current position of the focus is the manual one, or 0, on the
  scale the vendor names, unless the text of the position has a sign of the flat form in it, which
  \<open>set\<close> refuses; a build for the chip's camera gives the key \<open>hdr-need-1x\<close> the value false when the
  vendor has none for it; and every other parameter is the vendor's.\<close>

theorem camera_parameters_corrected:
  "kv_get key (unflatten (camera_fixup_getparams e camera_parameters_extra settings)) =
   corrected (qcom_hardware e) camera_parameters_extra (unflatten settings) key"
  by (rule getparams_corrected [OF extra_ok_keys])

section \<open>One camera from opening to closing\<close>

text \<open>What an application does with an open camera: calls that are passed on, parameters it sets, and
  parameters it reads and gives back.\<close>

datatype camera_use = Use_call camera_call | Use_set string | Use_get

fun use_step :: "vendor_env \<Rightarrow> extra_keys \<Rightarrow> addr \<Rightarrow> camera_use \<Rightarrow> camera_state \<Rightarrow> camera_state option" where
  "use_step e k d (Use_call c) s = do { (_, s) \<leftarrow> vendor_call e None c (Some d) s; Some s }"
| "use_step e k d (Use_set t) s = do { (_, s) \<leftarrow> camera_set_parameters e k (Some d) t s; Some s }"
| "use_step e k d Use_get s = do { (p, s) \<leftarrow> camera_get_parameters e k (Some d) s; camera_put_parameters p s }"

fun use_steps :: "vendor_env \<Rightarrow> extra_keys \<Rightarrow> addr \<Rightarrow> camera_use list \<Rightarrow> camera_state \<Rightarrow> camera_state option" where
  "use_steps e k d [] s = Some s"
| "use_steps e k d (u # us) s = (case use_step e k d u s of None \<Rightarrow> None | Some s \<Rightarrow> use_steps e k d us s)"

definition heap_ok :: "camera_state \<Rightarrow> bool" where
  "heap_ok s \<longleftrightarrow> (\<forall>p \<ge> next_addr s. strs s p = None \<and> devs s p = None \<and> \<not> ops_tables s p)"

text \<open>The string the array has for the camera is the only one that was not there before.\<close>

definition session :: "vendor_env \<Rightarrow> camera_state \<Rightarrow> addr \<Rightarrow> wrapper_camera_device \<Rightarrow> camera_state \<Rightarrow> bool" where
  "session e s0 d dev s \<longleftrightarrow>
     (\<exists>a arr. fixed_set_params s = Some a \<and> arrays s a = Some arr \<and> length arr = nat (num_cameras e) \<and>
        0 \<le> dev_id dev \<and> dev_id dev < num_cameras e \<and>
        (\<forall>i < length arr. i \<noteq> nat (dev_id dev) \<longrightarrow> arr ! i = None) \<and>
        (case arr ! nat (dev_id dev) of
           None \<Rightarrow> strs s = strs s0
         | Some p \<Rightarrow> strs s0 p = None \<and> (\<exists>t. strs s = (strs s0)(p \<mapsto> t)))) \<and>
     gVendorModule s \<and> devs s = (devs s0)(d \<mapsto> dev) \<and> devs s0 d = None \<and>
     ops_tables s = (ops_tables s0)(dev_ops dev := True) \<and> \<not> ops_tables s0 (dev_ops dev) \<and>
     next_addr s0 \<le> next_addr s \<and> heap_ok s0 \<and> heap_ok s"

lemma session_frame:
  "session e s0 d dev (s\<lparr>calls := c\<rparr>) = session e s0 d dev s"
  by (simp add: session_def heap_ok_def cong: option.case_cong)

lemma heap_ok_later: "heap_ok s \<Longrightarrow> heap_ok (s\<lparr>next_addr := Suc (next_addr s), calls := c\<rparr>)"
  by (simp add: heap_ok_def)

lemma session_later: "session e s0 d dev s \<Longrightarrow> session e s0 d dev (s\<lparr>next_addr := Suc (next_addr s), calls := c\<rparr>)"
  by (simp add: session_def heap_ok_later cong: option.case_cong)

lemma session_dev: "session e s0 d dev s \<Longrightarrow> devs s d = Some dev"
  by (simp add: session_def)

lemma session_call:
  "session e s0 d dev s \<Longrightarrow> vendor_call e f c (Some d) s =
     Some (vendor_answer e (dev_vendor dev) c, s\<lparr>calls := calls s @ [(dev_vendor dev, c)]\<rparr>)"
  by (simp add: vendor_call_def session_dev)

lemma session_fixup:
  assumes "session e s0 d dev s"
  shows "\<exists>p s'. camera_fixup_setparams k (dev_id dev) t s = Some (p, s') \<and> session e s0 d dev s' \<and>
    strs s' p = Some (fixed_settings k t) \<and> calls s' = calls s"
proof -
  let ?i = "nat (dev_id dev)"
  obtain a arr where a: "fixed_set_params s = Some a" "arrays s a = Some arr" "length arr = nat (num_cameras e)"
    "0 \<le> dev_id dev" "dev_id dev < num_cameras e" "\<forall>i < length arr. i \<noteq> ?i \<longrightarrow> arr ! i = None"
    "case arr ! ?i of None \<Rightarrow> strs s = strs s0 | Some p \<Rightarrow> strs s0 p = None \<and> (\<exists>t. strs s = (strs s0)(p \<mapsto> t))"
    using assms unfolding session_def by blast
  have i: "\<not> (dev_id dev < 0 \<or> dev_id dev \<ge> int (length arr))" "?i < length arr" using a(3-5) by linarith+
  have "strs s0 (next_addr s) = None" using assms by (simp add: session_def heap_ok_def)
  moreover have "(case arr ! ?i of None \<Rightarrow> Some s | Some p \<Rightarrow> free_str p s) = Some (s\<lparr>strs := strs s0\<rparr>)"
    using a(7) by (auto simp: free_str_def fun_upd_idem split: option.splits)
  moreover have "heap_ok (s\<lparr>strs := (strs s0)(next_addr s \<mapsto> u), next_addr := Suc (next_addr s), arrays := r\<rparr>)" for u r
    using assms by (auto simp: session_def heap_ok_def simp del: fun_upd_apply dest: Suc_leD) (simp add: le_trans Suc_le_eq)
  ultimately show ?thesis
    using assms a i
    by (simp add: camera_fixup_setparams_def new_str_def session_def nth_list_update) blast
qed

lemma session_get:
  assumes "session e s0 d dev s"
  shows "\<exists>s'. use_step e k d Use_get s = Some s' \<and> session e s0 d dev s'"
proof -
  have "strs s (next_addr s) = None" using assms by (simp add: session_def heap_ok_def)
  then have "(strs s)(next_addr s := None) = strs s" by (simp add: fun_upd_idem)
  then show ?thesis using assms(1)
    by (simp add: camera_get_parameters_def session_dev new_str_def vendor_call_def camera_put_parameters_def
        free_str_def Let_def session_later)
qed

lemma session_set:
  assumes "session e s0 d dev s"
  shows "\<exists>s'. camera_set_parameters e k (Some d) t s =
      Some (vendor_answer e (dev_vendor dev) (Set_parameters (fixed_settings k t)), s') \<and> session e s0 d dev s' \<and>
    calls s' = calls s @ [(dev_vendor dev, Set_parameters (fixed_settings k t))]"
proof -
  obtain p s' where p: "camera_fixup_setparams k (dev_id dev) t s = Some (p, s')" "session e s0 d dev s'"
    "strs s' p = Some (fixed_settings k t)" "calls s' = calls s"
    using session_fixup [OF assms] by blast
  then show ?thesis
    using session_dev [OF assms] session_call [OF p(2)] by (simp add: camera_set_parameters_def session_frame)
qed

lemma session_steps: "session e s0 d dev s \<Longrightarrow> \<exists>s'. use_steps e k d us s = Some s' \<and> session e s0 d dev s'"
proof (induction us arbitrary: s)
  case (Cons u us)
  have "\<exists>s'. use_step e k d u s = Some s' \<and> session e s0 d dev s'"
  proof (cases u)
    case (Use_call c)
    then show ?thesis using session_call [OF Cons.prems] by (simp add: session_frame Cons.prems)
  next
    case (Use_set t)
    then show ?thesis using session_set [OF Cons.prems, of k t] by auto
  next
    case Use_get
    then show ?thesis using session_get [OF Cons.prems] by simp
  qed
  with Cons.IH show ?case by fastforce
qed simp

lemma free_entries_none: "\<forall>i \<in> set is. i < length arr \<and> arr ! i = None \<Longrightarrow> free_entries arr is s = Some s"
  by (induction "is" arbitrary: s) (auto simp: not_le)

lemma free_entries_append:
  "free_entries arr (is @ js) s = (case free_entries arr is s of None \<Rightarrow> None | Some s \<Rightarrow> free_entries arr js s)"
  by (induction "is" arbitrary: s) (auto split: option.splits)

lemma free_entries_one:
  assumes "i < length arr" "\<forall>j < length arr. j \<noteq> i \<longrightarrow> arr ! j = None"
  shows "free_entries arr [0 ..< length arr] s = (case arr ! i of None \<Rightarrow> Some s | Some p \<Rightarrow> free_str p s)"
proof -
  have "[0 ..< length arr] = [0 ..< i] @ i # [Suc i ..< length arr]"
    using assms(1) upt_add_eq_append [of 0 i "length arr - i"] upt_conv_Cons [of i "length arr"] by simp
  moreover have "free_entries arr [0 ..< i] s = Some s" for s using assms by (intro free_entries_none) auto
  moreover have "free_entries arr [Suc i ..< length arr] s = Some s" for s using assms(2) by (intro free_entries_none) auto
  ultimately show ?thesis using assms(1) by (auto simp: free_entries_append split: option.splits)
qed

lemma session_close:
  assumes "session e s0 d dev s"
  shows "\<exists>s'. camera_device_close e (Some d) s = Some (0, s') \<and> strs s' = strs s0 \<and> devs s' = devs s0 \<and>
    ops_tables s' = ops_tables s0 \<and> calls s' = calls s @ [(dev_vendor dev, Close)]"
proof -
  let ?i = "nat (dev_id dev)"
  obtain a arr where a: "fixed_set_params s = Some a" "arrays s a = Some arr" "length arr = nat (num_cameras e)"
    "0 \<le> dev_id dev" "dev_id dev < num_cameras e" "\<forall>i < length arr. i \<noteq> ?i \<longrightarrow> arr ! i = None"
    "case arr ! ?i of None \<Rightarrow> strs s = strs s0 | Some p \<Rightarrow> strs s0 p = None \<and> (\<exists>t. strs s = (strs s0)(p \<mapsto> t))"
    using assms unfolding session_def by blast
  have i: "?i < length arr" using a(3-5) by linarith
  have "free_entries arr [0 ..< nat (num_cameras e)] s = Some (s\<lparr>strs := strs s0\<rparr>)"
    using free_entries_one [OF i a(6)] a(3,7) by (auto simp: free_str_def fun_upd_idem split: option.splits)
  moreover have "gVendorModule s" "devs s = (devs s0)(d \<mapsto> dev)" "devs s0 d = None"
    "ops_tables s = (ops_tables s0)(dev_ops dev := True)" "\<not> ops_tables s0 (dev_ops dev)"
    using assms by (simp_all add: session_def)
  ultimately show ?thesis
    using a(1,2,4,5)
    by (simp add: camera_device_close_def camera_get_number_of_cameras_def check_vendor_module_def Let_def fun_upd_idem)
qed

lemma session_open:
  assumes "camera_device_open e fits (Some name) s0 = (0, Some (Some d), s1)" "heap_ok s0"
    "0 \<le> to_int (strtol (long_bits e) name 10)" "to_int (strtol (long_bits e) name 10) < num_cameras e"
  shows "\<exists>dev. session e s0 d dev s1 \<and> dev_id dev = to_int (strtol (long_bits e) name 10) \<and>
    dev_vendor dev = snd (vendor_open e name) \<and> calls s1 = calls s0"
proof -
  obtain rv s where c: "check_vendor_module e s0 = (rv, s)" by force
  obtain r v where v: "vendor_open e name = (r, v)" by force
  have s: "rv = 0 \<Longrightarrow> s = s0\<lparr>gVendorModule := True\<rparr>"
    using c by (auto simp: check_vendor_module_def split: if_splits)
  let ?id = "to_int (strtol (long_bits e) name 10)" and ?n = "next_addr s0"
  have e: "rv = 0" "d = Suc ?n"
    "s1 = s0\<lparr>gVendorModule := True, fixed_set_params := Some ?n,
       arrays := (arrays s0)(?n \<mapsto> replicate (nat (num_cameras e)) None),
       devs := (devs s0)(Suc ?n \<mapsto> \<lparr>dev_id = ?id, dev_vendor = v, dev_ops = Suc (Suc ?n)\<rparr>),
       ops_tables := (ops_tables s0)(Suc (Suc ?n) := True), next_addr := Suc (Suc (Suc ?n))\<rparr>"
    using assms(1,4) s by (auto simp: camera_device_open_def c v EINVAL_def ENOMEM_def Let_def split: if_splits prod.splits)
  have "nat ?id < nat (num_cameras e)" using assms(3,4) by linarith
  then have "session e s0 d \<lparr>dev_id = ?id, dev_vendor = v, dev_ops = Suc (Suc ?n)\<rparr> s1"
    using assms(2-4) by (auto simp: e session_def heap_ok_def)
  then show ?thesis using v by (intro exI) (auto simp: e)
qed

text \<open>C20: A camera can be used and closed: once opening it has succeeded, on a heap that is in order
  and under a number the vendor's module has, no sequence of calls and parameters uses memory that
  is free or outside the array,
  closing it succeeds and is passed on to the vendor's device, and afterwards the strings, the
  devices and the tables that are in memory are those from before, also when other cameras were
  opened earlier.\<close>

theorem camera_session_safe:
  assumes "camera_device_open e fits (Some name) s0 = (0, Some (Some d), s1)" "heap_ok s0"
    "0 \<le> to_int (strtol (long_bits e) name 10)" "to_int (strtol (long_bits e) name 10) < num_cameras e"
  shows "\<exists>s2 s3. use_steps e k d us s1 = Some s2 \<and> camera_device_close e (Some d) s2 = Some (0, s3) \<and>
    calls s3 = calls s2 @ [(snd (vendor_open e name), Close)] \<and>
    strs s3 = strs s0 \<and> devs s3 = devs s0 \<and> ops_tables s3 = ops_tables s0"
proof -
  obtain dev where dev: "session e s0 d dev s1" "dev_vendor dev = snd (vendor_open e name)"
    using session_open [OF assms] by blast
  obtain s2 where "use_steps e k d us s1 = Some s2" "session e s0 d dev s2" using session_steps [OF dev(1)] by blast
  with session_close [of e s0 d dev s2] dev(2) show ?thesis by auto
qed

text \<open>What the application sets in such a session reaches the vendor's device with one change and is
  answered by it: in the HDR scene the request for the extra frame is taken out, every other
  parameter is passed on.\<close>

theorem camera_set_reaches_vendor:
  assumes "camera_device_open e fits (Some name) s0 = (0, Some (Some d), s1)" "heap_ok s0"
    "0 \<le> to_int (strtol (long_bits e) name 10)" "to_int (strtol (long_bits e) name 10) < num_cameras e"
    "use_steps e k d us s1 = Some s2"
  shows "\<exists>t s3. camera_set_parameters e k (Some d) settings s2 =
      Some (vendor_answer e (snd (vendor_open e name)) (Set_parameters t), s3) \<and>
    calls s3 = calls s2 @ [(snd (vendor_open e name), Set_parameters t)] \<and>
    unflatten t = (if kv_get ''scene-mode'' (unflatten settings) = Some ''hdr''
                   then kv_remove (KEY_QC_HDR_NEED_1X k) (unflatten settings) else unflatten settings)"
proof -
  obtain dev where dev: "session e s0 d dev s1" "dev_vendor dev = snd (vendor_open e name)"
    using session_open [OF assms(1-4)] by blast
  have "session e s0 d dev s2" using session_steps [OF dev(1), of k us] assms(5) by auto
  from session_set [OF this, of k settings] dev(2)
  have "\<exists>s3. camera_set_parameters e k (Some d) settings s2 =
      Some (vendor_answer e (snd (vendor_open e name)) (Set_parameters (fixed_settings k settings)), s3) \<and>
    calls s3 = calls s2 @ [(snd (vendor_open e name), Set_parameters (fixed_settings k settings))]" by auto
  moreover have "unflatten (fixed_settings k settings) = (if kv_get ''scene-mode'' (unflatten settings) = Some ''hdr''
      then kv_remove (KEY_QC_HDR_NEED_1X k) (unflatten settings) else unflatten settings)"
    by (simp add: fixed_settings_def Let_def unflatten_flatten split: option.split)
  ultimately show ?thesis by blast
qed

section \<open>A phone with two cameras\<close>

definition demo_vendor :: vendor_env where
  "demo_vendor = \<lparr>module_rv = 0, num_cameras = 2, vendor_open = (\<lambda>n. (0, length n)), vendor_answer = (\<lambda>v c. Some 0),
     vendor_params = (\<lambda>h v. ''zoom=1''), vendor_info = (\<lambda>i. 0), long_bits = 32, qcom_hardware = True\<rparr>"

definition no_cameras :: camera_state where
  "no_cameras = \<lparr>gVendorModule = False, fixed_set_params = None, arrays = (\<lambda>_. None), strs = (\<lambda>_. None), devs = (\<lambda>_. None),
     ops_tables = (\<lambda>_. False), next_addr = 0, calls = []\<rparr>"

lemma demo_ids:
  "to_int (strtol 32 ''0'' 10) = 0" "to_int (strtol 32 ''1'' 10) = 1" "to_int (strtol 32 ''2'' 10) = 2"
  by code_simp+

lemma camera_parameters_corrected_witness:
  "kv_get ''cur-focus-scale'' (unflatten (camera_fixup_getparams demo_vendor camera_parameters_extra
     ''longshot-supported=true;manual-focus-pos-type=2;manual-focus-position=40'')) = Some ''40''"
proof -
  let ?s = "''longshot-supported=true;manual-focus-pos-type=2;manual-focus-position=40''"
  have "unflatten ?s = [(''longshot-supported'', ''true''), (''manual-focus-pos-type'', ''2''), (''manual-focus-position'', ''40'')]"
    by code_simp
  then have p: "kv_get ''manual-focus-position'' (unflatten ?s) = Some ''40''" "kv_get ''manual-focus-pos-type'' (unflatten ?s) = Some ''2''"
    by (simp_all add: kv_get_def)
  with camera_parameters_corrected [of "''cur-focus-scale''" demo_vendor ?s] show ?thesis
    by (simp add: camera_parameters_extra_def clean_def corrected_def)
qed

definition opened :: "string \<Rightarrow> camera_state \<Rightarrow> camera_state" where
  "opened name s = snd (snd (camera_device_open demo_vendor (True, True, True) (Some name) s))"

lemma open_demo:
  "camera_device_open demo_vendor (True, True, True) (Some ''0'') no_cameras = (0, Some (Some 1), opened ''0'' no_cameras)"
  by (simp add: opened_def camera_device_open_def check_vendor_module_def demo_vendor_def no_cameras_def demo_ids)

lemma camera_session_safe_witness:
  "\<exists>s2 s3. use_steps demo_vendor camera_parameters_extra 1 [Use_set ''zoom=2'', Use_call Start_preview, Use_get, Use_set ''zoom=3'']
      (opened ''0'' no_cameras) = Some s2 \<and> camera_device_close demo_vendor (Some 1) s2 = Some (0, s3) \<and>
    calls s3 = calls s2 @ [(snd (vendor_open demo_vendor ''0''), Close)] \<and>
    strs s3 = strs no_cameras \<and> devs s3 = devs no_cameras \<and> ops_tables s3 = ops_tables no_cameras"
  by (rule camera_session_safe [OF open_demo]) (simp_all add: heap_ok_def no_cameras_def demo_vendor_def demo_ids)

lemma camera_set_reaches_vendor_witness:
  "\<exists>t s3. camera_set_parameters demo_vendor camera_parameters_extra (Some 1) ''hdr-need-1x=true;scene-mode=hdr'' (opened ''0'' no_cameras) =
      Some (vendor_answer demo_vendor (snd (vendor_open demo_vendor ''0'')) (Set_parameters t), s3) \<and>
    calls s3 = calls (opened ''0'' no_cameras) @ [(snd (vendor_open demo_vendor ''0''), Set_parameters t)] \<and>
    unflatten t = (if kv_get ''scene-mode'' (unflatten ''hdr-need-1x=true;scene-mode=hdr'') = Some ''hdr''
                   then kv_remove (KEY_QC_HDR_NEED_1X camera_parameters_extra) (unflatten ''hdr-need-1x=true;scene-mode=hdr'')
                   else unflatten ''hdr-need-1x=true;scene-mode=hdr'')"
  by (rule camera_set_reaches_vendor [OF open_demo, where us = "[]"])
    (simp_all add: heap_ok_def no_cameras_def demo_vendor_def demo_ids)

section \<open>What goes wrong\<close>

fun crashes :: "'a option \<Rightarrow> bool" where
  "crashes None = True"
| "crashes (Some _) = False"

text \<open>All cameras share the array of the one that was opened last, and closing one frees the strings of
  all: with two cameras open, closing both frees a string twice.\<close>

definition two_open :: camera_state where
  "two_open = opened ''1'' (opened ''0'' no_cameras)"

lemma closing_two_frees_twice:
  "crashes (do {
     (_, s) \<leftarrow> camera_set_parameters demo_vendor camera_parameters_extra (Some 1) ''zoom=2'' two_open;
     (_, s) \<leftarrow> camera_device_close demo_vendor (Some 1) s;
     camera_device_close demo_vendor (Some 4) s
   })"
  by code_simp

text \<open>And a camera that is still open frees the string of the one that was closed when it sets its own.\<close>

lemma set_after_close_frees_twice:
  "crashes (do {
     (_, s) \<leftarrow> camera_set_parameters demo_vendor camera_parameters_extra (Some 1) ''zoom=2'' two_open;
     (_, s) \<leftarrow> camera_device_close demo_vendor (Some 4) s;
     camera_set_parameters demo_vendor camera_parameters_extra (Some 1) ''zoom=3'' s
   })"
  by code_simp

text \<open>The number of a camera is compared with \<open>>\<close>: the number behind the last camera is passed to the
  vendor, and if that opens a device, its parameters go behind the end of the array.\<close>

lemma number_behind_the_last:
  "fst (camera_device_open demo_vendor (True, True, True) (Some ''2'') no_cameras) = 0"
  "crashes (camera_set_parameters demo_vendor camera_parameters_extra (Some 1) ''zoom=2'' (opened ''2'' no_cameras))"
  by code_simp+

text \<open>Without the vendor's module, asking for the facing of a camera succeeds.\<close>

lemma info_without_module:
  "module_rv e \<noteq> 0 \<Longrightarrow> \<not> gVendorModule s \<Longrightarrow> fst (camera_get_camera_info e i s) = 0"
  by (simp add: camera_get_camera_info_def check_vendor_module_def)

end
