(* ===== verification/Dispatch.thy ===== *)
theory Dispatch
  imports LocApiBase LocFacts
begin

unbundle bit_operations_syntax

text \<open>
  From the API object to the framework: the dispatch of \<open>src/gps/core/LocApiBase.cpp\<close> over the
  registered adapters, the methods an adapter inherits from \<open>LocAdapterBase.cpp\<close>, and the engine
  with the HAL behind its own adapter. The whole is shown to behave like the engine called
  directly.
\<close>

section \<open>The methods of an adapter\<close>

text \<open>The adapter at \<open>eng\<close> is the engine's. Any other has the inherited methods: a position and the two
  events of the modem go to its proxy, if it has one, nothing else does anything; requests are not
  handled.\<close>

type_synonym proxy_log = "(addr \<times> up_call) list"

fun base_report :: "(addr \<Rightarrow> bool) \<Rightarrow> up_call \<Rightarrow> addr \<Rightarrow> proxy_log \<Rightarrow> proxy_log" where
  "base_report has_proxy (UpPosition f st) a p = (if has_proxy a then p @ [(a, UpPosition f st)] else p)"
| "base_report has_proxy UpEngineUp a p = (if has_proxy a then p @ [(a, UpEngineUp)] else p)"
| "base_report has_proxy UpEngineDown a p = (if has_proxy a then p @ [(a, UpEngineDown)] else p)"
| "base_report has_proxy _ a p = p"

definition base_request :: "up_request \<Rightarrow> bool" where
  "base_request r = False"

definition report_to :: "addr \<Rightarrow> (addr \<Rightarrow> bool) \<Rightarrow> up_call \<Rightarrow> addr \<Rightarrow> hal \<times> proxy_log \<Rightarrow> hal \<times> proxy_log" where
  "report_to eng has_proxy u a =
     (\<lambda>(h, p). if a = eng then (on_eng (adapter_report u) h, p) else (h, base_report has_proxy u a p))"

definition request_of :: "addr \<Rightarrow> up_request \<Rightarrow> addr \<Rightarrow> hal \<Rightarrow> bool \<times> hal" where
  "request_of eng r a h = (if a = eng then ret_eng (adapter_request r) h else (base_request r, h))"

section \<open>The calls of the API object\<close>

record stack =
  st_api :: loc_api
  st_hal :: hal
  st_proxy :: proxy_log

definition to_all :: "addr \<Rightarrow> (addr \<Rightarrow> bool) \<Rightarrow> up_call \<Rightarrow> stack \<Rightarrow> stack" where
  "to_all eng has_proxy u s =
     (case to_all_adapters (report_to eng has_proxy u) (mLocAdapters (st_api s)) (st_hal s, st_proxy s) of
        (h, p) \<Rightarrow> s\<lparr>st_hal := h, st_proxy := p\<rparr>)"

fun api_report :: "addr \<Rightarrow> (addr \<Rightarrow> bool) \<Rightarrow> up_call \<Rightarrow> stack \<Rightarrow> stack" where
  "api_report eng has_proxy UpEngineUp s =
     (case api_handleEngineUpEvent (report_to eng has_proxy UpEngineUp) (st_api s, st_hal s, st_proxy s) of
        (a, h, p) \<Rightarrow> s\<lparr>st_api := a, st_hal := h, st_proxy := p\<rparr>)"
| "api_report eng has_proxy u s = to_all eng has_proxy u s"

definition api_request :: "addr \<Rightarrow> up_request \<Rightarrow> stack \<Rightarrow> stack" where
  "api_request eng r s =
     s\<lparr>st_hal := to_1st_handling_adapter (request_of eng r) (mLocAdapters (st_api s)) (st_hal s)\<rparr>"

text \<open>The messages the modem says it supports. The test shifts an \<open>int\<close>: \<open>None\<close> is a shift by 31 places
  or more, which the language does not define.\<close>

definition saveSupportedMsgList :: "64 word \<Rightarrow> loc_api \<Rightarrow> loc_api" where
  "saveSupportedMsgList supportedMsgList a = a\<lparr>mSupportedMsg := supportedMsgList\<rparr>"

definition isMessageSupported :: "nat \<Rightarrow> loc_api \<Rightarrow> bool option" where
  "isMessageSupported msgID a =
     (if msgID > 64 then Some False
      else if msgID \<ge> 31 then None
      else let messageChecker = push_bit msgID 1 :: 64 word
           in Some (messageChecker AND mSupportedMsg a = messageChecker))"

lemma message_supported_iff:
  "msgID < 31 \<Longrightarrow> isMessageSupported msgID (saveSupportedMsgList m a) = Some (bit m msgID)"
proof -
  assume "msgID < 31"
  moreover have "push_bit msgID 1 AND m = push_bit msgID 1 \<longleftrightarrow> bit m msgID" if "msgID < 64" for m :: "64 word"
  proof -
    have "push_bit msgID 1 AND m = (if bit m msgID then push_bit msgID 1 else 0)"
      by (rule bit_word_eqI) (auto simp: bit_simps)
    moreover have "bit (push_bit msgID 1 :: 64 word) msgID" using that by (simp add: bit_simps)
    then have "push_bit msgID 1 \<noteq> (0 :: 64 word)" by (metis bit_0_eq bot_apply bot_bool_def)
    ultimately show ?thesis by simp
  qed
  ultimately show ?thesis by (simp add: isMessageSupported_def saveSupportedMsgList_def)
qed

lemma message_test_undefined: "isMessageSupported 32 (saveSupportedMsgList m a) = None"
  by (simp add: isMessageSupported_def)

section \<open>Runs of the whole\<close>

text \<open>Adapters come and go, change their masks, the task delivers the messages of the API object, and
  everything that can happen at the HAL does; what the API module reports or requests takes the
  way through the dispatch.\<close>

datatype stack_op = SAdd addr | SRemove addr | SMask addr evt_mask bool | SDeliver | SHal hal_env hal_op

fun stack_do :: "addr \<Rightarrow> (addr \<Rightarrow> bool) \<Rightarrow> stack_op \<Rightarrow> stack \<Rightarrow> stack" where
  "stack_do eng px (SAdd a) s = s\<lparr>st_api := addAdapter a (st_api s)\<rparr>"
| "stack_do eng px (SRemove a) s = s\<lparr>st_api := removeAdapter a (st_api s)\<rparr>"
| "stack_do eng px (SMask a m b) s = s\<lparr>st_api := updateEvtMask a m b (st_api s)\<rparr>"
| "stack_do eng px SDeliver s = s\<lparr>st_api := api_deliver (st_api s)\<rparr>"
| "stack_do eng px (SHal env (OpReport u)) s = api_report eng px u s"
| "stack_do eng px (SHal env (OpRequest r)) s = api_request eng r s"
| "stack_do eng px (SHal env op) s = s\<lparr>st_hal := hal_do env op (st_hal s)\<rparr>"

definition stack_run :: "addr \<Rightarrow> (addr \<Rightarrow> bool) \<Rightarrow> stack_op list \<Rightarrow> stack \<Rightarrow> stack" where
  "stack_run eng px ops s = fold (stack_do eng px) ops s"

definition boot_stack :: "evt_mask \<Rightarrow> (addr \<Rightarrow> adapter) \<Rightarrow> hal \<Rightarrow> stack" where
  "boot_stack excl heap h = \<lparr>st_api = init_api excl heap, st_hal = h, st_proxy = []\<rparr>"

section \<open>The dispatch reaches the engine once\<close>

lemma report_to_simps [simp]:
  "report_to eng px u eng (h, p) = (on_eng (adapter_report u) h, p)"
  "a \<noteq> eng \<Longrightarrow> report_to eng px u a (h, p) = (h, base_report px u a p)"
  by (simp_all add: report_to_def)

lemma request_of_simps [simp]:
  "request_of eng r eng h = ret_eng (adapter_request r) h"
  "a \<noteq> eng \<Longrightarrow> request_of eng r a h = (False, h)"
  by (simp_all add: request_of_def base_request_def)

lemma fold_others:
  "eng \<notin> set as \<Longrightarrow> fst (fold (report_to eng px u) as (h, p)) = h"
  by (induction as arbitrary: p) auto

lemma fold_report:
  "distinct as \<Longrightarrow> fst (fold (report_to eng px u) as (h, p)) = (if eng \<in> set as then on_eng (adapter_report u) h else h)"
proof (induction as arbitrary: h p)
  case (Cons a as)
  show ?case
  proof (cases "a = eng")
    case True
    with Cons.prems show ?thesis by (simp add: fold_others)
  next
    case False
    with Cons.prems Cons.IH show ?thesis by simp
  qed
qed simp

lemma report_wf:
  "api_wf a \<Longrightarrow> fst (to_all_adapters (report_to eng px u) (mLocAdapters a) (h, p)) =
    (if eng \<in> set (registered a) then on_eng (adapter_report u) h else h)"
  by (elim api_wfE) (simp add: to_all_slots fold_report)

lemma request_slots:
  "to_1st_handling_adapter (request_of eng r) (map Some as @ replicate k None) h =
    (if eng \<in> set as then (if fst (ret_eng (adapter_request r) h) then snd (ret_eng (adapter_request r) h)
       else to_1st_handling_adapter (request_of eng r) (map Some (tl (dropWhile (\<lambda>a. a \<noteq> eng) as)) @ replicate k None)
              (snd (ret_eng (adapter_request r) h)))
     else h)"
proof (induction as)
  case Nil
  then show ?case by (cases k) simp_all
next
  case (Cons a as)
  then show ?case by (cases "a = eng") (auto split: prod.split)
qed

lemma request_wf:
  assumes "api_wf a"
  shows "to_1st_handling_adapter (request_of eng r) (mLocAdapters a) h =
    (if eng \<in> set (registered a) then snd (ret_eng (adapter_request r) h) else h)"
proof -
  obtain as where e: "mLocAdapters a = slots_of as" "registered a = as" "distinct as" using api_wfE [OF assms] by metis
  have none: "to_1st_handling_adapter (request_of eng r) (map Some bs @ replicate k None) g = g" if "eng \<notin> set bs" for bs k g
    using that request_slots [of eng r bs k g] by simp
  have "eng \<notin> set (tl (dropWhile (\<lambda>a. a \<noteq> eng) as))"
    using e(3) by (induction as) auto
  then show ?thesis
    by (simp add: e slots_of_def request_slots [of eng r as] none)
qed

section \<open>The stack refines the HAL\<close>

text \<open>What a step does to the registry, as an operation of \<open>LocApiBase\<close>, and to the HAL, as one of the HAL.\<close>

fun reg_part :: "stack_op \<Rightarrow> api_op list" where
  "reg_part (SAdd a) = [Add a]"
| "reg_part (SRemove a) = [Remove a]"
| "reg_part (SMask a m b) = [Mask a m b]"
| "reg_part SDeliver = [Deliver]"
| "reg_part (SHal env (OpReport UpEngineUp)) = [EngineUp]"
| "reg_part (SHal env op) = []"

fun hal_part :: "stack_op \<Rightarrow> (hal_env \<times> hal_op) list" where
  "hal_part (SHal env op) = [(env, op)]"
| "hal_part _ = []"

lemma to_all_frame [simp]: "st_api (to_all eng px u s) = st_api s"
  by (simp add: to_all_def split: prod.split)

lemma stack_do_api: "st_api (stack_do eng px op s) = fold api_do (reg_part op) (st_api s)"
proof (cases op)
  case (SHal env hop)
  then show ?thesis
  proof (cases hop)
    case (OpReport u)
    with SHal show ?thesis by (cases u) (auto simp: api_handleEngineUpEvent_def Let_def split: prod.split)
  qed (simp_all add: api_request_def)
qed simp_all

lemma stack_api: "st_api (stack_run eng px ops s) = fold api_do (concat (map reg_part ops)) (st_api s)"
  by (induction ops arbitrary: s) (simp_all add: stack_run_def stack_do_api)

lemma fold_hal_run: "hal_run (xs @ ys) h = hal_run ys (hal_run xs h)"
  by (induction xs arbitrary: h) auto

lemma stack_do_hal:
  assumes "api_wf (st_api s)" "eng \<in> set (registered (st_api s))"
  shows "st_hal (stack_do eng px op s) = hal_run (hal_part op) (st_hal s)"
proof (cases op)
  case (SHal env hop)
  then show ?thesis
  proof (cases hop)
    case (OpReport u)
    have r: "mLocAdapters (sendMsg LocSsrMsg a) = mLocAdapters a" for a by (simp add: sendMsg_def)
    show ?thesis using report_wf [OF assms(1), of eng px u "st_hal s" "st_proxy s"] assms(2) SHal OpReport
      by (cases u) (auto simp: to_all_def api_handleEngineUpEvent_def Let_def r split: prod.splits)
  next
    case (OpRequest r)
    with SHal show ?thesis using request_wf [OF assms(1), of eng r] assms(2) by (simp add: api_request_def)
  qed simp_all
qed simp_all

lemma reg_keeps: "Remove eng \<notin> set ops \<Longrightarrow> eng \<in> reg_run (Add eng # ops)"
proof (induction ops rule: rev_induct)
  case Nil
  then show ?case by (simp add: reg_run_def MAX_ADAPTERS_def)
next
  case (snoc op ops)
  then have "eng \<in> fold reg_do ops (reg_do (Add eng) {})" by (simp add: reg_run_def)
  with snoc.prems show ?case by (cases op) (auto simp: reg_run_def)
qed

lemma remove_part: "Remove eng \<in> set (concat (map reg_part ops)) \<Longrightarrow> SRemove eng \<in> set ops"
proof -
  have "Remove eng \<in> set (reg_part op) \<Longrightarrow> op = SRemove eng" for op by (induction op rule: reg_part.induct) auto
  then show "Remove eng \<in> set (concat (map reg_part ops)) \<Longrightarrow> SRemove eng \<in> set ops" by auto
qed

lemma stack_hal:
  assumes "SRemove eng \<notin> set ops"
  shows "st_hal (stack_run eng px (SAdd eng # ops) (boot_stack excl heap h)) = hal_run (concat (map hal_part ops)) h"
  using assms
proof (induction ops rule: rev_induct)
  case Nil
  then show ?case by (simp add: stack_run_def boot_stack_def)
next
  case (snoc op ops)
  let ?s = "stack_run eng px (SAdd eng # ops) (boot_stack excl heap h)"
  let ?reg = "Add eng # concat (map reg_part ops)"
  have a: "st_api ?s = api_run ?reg (init_api excl heap)"
    by (simp add: stack_api api_run_def boot_stack_def)
  have "Remove eng \<notin> set (concat (map reg_part ops))" using snoc.prems remove_part [of eng ops] by auto
  then have "api_wf (st_api ?s)" "eng \<in> set (registered (st_api ?s))"
    using api_run_refines [of ?reg excl heap] reg_keeps unfolding a by auto
  from stack_do_hal [OF this, of px op] snoc show ?case by (simp add: stack_run_def fold_hal_run)
qed

text \<open>C12: The API object, its registry and the inherited adapters in between change nothing for the
  engine: as long as the engine's adapter is not removed, whatever other adapters are added,
  removed, masked or have proxies, the HAL goes through the same states as if every report and
  request of the API module called the engine's adapter directly.\<close>

theorem stack_refines_hal:
  assumes "SRemove eng \<notin> set ops"
  shows "st_hal (stack_run eng px (SAdd eng # ops) (boot_stack excl heap h)) = hal_run (concat (map hal_part ops)) h"
  using assms by (rule stack_hal)

lemma stack_refines_hal_witness:
  "st_hal (stack_run 1 (\<lambda>a. True) (SAdd 1 # [SAdd 2, SHal hal_env0 (OpReport (UpPosition fix0 LOC_SESS_SUCCESS)), SRemove 2,
      SHal hal_env0 OpTurn]) (boot_stack 0 (\<lambda>a. \<lparr>mEvtMask = 0, inSession = False\<rparr>) up_hal)) =
   hal_run [(hal_env0, OpReport (UpPosition fix0 LOC_SESS_SUCCESS)), (hal_env0, OpTurn)] up_hal"
proof -
  have "SRemove 1 \<notin> set [SAdd 2, SHal hal_env0 (OpReport (UpPosition fix0 LOC_SESS_SUCCESS)), SRemove 2, SHal hal_env0 OpTurn]"
    by simp
  from stack_refines_hal [OF this] show ?thesis by simp
qed

section \<open>A fix from the modem to the framework\<close>

text \<open>C11: A position that the API module reports to an initialised engine (which has its callback for
  positions), when the task has nothing else to do, is dispatched
  over the adapters, queued once, taken in the next turn, and becomes exactly one location of the
  framework if the framework has given its callback, no session is muted, the report is no failure
  and the fix is wanted; in every other case no location at all. This holds after any calls of the
  framework and of the modem and any traffic of other adapters.\<close>

theorem modem_fix_to_framework:
  assumes "SRemove eng \<notin> set ops" "s = stack_run eng px (SAdd eng # ops) (boot_stack excl heap h)"
    "eng_queue (loc_afw_data (st_hal s)) = []" "location_cb (loc_afw_data (st_hal s))"
  shows "filter is_location (framework (st_hal (stack_run eng px
      (SAdd eng # ops @ [SHal env (OpReport (UpPosition f st)), SHal env OpTurn]) (boot_stack excl heap h)))) =
    filter is_location (framework (st_hal s)) @
      (if gps_loc_cb (st_hal s) \<and> \<not> muted (loc_afw_data (st_hal s)) \<and> st \<noteq> LOC_SESS_FAILURE \<and>
          fix_wanted (loc_afw_data (st_hal s)) f st then [LocationCb f] else [])"
proof -
  let ?h = "st_hal s" and ?g = "on_eng (adapter_report (UpPosition f st)) (st_hal s)"
  have "SRemove eng \<notin> set (ops @ [SHal env (OpReport (UpPosition f st)), SHal env OpTurn])" using assms(1) by simp
  from stack_hal [OF this, of px excl heap h] stack_hal [OF assms(1), of px excl heap h]
  have r: "st_hal (stack_run eng px (SAdd eng # ops @ [SHal env (OpReport (UpPosition f st)), SHal env OpTurn])
      (boot_stack excl heap h)) = (case hal_turn env ?g of None \<Rightarrow> ?g | Some h' \<Rightarrow> h')"
    unfolding assms(2) by (simp add: fold_hal_run cong: option.case_cong)
  have "eng_queue (loc_afw_data ?g) = [MsgReportPosition f st]" "location_cb (loc_afw_data ?g)"
    using assms(3,4) by (simp_all add: on_eng_def post_def)
  from hal_fix [OF this, of env] show ?thesis
    unfolding r by (auto simp: on_eng_def post_def muted_def fix_wanted_def)
qed

lemma modem_fix_to_framework_witness:
  "filter is_location (framework (st_hal (stack_run 1 (\<lambda>a. True)
      (SAdd 1 # [SAdd 2] @ [SHal hal_env0 (OpReport (UpPosition fix0 LOC_SESS_SUCCESS)), SHal hal_env0 OpTurn])
      (boot_stack 0 (\<lambda>a. \<lparr>mEvtMask = 0, inSession = False\<rparr>) up_hal)))) = [LocationCb fix0]"
proof -
  have n: "SRemove 1 \<notin> set [SAdd 2]" by simp
  have h: "st_hal (stack_run 1 (\<lambda>a. True) (SAdd 1 # [SAdd 2]) (boot_stack 0 (\<lambda>a. \<lparr>mEvtMask = 0, inSession = False\<rparr>) up_hal)) = up_hal"
    using stack_hal [OF n] by simp
  have e: "eng_queue up_eng = []" "\<not> muted up_eng" "location_cb up_eng" "fix_wanted up_eng fix0 LOC_SESS_SUCCESS"
    by (simp_all add: up_eng_def boot_eng_def muted_def ni_boot_def fix_wanted_def fix0_def)
  show ?thesis
    using modem_fix_to_framework [OF n refl, of "\<lambda>a. True" 0 "\<lambda>a. \<lparr>mEvtMask = 0, inSession = False\<rparr>" up_hal hal_env0 fix0
        LOC_SESS_SUCCESS] e unfolding h by (simp add: up_hal_def boot_hal_def)
qed

end
