(* ===== verification/LocTimerC.thy ===== *)
theory LocTimerC
  imports Prelude
begin

text \<open>
  The timers behind the C functions of \<open>src/gps/utils/loc_timer.h\<close>: \<open>LocTimerWrapper\<close>, \<open>loc_timer_start\<close>
  and \<open>loc_timer_stop\<close> of \<open>LocTimer.cpp\<close>. A wrapper is deleted by the client's stop or by its own
  expiry. The memory of a deleted wrapper stays readable until it is given out again.
\<close>

record wrapper =
  mCb :: "addr option"
  mCallerData :: addr
  mMe :: "addr option"

text \<open>\<open>contents\<close> is the memory, \<open>alive\<close> the wrappers that exist, \<open>running\<close> those whose timer runs,
  \<open>deletions\<close> and \<open>callbacks\<close> what was deleted and called back, in order; \<open>read_freed\<close> tells that the
  memory of a deleted wrapper was read.\<close>

record c_timers =
  contents :: "addr \<Rightarrow> wrapper"
  alive :: "addr set"
  running :: "addr set"
  deletions :: "addr list"
  callbacks :: "(addr \<times> addr \<times> addr) list"
  read_freed :: bool

definition no_timers :: c_timers where
  "no_timers = \<lparr>contents = (\<lambda>_. \<lparr>mCb = None, mCallerData = 0, mMe = None\<rparr>), alive = {}, running = {}, deletions = [],
     callbacks = [], read_freed = False\<rparr>"

text \<open>Reading a wrapper.\<close>

definition touch :: "addr \<Rightarrow> c_timers \<Rightarrow> c_timers" where
  "touch a s = s\<lparr>read_freed := read_freed s \<or> a \<notin> alive s\<rparr>"

lemma touch_alive: "a \<in> alive s \<Longrightarrow> touch a s = s"
  by (cases s) (simp add: touch_def)

text \<open>The destructor clears the two fields; that of \<open>LocTimer\<close> stops the timer.\<close>

definition delete_wrapper :: "addr \<Rightarrow> c_timers \<Rightarrow> c_timers" where
  "delete_wrapper a s =
     s\<lparr>contents := (contents s)(a := (contents s a)\<lparr>mCb := None, mMe := None\<rparr>), running := running s - {a},
       alive := alive s - {a}, deletions := deletions s @ [a]\<rparr>"

definition wrapper_destroy :: "addr \<Rightarrow> c_timers \<Rightarrow> c_timers" where
  "wrapper_destroy a s =
     (let s = touch a s
      in if mCb (contents s a) \<noteq> None \<and> mMe (contents s a) = Some a then delete_wrapper a s else s)"

text \<open>The wrapper is at the address \<open>a\<close> that \<open>new\<close> returns.\<close>

definition loc_timer_start :: "addr \<Rightarrow> addr option \<Rightarrow> addr \<Rightarrow> c_timers \<Rightarrow> addr option \<times> c_timers" where
  "loc_timer_start a cb_func caller_data s =
     (case cb_func of
        None \<Rightarrow> (None, s)
      | Some cb \<Rightarrow>
          (Some a, s\<lparr>contents := (contents s)(a := \<lparr>mCb = Some cb, mCallerData = caller_data, mMe = Some a\<rparr>),
             alive := insert a (alive s), running := insert a (running s)\<rparr>))"

text \<open>The new value of the handle and the state.\<close>

definition loc_timer_stop :: "addr option \<Rightarrow> c_timers \<Rightarrow> addr option \<times> c_timers" where
  "loc_timer_stop handle s = (case handle of None \<Rightarrow> (None, s) | Some a \<Rightarrow> (None, wrapper_destroy a s))"

text \<open>\<open>stops\<close> are the handles the client's callback stops.\<close>

definition timeOutCallback :: "addr list \<Rightarrow> addr \<Rightarrow> c_timers \<Rightarrow> c_timers" where
  "timeOutCallback stops a s =
     (let s = touch a s;
          s = (case mCb (contents s a) of
                 None \<Rightarrow> s
               | Some cb \<Rightarrow>
                   fold (\<lambda>h s. snd (loc_timer_stop (Some h) s)) stops
                     (s\<lparr>callbacks := callbacks s @ [(a, cb, mCallerData (contents s a))]\<rparr>))
      in wrapper_destroy a s)"

text \<open>The timer of a wrapper runs out: it no longer runs, and the callback is called.\<close>

definition wrapper_expire :: "addr list \<Rightarrow> addr \<Rightarrow> c_timers \<Rightarrow> c_timers" where
  "wrapper_expire stops a s = timeOutCallback stops a (s\<lparr>running := running s - {a}\<rparr>)"

section \<open>Clients that keep to their handles\<close>

datatype c_op = CStart addr addr addr | CStop addr | CExpire "addr list" addr

fun c_do :: "c_op \<Rightarrow> c_timers \<Rightarrow> c_timers" where
  "c_do (CStart a cb d) s = snd (loc_timer_start a (Some cb) d s)"
| "c_do (CStop h) s = snd (loc_timer_stop (Some h) s)"
| "c_do (CExpire stops a) s = wrapper_expire stops a s"

text \<open>Memory is given out when it is free; a handle is stopped once and not when its callback has begun; a
  callback may stop other timers.\<close>

fun c_allowed :: "c_op \<Rightarrow> c_timers \<Rightarrow> bool" where
  "c_allowed (CStart a cb d) s \<longleftrightarrow> a \<notin> alive s"
| "c_allowed (CStop h) s \<longleftrightarrow> h \<in> alive s"
| "c_allowed (CExpire stops a) s \<longleftrightarrow> a \<in> running s \<and> a \<notin> set stops \<and> distinct stops \<and> set stops \<subseteq> alive s"

fun c_run :: "c_op list \<Rightarrow> c_timers \<Rightarrow> c_timers option" where
  "c_run [] s = Some s"
| "c_run (op # ops) s = (if c_allowed op s then c_run ops (c_do op s) else None)"

definition whole :: "c_timers \<Rightarrow> addr \<Rightarrow> bool" where
  "whole s a \<longleftrightarrow> mCb (contents s a) \<noteq> None \<and> mMe (contents s a) = Some a"

definition c_inv :: "c_timers \<Rightarrow> bool" where
  "c_inv s \<longleftrightarrow> running s = alive s \<and> (\<forall>a \<in> alive s. whole s a) \<and> \<not> read_freed s"

lemma stop_alive:
  "a \<in> alive s \<Longrightarrow> \<forall>b \<in> alive s. whole s b \<Longrightarrow> \<not> read_freed s \<Longrightarrow>
   alive (wrapper_destroy a s) = alive s - {a} \<and> running (wrapper_destroy a s) = running s - {a} \<and>
   deletions (wrapper_destroy a s) = deletions s @ [a] \<and> callbacks (wrapper_destroy a s) = callbacks s \<and>
   \<not> read_freed (wrapper_destroy a s) \<and> (\<forall>b \<in> alive s - {a}. whole (wrapper_destroy a s) b) \<and>
   (\<forall>b. b \<noteq> a \<longrightarrow> contents (wrapper_destroy a s) b = contents s b)"
  by (auto simp: wrapper_destroy_def touch_def delete_wrapper_def whole_def Let_def)

lemma stops_alive:
  "distinct hs \<Longrightarrow> set hs \<subseteq> alive s \<Longrightarrow> \<forall>b \<in> alive s. whole s b \<Longrightarrow> \<not> read_freed s \<Longrightarrow>
   (let t = fold (\<lambda>h s. snd (loc_timer_stop (Some h) s)) hs s
    in alive t = alive s - set hs \<and> running t = running s - set hs \<and> deletions t = deletions s @ hs \<and>
       callbacks t = callbacks s \<and> \<not> read_freed t \<and> (\<forall>b \<in> alive s - set hs. whole t b))"
proof (induction hs arbitrary: s)
  case (Cons h hs)
  let ?s = "wrapper_destroy h s"
  note h = stop_alive [of h s]
  have "set hs \<subseteq> alive ?s" "\<forall>b \<in> alive ?s. whole ?s b" "\<not> read_freed ?s" using h Cons.prems by auto
  from Cons.IH [OF _ this] Cons.prems h show ?case by (auto simp: loc_timer_stop_def Let_def)
qed simp

text \<open>What each operation adds to the two logs.\<close>

fun op_deletes :: "c_op \<Rightarrow> addr list" where
  "op_deletes (CStart a cb d) = []"
| "op_deletes (CStop h) = [h]"
| "op_deletes (CExpire stops a) = stops @ [a]"

fun op_calls :: "c_op \<Rightarrow> c_timers \<Rightarrow> (addr \<times> addr \<times> addr) list" where
  "op_calls (CExpire stops a) s = [(a, the (mCb (contents s a)), mCallerData (contents s a))]"
| "op_calls _ s = []"

lemma c_do_inv:
  assumes "c_inv s" "c_allowed op s"
  shows "c_inv (c_do op s)" "deletions (c_do op s) = deletions s @ op_deletes op"
    "callbacks (c_do op s) = callbacks s @ op_calls op s"
    "alive (c_do op s) = (case op of CStart a cb d \<Rightarrow> insert a (alive s) | _ \<Rightarrow> alive s - set (op_deletes op))"
proof -
  have "c_inv (c_do op s) \<and> deletions (c_do op s) = deletions s @ op_deletes op \<and>
    callbacks (c_do op s) = callbacks s @ op_calls op s \<and>
    alive (c_do op s) = (case op of CStart a cb d \<Rightarrow> insert a (alive s) | _ \<Rightarrow> alive s - set (op_deletes op))"
  proof (cases op)
    case (CStart a cb d)
    with assms show ?thesis by (auto simp: loc_timer_start_def c_inv_def whole_def)
  next
    case (CStop h)
    with assms stop_alive [of h s] show ?thesis by (simp add: loc_timer_stop_def c_inv_def)
  next
    case (CExpire stops a)
    obtain cb where cb: "mCb (contents s a) = Some cb" using assms CExpire by (auto simp: c_inv_def whole_def)
    let ?s = "s\<lparr>running := running s - {a}, callbacks := callbacks s @ [(a, cb, mCallerData (contents s a))]\<rparr>"
    let ?t = "fold (\<lambda>h s. snd (loc_timer_stop (Some h) s)) stops ?s"
    have p: "distinct stops" "set stops \<subseteq> alive ?s" "\<forall>b \<in> alive ?s. whole ?s b" "\<not> read_freed ?s" "a \<in> alive s" "a \<notin> set stops"
      "running s = alive s"
      using assms CExpire by (auto simp: c_inv_def whole_def)
    note t = stops_alive [OF p(1-4), unfolded Let_def]
    have "c_do op s = wrapper_destroy a ?t"
      using p(5) cb by (simp add: CExpire wrapper_expire_def timeOutCallback_def touch_alive Let_def)
    moreover have "a \<in> alive ?t" "\<forall>b \<in> alive ?t. whole ?t b" "\<not> read_freed ?t" using t p(5,6) by auto
    ultimately show ?thesis using stop_alive [of a ?t] t p(7) cb CExpire by (auto simp: c_inv_def)
  qed
  then show "c_inv (c_do op s)" "deletions (c_do op s) = deletions s @ op_deletes op"
    "callbacks (c_do op s) = callbacks s @ op_calls op s"
    "alive (c_do op s) = (case op of CStart a cb d \<Rightarrow> insert a (alive s) | _ \<Rightarrow> alive s - set (op_deletes op))" by auto
qed

lemma c_inv_init: "c_inv no_timers"
  by (simp add: c_inv_def no_timers_def)

fun starts_of :: "addr \<Rightarrow> c_op list \<Rightarrow> nat" where
  "starts_of a [] = 0"
| "starts_of a (CStart b cb d # ops) = (if a = b then Suc (starts_of a ops) else starts_of a ops)"
| "starts_of a (_ # ops) = starts_of a ops"

lemma c_run_counts:
  "c_run ops s = Some t \<Longrightarrow> c_inv s \<Longrightarrow>
   c_inv t \<and> count_list (deletions t) a + (if a \<in> alive t then 1 else 0) =
     count_list (deletions s) a + (if a \<in> alive s then 1 else 0) + starts_of a ops"
proof (induction ops arbitrary: s)
  case (Cons op ops)
  then have al: "c_allowed op s" and r: "c_run ops (c_do op s) = Some t" by (auto split: if_splits)
  note d = c_do_inv [OF Cons.prems(2) al]
  have c: "count_list hs a = (if a \<in> set hs then 1 else 0)" if "distinct hs" for hs
    using that by (induction hs) auto
  have "running s = alive s" using Cons.prems(2) by (simp add: c_inv_def)
  then have "count_list (deletions (c_do op s)) a + (if a \<in> alive (c_do op s) then 1 else 0) + starts_of a ops =
      count_list (deletions s) a + (if a \<in> alive s then 1 else 0) + starts_of a (op # ops)"
    using d(2,4) al by (cases op) (auto simp: c)
  with Cons.IH [OF r d(1)] show ?case by simp
qed simp

text \<open>The C timers of clients that keep to their handles, stopping one at most once and not when its
  callback has begun: no memory of a deleted timer is read, also when addresses are given out again,
  every timer is deleted as often as it was started or still exists, and exactly the timers that
  exist are running.\<close>

theorem c_timers_deleted_once:
  assumes "c_run ops no_timers = Some s"
  shows "\<not> read_freed s \<and> running s = alive s \<and>
    count_list (deletions s) a + (if a \<in> alive s then 1 else 0) = starts_of a ops"
  using c_run_counts [OF assms c_inv_init, of a] by (simp add: c_inv_def no_timers_def)

lemma c_timers_deleted_once_witness:
  "\<exists>s. c_run [CStart 1 7 0, CStart 2 7 5, CExpire [2] 1, CStart 1 8 0, CStop 1] no_timers = Some s \<and>
    \<not> read_freed s \<and> count_list (deletions s) 1 + (if 1 \<in> alive s then 1 else 0) = 2"
proof -
  let ?ops = "[CStart 1 7 0, CStart 2 7 5, CExpire [2] 1, CStart 1 8 0, CStop 1]"
  have "c_run ?ops no_timers \<noteq> None" by code_simp
  then obtain s where s: "c_run ?ops no_timers = Some s" by blast
  with c_timers_deleted_once [OF s, of 1] show ?thesis by (auto simp: numeral_2_eq_2)
qed

section \<open>Clients that do not\<close>

text \<open>The header lets a client use its handle until the callback returns. Stopping it in the callback
  deletes the wrapper under \<open>timeOutCallback\<close>.\<close>

lemma stop_in_callback_reads_freed:
  "read_freed (c_do (CExpire [1] 1) (c_do (CStart 1 7 0) no_timers))"
  by code_simp

text \<open>A handle that is stopped after its timer ran out reads freed memory; if the memory was given to the
  next timer, that one is deleted, and its client is never called.\<close>

lemma late_stop_deletes_next_timer:
  "let s = c_do (CStop 1) (c_do (CStart 1 8 3) (c_do (CExpire [] 1) (c_do (CStart 1 7 0) no_timers)))
   in callbacks s = [(1, 7, 0)] \<and> deletions s = [1, 1] \<and> running s = {}"
  by code_simp

end
