(* ===== verification/SplitString.thy ===== *)
theory SplitString
  imports Prelude
begin

text \<open>
  \<open>loc_util_split_string\<close> of \<open>src/gps/utils/loc_misc_utils.cpp\<close>: a string is cut in place at its
  delimiters, and pointers to the pieces are stored.
\<close>

text \<open>The pointers are offsets into the buffer, which has the characters of the string and its NUL.\<close>

function split_loop :: "char \<Rightarrow> int \<Rightarrow> string \<Rightarrow> nat \<Rightarrow> nat \<Rightarrow> nat list \<Rightarrow> nat \<times> nat list \<times> string" where
  "split_loop delimiter max_num buf idx num ptrs =
     (if idx < length buf then
        let end_string = (buf ! idx = CHR 0x00)
        in if buf ! idx = delimiter \<or> end_string then
             let buf' = buf[idx := CHR 0x00]; num = num + 1
             in if idx + 1 < length buf \<and> int num < max_num then
                  (if end_string then (num, ptrs @ [idx + 1], buf')
                   else split_loop delimiter max_num buf' (idx + 1) num (ptrs @ [idx + 1]))
                else (num, ptrs, buf')
           else split_loop delimiter max_num buf (idx + 1) num ptrs
      else (num, ptrs, buf))"
  by pat_completeness auto
termination by (relation "measure (\<lambda>(d, m, buf, idx, num, ptrs). length buf - idx)") (auto simp: Let_def)

declare split_loop.simps [simp del]

text \<open>\<open>None\<close> for the string stands for NULL, \<open>has_ptrs\<close> tells whether the array of pointers is given.\<close>

definition loc_util_split_string ::
  "string option \<Rightarrow> bool \<Rightarrow> int \<Rightarrow> char \<Rightarrow> int \<times> nat list \<times> string" where
  "loc_util_split_string raw_string has_ptrs max_num_substrings delimiter =
     (case raw_string of
        None \<Rightarrow> (-1, [], [])
      | Some s \<Rightarrow>
          if \<not> has_ptrs then (-1, [], s @ [CHR 0x00])
          else (case split_loop delimiter max_num_substrings (s @ [CHR 0x00]) 0 0 [0] of
                  (num, ptrs, buf) \<Rightarrow> (int num, ptrs, buf)))"

section \<open>The pieces\<close>

fun pieces :: "char \<Rightarrow> string \<Rightarrow> string list" where
  "pieces d [] = [[]]"
| "pieces d (c # s) =
     (if c = d then [] # pieces d s else (case pieces d s of [] \<Rightarrow> [[c]] | p # ps \<Rightarrow> (c # p) # ps))"

lemma pieces_Cons: obtains p ps where "pieces d s = p # ps"
proof -
  have "pieces d s \<noteq> []" by (induction s) (auto split: list.splits)
  then show thesis using that by (cases "pieces d s") auto
qed

lemma pieces_append: "d \<notin> set w \<Longrightarrow> pieces d (w @ s) = (case pieces d s of p # ps \<Rightarrow> (w @ p) # ps)"
proof (induction w)
  case Nil
  obtain p ps where "pieces d s = p # ps" by (rule pieces_Cons)
  then show ?case by simp
next
  case (Cons c w)
  obtain p ps where "pieces d s = p # ps" by (rule pieces_Cons)
  with Cons show ?case by auto
qed

definition piece_at :: "string \<Rightarrow> nat \<Rightarrow> string" where
  "piece_at buf p = cstr (drop p buf)"

lemma piece_at_prefix:
  "CHR 0x00 \<notin> set w \<Longrightarrow> take (length pre + length w + 1) buf = pre @ w @ [CHR 0x00] \<Longrightarrow> piece_at buf (length pre) = w"
proof -
  assume w: "CHR 0x00 \<notin> set w" and t: "take (length pre + length w + 1) buf = pre @ w @ [CHR 0x00]"
  then have "buf = pre @ w @ CHR 0x00 # drop (length pre + length w + 1) buf"
    by (metis append_Cons append_Nil append_assoc append_take_drop_id)
  then have "drop (length pre) buf = w @ CHR 0x00 # drop (length pre + length w + 1) buf"
    by (metis append_eq_conv_conj)
  moreover have "takeWhile (\<lambda>c. c \<noteq> CHR 0x00) (w @ CHR 0x00 # r) = w" for r
    using w by (subst takeWhile_append2) auto
  ultimately show ?thesis unfolding piece_at_def cstr_def by metis
qed

lemma split_loop_pieces:
  assumes "CHR 0x00 \<notin> set (w @ rest)" "d \<noteq> CHR 0x00" "d \<notin> set w" "int num < m"
  shows "\<exists>new buf. split_loop d m (pre @ w @ rest @ [CHR 0x00]) (length pre + length w) num ptrs =
      (num + length new + 1, ptrs @ new, buf) \<and> take (length pre + length w) buf = pre @ w \<and>
    piece_at buf (length pre) # map (piece_at buf) new = take (nat m - num) (pieces d (w @ rest))"
  using assms
proof (induction rest arbitrary: pre w num ptrs)
  case Nil
  have "split_loop d m (pre @ w @ [CHR 0x00]) (length pre + length w) num ptrs = (num + 1, ptrs, pre @ w @ [CHR 0x00])"
    by (subst split_loop.simps) (simp add: nth_append list_update_append)
  moreover have "pieces d w = [w]" using pieces_append [of d w "[]"] Nil.prems(3) by simp
  moreover have "nat m - num = Suc (nat m - num - 1)" using Nil.prems(4) by linarith
  then have "take (nat m - num) [w] = [w]" by (metis take_Suc_Cons take_Nil)
  moreover have "piece_at (pre @ w @ [CHR 0x00]) (length pre) = w" using Nil.prems(1) by (intro piece_at_prefix) simp_all
  ultimately show ?case by simp
next
  case (Cons c rest)
  let ?idx = "length pre + length w" and ?b = "pre @ w @ CHR 0x00 # rest @ [CHR 0x00]"
  have at: "(pre @ w @ (c # rest) @ [CHR 0x00]) ! ?idx = c" by (simp add: nth_append)
  have c0: "c \<noteq> CHR 0x00" using Cons.prems(1) by auto
  have w0: "CHR 0x00 \<notin> set w" using Cons.prems(1) by simp
  obtain p ps where pp: "pieces d rest = p # ps" by (rule pieces_Cons)
  show ?case
  proof (cases "c = d")
    case False
    have "split_loop d m (pre @ w @ (c # rest) @ [CHR 0x00]) ?idx num ptrs =
        split_loop d m (pre @ (w @ [c]) @ rest @ [CHR 0x00]) (length pre + length (w @ [c])) num ptrs"
      using False c0 at by (subst split_loop.simps) simp
    moreover obtain new buf where n: "split_loop d m (pre @ (w @ [c]) @ rest @ [CHR 0x00]) (length pre + length (w @ [c])) num ptrs =
        (num + length new + 1, ptrs @ new, buf)" "take (length pre + length (w @ [c])) buf = pre @ (w @ [c])"
      "piece_at buf (length pre) # map (piece_at buf) new = take (nat m - num) (pieces d ((w @ [c]) @ rest))"
      using Cons.IH [of "w @ [c]" num pre ptrs] Cons.prems False by auto
    moreover have "take ?idx buf = pre @ w" using arg_cong [OF n(2), of "take ?idx"] by (simp add: min_def)
    ultimately show ?thesis by (intro exI [of _ new] exI [of _ buf]) simp
  next
    case True
    have up: "(pre @ w @ (c # rest) @ [CHR 0x00])[?idx := CHR 0x00] = ?b" by (simp add: list_update_append)
    have ps: "pieces d (w @ c # rest) = w # pieces d rest"
      using True Cons.prems(3) pp by (simp add: pieces_append)
    have suc: "nat m - num = Suc (nat m - (num + 1))" using Cons.prems(4) by linarith
    show ?thesis
    proof (cases "int (num + 1) < m")
      case False
      have "split_loop d m (pre @ w @ (c # rest) @ [CHR 0x00]) ?idx num ptrs = (num + 1, ptrs, ?b)"
        using True False c0 at up by (subst split_loop.simps) simp
      moreover have "nat m - (num + 1) = 0" using False by linarith
      moreover have "piece_at ?b (length pre) = w" using w0 by (intro piece_at_prefix) simp_all
      ultimately show ?thesis by (simp add: ps suc)
    next
      case True': True
      let ?pre = "pre @ w @ [CHR 0x00]"
      have "split_loop d m (pre @ w @ (c # rest) @ [CHR 0x00]) ?idx num ptrs =
          split_loop d m (?pre @ [] @ rest @ [CHR 0x00]) (length ?pre + length []) (num + 1) (ptrs @ [length ?pre])"
        using True True' c0 at up by (subst split_loop.simps) simp
      moreover obtain new buf where n: "split_loop d m (?pre @ [] @ rest @ [CHR 0x00]) (length ?pre + length []) (num + 1)
            (ptrs @ [length ?pre]) = (num + 1 + length new + 1, (ptrs @ [length ?pre]) @ new, buf)"
          "take (length ?pre + length []) buf = ?pre @ []"
          "piece_at buf (length ?pre) # map (piece_at buf) new = take (nat m - (num + 1)) (pieces d ([] @ rest))"
        using Cons.IH [of "[]" "num + 1" ?pre "ptrs @ [length ?pre]"] Cons.prems True' by auto
      moreover have "piece_at buf (length pre) = w" using n(2) w0 by (intro piece_at_prefix) simp_all
      moreover have "take ?idx buf = pre @ w" using arg_cong [OF n(2), of "take ?idx"] by (simp add: min_def)
      ultimately show ?thesis
        by (intro exI [of _ "length ?pre # new"] exI [of _ buf]) (simp add: ps suc)
    qed
  qed
qed

text \<open>Splitting gives the pieces between the delimiters, in order and empty ones included, up to the
  number that is asked for: the pointers lead to these strings, and their number is the result.\<close>

theorem split_string_pieces:
  assumes "CHR 0x00 \<notin> set s" "d \<noteq> CHR 0x00" "0 < m"
  shows "case loc_util_split_string (Some s) True m d of
    (num, ptrs, buf) \<Rightarrow> num = int (length ptrs) \<and> map (piece_at buf) ptrs = take (nat m) (pieces d s)"
proof -
  obtain new buf where n: "split_loop d m (s @ [CHR 0x00]) 0 0 [0] = (length new + 1, 0 # new, buf)"
    "piece_at buf 0 # map (piece_at buf) new = take (nat m) (pieces d s)"
    using split_loop_pieces [of "[]" s d 0 m "[]" "[0]"] assms by auto
  then show ?thesis by (simp add: loc_util_split_string_def)
qed

lemma split_string_pieces_witness:
  "case loc_util_split_string (Some ''a,,bc'') True 10 CHR '','' of
    (num, ptrs, buf) \<Rightarrow> num = int (length ptrs) \<and> map (piece_at buf) ptrs = [''a'', [], ''bc'']"
  using split_string_pieces [of "''a,,bc''" "CHR '',''" 10] by simp

text \<open>Asked for no pieces at all it stores one pointer and answers 1.\<close>

lemma split_none_gives_one: "loc_util_split_string (Some ''a'') True 0 CHR '','' = (1, [0], ''a'' @ [CHR 0x00])"
  by code_simp

end
