(* ===== verification/AgpsLife.thy ===== *)
theory AgpsLife
  imports Agps
begin

text \<open>
  The life of a machine of \<open>gps/loc_api/libloc_api_50001/loc_eng_agps.cpp\<close>: the constructor makes four
  state objects that point to each other, an event moves \<open>mStatePtr\<close> along these pointers, the
  destructor frees the states, the servicer, the list and its subscribers. Theory \<open>Agps\<close> has the
  state as a value; here it is shown to be the state object the pointer leads to.
\<close>

section \<open>The state objects\<close>

record state_obj =
  okind :: agps_state
  mReleasedState :: "addr option"
  mAcquiredState :: "addr option"
  mPendingState :: "addr option"
  mReleasingState :: "addr option"

datatype sm_part = StateObj addr | ServicerObj | SubscriberList | ApnBuffer

text \<open>The state objects of one machine, the pointer to the current one, and what was deleted in order.\<close>

record sm_heap =
  states :: "addr \<rightharpoonup> state_obj"
  mStatePtr :: addr
  sm_deleted :: "sm_part list"

definition get_ptr :: "agps_state \<Rightarrow> state_obj \<Rightarrow> addr option" where
  "get_ptr k ob = (case k of Released \<Rightarrow> mReleasedState ob | Acquired \<Rightarrow> mAcquiredState ob | Pending \<Rightarrow> mPendingState ob
     | Releasing \<Rightarrow> mReleasingState ob)"

definition set_ptr :: "agps_state \<Rightarrow> addr option \<Rightarrow> state_obj \<Rightarrow> state_obj" where
  "set_ptr k q ob = (case k of Released \<Rightarrow> ob\<lparr>mReleasedState := q\<rparr> | Acquired \<Rightarrow> ob\<lparr>mAcquiredState := q\<rparr>
     | Pending \<Rightarrow> ob\<lparr>mPendingState := q\<rparr> | Releasing \<Rightarrow> ob\<lparr>mReleasingState := q\<rparr>)"

text \<open>The constructors of the four classes set the pointer to themselves; \<open>a\<close> is what \<open>new\<close> returns.\<close>

definition new_state :: "agps_state \<Rightarrow> addr \<Rightarrow> sm_heap \<Rightarrow> sm_heap" where
  "new_state k a s = s\<lparr>states := (states s)(a \<mapsto> set_ptr k (Some a)
     \<lparr>okind = k, mReleasedState = None, mAcquiredState = None, mPendingState = None, mReleasingState = None\<rparr>)\<rparr>"

text \<open>Reading and writing a member behind a pointer; \<open>None\<close> for NULL and for what is no object.\<close>

definition field :: "addr option \<Rightarrow> agps_state \<Rightarrow> sm_heap \<Rightarrow> addr option option" where
  "field q k s = do { a \<leftarrow> q; ob \<leftarrow> states s a; Some (get_ptr k ob) }"

definition assign :: "addr option \<Rightarrow> agps_state \<Rightarrow> addr option \<Rightarrow> sm_heap \<Rightarrow> sm_heap option" where
  "assign q k v s = do { a \<leftarrow> q; ob \<leftarrow> states s a; Some (s\<lparr>states := (states s)(a \<mapsto> set_ptr k v ob)\<rparr>) }"

text \<open>The body of the constructor; the state objects are at \<open>r\<close>, \<open>p\<close>, \<open>a\<close> and \<open>g\<close>.\<close>

definition build_states :: "addr \<Rightarrow> addr \<Rightarrow> addr \<Rightarrow> addr \<Rightarrow> sm_heap option" where
  "build_states r p a g = do {
     let s = new_state Released r \<lparr>states = Map.empty, mStatePtr = r, sm_deleted = []\<rparr>;
     let cur = Some (mStatePtr s);
     s \<leftarrow> assign cur Pending (Some p) (new_state Pending p s);
     s \<leftarrow> assign cur Acquired (Some a) (new_state Acquired a s);
     s \<leftarrow> assign cur Releasing (Some g) (new_state Releasing g s);
     acq \<leftarrow> field cur Acquired s;
     pend \<leftarrow> field cur Pending s;
     rel \<leftarrow> field cur Releasing s;
     s \<leftarrow> assign acq Released cur s;
     s \<leftarrow> assign acq Pending pend s;
     s \<leftarrow> assign acq Releasing rel s;
     s \<leftarrow> assign pend Acquired acq s;
     s \<leftarrow> assign pend Released cur s;
     s \<leftarrow> assign pend Releasing rel s;
     s \<leftarrow> assign rel Released cur s;
     s \<leftarrow> assign rel Pending pend s;
     assign rel Acquired acq s }"

text \<open>\<open>mStatePtr = mStatePtr->onRsrcEvent(...)\<close>: the handler returns \<open>this\<close> or one of its members.\<close>

definition enter_state :: "agps_state \<Rightarrow> sm_heap \<Rightarrow> sm_heap option" where
  "enter_state k s = do {
     ob \<leftarrow> states s (mStatePtr s);
     if okind ob = k then Some s else do { q \<leftarrow> get_ptr k ob; Some (s\<lparr>mStatePtr := q\<rparr>) } }"

definition delete_state :: "addr option \<Rightarrow> sm_heap \<Rightarrow> sm_heap option" where
  "delete_state q s = (case q of None \<Rightarrow> Some s | Some a \<Rightarrow> do {
     ob \<leftarrow> states s a;
     Some (s\<lparr>states := (states s)(a := None), sm_deleted := sm_deleted s @ [StateObj a]\<rparr>) })"

text \<open>The destructor; \<open>linked_list_destroy\<close> flushes the list once more.\<close>

definition destroy_sm :: "agps_sm \<Rightarrow> sm_heap \<Rightarrow> (agps_sm \<times> sm_heap) option" where
  "destroy_sm m s = do {
     let m = dropAllSubscribers m;
     acquiredState \<leftarrow> field (Some (mStatePtr s)) Acquired s;
     releasedState \<leftarrow> field (Some (mStatePtr s)) Released s;
     pendindState \<leftarrow> field (Some (mStatePtr s)) Pending s;
     releasingState \<leftarrow> field (Some (mStatePtr s)) Releasing s;
     s \<leftarrow> delete_state acquiredState s;
     s \<leftarrow> delete_state releasedState s;
     s \<leftarrow> delete_state pendindState s;
     s \<leftarrow> delete_state releasingState s;
     let m = dropAllSubscribers m;
     Some (m\<lparr>mAPN := None\<rparr>, s\<lparr>sm_deleted := sm_deleted s @ [ServicerObj, SubscriberList] @
       (if mAPN m \<noteq> None then [ApnBuffer] else [])\<rparr>) }"

section \<open>A machine in use\<close>

datatype sm_op = OpSubscribe agps_env subscriber | OpUnsubscribe agps_env subscriber
  | OpEvent agps_env AgpsRsrcStatus | OpAPN "string option" nat | OpBearer AGpsBearerType
  | OpRetry agps_env | OpRestart

fun sm_do :: "sm_op \<Rightarrow> agps_sm \<Rightarrow> agps_sm" where
  "sm_do (OpSubscribe env s) m = subscribeRsrc env s m"
| "sm_do (OpUnsubscribe env s) m = snd (unsubscribeRsrc env s m)"
| "sm_do (OpEvent env ev) m = onRsrcEvent env ev m"
| "sm_do (OpAPN apn len) m = setAPN apn len m"
| "sm_do (OpBearer b) m = setBearer b m"
| "sm_do (OpRetry env) m = retryCallback env m"
| "sm_do OpRestart m = dropAllSubscribers m"

text \<open>The machine with its state objects. A restart of the modem drops the subscribers.\<close>

fun sm_life :: "sm_op list \<Rightarrow> agps_sm \<Rightarrow> sm_heap \<Rightarrow> (agps_sm \<times> sm_heap) option" where
  "sm_life [] m s = Some (m, s)"
| "sm_life (op # ops) m s = do { s \<leftarrow> enter_state (mState (sm_do op m)) s; sm_life ops (sm_do op m) s }"

section \<open>The pointers\<close>

definition state_at :: "addr \<Rightarrow> addr \<Rightarrow> addr \<Rightarrow> addr \<Rightarrow> agps_state \<Rightarrow> addr" where
  "state_at r p a g k = (case k of Released \<Rightarrow> r | Pending \<Rightarrow> p | Acquired \<Rightarrow> a | Releasing \<Rightarrow> g)"

definition whole_state :: "(agps_state \<Rightarrow> addr) \<Rightarrow> agps_state \<Rightarrow> state_obj" where
  "whole_state at k = \<lparr>okind = k, mReleasedState = Some (at Released), mAcquiredState = Some (at Acquired),
     mPendingState = Some (at Pending), mReleasingState = Some (at Releasing)\<rparr>"

text \<open>All four objects are there with all their pointers, and the machine is in the state \<open>k\<close>.\<close>

definition wired :: "(agps_state \<Rightarrow> addr) \<Rightarrow> agps_state \<Rightarrow> sm_heap \<Rightarrow> bool" where
  "wired at k s \<longleftrightarrow> inj at \<and> (\<forall>j. states s (at j) = Some (whole_state at j)) \<and> mStatePtr s = at k \<and> sm_deleted s = []"

lemma get_ptr_whole [simp]: "get_ptr k (whole_state at j) = Some (at k)"
  by (cases k) (simp_all add: get_ptr_def whole_state_def)

lemma okind_whole [simp]: "okind (whole_state at j) = j"
  by (simp add: whole_state_def)

lemma inj_state_at: "distinct [r, p, a, g] \<Longrightarrow> inj (state_at r p a g)"
  by (auto simp: inj_def state_at_def split: agps_state.splits)

lemmas build_simps = build_states_def new_state_def assign_def field_def get_ptr_def set_ptr_def Let_def

lemma build_states_wired:
  assumes "distinct [r, p, a, g]"
  obtains s where "build_states r p a g = Some s" "wired (state_at r p a g) Released s"
proof -
  have ne: "r \<noteq> p" "r \<noteq> a" "r \<noteq> g" "p \<noteq> a" "p \<noteq> g" "a \<noteq> g" using assms by auto
  note ne' = ne ne [symmetric]
  obtain s where s: "build_states r p a g = Some s" using ne' by (auto simp: build_simps)
  then have "states s (state_at r p a g k) = Some (whole_state (state_at r p a g) k)" for k
    using ne' by (cases k) (auto simp: build_simps state_at_def whole_state_def)
  moreover have "mStatePtr s = r" "sm_deleted s = []" using s ne' by (auto simp: build_simps)
  ultimately show thesis using that s inj_state_at [OF assms] by (simp add: wired_def state_at_def)
qed

lemma enter_wired: "wired at k s \<Longrightarrow> \<exists>t. enter_state j s = Some t \<and> wired at j t"
  by (auto simp: enter_state_def wired_def)

lemma sm_life_wired: "wired at (mState m) s \<Longrightarrow> \<exists>m' s'. sm_life ops m s = Some (m', s') \<and> wired at (mState m') s' \<and> m' = fold sm_do ops m"
proof (induction ops arbitrary: m s)
  case (Cons op ops)
  obtain t where "enter_state (mState (sm_do op m)) s = Some t" "wired at (mState (sm_do op m)) t"
    using enter_wired [OF Cons.prems] by blast
  with Cons.IH show ?case by simp
qed simp

section \<open>The subscriber objects\<close>

text \<open>Every copy of a subscriber that was ever made is in the list or was freed, once.\<close>

definition all_kept :: "agps_sm \<Rightarrow> bool" where
  "all_kept m \<longleftrightarrow> mset (mSubscribers m @ freed m) = mset_set {0..<next_obj m}"

lemma kept_shape: "same_shape m m' \<Longrightarrow> all_kept m' = all_kept m"
  by (simp add: same_shape_def all_kept_def)

lemma kept_notify [simp]: "all_kept (notifySubscribers env n m) = all_kept m"
proof -
  obtain gone where "freed (notifySubscribers env n m) = freed m @ gone"
    "mset (mSubscribers m) = mset gone + mset (mSubscribers (notifySubscribers env n m))"
    "next_obj (notifySubscribers env n m) = next_obj m"
    using only_deletes_notify [of m env n] by (auto simp: only_deletes_def same_shape_def)
  then show ?thesis by (simp add: all_kept_def ac_simps)
qed

lemma kept_simps [simp]:
  "all_kept (snd (sendRsrcRequest env st m)) = all_kept m" "all_kept (snd (notifyRsrcStatus env n s m)) = all_kept m"
  "all_kept (act x m) = all_kept m" "all_kept (informStatus ev i m) = all_kept m"
  "all_kept (m\<lparr>mState := k\<rparr>) = all_kept m" "all_kept (m\<lparr>mem := f\<rparr>) = all_kept m"
  by (rule kept_shape [OF shape_send], rule kept_shape [OF shape_notify], rule kept_shape [OF shape_act],
    rule kept_shape [OF shape_informStatus]) (simp_all add: all_kept_def)

lemma kept_leave [simp]: "all_kept (leave env r m) = all_kept m"
  by (simp add: leave_def ref_setInactive_def setInactive_def Let_def split: rcver_ref.splits sub_class.splits)

lemma kept_add: "all_kept m \<Longrightarrow> all_kept (addSubscriber env r m)"
proof -
  assume k: "all_kept m"
  obtain x m1 where s: "sub_search (hasSubscriber env (notify_to r RSRC_STATUS_MAX False)) False m = (x, m1)" by force
  then have "all_kept m1" using k kept_shape sub_search_shape(2) [OF shape_callbacks(2) s] by blast
  then show ?thesis using s by (auto simp: addSubscriber_def all_kept_def atLeast0_lessThan_Suc split: option.splits)
qed

lemma kept_event: "all_kept m \<Longrightarrow> all_kept (state_onRsrcEvent env ev data m)"
  by (cases "mState m")
    (auto simp: state_onRsrcEvent_def released_onRsrcEvent_def pending_onRsrcEvent_def acquired_onRsrcEvent_def
      releasing_onRsrcEvent_def Let_def case_prod_beta kept_add split: AgpsRsrcStatus.splits option.splits)

lemma kept_do: "all_kept m \<Longrightarrow> all_kept (sm_do op m)"
proof (cases op)
  case (OpUnsubscribe env s)
  assume k: "all_kept m"
  obtain x m1 where r: "sub_search (hasSubscriber env (notify_to (Stack s) RSRC_STATUS_MAX False)) False m = (x, m1)" by force
  then have "all_kept m1" using k kept_shape sub_search_shape(2) [OF shape_callbacks(2) r] by blast
  then show ?thesis using OpUnsubscribe r by (simp add: unsubscribeRsrc_def kept_event split: option.splits)
qed (auto simp: subscribeRsrc_def kept_event onRsrcEvent_def sm_onRsrcEvent_def ds_onRsrcEvent_def Let_def setAPN_def setBearer_def
    retryCallback_def dropAllSubscribers_def split: AgpsRsrcStatus.splits option.splits, (simp_all add: all_kept_def add.commute)?)

lemma kept_fold: "all_kept m \<Longrightarrow> all_kept (fold sm_do ops m)"
  by (induction ops arbitrary: m) (simp_all add: kept_do)

section \<open>Properties\<close>

definition fresh_sm :: "agps_sm \<Rightarrow> bool" where
  "fresh_sm m \<longleftrightarrow> (\<exists>servType type single. m = new_sm servType type single) \<or> (\<exists>servType. m = new_ds_sm servType)"

lemma fresh_facts: "fresh_sm m \<Longrightarrow> mState m = Released \<and> all_kept m"
  by (auto simp: fresh_sm_def new_ds_sm_def new_sm_def all_kept_def)

lemma machine_life:
  assumes "distinct [r, p, a, g]" "fresh_sm m"
  obtains s m' s' where "build_states r p a g = Some s" "sm_life ops m s = Some (m', s')"
    "wired (state_at r p a g) (mState m') s'" "m' = fold sm_do ops m" "all_kept m'"
proof -
  obtain s where s: "build_states r p a g = Some s" "wired (state_at r p a g) Released s"
    using build_states_wired [OF assms(1)] by blast
  with sm_life_wired [of _ m s ops] fresh_facts [OF assms(2)] kept_fold that show thesis by metis
qed

text \<open>The pointers between the four state objects of a machine, of either class, are set so that
  following them is changing the state: whatever happens to a new machine, no NULL pointer is
  followed, and the object \<open>mStatePtr\<close> leads to is the one of the state the machine is in.\<close>

theorem state_pointers_follow:
  assumes "distinct [r, p, a, g]" "fresh_sm m"
  shows "\<exists>s s' ob. build_states r p a g = Some s \<and> sm_life ops m s = Some (fold sm_do ops m, s') \<and>
    states s' (mStatePtr s') = Some ob \<and> okind ob = mState (fold sm_do ops m)"
proof -
  obtain s m' s' where "build_states r p a g = Some s" "sm_life ops m s = Some (m', s')"
    "wired (state_at r p a g) (mState m') s'" "m' = fold sm_do ops m"
    using machine_life [OF assms] by blast
  then show ?thesis by (auto simp: wired_def)
qed

lemma state_pointers_follow_witness:
  "\<exists>s s' ob. build_states 4 3 2 1 = Some s \<and>
    sm_life [OpSubscribe plain_env (atl 7), OpEvent plain_env RSRC_GRANTED] (new_sm servicerTypeAgps AGPS_TYPE_SUPL False) s =
      Some (fold sm_do [OpSubscribe plain_env (atl 7), OpEvent plain_env RSRC_GRANTED]
        (new_sm servicerTypeAgps AGPS_TYPE_SUPL False), s') \<and>
    states s' (mStatePtr s') = Some ob \<and>
    okind ob = mState (fold sm_do [OpSubscribe plain_env (atl 7), OpEvent plain_env RSRC_GRANTED]
        (new_sm servicerTypeAgps AGPS_TYPE_SUPL False))"
proof (rule state_pointers_follow)
  show "distinct [4::addr, 3, 2, 1]" by simp
  show "fresh_sm (new_sm servicerTypeAgps AGPS_TYPE_SUPL False)" by (auto simp: fresh_sm_def)
qed

text \<open>C36: The destructor, in whatever state the machine is: it reads no member of a freed object, frees
  the four states once each, the servicer, the list, and the APN exactly when there is one; then
  every copy of a subscriber that the machine ever made was freed once.\<close>

theorem machine_torn_down:
  assumes "distinct [r, p, a, g]" "fresh_sm m"
  shows "\<exists>s t s' t' k. build_states r p a g = Some s \<and> sm_life ops m s = Some (t, s') \<and> destroy_sm t s' = Some (t', k) \<and>
    mset (sm_deleted k) = mset ([StateObj r, StateObj p, StateObj a, StateObj g, ServicerObj, SubscriberList] @
      (if mAPN t \<noteq> None then [ApnBuffer] else [])) \<and>
    mset (freed t') = mset [0..<next_obj t] \<and> mSubscribers t' = []"
proof -
  obtain s t s' where l: "build_states r p a g = Some s" "sm_life ops m s = Some (t, s')"
    "wired (state_at r p a g) (mState t) s'" "all_kept t"
    using machine_life [OF assms] by blast
  let ?at = "state_at r p a g"
  have o: "?at Released = r" "?at Pending = p" "?at Acquired = a" "?at Releasing = g" by (simp_all add: state_at_def)
  have at: "states s' r = Some (whole_state ?at Released)" "states s' p = Some (whole_state ?at Pending)"
    "states s' a = Some (whole_state ?at Acquired)" "states s' g = Some (whole_state ?at Releasing)"
    "states s' (mStatePtr s') = Some (whole_state ?at (mState t))" "sm_deleted s' = []"
    using l(3) o unfolding wired_def by metis+
  obtain t' k where d: "destroy_sm t s' = Some (t', k)"
    "sm_deleted k = [StateObj a, StateObj r, StateObj p, StateObj g, ServicerObj, SubscriberList] @
       (if mAPN t \<noteq> None then [ApnBuffer] else [])"
    "freed t' = freed t @ mSubscribers t" "mSubscribers t' = []"
    using at assms(1) o by (simp add: destroy_sm_def field_def delete_state_def dropAllSubscribers_def Let_def)
  have "mset (freed t') = mset [0..<next_obj t]" using l(4) d(3) by (simp add: all_kept_def ac_simps)
  with l d show ?thesis by (simp add: add_mset_commute)
qed

lemma machine_torn_down_witness:
  "\<exists>s t s' t' k. build_states 4 3 2 1 = Some s \<and>
    sm_life [OpSubscribe plain_env (atl 7), OpSubscribe plain_env (atl 8), OpAPN (Some ''net'') 3]
      (new_sm servicerTypeAgps AGPS_TYPE_SUPL False) s = Some (t, s') \<and>
    destroy_sm t s' = Some (t', k) \<and>
    mset (sm_deleted k) = mset ([StateObj 4, StateObj 3, StateObj 2, StateObj 1, ServicerObj, SubscriberList] @
      (if mAPN t \<noteq> None then [ApnBuffer] else [])) \<and>
    mset (freed t') = mset [0..<next_obj t] \<and> mSubscribers t' = []"
proof (rule machine_torn_down)
  show "distinct [4::addr, 3, 2, 1]" by simp
  show "fresh_sm (new_sm servicerTypeAgps AGPS_TYPE_SUPL False)" by (auto simp: fresh_sm_def)
qed

end
