(* ===== verification/Spec2Isabelle.thy ===== *)
theory Spec2Isabelle
  imports LocTimer MsgQ NmeaFacts LocFacts LocThread DmnThread Recovery Lights DeviceInit WlanAddr CameraParams2 CameraWrapper Dispatch LocTimerC SplitString AgpsLife
begin

text \<open>
  The native code of the device tree for the msm8916 phones of Asus. Its largest part is the
  user-space part of a positioning service, \<open>src/gps\<close>; beside it stand the camera wrapper with
  the camera parameters, the lights, the address of the WLAN device, a command of the recovery
  updater and the properties set at boot, each a component of its own.
  In the positioning service the HAL interface of Android calls the location engine,
  which exchanges messages with the modem through an API module that is not part of the
  repository; the engine keeps the fix session, the assisted-GPS connections, the requests
  initiated by the network and the configuration. Below it are utilities: a timer service on
  a ranked heap, a linked list, a message queue, the reader of the configuration files.

  The theories, in the order they build on each other:

  \<^item> \<open>Prelude\<close>: machine types, C strings, collections of facts.
  \<^item> \<open>LocHeap\<close> (\<open>gps/utils/LocHeap.cpp\<close>): the leftist heap of ranked objects; push, pop,
    remove, the self check.
  \<^item> \<open>LocTimer\<close> (\<open>gps/utils/LocTimer.cpp\<close>): clients, delegates, the two containers, their
    messages and the poll task as a step relation \<open>timer_step\<close>; \<open>timer_reachable\<close> states keep no
    dangling timer, an armed container is armed for its soonest timer.
  \<^item> \<open>LocTimerC\<close> (the same file): the timers of the C functions, with the memory of the deleted
    ones: what clients may do with a handle, and what happens when they do more.
  \<^item> \<open>LinkedList\<close> (\<open>linked_list.c\<close>): the doubly linked list on a heap of cells that can be
    freed; every function is shown to work on the abstract list, \<open>search_list\<close> is the search.
  \<^item> \<open>MsgQ\<close> (\<open>msg_q.c\<close>): the blocking queue; threads that wait and that were woken are part of
    the state, its list is the one of \<open>LinkedList\<close>.
  \<^item> \<open>Agps\<close> (\<open>loc_eng_agps.cpp\<close>): subscribers and the four-state machines, on the abstract list,
    with the addresses of subscriber objects so that a use after a free can be seen.
  \<^item> \<open>AgpsLife\<close> (the same file): the four state objects of a machine and the pointers between
    them, which are shown to lead to the state \<open>Agps\<close> keeps; construction and destruction.
  \<^item> \<open>NiSession\<close> (\<open>loc_eng_ni.cpp\<close>): requests initiated by the network, the thread that waits
    for the answer in two steps (with and without the lock), the reset.
  \<^item> \<open>LocApiBase\<close> (\<open>gps/core/LocApiBase.cpp\<close>): the registry of adapters, dispatch to all or to
    the first that handles a call, event masks, the text codes for binary data.
  \<^item> \<open>LocCfg\<close> (\<open>loc_cfg.cpp\<close>, \<open>loc_misc_utils.cpp\<close>): tokens, trimming, the parameter table, the
    loops over a file and over a buffer.
  \<^item> \<open>SplitString\<close> (\<open>loc_misc_utils.cpp\<close>): the splitting of a string in place.
  \<^item> \<open>EngConf\<close> (\<open>loc_eng.cpp\<close>): the two structures of the configuration as addresses of a typed
    store, their tables and defaults.
  \<^item> \<open>EngData\<close> (\<open>loc_eng.h\<close>, \<open>loc_eng_msg.h\<close>, \<open>LocEngAdapter.cpp\<close>): the state of the engine
    and its adapter in one record, the messages, what is called outside; the operations of the
    adapter.
  \<^item> \<open>LocEng\<close>, \<open>EngProc\<close> (\<open>loc_eng.cpp\<close>, \<open>loc_eng_xtra.cpp\<close>): the functions behind the HAL
    interface and the handlers; \<open>eng_proc\<close> is the virtual function \<open>proc\<close> of the messages.
  \<^item> \<open>EngFacts\<close>, \<open>EngLife\<close>: what holds of the engine. The locales \<open>eng_post_view\<close> and
    \<open>eng_view\<close> say once which messages cannot be seen by a function of the state; they are
    interpreted for what the framework sees, for deletions, for the session and for the
    criteria of the fix.

  \<^item> \<open>Nmea\<close>, \<open>NmeaFacts\<close> (\<open>loc_eng_nmea.cpp\<close>): the sentences generated for positions and
    satellites, piece by piece in their buffer; checksums, bounds, the satellites reported.
  \<^item> \<open>UserAgent\<close> (\<open>LocEngAdapter.cpp\<close>): the line that identifies the phone to the XTRA
    servers: encoding, serial number, file.
  \<^item> \<open>Target\<close> (\<open>loc_target.cpp\<close>, \<open>loc_log.cpp\<close>): the detection of the target and the tables
    of names.
  \<^item> \<open>DualContext\<close> (\<open>gps/core/LocDualContext.cpp\<close>, \<open>ContextBase.cpp\<close>): the foreground and the
    background context, their message task and the choice of the API module.
  \<^item> \<open>Loc\<close>, \<open>LocFacts\<close> (\<open>loc.cpp\<close>): the functions of the HAL over the engine; \<open>hal_run\<close> is
    any sequence of calls of the framework, upward calls of the API module and turns of the task,
    over which the invariants of the whole are proved.

  \<^item> \<open>Dispatch\<close> (\<open>LocApiBase.cpp\<close>, \<open>LocAdapterBase.cpp\<close>): the reports and requests of the modem on
    their way over the registered adapters to the engine; runs of the whole refine \<open>hal_run\<close>.
  \<^item> \<open>LocThread\<close> (\<open>LocThread.cpp\<close>, \<open>MsgTask.cpp\<close>, \<open>LocSharedLock.h\<close>): the thread object with its
    two owners, the end of a message task, and locks that are shared by counting; steps of the
    thread and of the client in any order.
  \<^item> \<open>DmnMsg\<close>, \<open>DmnConn\<close>, \<open>DmnThread\<close> (\<open>loc_eng_dmn_conn*.c\<close>, \<open>.cpp\<close>): the connection to the daemons:
    framed messages in pipes, as bytes in the layout of both ABIs; the server with its handlers
    and answers; the thread that runs it, its start and its end.

  The components outside the positioning service:

  \<^item> \<open>CameraParams\<close>, \<open>CameraParams2\<close> (\<open>libshims/camera/CameraParameters.cpp\<close>, \<open>CameraParameters2.cpp\<close>):
    the two classes of camera parameters, their flat form, sizes and rates. The locale
    \<open>text_store\<close> says what both promise of a value that was set; it is interpreted for both.
  \<^item> \<open>CameraWrapper\<close> (\<open>camera/CameraWrapper.cpp\<close>): the module that opens the vendor's camera and
    corrects the parameters, with the memory it allocates and frees.
  \<^item> \<open>Lights\<close> (\<open>liblight/lights.c\<close>): the values written for the four lights, and which of them
    the LEDs show.
  \<^item> \<open>WlanAddr\<close> (\<open>wcnss_asus/wcnss_asus_client.c\<close>): the address of the factory, the stored one, or
    one made up.
  \<^item> \<open>Recovery\<close> (\<open>recovery/recovery_updater.cpp\<close>): the Boyer-Moore search with its two tables, shown
    equivalent to the simple search for patterns without a border, and the command that compares
    the version found with it.
  \<^item> \<open>DeviceInit\<close> (\<open>init/init_msm8916.cpp\<close>): the table of boards and the properties set for them.

  How the model stands to the code. An object with identity is an address in a store held by
  the state; a method is a function of the state; a call that leaves the repository is
  recorded in order (\<open>actions\<close>, \<open>api_calls\<close>, \<open>cbs\<close>), and what it returns is a field of an
  environment record (\<open>agps_env\<close>, \<open>eng_env\<close>). Integers keep their width, apart
  from the index of the string search in \<open>Recovery\<close>, whose text has half a megabyte. A failing call is a
  value of a sum, an option or the code's own error type. The constants of the framework's
  public header \<open>gps.h\<close> (capabilities) have the values \<open>gps.conf\<close> documents.

  Bounds and fuel. No function of the model needs fuel: loops over strings and lists recurse
  on what is left, the counting loop of the certificates on the value of the mask, the
  deletion of subscribers on the length of the list; the outer loop of the string search, whose
  progress depends on its tables, is a partial function, and the theorem about it says that it
  returns. \<open>eng_drain\<close> bounds the turns of the task by a number, which the theorem about the
  initialisation shows to be enough.

  Not modelled: logging (\<open>loc_log.cpp\<close> apart from its tables, \<open>loc_eng_log.cpp\<close>), sockets and device
  files, the rounding of floating-point arithmetic, the position fusion proxy (the repository's own
  handles nothing), the vendor's API module and geofencing; the proxies and stubs of the camera's
  binder interfaces with the metadata and tag descriptors, which are copies of the platform's that
  only marshal calls through a library outside the repository; the Java applications, the
  policies, the scripts and the device configuration.
\<close>

end
